(* ===== verification/Venom_Prelude.thy ===== *)
theory Venom_Prelude
  imports Main "HOL-Library.Word"
begin

text \<open>
  Shared vocabulary of the development: bytes and their little-endian encodings, the
  subrange and in-place copy operations of Rust buffers, a result type in which a panic is
  a value of its own, and the sequencing of fallible operations over a state. The
  lemmas on \<open>subrange\<close> and \<open>blit\<close> carry every layout proof of the components; the
  collection \<open>lens\<close> gathers the length equations.
\<close>

named_theorems lens "lengths of encoders and buffers"

type_synonym byte = "8 word"
type_synonym bytes = "byte list"

section \<open>Results\<close>

text \<open>
  A Rust \<open>Result\<close> is \<open>Ok\<close> or \<open>Err\<close>; an aborted computation (subrange out of range,
  \<open>unwrap\<close> of \<open>None\<close>, \<open>unreachable!\<close>) is \<open>Panic\<close>.
\<close>

datatype ('e, 'a) outcome = Ok 'a | Err 'e | Panic string

primrec and_then :: "('e, 'a) outcome \<Rightarrow> ('a \<Rightarrow> ('e, 'b) outcome) \<Rightarrow> ('e, 'b) outcome" where
  "and_then (Ok a) f = f a"
| "and_then (Err e) f = Err e"
| "and_then (Panic p) f = Panic p"

primrec map_err :: "('e \<Rightarrow> 'f) \<Rightarrow> ('e, 'a) outcome \<Rightarrow> ('f, 'a) outcome" where
  "map_err g (Ok a) = Ok a"
| "map_err g (Err e) = Err (g e)"
| "map_err g (Panic p) = Panic p"

definition ok_or :: "'e \<Rightarrow> 'a option \<Rightarrow> ('e, 'a) outcome" where
  "ok_or e x = (case x of None \<Rightarrow> Err e | Some a \<Rightarrow> Ok a)"

lemma ok_or_simps [simp]: "ok_or e None = Err e" "ok_or e (Some a) = Ok a"
  by (simp_all add: ok_or_def)

lemma ok_or_eq_Ok [simp]: "ok_or e x = Ok a \<longleftrightarrow> x = Some a"
  by (cases x) auto

lemma and_then_eq_Ok: "and_then m f = Ok b \<longleftrightarrow> (\<exists>a. m = Ok a \<and> f a = Ok b)"
  by (cases m) auto

lemma map_err_eq_Ok [simp]: "map_err g m = Ok a \<longleftrightarrow> m = Ok a"
  by (cases m) auto

lemma map_err_no_panic [simp]: "map_err g m = Panic x \<longleftrightarrow> m = Panic x"
  by (cases m) auto

lemma and_then_no_panic:
  "m \<noteq> Panic x \<Longrightarrow> (\<And>a. m = Ok a \<Longrightarrow> f a \<noteq> Panic x) \<Longrightarrow> and_then m f \<noteq> Panic x"
  by (cases m) auto

text \<open>\<open>Result::ok\<close>, and \<open>?\<close> on an option: a panic stays a panic.\<close>

primrec ok_opt :: "('e, 'a) outcome \<Rightarrow> ('e, 'a option) outcome" where
  "ok_opt (Ok a) = Ok (Some a)"
| "ok_opt (Err e) = Ok None"
| "ok_opt (Panic p) = Panic p"

definition and_then_some ::
    "('e, 'a option) outcome \<Rightarrow> ('a \<Rightarrow> ('e, 'b option) outcome) \<Rightarrow> ('e, 'b option) outcome" where
  "and_then_some m f = and_then m (\<lambda>x. case x of None \<Rightarrow> Ok None | Some a \<Rightarrow> f a)"

lemma and_then_some_simps [simp]:
  "and_then_some (Ok (Some a)) f = f a" "and_then_some (Ok None) f = Ok None"
  "and_then_some (Panic p) f = Panic p" "and_then_some (Err e) f = Err e"
  by (simp_all add: and_then_some_def)

lemma ok_opt_no_panic [simp]: "ok_opt m = Panic x \<longleftrightarrow> m = Panic x"
  by (cases m) auto

lemma ok_opt_Ok [simp]: "ok_opt m = Ok (Some a) \<longleftrightarrow> m = Ok a"
  by (cases m) auto

lemma ok_opt_not_Err [simp]: "ok_opt m \<noteq> Err e"
  by (cases m) auto

lemma and_then_some_no_panic:
  "m \<noteq> Panic x \<Longrightarrow> (\<And>a. m = Ok (Some a) \<Longrightarrow> f a \<noteq> Panic x) \<Longrightarrow> and_then_some m f \<noteq> Panic x"
  unfolding and_then_some_def by (rule and_then_no_panic) (auto split: option.splits)

lemma option_no_panic:
  "n \<noteq> Panic x \<Longrightarrow> (\<And>a. y = Some a \<Longrightarrow> f a \<noteq> Panic x) \<Longrightarrow>
     (case y of None \<Rightarrow> n | Some a \<Rightarrow> f a) \<noteq> Panic x"
  by (cases y) auto

lemma and_then_some_not_Err:
  "m \<noteq> Err x \<Longrightarrow> (\<And>a. m = Ok (Some a) \<Longrightarrow> f a \<noteq> Err x) \<Longrightarrow> and_then_some m f \<noteq> Err x"
  by (cases m) (auto simp: and_then_some_def split: option.splits)

text \<open>Operations over a state: the state reached is kept also when the operation fails.\<close>

type_synonym ('s, 'e, 'a) op = "'s \<Rightarrow> ('e, 'a) outcome \<times> 's"

definition then_op :: "('s, 'e, 'a) op \<Rightarrow> ('a \<Rightarrow> ('s, 'e, 'b) op) \<Rightarrow> ('s, 'e, 'b) op" where
  "then_op m f s = (case m s of
      (Ok a, s') \<Rightarrow> f a s'
    | (Err e, s') \<Rightarrow> (Err e, s')
    | (Panic p, s') \<Rightarrow> (Panic p, s'))"

definition return_op :: "('e, 'a) outcome \<Rightarrow> ('s, 'e, 'a) op" where
  "return_op r s = (r, s)"

lemma then_op_eq_Ok:
  "then_op m f s = (Ok b, s'') \<longleftrightarrow> (\<exists>a s'. m s = (Ok a, s') \<and> f a s' = (Ok b, s''))"
  by (auto simp: then_op_def split: prod.splits outcome.splits)

lemma then_op_simps [simp]:
  "m s = (Ok a, s') \<Longrightarrow> then_op m f s = f a s'"
  "m s = (Err e, s') \<Longrightarrow> then_op m f s = (Err e, s')"
  "m s = (Panic p, s') \<Longrightarrow> then_op m f s = (Panic p, s')"
  by (simp_all add: then_op_def)

lemma then_op_no_panic:
  "fst (m s) \<noteq> Panic p \<Longrightarrow> (\<And>a s'. m s = (Ok a, s') \<Longrightarrow> fst (f a s') \<noteq> Panic p) \<Longrightarrow>
     fst (then_op m f s) \<noteq> Panic p"
  by (auto simp: then_op_def split: prod.splits outcome.splits)

text \<open>An operation that leaves the state alone is its result.\<close>

lemma then_op_readonly:
  "snd (m s) = s \<Longrightarrow> then_op m f s = (case fst (m s) of
     Ok a \<Rightarrow> f a s | Err e \<Rightarrow> (Err e, s) | Panic p \<Rightarrow> (Panic p, s))"
  by (cases "m s") (auto simp: then_op_def split: outcome.splits)

lemma return_op_simps [simp]: "return_op r s = (r, s)"
  by (simp add: return_op_def)

section \<open>Little-endian integers\<close>

text \<open>\<open>to_le_bytes\<close> of an \<open>n\<close>-byte unsigned integer, and \<open>from_le_bytes\<close>.\<close>

primrec to_le :: "nat \<Rightarrow> nat \<Rightarrow> bytes" where
  "to_le 0 x = []"
| "to_le (Suc n) x = of_nat (x mod 256) # to_le n (x div 256)"

primrec from_le :: "bytes \<Rightarrow> nat" where
  "from_le [] = 0"
| "from_le (b # bs) = unat b + 256 * from_le bs"

lemma length_to_le [simp, lens]: "length (to_le n x) = n"
  by (induction n arbitrary: x) auto

lemma to_le_Nil [simp]: "to_le n x = [] \<longleftrightarrow> n = 0"
  by (metis length_0_conv length_to_le)

lemma unat_byte_of_mod: "unat (of_nat (x mod 256) :: byte) = x mod 256"
  by (simp add: unat_of_nat)

lemma from_le_to_le: "from_le (to_le n x) = x mod 256 ^ n"
proof (induction n arbitrary: x)
  case 0
  then show ?case by simp
next
  case (Suc n)
  have "x mod 256 ^ Suc n = x mod 256 + 256 * (x div 256 mod 256 ^ n)"
    by (simp add: mod_mult2_eq)
  with Suc show ?case by (simp add: unat_byte_of_mod)
qed

lemma unat_lt_256: "unat (b :: byte) < 256"
  using unsigned_less [of b] by simp

lemma from_le_bound: "from_le bs < 256 ^ length bs"
proof (induction bs)
  case Nil
  then show ?case by simp
next
  case (Cons b bs)
  have "unat b < 256" using unat_lt_256 [of b] by simp
  with Cons show ?case by simp
qed

lemma to_le_from_le: "to_le (length bs) (from_le bs) = bs"
proof (induction bs)
  case Nil
  then show ?case by simp
next
  case (Cons b bs)
  have "unat b < 256" using unat_lt_256 [of b] by simp
  with Cons show ?case by simp
qed

lemma from_le_u64 [simp]: "x < 2 ^ 64 \<Longrightarrow> from_le (to_le 8 x) = x"
  by (simp add: from_le_to_le del: to_le.simps)

lemma from_le_u32 [simp]: "x < 2 ^ 32 \<Longrightarrow> from_le (to_le 4 x) = x"
  by (simp add: from_le_to_le del: to_le.simps)

lemma to_le_inject:
  assumes "x < 256 ^ n" "y < 256 ^ n"
  shows "to_le n x = to_le n y \<longleftrightarrow> x = y"
  using assms by (metis from_le_to_le mod_less)

text \<open>Unsigned 64-bit arithmetic wraps in a release build.\<close>

definition wrap64 :: "nat \<Rightarrow> nat" where
  "wrap64 x = x mod 2 ^ 64"

lemma wrap64_id [simp]: "x < 2 ^ 64 \<Longrightarrow> wrap64 x = x"
  by (simp add: wrap64_def)

lemma wrap64_diff:
  assumes "y \<le> x" "x < 2 ^ 64"
  shows "wrap64 (x + 2 ^ 64 - y) = x - y"
proof -
  have "x + 2 ^ 64 - y = (x - y) + 2 ^ 64" using assms(1) by (rule diff_add_assoc2)
  moreover have "x - y < 2 ^ 64" using assms(2) by (rule le_less_trans [OF diff_le_self])
  ultimately show ?thesis by (simp only: wrap64_def mod_add_self2 mod_less)
qed

lemma wrap64_bound: "wrap64 x < 2 ^ 64"
  by (simp add: wrap64_def)

section \<open>Slices and in-place copies\<close>

text \<open>\<open>&xs[a..b]\<close> for a range inside the buffer.\<close>

definition subrange :: "nat \<Rightarrow> nat \<Rightarrow> 'a list \<Rightarrow> 'a list" where
  "subrange a b xs = take (b - a) (drop a xs)"

text \<open>The buffer after \<open>dst[off..off + src.len()].copy_from_subrange(src)\<close>.\<close>

definition blit :: "nat \<Rightarrow> 'a list \<Rightarrow> 'a list \<Rightarrow> 'a list" where
  "blit off src dst = take off dst @ src @ drop (off + length src) dst"

text \<open>The copy itself panics when the range leaves the buffer.\<close>

definition copy_into :: "nat \<Rightarrow> 'a list \<Rightarrow> 'a list \<Rightarrow> ('e, 'a list) outcome" where
  "copy_into off src dst =
     (if off + length src \<le> length dst then Ok (blit off src dst)
      else Panic ''range end index out of range for slice'')"

lemma length_subrange [simp, lens]: "length (subrange a b xs) = min (b - a) (length xs - a)"
  by (simp add: subrange_def)

lemma length_blit [simp, lens]:
  "off + length src \<le> length dst \<Longrightarrow> length (blit off src dst) = length dst"
  by (simp add: blit_def)

lemma nth_subrange [simp]: "i < b - a \<Longrightarrow> a + i < length xs \<Longrightarrow> subrange a b xs ! i = xs ! (a + i)"
  by (simp add: subrange_def)

lemma nth_blit:
  assumes "off + length src \<le> length dst" "i < length dst"
  shows "blit off src dst ! i =
    (if off \<le> i \<and> i < off + length src then src ! (i - off) else dst ! i)"
proof -
  have "i < off \<or> (off \<le> i \<and> i < off + length src) \<or> off + length src \<le> i" by arith
  then show ?thesis
    using assms by (auto simp: blit_def nth_append min_def)
qed

lemma subrange_blit_same [simp]:
  "off + length src \<le> length dst \<Longrightarrow> b = off + length src \<Longrightarrow>
     subrange off b (blit off src dst) = src"
  by (simp add: subrange_def blit_def min_def)

lemma subrange_blit_inside:
  assumes "off + length src \<le> length dst" "off \<le> a" "b \<le> off + length src" "a \<le> b"
  shows "subrange a b (blit off src dst) = subrange (a - off) (b - off) src"
  using assms by (intro nth_equalityI) (auto simp: nth_blit)

lemma subrange_blit_other:
  assumes "off + length src \<le> length dst" "b \<le> off \<or> off + length src \<le> a" "b \<le> length dst"
  shows "subrange a b (blit off src dst) = subrange a b dst"
  using assms by (intro nth_equalityI) (auto simp: nth_blit)

lemma subrange_all [simp]: "b \<ge> length xs \<Longrightarrow> subrange 0 b xs = xs"
  by (simp add: subrange_def)

lemma subrange_append_left: "b \<le> length xs \<Longrightarrow> subrange a b (xs @ ys) = subrange a b xs"
  by (simp add: subrange_def)

lemma subrange_append_right:
  "length xs \<le> a \<Longrightarrow> subrange a b (xs @ ys) = subrange (a - length xs) (b - length xs) ys"
  by (simp add: subrange_def)

lemma subrange_subrange:
  "b \<le> d - c \<Longrightarrow> subrange a b (subrange c d xs) = subrange (c + a) (c + b) xs"
  by (simp add: subrange_def drop_take min_absorb1 diff_le_mono add.commute)

lemma blit_blit_same [simp]:
  "length src' = length src \<Longrightarrow> off + length src \<le> length dst \<Longrightarrow>
     blit off src' (blit off src dst) = blit off src' dst"
  by (intro nth_equalityI) (simp_all add: nth_blit)

section \<open>Byte strings of the source\<close>

text \<open>The value of a literal \<open>b"..."\<close> (ASCII).\<close>

definition str_bytes :: "string \<Rightarrow> bytes" where
  "str_bytes cs = map (\<lambda>c. of_nat (of_char c)) cs"

lemma length_str_bytes [simp, lens]: "length (str_bytes cs) = length cs"
  by (simp add: str_bytes_def)

end
