(* ===== verification/Vault_Fs.thy ===== *)
theory Vault_Fs
  imports Venom_Prelude
begin

text \<open>
  The node types of the encrypted filesystem (storage/vault_fs.rs) and its chunking
  constants. A node is the payload of one data slot.
\<close>

definition CHUNK_SIZE :: nat where
  [simp]: "CHUNK_SIZE = 30000"

definition MAX_DIRECT_SLOTS :: nat where
  [simp]: "MAX_DIRECT_SLOTS = 4000"

definition MAX_INDEX_SLOTS :: nat where
  [simp]: "MAX_INDEX_SLOTS = 4080"

datatype node_kind = KDirectory | KFile | KFileData | KFileIndex

record dir_entry =
  de_name :: string
  de_slot :: nat
  de_kind :: node_kind

record directory_block =
  db_kind :: node_kind
  db_entries :: "dir_entry list"

record file_block =
  fb_kind :: node_kind
  fb_total_size :: nat
  fb_data_slots :: "nat list"
  fb_index_chain :: "nat option"
  fb_data :: bytes

record file_data_block =
  fd_kind :: node_kind
  fd_data :: bytes

record file_index_block =
  fi_kind :: node_kind
  fi_slot_ids :: "nat list"
  fi_next_index :: "nat option"

datatype vault_node =
    Directory directory_block
  | File file_block
  | FileData file_data_block
  | FileIndex file_index_block

end
