(* ===== verification/Libs.thy ===== *)
theory Libs
  imports Venom_Prelude Vault_Fs
begin

text \<open>
  What the program takes from outside its own sources: the errors it reports
  (error.rs), the state of the operating system it touches, and the third-party crates.
  The crates are one record of functions, an argument of every definition that uses
  them; \<open>libs_ok\<close> states the documented behaviour the code relies on.
\<close>

section \<open>Errors\<close>

datatype io_error = UnexpectedEof | InvalidInput | NotFound | OtherIo string

datatype vnm_error =
    AuthenticationFailed
  | ContainerNotFound string
  | ContainerAlreadyExists string
  | SlotNotFound nat
  | CorruptedSlot nat string
  | InvalidFormat string
  | NoSpaceLeft
  | CipherError string
  | KdfError string
  | Io io_error
  | Serialization string
  | AlreadyMounted
  | NotMounted
  | SizeTooSmall nat
  | RollbackDetected nat nat
  | MerkleIntegrityFailure

type_synonym 'a result = "(vnm_error, 'a) outcome"

section \<open>The operating system\<close>

text \<open>
  The container file is a byte list; \<open>sys_exists\<close> tells whether its path is taken. \<open>sys_rng\<close> counts the bytes drawn from the
  operating system's random source, \<open>sys_clock\<close> is the time in seconds, and
  \<open>sys_rollback\<close> is what parsing the rollback state file gives (\<open>None\<close>: absent or
  not valid JSON).
\<close>

record sys =
  sys_file :: bytes
  sys_exists :: bool
  sys_rng :: nat
  sys_clock :: nat
  sys_rollback :: "(string \<rightharpoonup> nat) option"

text \<open>\<open>seek\<close> refuses offsets beyond the signed 64-bit range.\<close>

definition pread :: "nat \<Rightarrow> nat \<Rightarrow> ('a sys_scheme, vnm_error, bytes) op" where
  "pread off n s =
     (if 2 ^ 63 \<le> off then (Err (Io InvalidInput), s)
      else if length (sys_file s) < off + n then (Err (Io UnexpectedEof), s)
      else (Ok (subrange off (off + n) (sys_file s)), s))"

definition pwrite :: "nat \<Rightarrow> bytes \<Rightarrow> ('a sys_scheme, vnm_error, unit) op" where
  "pwrite off data s =
     (if 2 ^ 63 \<le> off then (Err (Io InvalidInput), s)
      else (let f = sys_file s @ replicate (off + length data - length (sys_file s)) 0
            in (Ok (), s\<lparr>sys_file := blit off data f\<rparr>)))"

lemma pwrite_inside:
  "off + length data \<le> length (sys_file s) \<Longrightarrow> off < 2 ^ 63 \<Longrightarrow>
     pwrite off data s = (Ok (), s\<lparr>sys_file := blit off data (sys_file s)\<rparr>)"
  by (simp add: pwrite_def)

lemma pread_inside:
  "off + n \<le> length (sys_file s) \<Longrightarrow> off < 2 ^ 63 \<Longrightarrow>
     pread off n s = (Ok (subrange off (off + n) (sys_file s)), s)"
  by (simp add: pread_def)

lemma pread_state [simp]: "snd (pread off n s) = s"
  by (simp add: pread_def)

lemma pread_same: "pread off n s = (r, s') \<Longrightarrow> s' = s"
  using pread_state [of off n s] by simp

lemma pread_Ok_D:
  "pread off n s = (Ok bs, s') \<Longrightarrow>
     s' = s \<and> length bs = n \<and> bs = subrange off (off + n) (sys_file s) \<and> off + n \<le> length (sys_file s)"
  by (auto simp: pread_def split: if_splits)

lemma pread_no_panic: "pread off n s \<noteq> (Panic p, s')"
  by (simp add: pread_def)

section \<open>Third-party crates\<close>

datatype aead_alg = XChaCha20 | Deoxys | SerpentEax

record libs =
  aead_seal :: "aead_alg \<Rightarrow> bytes \<Rightarrow> bytes \<Rightarrow> bytes \<Rightarrow> bytes \<Rightarrow> (bytes \<times> bytes) option"
    \<comment> \<open>key, nonce, associated data, plaintext; ciphertext and tag\<close>
  aead_open :: "aead_alg \<Rightarrow> bytes \<Rightarrow> bytes \<Rightarrow> bytes \<Rightarrow> bytes \<Rightarrow> bytes \<Rightarrow> bytes option"
    \<comment> \<open>key, nonce, associated data, ciphertext, tag; plaintext\<close>
  blake3_derive_key :: "string \<Rightarrow> bytes \<Rightarrow> bytes"
  blake3_hash :: "bytes \<Rightarrow> bytes"
  argon2id :: "nat \<Rightarrow> nat \<Rightarrow> nat \<Rightarrow> nat \<Rightarrow> bytes \<Rightarrow> bytes \<Rightarrow> bytes option"
    \<comment> \<open>memory, iterations, parallelism, output length, password, salt\<close>
  hex_encode :: "bytes \<Rightarrow> string"
  hex_decode :: "string \<Rightarrow> bytes option"
  x25519_public :: "bytes \<Rightarrow> bytes"
  x25519_dh :: "bytes \<Rightarrow> bytes \<Rightarrow> bytes"
    \<comment> \<open>secret scalar, public point\<close>
  mlkem_ek :: "bytes \<Rightarrow> bytes"
  mlkem_encaps :: "bytes \<Rightarrow> bytes \<Rightarrow> (bytes \<times> bytes) option"
    \<comment> \<open>encapsulation key, randomness; ciphertext and shared secret\<close>
  mlkem_decaps :: "bytes \<Rightarrow> bytes \<Rightarrow> bytes"
  msgpack_enc :: "vault_node \<Rightarrow> bytes option"
  msgpack_dec :: "bytes \<Rightarrow> vault_node option"
  rand_tape :: "nat \<Rightarrow> byte"
  hash_order :: "nat set \<Rightarrow> nat list"
    \<comment> \<open>the order in which a hash table with these keys is iterated\<close>

definition fill_bytes :: "libs \<Rightarrow> nat \<Rightarrow> 'a sys_scheme \<Rightarrow> bytes \<times> 'a sys_scheme" where
  "fill_bytes L n s = (map (rand_tape L) [sys_rng s..<sys_rng s + n], s\<lparr>sys_rng := sys_rng s + n\<rparr>)"

lemma fill_bytes_len [lens]: "fill_bytes L n s = (bs, s') \<Longrightarrow> length bs = n"
  by (auto simp: fill_bytes_def)

lemma fill_bytes_len' [simp]: "length (fst (fill_bytes L n s)) = n"
  by (simp add: fill_bytes_def)

primrec alg_nonce_len :: "aead_alg \<Rightarrow> nat" where
  "alg_nonce_len XChaCha20 = 24"
| "alg_nonce_len Deoxys = 15"
| "alg_nonce_len SerpentEax = 16"

text \<open>
  An AEAD cipher keeps the length, has a 16-byte tag, opens what it sealed, and seals
  any message below \<open>2 ^ 31\<close> bytes under a 32-byte key and a nonce of its size.
\<close>

definition aead_ok :: "libs \<Rightarrow> bool" where
  "aead_ok L \<longleftrightarrow>
     (\<forall>alg k n a p c t. aead_seal L alg k n a p = Some (c, t) \<longrightarrow>
        length c = length p \<and> length t = 16 \<and> aead_open L alg k n a c t = Some p) \<and>
     (\<forall>alg k n a c t p. aead_open L alg k n a c t = Some p \<longrightarrow> length p = length c) \<and>
     (\<forall>alg k n a p. length k = 32 \<longrightarrow> length n = alg_nonce_len alg \<longrightarrow> length p < 2 ^ 31 \<longrightarrow>
        aead_seal L alg k n a p \<noteq> None)"

definition hash_ok :: "libs \<Rightarrow> bool" where
  "hash_ok L \<longleftrightarrow>
     (\<forall>ctx m. length (blake3_derive_key L ctx m) = 32) \<and> (\<forall>m. length (blake3_hash L m) = 32)"

definition kdf_ok :: "libs \<Rightarrow> bool" where
  "kdf_ok L \<longleftrightarrow>
     (\<forall>bs. hex_decode L (hex_encode L bs) = Some bs) \<and>
     (\<forall>m t p n pw salt k. argon2id L m t p n pw salt = Some k \<longrightarrow> length k = n) \<and>
     (\<forall>m t p pw salt. 1 \<le> t \<longrightarrow> 1 \<le> p \<longrightarrow> 8 * p \<le> m \<longrightarrow> m < 2 ^ 24 \<longrightarrow> t < 2 ^ 24 \<longrightarrow> p < 2 ^ 24 \<longrightarrow>
        8 \<le> length salt \<longrightarrow> length salt \<le> 64 \<longrightarrow> length pw < 2 ^ 32 \<longrightarrow>
        argon2id L m t p 32 pw salt \<noteq> None)"

definition kem_ok :: "libs \<Rightarrow> bool" where
  "kem_ok L \<longleftrightarrow>
     (\<forall>a b. length a = 32 \<longrightarrow> length b = 32 \<longrightarrow>
        x25519_dh L a (x25519_public L b) = x25519_dh L b (x25519_public L a)) \<and>
     (\<forall>a. length (x25519_public L a) = 32) \<and>
     (\<forall>a b. length (x25519_dh L a b) = 32) \<and>
     (\<forall>seed. length seed = 64 \<longrightarrow> length (mlkem_ek L seed) = 1568) \<and>
     (\<forall>ek r ct ss. mlkem_encaps L ek r = Some (ct, ss) \<longrightarrow> length ct = 1568 \<and> length ss = 32) \<and>
     (\<forall>seed r ct ss. length seed = 64 \<longrightarrow> mlkem_encaps L (mlkem_ek L seed) r = Some (ct, ss) \<longrightarrow>
        mlkem_decaps L seed ct = ss) \<and>
     (\<forall>seed r. length seed = 64 \<longrightarrow> mlkem_encaps L (mlkem_ek L seed) r \<noteq> None)"

definition msgpack_ok :: "libs \<Rightarrow> bool" where
  "msgpack_ok L \<longleftrightarrow> (\<forall>n bs. msgpack_enc L n = Some bs \<longrightarrow> bs \<noteq> [] \<and> msgpack_dec L bs = Some n)"

text \<open>Iterating a hash table meets every key once, in some order.\<close>

definition order_ok :: "libs \<Rightarrow> bool" where
  "order_ok L \<longleftrightarrow> (\<forall>S. finite S \<longrightarrow> distinct (hash_order L S) \<and> set (hash_order L S) = S)"

definition libs_ok :: "libs \<Rightarrow> bool" where
  "libs_ok L \<longleftrightarrow> aead_ok L \<and> hash_ok L \<and> kdf_ok L \<and> kem_ok L \<and> msgpack_ok L"

lemma libs_okD:
  assumes "libs_ok L"
  shows "aead_ok L" "hash_ok L" "kdf_ok L" "kem_ok L" "msgpack_ok L"
  using assms by (simp_all add: libs_ok_def)

lemma aead_sealD:
  "aead_ok L \<Longrightarrow> aead_seal L alg k n a p = Some (c, t) \<Longrightarrow>
     length c = length p \<and> length t = 16 \<and> aead_open L alg k n a c t = Some p"
  by (simp add: aead_ok_def)

lemma aead_open_len:
  "aead_ok L \<Longrightarrow> aead_open L alg k n a c t = Some p \<Longrightarrow> length p = length c"
  by (simp add: aead_ok_def)

lemma aead_seal_total:
  assumes "aead_ok L" "length k = 32" "length n = alg_nonce_len alg" "length p < 2 ^ 31"
  obtains c t where "aead_seal L alg k n a p = Some (c, t)"
  using assms unfolding aead_ok_def by (metis option.exhaust surj_pair)

lemma blake3_len [lens]: "hash_ok L \<Longrightarrow> length (blake3_derive_key L ctx m) = 32"
  by (simp add: hash_ok_def)

end
