(* ===== verification/Demo_Libs.thy ===== *)
theory Demo_Libs
  imports Libs
begin

text \<open>
  One concrete instance of the third-party functions that satisfies \<open>libs_ok\<close>. It is
  used by the witnesses only: it shows that the assumptions on the crates can hold
  together, and makes the model's operations computable on concrete input. The ciphers
  leave the text unchanged and authenticate the algorithm, the key and the associated
  data by a 16-byte checksum.
\<close>

primrec alg_code :: "aead_alg \<Rightarrow> byte" where
  "alg_code XChaCha20 = 1"
| "alg_code Deoxys = 2"
| "alg_code SerpentEax = 3"

definition demo_tag :: "aead_alg \<Rightarrow> bytes \<Rightarrow> bytes \<Rightarrow> bytes" where
  "demo_tag alg k a = replicate 16 (alg_code alg + 5 * sum_list k + 7 * sum_list a)"

definition demo_seal :: "aead_alg \<Rightarrow> bytes \<Rightarrow> bytes \<Rightarrow> bytes \<Rightarrow> bytes \<Rightarrow> (bytes \<times> bytes) option" where
  "demo_seal alg k n a p = Some (p, demo_tag alg k a)"

definition demo_open ::
    "aead_alg \<Rightarrow> bytes \<Rightarrow> bytes \<Rightarrow> bytes \<Rightarrow> bytes \<Rightarrow> bytes \<Rightarrow> bytes option" where
  "demo_open alg k n a c t = (if t = demo_tag alg k a then Some c else None)"

definition pad_to :: "nat \<Rightarrow> bytes \<Rightarrow> bytes" where
  "pad_to n bs = take n (bs @ replicate n 0)"

definition demo_hex :: "bytes \<Rightarrow> string" where
  "demo_hex bs = map (\<lambda>b. char_of (unat b)) bs"

definition demo_unhex :: "string \<Rightarrow> bytes option" where
  "demo_unhex cs = Some (map (\<lambda>c. of_nat (of_char c)) cs)"

text \<open>The 32-byte shared secret of two points is their bytewise sum.\<close>

definition demo_dh :: "bytes \<Rightarrow> bytes \<Rightarrow> bytes" where
  "demo_dh a b = map2 (+) (pad_to 32 a) (pad_to 32 b)"

section \<open>A node serialisation\<close>

text \<open>
  Numbers are little-endian base-128 digits with a continuation bit, byte strings and
  lists are preceded by their length, nodes by a tag. Decoders return the rest.
\<close>

fun put_nat :: "nat \<Rightarrow> bytes" where
  "put_nat n = (if n < 128 then [of_nat n] else of_nat (128 + n mod 128) # put_nat (n div 128))"

declare put_nat.simps [simp del]

fun get_nat :: "bytes \<Rightarrow> (nat \<times> bytes) option" where
  "get_nat [] = None"
| "get_nat (b # bs) = (if unat b < 128 then Some (unat b, bs)
     else (case get_nat bs of None \<Rightarrow> None | Some (n, r) \<Rightarrow> Some (unat b - 128 + 128 * n, r)))"

lemma get_put_nat [simp]: "get_nat (put_nat n @ r) = Some (n, r)"
proof (induction n rule: put_nat.induct)
  case (1 n)
  show ?case
  proof (cases "n < 128")
    case True
    then show ?thesis by (simp add: put_nat.simps [of n] unat_of_nat)
  next
    case False
    then have "unat (of_nat (128 + n mod 128) :: byte) = 128 + n mod 128"
      by (simp only: unat_of_nat) simp
    with 1 False show ?thesis by (simp add: put_nat.simps [of n])
  qed
qed

definition put_bytes :: "bytes \<Rightarrow> bytes" where
  "put_bytes bs = put_nat (length bs) @ bs"

definition get_bytes :: "bytes \<Rightarrow> (bytes \<times> bytes) option" where
  "get_bytes bs = (case get_nat bs of None \<Rightarrow> None | Some (n, r) \<Rightarrow> Some (take n r, drop n r))"

lemma get_put_bytes [simp]: "get_bytes (put_bytes bs @ r) = Some (bs, r)"
  by (simp add: get_bytes_def put_bytes_def)

definition put_list :: "('x \<Rightarrow> bytes) \<Rightarrow> 'x list \<Rightarrow> bytes" where
  "put_list f xs = put_nat (length xs) @ concat (map f xs)"

primrec get_items :: "(bytes \<Rightarrow> ('x \<times> bytes) option) \<Rightarrow> nat \<Rightarrow> bytes \<Rightarrow> ('x list \<times> bytes) option" where
  "get_items g 0 bs = Some ([], bs)"
| "get_items g (Suc n) bs = (case g bs of None \<Rightarrow> None
     | Some (x, r) \<Rightarrow> (case get_items g n r of None \<Rightarrow> None | Some (xs, r') \<Rightarrow> Some (x # xs, r')))"

definition get_list :: "(bytes \<Rightarrow> ('x \<times> bytes) option) \<Rightarrow> bytes \<Rightarrow> ('x list \<times> bytes) option" where
  "get_list g bs = (case get_nat bs of None \<Rightarrow> None | Some (n, r) \<Rightarrow> get_items g n r)"

lemma get_put_list:
  assumes "\<And>x r. g (f x @ r) = Some (x, r)"
  shows "get_list g (put_list f xs @ r) = Some (xs, r)"
proof -
  have "get_items g (length xs) (concat (map f xs) @ r) = Some (xs, r)"
    by (induction xs) (simp_all add: assms)
  then show ?thesis by (simp add: get_list_def put_list_def)
qed

definition put_option :: "nat option \<Rightarrow> bytes" where
  "put_option x = (case x of None \<Rightarrow> [0] | Some n \<Rightarrow> 1 # put_nat n)"

fun get_option :: "bytes \<Rightarrow> (nat option \<times> bytes) option" where
  "get_option [] = None"
| "get_option (b # bs) = (if b = 0 then Some (None, bs)
     else (case get_nat bs of None \<Rightarrow> None | Some (n, r) \<Rightarrow> Some (Some n, r)))"

lemma get_put_option [simp]: "get_option (put_option x @ r) = Some (x, r)"
  by (cases x) (simp_all add: put_option_def)

primrec put_kind :: "node_kind \<Rightarrow> bytes" where
  "put_kind KDirectory = [0]"
| "put_kind KFile = [1]"
| "put_kind KFileData = [2]"
| "put_kind KFileIndex = [3]"

fun get_kind :: "bytes \<Rightarrow> (node_kind \<times> bytes) option" where
  "get_kind [] = None"
| "get_kind (b # bs) = Some (if b = 0 then KDirectory else if b = 1 then KFile
     else if b = 2 then KFileData else KFileIndex, bs)"

lemma get_put_kind [simp]: "get_kind (put_kind k @ r) = Some (k, r)"
  by (cases k) simp_all

definition put_name :: "string \<Rightarrow> bytes" where
  "put_name cs = put_bytes (map (\<lambda>c. of_nat (of_char c)) cs)"

definition get_name :: "bytes \<Rightarrow> (string \<times> bytes) option" where
  "get_name bs = map_option (\<lambda>(b, r). (map (\<lambda>b. char_of (unat b)) b, r)) (get_bytes bs)"

lemma char_byte: "(char_of (unat (of_nat (of_char c) :: byte)) :: char) = c"
  by (simp add: unat_of_nat)

lemma get_put_name [simp]: "get_name (put_name cs @ r) = Some (cs, r)"
  by (simp add: get_name_def put_name_def comp_def char_byte)

definition put_entry :: "dir_entry \<Rightarrow> bytes" where
  "put_entry e = put_name (de_name e) @ put_nat (de_slot e) @ put_kind (de_kind e)"

definition get_entry :: "bytes \<Rightarrow> (dir_entry \<times> bytes) option" where
  "get_entry bs = (case get_name bs of None \<Rightarrow> None | Some (nm, r1) \<Rightarrow>
     (case get_nat r1 of None \<Rightarrow> None | Some (sl, r2) \<Rightarrow>
     (case get_kind r2 of None \<Rightarrow> None | Some (k, r3) \<Rightarrow>
        Some (\<lparr>de_name = nm, de_slot = sl, de_kind = k\<rparr>, r3))))"

lemma get_put_entry [simp]: "get_entry (put_entry e @ r) = Some (e, r)"
  by (simp add: get_entry_def put_entry_def)

primrec put_node :: "vault_node \<Rightarrow> bytes" where
  "put_node (Directory d) = 0 # put_kind (db_kind d) @ put_list put_entry (db_entries d)"
| "put_node (File f) = 1 # put_kind (fb_kind f) @ put_nat (fb_total_size f) @
     put_list put_nat (fb_data_slots f) @ put_option (fb_index_chain f) @ put_bytes (fb_data f)"
| "put_node (FileData d) = 2 # put_kind (fd_kind d) @ put_bytes (fd_data d)"
| "put_node (FileIndex i) = 3 # put_kind (fi_kind i) @ put_list put_nat (fi_slot_ids i) @
     put_option (fi_next_index i)"

definition get_file :: "bytes \<Rightarrow> vault_node option" where
  "get_file bs = (case get_kind bs of None \<Rightarrow> None | Some (k, r1) \<Rightarrow>
     (case get_nat r1 of None \<Rightarrow> None | Some (sz, r2) \<Rightarrow>
     (case get_list get_nat r2 of None \<Rightarrow> None | Some (ds, r3) \<Rightarrow>
     (case get_option r3 of None \<Rightarrow> None | Some (ic, r4) \<Rightarrow>
     (case get_bytes r4 of None \<Rightarrow> None | Some (d, r5) \<Rightarrow>
        Some (File \<lparr>fb_kind = k, fb_total_size = sz, fb_data_slots = ds,
          fb_index_chain = ic, fb_data = d\<rparr>))))))"

definition get_dir :: "bytes \<Rightarrow> vault_node option" where
  "get_dir bs = (case get_kind bs of None \<Rightarrow> None | Some (k, r1) \<Rightarrow>
     (case get_list get_entry r1 of None \<Rightarrow> None | Some (es, r2) \<Rightarrow>
        Some (Directory \<lparr>db_kind = k, db_entries = es\<rparr>)))"

definition get_data :: "bytes \<Rightarrow> vault_node option" where
  "get_data bs = (case get_kind bs of None \<Rightarrow> None | Some (k, r1) \<Rightarrow>
     (case get_bytes r1 of None \<Rightarrow> None | Some (d, r2) \<Rightarrow>
        Some (FileData \<lparr>fd_kind = k, fd_data = d\<rparr>)))"

definition get_index :: "bytes \<Rightarrow> vault_node option" where
  "get_index bs = (case get_kind bs of None \<Rightarrow> None | Some (k, r1) \<Rightarrow>
     (case get_list get_nat r1 of None \<Rightarrow> None | Some (ds, r2) \<Rightarrow>
     (case get_option r2 of None \<Rightarrow> None | Some (nx, r3) \<Rightarrow>
        Some (FileIndex \<lparr>fi_kind = k, fi_slot_ids = ds, fi_next_index = nx\<rparr>))))"

fun get_node :: "bytes \<Rightarrow> vault_node option" where
  "get_node [] = None"
| "get_node (b # bs) = (if b = 0 then get_dir bs else if b = 1 then get_file bs
     else if b = 2 then get_data bs else get_index bs)"

lemmas get_put_lists [simp] =
  get_put_list [of get_nat put_nat, OF get_put_nat]
  get_put_list [of get_entry put_entry, OF get_put_entry]

lemma get_put_bytes_end [simp]: "get_bytes (put_bytes bs) = Some (bs, [])"
  using get_put_bytes [of bs "[]"] by simp

lemma get_put_list_end [simp]: "get_list get_entry (put_list put_entry es) = Some (es, [])"
  using get_put_lists(2) [of es "[]"] by simp

lemma get_put_option_end [simp]: "get_option (put_option x) = Some (x, [])"
  using get_put_option [of x "[]"] by simp

lemma get_put_node: "get_node (put_node n) = Some n"
  by (cases n) (simp_all add: get_dir_def get_file_def get_data_def get_index_def)

lemma put_node_nonempty: "put_node n \<noteq> []"
  by (cases n) simp_all

section \<open>The instance\<close>

definition demo_libs :: libs where
  "demo_libs =
     \<lparr>aead_seal = demo_seal, aead_open = demo_open,
      blake3_derive_key = (\<lambda>ctx m. pad_to 32 m),
      blake3_hash = pad_to 32,
      argon2id = (\<lambda>m t p n pw salt. Some (pad_to n pw)),
      hex_encode = demo_hex, hex_decode = demo_unhex,
      x25519_public = pad_to 32, x25519_dh = demo_dh,
      mlkem_ek = pad_to 1568,
      mlkem_encaps = (\<lambda>ek r. Some (pad_to 1568 ek, pad_to 32 ek)),
      mlkem_decaps = (\<lambda>seed ct. pad_to 32 seed),
      msgpack_enc = (\<lambda>n. Some (put_node n)), msgpack_dec = get_node,
      rand_tape = (\<lambda>i. of_nat i), hash_order = sorted_list_of_set\<rparr>"

lemma length_pad_to [simp]: "length (pad_to n bs) = n"
  by (simp add: pad_to_def)

lemma pad_to_pad_to [simp]: "m \<le> n \<Longrightarrow> pad_to m (pad_to n bs) = pad_to m bs"
  by (auto simp: pad_to_def min_def take_replicate)

lemma demo_dh_commute: "demo_dh a (pad_to 32 b) = demo_dh b (pad_to 32 a)"
  by (simp add: demo_dh_def) (intro nth_equalityI; simp add: add.commute)

theorem demo_libs_ok: "libs_ok demo_libs"
proof -
  have "aead_ok demo_libs"
    by (simp add: aead_ok_def demo_libs_def demo_seal_def demo_open_def demo_tag_def)
  moreover have "hash_ok demo_libs"
    by (simp add: hash_ok_def demo_libs_def)
  moreover have "kdf_ok demo_libs"
    by (simp add: kdf_ok_def demo_libs_def demo_hex_def demo_unhex_def comp_def unat_lt_256)
  moreover have "kem_ok demo_libs"
    by (simp add: kem_ok_def demo_libs_def demo_dh_commute) (simp add: demo_dh_def)
  moreover have "msgpack_ok demo_libs"
    by (simp add: msgpack_ok_def demo_libs_def get_put_node put_node_nonempty)
  ultimately show ?thesis by (simp add: libs_ok_def)
qed

lemma demo_order_ok [simp]: "order_ok demo_libs"
  by (simp add: order_ok_def demo_libs_def)

lemma demo_laws [simp]:
  "aead_ok demo_libs" "hash_ok demo_libs" "kdf_ok demo_libs" "kem_ok demo_libs" "msgpack_ok demo_libs"
  "libs_ok demo_libs"
  using demo_libs_ok by (simp_all add: libs_ok_def)

end
