(* ===== verification/Cipher.thy ===== *)
theory Cipher
  imports Libs Demo_Libs
begin

text \<open>
  The cipher choices of a container (container/mod.rs) and the VNMB block format
  (crypto/cipher.rs): a block is magic, version, nonce section, ciphertext and tag(s).
  The lemmas give the exact size of a block, the round trip of each cipher, what a
  successful decryption implies, and the agreement of the fixed-size decryption used for
  key slots with the general one. The interface that the other components use is the
  locale \<open>sealed_box\<close>.
\<close>

section \<open>Cipher algorithms and KDF profiles\<close>

datatype cipher_algorithm = XChaCha20Poly1305 | DeoxysII256 | Serpent256 | Triple

primrec as_str :: "cipher_algorithm \<Rightarrow> string" where
  "as_str XChaCha20Poly1305 = ''xchacha20-poly1305''"
| "as_str DeoxysII256 = ''deoxys-ii-256''"
| "as_str Serpent256 = ''serpent-256-eax''"
| "as_str Triple = ''triple-xchacha20-deoxys-serpent''"

record kdf_params =
  memory_kib :: nat
  iterations :: nat
  parallelism :: nat
  kdf_salt :: string

definition kdf_interactive :: kdf_params where
  "kdf_interactive = \<lparr>memory_kib = 65536, iterations = 3, parallelism = 4, kdf_salt = []\<rparr>"

definition kdf_sensitive :: kdf_params where
  "kdf_sensitive = \<lparr>memory_kib = 262144, iterations = 4, parallelism = 4, kdf_salt = []\<rparr>"

definition kdf_params_for_profile :: "string \<Rightarrow> kdf_params" where
  "kdf_params_for_profile profile =
     (if profile = ''sensitive'' then kdf_sensitive else kdf_interactive)"

definition profile_id_for_str :: "string \<Rightarrow> byte" where
  "profile_id_for_str profile = (if profile = ''sensitive'' then 1 else 0)"

text \<open>The order in which blind decryption tries the ciphers.\<close>

definition ALL_CIPHERS :: "cipher_algorithm list" where
  "ALL_CIPHERS = [XChaCha20Poly1305, DeoxysII256, Serpent256, Triple]"

instantiation cipher_algorithm :: enum
begin

definition enum_cipher_algorithm :: "cipher_algorithm list" where
  "enum_cipher_algorithm = ALL_CIPHERS"

definition enum_all_cipher_algorithm :: "(cipher_algorithm \<Rightarrow> bool) \<Rightarrow> bool" where
  "enum_all_cipher_algorithm P \<longleftrightarrow> list_all P ALL_CIPHERS"

definition enum_ex_cipher_algorithm :: "(cipher_algorithm \<Rightarrow> bool) \<Rightarrow> bool" where
  "enum_ex_cipher_algorithm P \<longleftrightarrow> list_ex P ALL_CIPHERS"

lemma cipher_UNIV: "(UNIV :: cipher_algorithm set) = set ALL_CIPHERS"
proof -
  have "c \<in> set ALL_CIPHERS" for c
    by (cases c) (simp_all add: ALL_CIPHERS_def)
  then show ?thesis by blast
qed

instance
  by standard
    (simp_all add: cipher_UNIV enum_cipher_algorithm_def enum_all_cipher_algorithm_def
      enum_ex_cipher_algorithm_def list_all_iff list_ex_iff, simp add: ALL_CIPHERS_def)

end

lemma all_ciphers_complete: "c \<in> set ALL_CIPHERS"
  using cipher_UNIV by blast

section \<open>VNMB block layout\<close>

definition VNMB_MAGIC :: bytes where
  "VNMB_MAGIC = str_bytes ''VNMB''"

definition VNMB_VERSION :: nat where
  "VNMB_VERSION = 1"

definition NONCE_OFFSET :: nat where
  [simp]: "NONCE_OFFSET = 8"

definition N1 :: nat where
  [simp]: "N1 = 24"

definition N2 :: nat where
  [simp]: "N2 = 15"

definition N3 :: nat where
  [simp]: "N3 = 16"

definition TRIPLE_NONCE_LEN :: nat where
  [simp]: "TRIPLE_NONCE_LEN = N1 + N2 + N3"

primrec nonce_section_len :: "cipher_algorithm \<Rightarrow> nat" where
  "nonce_section_len XChaCha20Poly1305 = N1"
| "nonce_section_len DeoxysII256 = N2"
| "nonce_section_len Serpent256 = N3"
| "nonce_section_len Triple = TRIPLE_NONCE_LEN"

definition tags_len :: "cipher_algorithm \<Rightarrow> nat" where
  "tags_len c = (case c of Triple \<Rightarrow> 48 | _ \<Rightarrow> 16)"

definition vnmb_overhead :: "cipher_algorithm \<Rightarrow> nat" where
  "vnmb_overhead c = NONCE_OFFSET + nonce_section_len c + tags_len c"

definition vnmb_header_len :: "cipher_algorithm \<Rightarrow> nat" where
  "vnmb_header_len c = NONCE_OFFSET + nonce_section_len c"

lemma length_VNMB_MAGIC [simp]: "length VNMB_MAGIC = 4"
  by (simp add: VNMB_MAGIC_def)

lemma vnmb_overhead_simps [simp]:
  "vnmb_overhead XChaCha20Poly1305 = 48"
  "vnmb_overhead DeoxysII256 = 39"
  "vnmb_overhead Serpent256 = 40"
  "vnmb_overhead Triple = 111"
  by (simp_all add: vnmb_overhead_def tags_len_def)

lemma vnmb_overhead_bounds: "39 \<le> vnmb_overhead c" "vnmb_overhead c \<le> 111"
  by (cases c; simp)+

text \<open>The AEAD behind a single-cipher block; \<open>None\<close> where the code is unreachable.\<close>

primrec single_alg :: "cipher_algorithm \<Rightarrow> aead_alg option" where
  "single_alg XChaCha20Poly1305 = Some XChaCha20"
| "single_alg DeoxysII256 = Some Deoxys"
| "single_alg Serpent256 = Some SerpentEax"
| "single_alg Triple = None"

lemma single_alg_nonce:
  "single_alg c = Some alg \<Longrightarrow> nonce_section_len c = alg_nonce_len alg \<and> tags_len c = 16"
  by (cases c) (auto simp: tags_len_def)

section \<open>Key schedule of the triple cascade\<close>

record triple_keys =
  tk1 :: bytes
  tk2 :: bytes
  tk3 :: bytes

definition derive_subkey_32 :: "libs \<Rightarrow> bytes \<Rightarrow> string \<Rightarrow> bytes" where
  "derive_subkey_32 L k_master ctx = blake3_derive_key L ctx k_master"

definition derive_triple_keys :: "libs \<Rightarrow> bytes \<Rightarrow> triple_keys" where
  "derive_triple_keys L k_master =
     \<lparr>tk1 = derive_subkey_32 L k_master ''venom:triple:xchacha20'',
      tk2 = derive_subkey_32 L k_master ''venom:triple:deoxys'',
      tk3 = derive_subkey_32 L k_master ''venom:triple:serpent''\<rparr>"

lemma derive_triple_keys_len:
  "hash_ok L \<Longrightarrow> length (tk1 (derive_triple_keys L k)) = 32"
  "hash_ok L \<Longrightarrow> length (tk2 (derive_triple_keys L k)) = 32"
  "hash_ok L \<Longrightarrow> length (tk3 (derive_triple_keys L k)) = 32"
  by (simp_all add: derive_triple_keys_def derive_subkey_32_def lens)

section \<open>Encryption\<close>

definition encrypt_single ::
    "libs \<Rightarrow> bytes \<Rightarrow> cipher_algorithm \<Rightarrow> bytes \<Rightarrow> bytes \<Rightarrow> ('a sys_scheme, vnm_error, bytes) op" where
  "encrypt_single L key c aad plaintext s =
     (let nlen = nonce_section_len c;
          (nonce, s1) = fill_bytes L nlen s;
          buf = VNMB_MAGIC @ to_le 4 VNMB_VERSION @ nonce
      in case single_alg c of
           None \<Rightarrow> (Panic ''unreachable'', s1)
         | Some alg \<Rightarrow>
             (case aead_seal L alg key nonce aad plaintext of
                None \<Rightarrow> (Err (CipherError ''aead''), s1)
              | Some (ct, tag) \<Rightarrow> (Ok (buf @ ct @ tag), s1)))"

text \<open>One layer of the cascade: seal in place, then append the tag.\<close>

definition seal_layer :: "libs \<Rightarrow> aead_alg \<Rightarrow> bytes \<Rightarrow> bytes \<Rightarrow> bytes \<Rightarrow> bytes \<Rightarrow> bytes result" where
  "seal_layer L alg key nonce aad layer =
     (case aead_seal L alg key nonce aad layer of
        None \<Rightarrow> Err (CipherError ''aead'')
      | Some (ct, tag) \<Rightarrow> Ok (ct @ tag))"

definition encrypt_triple ::
    "libs \<Rightarrow> bytes \<Rightarrow> bytes \<Rightarrow> bytes \<Rightarrow> ('a sys_scheme, vnm_error, bytes) op" where
  "encrypt_triple L key aad plaintext s =
     (let keys = derive_triple_keys L key;
          (nonce1, s1) = fill_bytes L N1 s;
          (nonce2, s2) = fill_bytes L N2 s1;
          (nonce3, s3) = fill_bytes L N3 s2
      in (and_then (seal_layer L XChaCha20 (tk1 keys) nonce1 aad plaintext) (\<lambda>layer1.
          and_then (seal_layer L Deoxys (tk2 keys) nonce2 aad layer1) (\<lambda>layer2.
          and_then (seal_layer L SerpentEax (tk3 keys) nonce3 aad layer2) (\<lambda>layer3.
            Ok (VNMB_MAGIC @ to_le 4 VNMB_VERSION @ nonce1 @ nonce2 @ nonce3 @ layer3)))), s3))"

definition encrypt_block ::
    "libs \<Rightarrow> bytes \<Rightarrow> cipher_algorithm \<Rightarrow> bytes \<Rightarrow> bytes \<Rightarrow> ('a sys_scheme, vnm_error, bytes) op" where
  "encrypt_block L key c aad plaintext =
     (case c of
        Triple \<Rightarrow> encrypt_triple L key aad plaintext
      | _ \<Rightarrow> encrypt_single L key c aad plaintext)"

section \<open>Decryption\<close>

definition decrypt_single ::
    "libs \<Rightarrow> bytes \<Rightarrow> cipher_algorithm \<Rightarrow> bytes \<Rightarrow> bytes \<Rightarrow> bytes result" where
  "decrypt_single L key c aad data =
     (let nlen = nonce_section_len c; hlen = NONCE_OFFSET + nlen
      in if length data < hlen + 16 then Err AuthenticationFailed
         else if subrange 0 4 data \<noteq> VNMB_MAGIC then Err AuthenticationFailed
         else if from_le (subrange 4 8 data) \<noteq> VNMB_VERSION
           then Err (InvalidFormat ''unknown VNMB block version'')
         else (let nonce = subrange NONCE_OFFSET hlen data;
                   ct_with_tag = drop hlen data;
                   tag_start = length ct_with_tag - 16;
                   plain = take tag_start ct_with_tag;
                   tag = drop tag_start ct_with_tag
               in case single_alg c of
                    None \<Rightarrow> Panic ''unreachable''
                  | Some alg \<Rightarrow> ok_or AuthenticationFailed (aead_open L alg key nonce aad plain tag)))"

text \<open>One layer of the cascade undone: the last 16 bytes are the tag.\<close>

definition open_layer :: "libs \<Rightarrow> aead_alg \<Rightarrow> bytes \<Rightarrow> bytes \<Rightarrow> bytes \<Rightarrow> bytes \<Rightarrow> bytes result" where
  "open_layer L alg key nonce aad layer =
     (if length layer < 16 then Panic ''attempt to subtract with overflow''
      else (let tag_start = length layer - 16
            in ok_or AuthenticationFailed
                 (aead_open L alg key nonce aad (take tag_start layer) (drop tag_start layer))))"

definition decrypt_triple :: "libs \<Rightarrow> bytes \<Rightarrow> bytes \<Rightarrow> bytes \<Rightarrow> bytes result" where
  "decrypt_triple L key aad data =
     (let hlen = NONCE_OFFSET + TRIPLE_NONCE_LEN
      in if length data < hlen + 48 + 1 then Err AuthenticationFailed
         else if subrange 0 4 data \<noteq> VNMB_MAGIC then Err AuthenticationFailed
         else if from_le (subrange 4 8 data) \<noteq> VNMB_VERSION
           then Err (InvalidFormat ''unknown VNMB block version'')
         else (let nonce1 = subrange 8 (8 + N1) data;
                   nonce2 = subrange (8 + N1) (8 + N1 + N2) data;
                   nonce3 = subrange (8 + N1 + N2) hlen data;
                   keys = derive_triple_keys L key
               in and_then (open_layer L SerpentEax (tk3 keys) nonce3 aad (drop hlen data)) (\<lambda>layer2.
                  and_then (open_layer L Deoxys (tk2 keys) nonce2 aad layer2) (\<lambda>layer1.
                  open_layer L XChaCha20 (tk1 keys) nonce1 aad layer1))))"

definition decrypt_block ::
    "libs \<Rightarrow> bytes \<Rightarrow> cipher_algorithm \<Rightarrow> bytes \<Rightarrow> bytes \<Rightarrow> bytes result" where
  "decrypt_block L key c aad data =
     (case c of
        Triple \<Rightarrow> decrypt_triple L key aad data
      | _ \<Rightarrow> decrypt_single L key c aad data)"

text \<open>Decryption into a 32-byte buffer; the value is the buffer on success.\<close>

definition decrypt_block_into_32 ::
    "libs \<Rightarrow> bytes \<Rightarrow> cipher_algorithm \<Rightarrow> bytes \<Rightarrow> bytes \<Rightarrow> bytes result" where
  "decrypt_block_into_32 L key c aad data =
     (if c = Triple then
        and_then (decrypt_triple L key aad data)
          (\<lambda>plain. if length plain \<noteq> 32 then Err AuthenticationFailed else Ok plain)
      else (let nlen = nonce_section_len c; hlen = NONCE_OFFSET + nlen; expected = hlen + 32 + 16
            in if length data \<noteq> expected then Err AuthenticationFailed
               else if subrange 0 4 data \<noteq> VNMB_MAGIC then Err AuthenticationFailed
               else if from_le (subrange 4 8 data) \<noteq> VNMB_VERSION
                 then Err (InvalidFormat ''unknown VNMB block version'')
               else (let nonce = subrange NONCE_OFFSET hlen data;
                         out = subrange hlen (hlen + 32) data;
                         tag = drop (hlen + 32) data
                     in case single_alg c of
                          None \<Rightarrow> Panic ''unreachable''
                        | Some alg \<Rightarrow>
                            ok_or AuthenticationFailed (aead_open L alg key nonce aad out tag))))"

section \<open>Layers\<close>

lemma seal_layer_Ok:
  assumes "aead_ok L" "seal_layer L alg k n a p = Ok l"
  shows "length l = length p + 16 \<and> open_layer L alg k n a l = Ok p"
  using assms aead_sealD [OF assms(1)]
  by (auto simp: seal_layer_def open_layer_def Let_def split: option.splits)

lemma open_layer_Ok:
  assumes "aead_ok L" "open_layer L alg k n a l = Ok p"
  shows "length l = length p + 16"
proof -
  from assms(2) have "aead_open L alg k n a (take (length l - 16) l) (drop (length l - 16) l) = Some p"
    and "16 \<le> length l"
    by (auto simp: open_layer_def Let_def split: if_splits)
  with aead_open_len [OF assms(1)] show ?thesis by fastforce
qed

lemma open_layer_no_panic: "16 \<le> length l \<Longrightarrow> open_layer L alg k n a l \<noteq> Panic x"
  by (auto simp: open_layer_def Let_def ok_or_def split: option.splits)

lemma seal_layer_no_panic: "seal_layer L alg k n a p \<noteq> Panic x"
  by (auto simp: seal_layer_def split: option.splits)

lemma seal_layer_total:
  assumes "aead_ok L" "length k = 32" "length n = alg_nonce_len alg" "length p < 2 ^ 31"
  obtains l where "seal_layer L alg k n a p = Ok l"
  using that by (rule aead_seal_total [OF assms, of a]) (simp add: seal_layer_def)

section \<open>Blocks\<close>

text \<open>Encryption draws its nonces and changes nothing else.\<close>

lemma encrypt_block_state:
  "encrypt_block L k c a p s = (r, s') \<Longrightarrow> s' = s\<lparr>sys_rng := sys_rng s + nonce_section_len c\<rparr>"
  by (cases c)
    (auto simp: encrypt_block_def encrypt_single_def encrypt_triple_def fill_bytes_def Let_def
      split: option.splits prod.splits)

lemma encrypt_block_no_panic: "encrypt_block L k c a p s \<noteq> (Panic x, s')"
proof (cases "c = Triple")
  case True
  have "fst (encrypt_triple L k a p s) \<noteq> Panic x"
    by (simp add: encrypt_triple_def Let_def split_beta)
      (intro and_then_no_panic seal_layer_no_panic, simp)
  with True show ?thesis by (metis encrypt_block_def cipher_algorithm.case(4) fst_conv)
next
  case False
  then show ?thesis
    by (cases c)
      (auto simp: encrypt_block_def encrypt_single_def Let_def split: prod.splits option.splits)
qed

lemma encrypt_single_Ok:
  assumes "encrypt_single L k c a p s = (Ok b, s')"
  obtains alg nonce ct tag where "single_alg c = Some alg" "length nonce = nonce_section_len c"
    "aead_seal L alg k nonce a p = Some (ct, tag)"
    "b = VNMB_MAGIC @ to_le 4 VNMB_VERSION @ nonce @ ct @ tag"
  using assms
  by (auto simp: encrypt_single_def Let_def fill_bytes_def split: option.splits prod.splits)

lemma encrypt_triple_Ok:
  assumes "encrypt_triple L k a p s = (Ok b, s')"
  obtains n1 n2 n3 l1 l2 l3 where "length n1 = 24" "length n2 = 15" "length n3 = 16"
    "seal_layer L XChaCha20 (tk1 (derive_triple_keys L k)) n1 a p = Ok l1"
    "seal_layer L Deoxys (tk2 (derive_triple_keys L k)) n2 a l1 = Ok l2"
    "seal_layer L SerpentEax (tk3 (derive_triple_keys L k)) n3 a l2 = Ok l3"
    "b = VNMB_MAGIC @ to_le 4 VNMB_VERSION @ n1 @ n2 @ n3 @ l3"
    "n3 = map (rand_tape L) [sys_rng s + 39..<sys_rng s + 55]"
proof -
  let ?k = "derive_triple_keys L k" and ?s1 = "snd (fill_bytes L 24 s)"
  let ?s2 = "snd (fill_bytes L 15 ?s1)"
  from assms obtain l1 l2 l3 where
    "seal_layer L XChaCha20 (tk1 ?k) (fst (fill_bytes L 24 s)) a p = Ok l1"
    "seal_layer L Deoxys (tk2 ?k) (fst (fill_bytes L 15 ?s1)) a l1 = Ok l2"
    "seal_layer L SerpentEax (tk3 ?k) (fst (fill_bytes L 16 ?s2)) a l2 = Ok l3"
    "b = VNMB_MAGIC @ to_le 4 VNMB_VERSION @ fst (fill_bytes L 24 s) @ fst (fill_bytes L 15 ?s1) @
      fst (fill_bytes L 16 ?s2) @ l3"
    by (auto simp: encrypt_triple_def Let_def split_beta and_then_eq_Ok)
  moreover have "fst (fill_bytes L 16 ?s2) = map (rand_tape L) [sys_rng s + 39..<sys_rng s + 55]"
    by (simp add: fill_bytes_def add.commute)
  ultimately show thesis by (intro that [OF _ _ _ _ _ _ _ _]) simp_all
qed

lemma encrypt_block_length:
  assumes "aead_ok L" "encrypt_block L k c a p s = (Ok b, s')"
  shows "length b = vnmb_overhead c + length p"
proof (cases "c = Triple")
  case True
  with assms(2) have "encrypt_triple L k a p s = (Ok b, s')" by (simp add: encrypt_block_def)
  then show ?thesis
    by (rule encrypt_triple_Ok) (use True seal_layer_Ok [OF assms(1)] in force)
next
  case False
  with assms(2) have "encrypt_single L k c a p s = (Ok b, s')"
    by (cases c) (simp_all add: encrypt_block_def)
  then show ?thesis
    by (rule encrypt_single_Ok)
      (use single_alg_nonce aead_sealD [OF assms(1)] in \<open>force simp: vnmb_overhead_def\<close>)
qed

lemma version_roundtrip [simp]: "from_le (to_le 4 VNMB_VERSION) = VNMB_VERSION"
  by (simp add: VNMB_VERSION_def)

lemma block_prefix [simp]:
  "subrange 0 4 (VNMB_MAGIC @ rest) = VNMB_MAGIC"
  "subrange 4 8 (VNMB_MAGIC @ to_le 4 v @ rest) = to_le 4 v"
  by (simp_all add: subrange_def)

lemma decrypt_encrypt_single:
  assumes "aead_ok L" "encrypt_single L k c a p s = (Ok b, s')"
  shows "decrypt_single L k c a b = Ok p"
proof -
  from assms(2) obtain alg nonce ct tag where *: "single_alg c = Some alg"
    "length nonce = nonce_section_len c" "aead_seal L alg k nonce a p = Some (ct, tag)"
    "b = VNMB_MAGIC @ to_le 4 VNMB_VERSION @ nonce @ ct @ tag"
    by (auto elim: encrypt_single_Ok)
  from aead_sealD [OF assms(1) *(3)] have ad: "length ct = length p" "length tag = 16"
    "aead_open L alg k nonce a ct tag = Some p" by auto
  have "subrange 8 (8 + nonce_section_len c) b = nonce" "drop (8 + nonce_section_len c) b = ct @ tag"
    using * by (simp_all add: subrange_def)
  then show ?thesis
    using * ad by (simp add: decrypt_single_def Let_def)
qed

lemma decrypt_encrypt_triple:
  assumes "aead_ok L" "encrypt_triple L k a p s = (Ok b, s')" "p \<noteq> []"
  shows "decrypt_triple L k a b = Ok p"
proof -
  from assms(2) obtain n1 n2 n3 l1 l2 l3 where n: "length n1 = 24" "length n2 = 15" "length n3 = 16"
    and l: "seal_layer L XChaCha20 (tk1 (derive_triple_keys L k)) n1 a p = Ok l1"
    "seal_layer L Deoxys (tk2 (derive_triple_keys L k)) n2 a l1 = Ok l2"
    "seal_layer L SerpentEax (tk3 (derive_triple_keys L k)) n3 a l2 = Ok l3"
    and b: "b = VNMB_MAGIC @ to_le 4 VNMB_VERSION @ n1 @ n2 @ n3 @ l3"
    by (auto elim: encrypt_triple_Ok)
  note o = l [THEN seal_layer_Ok [OF assms(1)]]
  have "subrange 8 32 b = n1" "subrange 32 47 b = n2" "subrange 47 63 b = n3" "drop 63 b = l3"
    using n by (simp_all add: b subrange_def)
  then show ?thesis
    using o n assms(3) by (simp add: decrypt_triple_def Let_def b)
qed

lemma decrypt_encrypt_block:
  assumes "aead_ok L" "encrypt_block L k c a p s = (Ok b, s')" "c = Triple \<longrightarrow> p \<noteq> []"
  shows "decrypt_block L k c a b = Ok p"
  using assms decrypt_encrypt_single decrypt_encrypt_triple
  by (cases c) (auto simp: encrypt_block_def decrypt_block_def)

lemma encrypt_triple_total:
  assumes "aead_ok L" "hash_ok L" "length p < 2 ^ 30"
  obtains b s' where "encrypt_triple L k a p s = (Ok b, s')"
proof -
  let ?k = "derive_triple_keys L k" and ?s1 = "snd (fill_bytes L 24 s)"
  let ?s2 = "snd (fill_bytes L 15 ?s1)"
  note kl = derive_triple_keys_len [OF assms(2), of k]
  obtain l1 where l1: "seal_layer L XChaCha20 (tk1 ?k) (fst (fill_bytes L 24 s)) a p = Ok l1"
    by (rule seal_layer_total [OF assms(1) kl(1), of "fst (fill_bytes L 24 s)" XChaCha20 p a])
      (use assms(3) in simp_all)
  with assms(1,3) have len1: "length l1 < 2 ^ 30 + 16" by (auto dest: seal_layer_Ok)
  obtain l2 where l2: "seal_layer L Deoxys (tk2 ?k) (fst (fill_bytes L 15 ?s1)) a l1 = Ok l2"
    by (rule seal_layer_total [OF assms(1) kl(2), of "fst (fill_bytes L 15 ?s1)" Deoxys l1 a])
      (use len1 in simp_all)
  with len1 assms(1) have len2: "length l2 < 2 ^ 30 + 32" by (auto dest!: seal_layer_Ok)
  obtain l3 where l3: "seal_layer L SerpentEax (tk3 ?k) (fst (fill_bytes L 16 ?s2)) a l2 = Ok l3"
    by (rule seal_layer_total [OF assms(1) kl(3), of "fst (fill_bytes L 16 ?s2)" SerpentEax l2 a])
      (use len2 in simp_all)
  show thesis
    by (rule that) (simp add: encrypt_triple_def Let_def split_beta l1 l2 l3)
qed

lemma encrypt_single_total:
  assumes "aead_ok L" "length k = 32" "length p < 2 ^ 30" "c \<noteq> Triple"
  obtains b s' where "encrypt_single L k c a p s = (Ok b, s')"
proof -
  let ?n = "fst (fill_bytes L (nonce_section_len c) s)"
  obtain alg where alg: "single_alg c = Some alg" using assms(4) by (cases c) auto
  have "length ?n = alg_nonce_len alg" using single_alg_nonce [OF alg] by simp
  then obtain ct tag where "aead_seal L alg k ?n a p = Some (ct, tag)"
    by (rule aead_seal_total [OF assms(1,2), of ?n alg p a]) (use assms(3) in simp_all)
  then show thesis
    by (intro that) (simp add: encrypt_single_def Let_def split_beta alg)
qed

lemma encrypt_block_total:
  assumes "aead_ok L" "hash_ok L" "length k = 32" "length p < 2 ^ 30"
  obtains b where "encrypt_block L k c a p s = (Ok b, s\<lparr>sys_rng := sys_rng s + nonce_section_len c\<rparr>)"
proof -
  have "\<exists>b s'. encrypt_block L k c a p s = (Ok b, s')"
    by (metis encrypt_block_def encrypt_triple_total [OF assms(1,2,4)]
        encrypt_single_total [OF assms(1,3,4)] cipher_algorithm.case cipher_algorithm.exhaust)
  then show thesis using that encrypt_block_state by blast
qed

section \<open>What a successful decryption implies\<close>

lemma decrypt_single_Ok:
  assumes "decrypt_single L k c a d = Ok p"
  obtains alg where "single_alg c = Some alg" "8 + nonce_section_len c + 16 \<le> length d"
    "subrange 0 4 d = VNMB_MAGIC" "from_le (subrange 4 8 d) = VNMB_VERSION"
    "aead_open L alg k (subrange 8 (8 + nonce_section_len c) d) a
       (subrange (8 + nonce_section_len c) (length d - 16) d) (drop (length d - 16) d) = Some p"
  using assms
  by (auto simp: decrypt_single_def Let_def subrange_def add.commute split: if_splits option.splits)

lemma decrypt_triple_Ok:
  assumes "decrypt_triple L k a d = Ok p"
  obtains l1 l2 where "112 \<le> length d" "subrange 0 4 d = VNMB_MAGIC"
    "from_le (subrange 4 8 d) = VNMB_VERSION"
    "open_layer L SerpentEax (tk3 (derive_triple_keys L k)) (subrange 47 63 d) a (drop 63 d) = Ok l2"
    "open_layer L Deoxys (tk2 (derive_triple_keys L k)) (subrange 32 47 d) a l2 = Ok l1"
    "open_layer L XChaCha20 (tk1 (derive_triple_keys L k)) (subrange 8 32 d) a l1 = Ok p"
  using assms
  by (auto simp: decrypt_triple_def Let_def and_then_eq_Ok split: if_splits)

lemma decrypt_block_cases:
  "decrypt_block L k c a d =
     (if c = Triple then decrypt_triple L k a d else decrypt_single L k c a d)"
  by (cases c) (simp_all add: decrypt_block_def)

lemma decrypt_block_length:
  assumes "aead_ok L" "decrypt_block L k c a d = Ok p"
  shows "length d = vnmb_overhead c + length p"
proof (cases "c = Triple")
  case True
  with assms(2) have "decrypt_triple L k a d = Ok p" by (simp add: decrypt_block_cases)
  then show ?thesis
    by (rule decrypt_triple_Ok) (use True in \<open>auto dest!: open_layer_Ok [OF assms(1)]\<close>)
next
  case False
  with assms(2) have "decrypt_single L k c a d = Ok p" by (simp add: decrypt_block_cases)
  then show ?thesis
    by (rule decrypt_single_Ok)
      (use aead_open_len [OF assms(1)] single_alg_nonce in \<open>force simp: vnmb_overhead_def\<close>)
qed

lemma decrypt_block_no_panic:
  assumes "aead_ok L"
  shows "decrypt_block L k c a d \<noteq> Panic x"
proof (cases "c = Triple")
  case True
  have layers: "and_then (open_layer L SerpentEax k3 n3 a l) (\<lambda>l2. and_then (open_layer L Deoxys k2 n2 a l2)
      (\<lambda>l1. open_layer L XChaCha20 k1 n1 a l1)) \<noteq> Panic x" if "48 \<le> length l" for k1 k2 k3 n1 n2 n3 l
  proof (intro and_then_no_panic open_layer_no_panic)
    show "16 \<le> length l" using that by simp
    fix l2 assume l2: "open_layer L SerpentEax k3 n3 a l = Ok l2"
    from open_layer_Ok [OF assms l2] that show "16 \<le> length l2" by simp
    fix l1 assume "open_layer L Deoxys k2 n2 a l2 = Ok l1"
    from open_layer_Ok [OF assms this] open_layer_Ok [OF assms l2] that
    show "16 \<le> length l1" by simp
  qed
  from True show ?thesis
    by (auto simp: decrypt_block_cases decrypt_triple_def Let_def layers)
next
  case False
  then show ?thesis
    by (cases c) (auto simp: decrypt_block_cases decrypt_single_def Let_def ok_or_def split: option.splits)
qed

lemma decrypt_into_32_single:
  assumes "c \<noteq> Triple" "length d = 8 + nonce_section_len c + 48"
  shows "decrypt_block_into_32 L k c a d = decrypt_single L k c a d"
proof -
  have "length (drop (8 + nonce_section_len c) d) - 16 = 32"
    using assms(2) by simp
  with assms show ?thesis
    by (cases "single_alg c")
      (simp_all add: decrypt_block_into_32_def decrypt_single_def Let_def subrange_def add.commute)
qed

lemma decrypt_into_32_wrong_length:
  assumes "c \<noteq> Triple" "length d \<noteq> 8 + nonce_section_len c + 48"
  shows "decrypt_block_into_32 L k c a d = Err AuthenticationFailed"
  using assms by (simp add: decrypt_block_into_32_def Let_def)

lemma overhead_single: "c \<noteq> Triple \<Longrightarrow> vnmb_overhead c = 8 + nonce_section_len c + 16"
  by (cases c) simp_all

lemma decrypt_into_32_Ok_iff:
  assumes "aead_ok L"
  shows "decrypt_block_into_32 L k c a d = Ok p \<longleftrightarrow> decrypt_block L k c a d = Ok p \<and> length p = 32"
proof (cases "c = Triple")
  case True
  then show ?thesis
    by (auto simp: decrypt_block_into_32_def decrypt_block_cases and_then_eq_Ok)
next
  case False
  note len = decrypt_block_length [OF assms, of k c a d p]
  show ?thesis
  proof (cases "length d = 8 + nonce_section_len c + 48")
    case True
    with False len show ?thesis
      by (auto simp: decrypt_into_32_single decrypt_block_cases overhead_single)
  next
    case ne: False
    with False len show ?thesis
      by (auto simp: decrypt_into_32_wrong_length overhead_single)
  qed
qed

lemma decrypt_into_32_no_panic:
  assumes "aead_ok L"
  shows "decrypt_block_into_32 L k c a d \<noteq> Panic x"
proof (cases "c = Triple")
  case True
  with decrypt_block_no_panic [OF assms, of k c a d] show ?thesis
    by (cases "decrypt_triple L k a d") (auto simp: decrypt_block_into_32_def decrypt_block_cases)
next
  case False
  then show ?thesis
    by (cases c) (auto simp: decrypt_block_into_32_def Let_def ok_or_def split: option.splits)
qed

section \<open>The interface: a sealed box\<close>

text \<open>
  What the header, the recipient slots, the data slots and the key files rely on: a block
  has a known size and opens to what was sealed, wherever in a buffer it was put.
\<close>

locale sealed_box =
  fixes lawful :: "'l \<Rightarrow> bool"
    and seal :: "'l \<Rightarrow> bytes \<Rightarrow> 'c \<Rightarrow> bytes \<Rightarrow> bytes \<Rightarrow> ('s, 'e, bytes) op"
    and unseal :: "'l \<Rightarrow> bytes \<Rightarrow> 'c \<Rightarrow> bytes \<Rightarrow> bytes \<Rightarrow> ('e, bytes) outcome"
    and overhead :: "'c \<Rightarrow> nat"
    and openable :: "'c \<Rightarrow> bytes \<Rightarrow> bool"
  assumes seal_length: "lawful L \<Longrightarrow> seal L k c a p s = (Ok b, s') \<Longrightarrow> length b = overhead c + length p"
    and unseal_seal: "lawful L \<Longrightarrow> openable c p \<Longrightarrow> seal L k c a p s = (Ok b, s') \<Longrightarrow> unseal L k c a b = Ok p"
begin

lemma unseal_embedded:
  assumes "lawful L" "openable c p" "seal L k c a p s = (Ok b, s')"
    and "copy_into off b buf = (Ok buf' :: ('f, bytes) outcome)" "n = overhead c + length p"
  shows "unseal L k c a (subrange off (off + n) buf') = Ok p"
proof -
  from assms(4) have "off + length b \<le> length buf" and "buf' = blit off b buf"
    by (simp_all add: copy_into_def split: if_splits)
  moreover have "n = length b"
    using seal_length [OF assms(1,3)] assms(5) by simp
  ultimately have "subrange off (off + n) buf' = b" by simp
  with unseal_seal [OF assms(1-3)] show ?thesis by simp
qed

lemma unseal_framed:
  assumes "lawful L" "openable c p" "seal L k c a p s = (Ok b, s')"
    and "length b < 2 ^ 32" "buf = to_le 4 (length b) @ b @ pad"
  shows "from_le (subrange 0 4 buf) = overhead c + length p"
    and "unseal L k c a (subrange 4 (4 + from_le (subrange 0 4 buf)) buf) = Ok p"
proof -
  have "subrange 0 4 buf = to_le 4 (length b)"
    by (simp add: assms(5) subrange_def)
  then have len: "from_le (subrange 0 4 buf) = length b" using assms(4) by simp
  with seal_length [OF assms(1,3)] show "from_le (subrange 0 4 buf) = overhead c + length p" by simp
  have "subrange 4 (4 + length b) buf = b"
    by (simp add: assms(5) subrange_def)
  with len unseal_seal [OF assms(1-3)]
  show "unseal L k c a (subrange 4 (4 + from_le (subrange 0 4 buf)) buf) = Ok p" by simp
qed

end

text \<open>A triple block with an empty payload is written but refused on reading.\<close>

definition openable_payload :: "cipher_algorithm \<Rightarrow> bytes \<Rightarrow> bool" where
  "openable_payload c p \<longleftrightarrow> (c = Triple \<longrightarrow> p \<noteq> [])"

lemma openable_payloadI: "p \<noteq> [] \<Longrightarrow> openable_payload c p"
  by (simp add: openable_payload_def)

interpretation vnmb: sealed_box aead_ok encrypt_block decrypt_block vnmb_overhead openable_payload
  by unfold_locales
    (auto simp: openable_payload_def encrypt_block_length decrypt_encrypt_block)

end
