(* ===== verification/Kdf_Kem.thy ===== *)
theory Kdf_Kem
  imports Cipher
begin

text \<open>
  Key derivation and key encapsulation: the Argon2id wrapper (crypto/kdf.rs), derived
  keys (crypto/keys.rs), the ML-KEM-1024 wrapper (crypto/kem.rs) and the X25519 +
  ML-KEM hybrid (crypto/hybrid_kem.rs). The main fact is that decapsulation with the
  private key recovers the secret encapsulated to the matching public key.
\<close>

section \<open>Password-based keys\<close>

definition kdf_params_for_profile_id :: "byte \<Rightarrow> kdf_params" where
  "kdf_params_for_profile_id profile_id =
     kdf_params_for_profile (if profile_id = 1 then ''sensitive'' else ''interactive'')"

definition generate_salt :: "libs \<Rightarrow> 'a sys_scheme \<Rightarrow> string \<times> 'a sys_scheme" where
  "generate_salt L s = (let (salt, s') = fill_bytes L 32 s in (hex_encode L salt, s'))"

definition derive_key :: "libs \<Rightarrow> bytes \<Rightarrow> kdf_params \<Rightarrow> bytes result" where
  "derive_key L password params =
     (case hex_decode L (kdf_salt params) of
        None \<Rightarrow> Err (KdfError ''invalid salt hex'')
      | Some salt_bytes \<Rightarrow>
          ok_or (KdfError ''argon2'')
            (argon2id L (memory_kib params) (iterations params) (parallelism params) 32 password salt_bytes))"

definition as_array_32 :: "bytes \<Rightarrow> bytes option" where
  "as_array_32 k = (if length k = 32 then Some k else None)"

text \<open>Argon2id of a password under a raw salt and a profile, as every caller uses it.\<close>

definition salted_params :: "libs \<Rightarrow> byte \<Rightarrow> bytes \<Rightarrow> kdf_params" where
  "salted_params L kdf_profile salt =
     (kdf_params_for_profile_id kdf_profile)\<lparr>kdf_salt := hex_encode L salt\<rparr>"

lemma derive_key_salted:
  assumes "kdf_ok L"
  shows "derive_key L pw (salted_params L prof salt) =
    ok_or (KdfError ''argon2'')
      (argon2id L (memory_kib (kdf_params_for_profile_id prof)) (iterations (kdf_params_for_profile_id prof))
        (parallelism (kdf_params_for_profile_id prof)) 32 pw salt)"
  using assms by (simp add: derive_key_def salted_params_def kdf_ok_def)

lemma derive_key_len:
  assumes "kdf_ok L" "derive_key L pw params = Ok k"
  shows "length k = 32"
  using assms by (auto simp: derive_key_def kdf_ok_def split: option.splits)

lemma derive_key_no_panic: "derive_key L pw params \<noteq> Panic x"
  by (auto simp: derive_key_def ok_or_def split: option.splits)

lemma as_array_32_Some [simp]: "length k = 32 \<Longrightarrow> as_array_32 k = Some k"
  by (simp add: as_array_32_def)

lemma derive_key_total:
  assumes "kdf_ok L" "8 \<le> length salt" "length salt \<le> 64" "length pw < 2 ^ 32"
  obtains k where "derive_key L pw (salted_params L prof salt) = Ok k" "length k = 32"
proof -
  let ?p = "kdf_params_for_profile_id prof"
  have "1 \<le> iterations ?p \<and> 1 \<le> parallelism ?p \<and> 8 * parallelism ?p \<le> memory_kib ?p \<and>
    memory_kib ?p < 2 ^ 24 \<and> iterations ?p < 2 ^ 24 \<and> parallelism ?p < 2 ^ 24"
    by (simp add: kdf_params_for_profile_id_def kdf_params_for_profile_def
        kdf_sensitive_def kdf_interactive_def)
  with assms obtain k where
    "argon2id L (memory_kib ?p) (iterations ?p) (parallelism ?p) 32 pw salt = Some k"
    unfolding kdf_ok_def by blast
  then have "derive_key L pw (salted_params L prof salt) = Ok k"
    by (simp add: derive_key_salted [OF assms(1)])
  with derive_key_len [OF assms(1)] that show thesis by blast
qed

section \<open>ML-KEM-1024\<close>

definition SEED_SIZE :: nat where
  [simp]: "SEED_SIZE = 64"

definition EK_SIZE :: nat where
  [simp]: "EK_SIZE = 1568"

definition CT_SIZE :: nat where
  [simp]: "CT_SIZE = 1568"

definition SS_SIZE :: nat where
  [simp]: "SS_SIZE = 32"

definition kem_generate :: "libs \<Rightarrow> 'a sys_scheme \<Rightarrow> (bytes \<times> bytes) \<times> 'a sys_scheme" where
  "kem_generate L s = (let (seed, s') = fill_bytes L SEED_SIZE s in ((seed, mlkem_ek L seed), s'))"

definition ek_from_seed :: "libs \<Rightarrow> bytes \<Rightarrow> bytes" where
  "ek_from_seed L seed = mlkem_ek L seed"

definition kem_encapsulate :: "libs \<Rightarrow> bytes \<Rightarrow> ('a sys_scheme, vnm_error, bytes \<times> bytes) op" where
  "kem_encapsulate L ek s =
     (let (r, s') = fill_bytes L 32 s
      in case mlkem_encaps L ek r of
           None \<Rightarrow> (Err (CipherError ''invalid ML-KEM public key''), s')
         | Some (ct, ss) \<Rightarrow>
             (if length ct \<noteq> CT_SIZE then Err (CipherError ''CT size mismatch'')
              else if length ss \<noteq> SS_SIZE then Err (CipherError ''SS size mismatch'')
              else Ok (ct, ss), s'))"

definition kem_decapsulate :: "libs \<Rightarrow> bytes \<Rightarrow> bytes \<Rightarrow> bytes result" where
  "kem_decapsulate L seed ct =
     (let ss = mlkem_decaps L seed ct
      in if length ss \<noteq> SS_SIZE then Err (CipherError ''SS size mismatch'') else Ok ss)"

definition kem_fingerprint :: "libs \<Rightarrow> bytes \<Rightarrow> bytes" where
  "kem_fingerprint L ek = take 8 (blake3_hash L ek)"

section \<open>The hybrid\<close>

definition X25519_SK_SIZE :: nat where
  [simp]: "X25519_SK_SIZE = 32"

definition X25519_PK_SIZE :: nat where
  [simp]: "X25519_PK_SIZE = 32"

record hybrid_public_key =
  x25519_pk :: bytes
  mlkem_ek_bytes :: bytes

record hybrid_private_key =
  x25519_sk :: bytes
  mlkem_seed :: bytes
  hybrid_public :: hybrid_public_key

record hybrid_ciphertext =
  x25519_eph_pk :: bytes
  mlkem_ct :: bytes
  shared_secret :: bytes

definition hybrid_fingerprint :: "libs \<Rightarrow> hybrid_public_key \<Rightarrow> bytes" where
  "hybrid_fingerprint L pk = take 8 (blake3_hash L (x25519_pk pk @ mlkem_ek_bytes pk))"

definition hybrid_generate :: "libs \<Rightarrow> 'a sys_scheme \<Rightarrow> hybrid_private_key \<times> 'a sys_scheme" where
  "hybrid_generate L s =
     (let (sk, s1) = fill_bytes L X25519_SK_SIZE s;
          pk = x25519_public L sk;
          ((seed, ek), s2) = kem_generate L s1
      in (\<lparr>x25519_sk = sk, mlkem_seed = seed,
           hybrid_public = \<lparr>x25519_pk = pk, mlkem_ek_bytes = ek\<rparr>\<rparr>, s2))"

definition combine :: "libs \<Rightarrow> bytes \<Rightarrow> bytes \<Rightarrow> bytes \<Rightarrow> bytes \<Rightarrow> bytes" where
  "combine L x25519_ss mlkem_ss eph_pk ct =
     blake3_derive_key L ''venom:hybrid:v1'' (x25519_ss @ mlkem_ss @ eph_pk @ ct)"

definition hybrid_encapsulate ::
    "libs \<Rightarrow> hybrid_public_key \<Rightarrow> ('a sys_scheme, vnm_error, hybrid_ciphertext) op" where
  "hybrid_encapsulate L recipient s =
     (let (eph_sk, s1) = fill_bytes L X25519_SK_SIZE s;
          eph_pk = x25519_public L eph_sk;
          shared = x25519_dh L eph_sk (x25519_pk recipient)
      in then_op (kem_encapsulate L (mlkem_ek_bytes recipient)) (\<lambda>(ct, ss).
           return_op (Ok \<lparr>x25519_eph_pk = eph_pk, mlkem_ct = ct,
             shared_secret = combine L shared ss eph_pk ct\<rparr>)) s1)"

definition hybrid_decapsulate :: "libs \<Rightarrow> hybrid_private_key \<Rightarrow> bytes \<Rightarrow> bytes \<Rightarrow> bytes result" where
  "hybrid_decapsulate L private eph_pk ct =
     (let shared = x25519_dh L (x25519_sk private) eph_pk
      in and_then (kem_decapsulate L (mlkem_seed private) ct)
           (\<lambda>ss. Ok (combine L shared ss eph_pk ct)))"

text \<open>The cached public key of a private key is the one its secrets give.\<close>

definition keypair_ok :: "libs \<Rightarrow> hybrid_private_key \<Rightarrow> bool" where
  "keypair_ok L key \<longleftrightarrow>
     length (x25519_sk key) = 32 \<and> length (mlkem_seed key) = 64 \<and>
     hybrid_public key = \<lparr>x25519_pk = x25519_public L (x25519_sk key),
       mlkem_ek_bytes = mlkem_ek L (mlkem_seed key)\<rparr>"

lemma hybrid_generate_keypair: "keypair_ok L (fst (hybrid_generate L s))"
  by (simp add: keypair_ok_def hybrid_generate_def kem_generate_def Let_def split_beta)

lemma kem_encapsulate_Ok:
  assumes "kem_ok L" "length seed = 64" "kem_encapsulate L (mlkem_ek L seed) s = (Ok (ct, ss), s')"
  shows "length ct = 1568 \<and> length ss = 32 \<and> kem_decapsulate L seed ct = Ok ss"
  using assms
  by (auto simp: kem_encapsulate_def kem_decapsulate_def kem_ok_def Let_def
      split: option.splits prod.splits if_splits)

lemma hybrid_encapsulate_Ok:
  assumes "kem_ok L" "hash_ok L" "keypair_ok L key"
    and "hybrid_encapsulate L (hybrid_public key) s = (Ok hc, s')"
  shows "length (x25519_eph_pk hc) = 32" "length (mlkem_ct hc) = 1568" "length (shared_secret hc) = 32"
    and "hybrid_decapsulate L key (x25519_eph_pk hc) (mlkem_ct hc) = Ok (shared_secret hc)"
proof -
  define esk where "esk = fst (fill_bytes L 32 s)"
  then have esk: "length esk = 32" by simp
  from assms(3,4) obtain ct ss
    where enc: "kem_encapsulate L (mlkem_ek L (mlkem_seed key)) (snd (fill_bytes L 32 s)) = (Ok (ct, ss), s')"
    and hc: "hc = \<lparr>x25519_eph_pk = x25519_public L esk, mlkem_ct = ct,
      shared_secret = combine L (x25519_dh L esk (x25519_public L (x25519_sk key))) ss
        (x25519_public L esk) ct\<rparr>"
    by (auto simp: hybrid_encapsulate_def keypair_ok_def Let_def split_beta then_op_eq_Ok esk_def)
  from assms(3) have kp: "length (x25519_sk key) = 32" "length (mlkem_seed key) = 64"
    by (simp_all add: keypair_ok_def)
  note kem = kem_encapsulate_Ok [OF assms(1) kp(2) enc]
  from assms(1) esk kp(1) have dh:
    "x25519_dh L (x25519_sk key) (x25519_public L esk) = x25519_dh L esk (x25519_public L (x25519_sk key))"
    by (simp add: kem_ok_def)
  from assms(1,2) kem dh hc
  show "length (x25519_eph_pk hc) = 32" "length (mlkem_ct hc) = 1568" "length (shared_secret hc) = 32"
    "hybrid_decapsulate L key (x25519_eph_pk hc) (mlkem_ct hc) = Ok (shared_secret hc)"
    by (simp_all add: kem_ok_def hybrid_decapsulate_def Let_def combine_def lens)
qed

lemma hybrid_encapsulate_total:
  assumes "kem_ok L" "keypair_ok L key"
  obtains hc s' where "hybrid_encapsulate L (hybrid_public key) s = (Ok hc, s')"
proof -
  let ?s1 = "snd (fill_bytes L 32 s)"
  from assms obtain ct ss where e:
    "mlkem_encaps L (mlkem_ek L (mlkem_seed key)) (fst (fill_bytes L 32 ?s1)) = Some (ct, ss)"
    unfolding kem_ok_def keypair_ok_def by (metis option.exhaust surj_pair)
  with assms(1) have "length ct = 1568" "length ss = 32"
    unfolding kem_ok_def by blast+
  with e have "kem_encapsulate L (mlkem_ek L (mlkem_seed key)) ?s1 = (Ok (ct, ss), snd (fill_bytes L 32 ?s1))"
    by (simp add: kem_encapsulate_def Let_def split_beta)
  with assms(2) show thesis
    by (intro that) (simp add: hybrid_encapsulate_def keypair_ok_def Let_def split_beta)
qed

lemma hybrid_encapsulate_no_panic: "hybrid_encapsulate L pk s \<noteq> (Panic x, s')"
  by (auto simp: hybrid_encapsulate_def kem_encapsulate_def then_op_def Let_def split_beta
      split: outcome.splits option.splits if_splits)

lemma hybrid_encapsulate_frame:
  "hybrid_encapsulate L pk s = (r, s') \<Longrightarrow> s' = s\<lparr>sys_rng := sys_rng s + 64\<rparr>"
  by (auto simp: hybrid_encapsulate_def kem_encapsulate_def then_op_def fill_bytes_def Let_def split_beta
      split: outcome.splits option.splits if_splits)

end
