(* ===== verification/Recipient.thy ===== *)
theory Recipient
  imports Kdf_Kem
begin

text \<open>
  On-disk recipient slots (container/recipient.rs): each wraps the master key for one
  credential. Decryption is blind: the slot says neither the cipher nor the recipient,
  and every cipher is tried in turn.
\<close>

section \<open>Layout\<close>

definition VNMB_ENCRYPTED_32_MAX :: nat where
  [simp]: "VNMB_ENCRYPTED_32_MAX = 143"

definition vnmb_enc_32 :: "cipher_algorithm \<Rightarrow> nat" where
  "vnmb_enc_32 c = vnmb_overhead c + 32"

definition PW_SLOT_SIZE :: nat where
  [simp]: "PW_SLOT_SIZE = 32 + 1 + VNMB_ENCRYPTED_32_MAX"

definition KEY_SLOT_SIZE :: nat where
  [simp]: "KEY_SLOT_SIZE = X25519_PK_SIZE + CT_SIZE + VNMB_ENCRYPTED_32_MAX"

definition AAD_PW :: bytes where
  "AAD_PW = str_bytes ''vnm:pw:v1''"

definition AAD_KEY :: bytes where
  "AAD_KEY = str_bytes ''vnm:key:v1''"

lemma vnmb_enc_32_max: "vnmb_enc_32 c \<le> VNMB_ENCRYPTED_32_MAX"
  using vnmb_overhead_bounds [of c] by (simp add: vnmb_enc_32_def)

section \<open>Password slots\<close>

definition encode_password_slot ::
    "libs \<Rightarrow> bytes \<Rightarrow> bytes \<Rightarrow> byte \<Rightarrow> ('a sys_scheme, vnm_error, bytes) op" where
  "encode_password_slot L k_master password kdf_profile s =
     (let buf = replicate PW_SLOT_SIZE 0;
          (salt, s1) = fill_bytes L 32 s;
          buf = blit 0 salt buf;
          buf = buf[32 := kdf_profile]
      in then_op (return_op (derive_key L password (salted_params L kdf_profile salt))) (\<lambda>dk.
           case as_array_32 dk of
             None \<Rightarrow> return_op (Panic ''called unwrap on a None value'')
           | Some key \<Rightarrow>
               then_op (encrypt_block L key Triple AAD_PW k_master)
                 (\<lambda>enc. return_op (copy_into 33 enc buf))) s1)"

text \<open>Trying the ciphers in order until one authenticates.\<close>

fun probe :: "(cipher_algorithm \<Rightarrow> 'k result) \<Rightarrow> cipher_algorithm list \<Rightarrow> ('k \<times> cipher_algorithm) option result" where
  "probe f [] = Ok None"
| "probe f (c # cs) = (case f c of Ok k \<Rightarrow> Ok (Some (k, c)) | Err e \<Rightarrow> probe f cs | Panic p \<Rightarrow> Panic p)"

text \<open>The key a password slot is wrapped with; \<open>None\<close> when derivation fails.\<close>

definition pw_slot_key :: "libs \<Rightarrow> bytes \<Rightarrow> bytes \<Rightarrow> bytes option result" where
  "pw_slot_key L slot password =
     (let salt = subrange 0 32 slot; kdf_profile = slot ! 32
      in and_then_some (ok_opt (derive_key L password (salted_params L kdf_profile salt)))
           (\<lambda>dk. Ok (as_array_32 dk)))"

definition open_pw_slot_with :: "libs \<Rightarrow> bytes \<Rightarrow> bytes \<Rightarrow> cipher_algorithm \<Rightarrow> bytes result" where
  "open_pw_slot_with L slot key c =
     (let enc_end = 33 + vnmb_enc_32 c
      in decrypt_block_into_32 L key c AAD_PW (subrange 33 enc_end slot))"

definition try_password_slot ::
    "libs \<Rightarrow> bytes \<Rightarrow> bytes \<Rightarrow> (bytes \<times> cipher_algorithm) option result" where
  "try_password_slot L slot password =
     and_then_some (pw_slot_key L slot password)
       (\<lambda>key. probe (open_pw_slot_with L slot key) ALL_CIPHERS)"

section \<open>Hybrid key slots\<close>

definition encode_key_slot ::
    "libs \<Rightarrow> bytes \<Rightarrow> hybrid_public_key \<Rightarrow> cipher_algorithm \<Rightarrow> ('a sys_scheme, vnm_error, bytes) op" where
  "encode_key_slot L k_master recipient c s =
     (let buf = replicate KEY_SLOT_SIZE 0
      in then_op (hybrid_encapsulate L recipient) (\<lambda>ct.
           let buf = blit 0 (x25519_eph_pk ct) buf;
               buf = blit X25519_PK_SIZE (mlkem_ct ct) buf
           in then_op (encrypt_block L (shared_secret ct) c AAD_KEY k_master)
                (\<lambda>enc. return_op (copy_into (X25519_PK_SIZE + CT_SIZE) enc buf))) s)"

definition key_slot_secret :: "libs \<Rightarrow> bytes \<Rightarrow> hybrid_private_key \<Rightarrow> bytes option result" where
  "key_slot_secret L slot private =
     (let eph_pk = subrange 0 X25519_PK_SIZE slot;
          ct = subrange X25519_PK_SIZE (X25519_PK_SIZE + CT_SIZE) slot
      in ok_opt (hybrid_decapsulate L private eph_pk ct))"

definition open_key_slot_with :: "libs \<Rightarrow> bytes \<Rightarrow> bytes \<Rightarrow> cipher_algorithm \<Rightarrow> bytes result" where
  "open_key_slot_with L slot shared c =
     (let enc_base = X25519_PK_SIZE + CT_SIZE; enc_end = enc_base + vnmb_enc_32 c
      in decrypt_block_into_32 L shared c AAD_KEY (subrange enc_base enc_end slot))"

definition try_key_slot ::
    "libs \<Rightarrow> bytes \<Rightarrow> hybrid_private_key \<Rightarrow> (bytes \<times> cipher_algorithm) option result" where
  "try_key_slot L slot private =
     and_then_some (key_slot_secret L slot private)
       (\<lambda>shared. probe (open_key_slot_with L slot shared) ALL_CIPHERS)"

section \<open>Blind probing\<close>

lemma probe_Some:
  assumes "probe f cs = Ok (Some (k, c))"
  shows "c \<in> set cs \<and> f c = Ok k"
  using assms by (induction cs) (auto split: outcome.splits)

lemma probe_first:
  assumes "f c = Ok k" "cs = pre @ c # post" "\<And>c'. c' \<in> set pre \<Longrightarrow> \<exists>e. f c' = Err e"
  shows "probe f cs = Ok (Some (k, c))"
  using assms(2,3)
proof (induction pre arbitrary: cs)
  case Nil
  then show ?case by (simp add: assms(1))
next
  case (Cons c' pre)
  from Cons.prems(2) [of c'] obtain e where "f c' = Err e" by auto
  with Cons show ?case by simp
qed

lemma probe_None:
  assumes "\<And>c x. f c \<noteq> Panic x"
  shows "probe f cs = Ok None \<longleftrightarrow> (\<forall>c \<in> set cs. \<forall>k. f c \<noteq> Ok k)"
  using assms by (induction cs) (auto split: outcome.splits)

lemma probe_no_panic: "(\<And>c x. f c \<noteq> Panic x) \<Longrightarrow> probe f cs \<noteq> Panic p"
  by (induction cs) (auto split: outcome.splits)

lemma probe_not_Err [simp]: "probe f cs \<noteq> Err e"
  by (induction cs) (auto split: outcome.splits)

text \<open>The ciphers tried before \<open>c\<close>.\<close>

definition tried_before :: "cipher_algorithm \<Rightarrow> cipher_algorithm list" where
  "tried_before c = takeWhile (\<lambda>d. d \<noteq> c) ALL_CIPHERS"

lemma tried_before_split: "\<exists>post. ALL_CIPHERS = tried_before c @ c # post"
  by (cases c) (simp_all add: tried_before_def ALL_CIPHERS_def)

lemma not_Ok_Err: "(\<And>k. r \<noteq> Ok k) \<Longrightarrow> (\<And>x. r \<noteq> Panic x) \<Longrightarrow> \<exists>e. r = Err e"
  by (cases r) auto

lemma open_slot_no_panic:
  assumes "aead_ok L"
  shows "open_pw_slot_with L slot key c \<noteq> Panic x" "open_key_slot_with L slot key c \<noteq> Panic x"
  using decrypt_into_32_no_panic [OF assms]
  by (simp_all add: open_pw_slot_with_def open_key_slot_with_def Let_def)

section \<open>Round trips\<close>

lemma encode_password_slot_Ok:
  assumes "aead_ok L" "kdf_ok L" "length k_master = 32"
    and "encode_password_slot L k_master pw prof s = (Ok slot, s')"
  obtains key where "pw_slot_key L slot pw = Ok (Some key)" "length slot = PW_SLOT_SIZE"
    "open_pw_slot_with L slot key Triple = Ok k_master"
proof -
  define salt where "salt = fst (fill_bytes L 32 s)"
  define buf where "buf = (blit 0 salt (replicate PW_SLOT_SIZE 0))[32 := prof]"
  from assms(4) obtain key enc where key: "derive_key L pw (salted_params L prof salt) = Ok key"
    and key32: "length key = 32"
    and enc: "encrypt_block L key Triple AAD_PW k_master (snd (fill_bytes L 32 s)) = (Ok enc, s')"
    and copy: "copy_into 33 enc buf = (Ok slot :: bytes result)"
    by (auto simp: encode_password_slot_def then_op_eq_Ok Let_def split_beta as_array_32_def
        salt_def buf_def split: option.splits if_splits)
  have len: "length salt = 32" "length buf = 176"
    by (simp_all add: salt_def buf_def)
  from encrypt_block_length [OF assms(1) enc] assms(3) have lenc: "length enc = 143" by simp
  with copy len have slot: "slot = blit 33 enc buf" by (simp add: copy_into_def)
  have slot_len: "length slot = PW_SLOT_SIZE" using lenc len by (simp add: slot)
  have "subrange 0 32 slot = subrange 0 32 buf"
    using lenc len by (simp add: slot subrange_blit_other)
  also have "\<dots> = salt"
    using len by (simp add: buf_def subrange_def blit_def)
  finally have "subrange 0 32 slot = salt" .
  moreover have "slot ! 32 = prof"
    using lenc len by (simp add: slot nth_blit) (simp add: buf_def len)
  ultimately have "pw_slot_key L slot pw = Ok (Some key)"
    by (simp add: pw_slot_key_def Let_def key key32)
  moreover have "open_pw_slot_with L slot key Triple = Ok k_master"
    using vnmb.unseal_embedded [OF assms(1) _ enc copy, of 143] assms(3)
    by (simp add: open_pw_slot_with_def Let_def vnmb_enc_32_def decrypt_into_32_Ok_iff [OF assms(1)]
        openable_payload_def) (use assms(3) in force)
  ultimately show thesis using that slot_len by blast
qed

lemma encode_password_slot_total:
  assumes "aead_ok L" "hash_ok L" "kdf_ok L" "length k_master = 32" "length pw < 2 ^ 32"
  obtains slot s' where "encode_password_slot L k_master pw prof s = (Ok slot, s')"
proof -
  define salt where "salt = fst (fill_bytes L 32 s)"
  have sl: "length salt = 32" by (simp add: salt_def)
  from derive_key_total [OF assms(3), of salt pw prof] sl assms(5) obtain key where
    key: "derive_key L pw (salted_params L prof salt) = Ok key" "length key = 32" by auto
  obtain enc s2 where enc: "encrypt_block L key Triple AAD_PW k_master (snd (fill_bytes L 32 s)) = (Ok enc, s2)"
    by (rule encrypt_block_total [OF assms(1,2) key(2)]) (use assms(4) in auto)
  from encrypt_block_length [OF assms(1) enc] assms(4) have "length enc = 143" by simp
  then have "\<exists>slot s'. encode_password_slot L k_master pw prof s = (Ok slot, s')"
    using key enc sl by (simp add: encode_password_slot_def Let_def split_beta salt_def copy_into_def)
  then show thesis using that by blast
qed

lemma encode_key_slot_Ok:
  assumes "aead_ok L" "kem_ok L" "hash_ok L" "keypair_ok L key" "length k_master = 32"
    and "encode_key_slot L k_master (hybrid_public key) c s = (Ok slot, s')"
  obtains shared where "key_slot_secret L slot key = Ok (Some shared)" "length slot = KEY_SLOT_SIZE"
    "open_key_slot_with L slot shared c = Ok k_master"
proof -
  from assms(6) obtain hc enc s1 s2 where hc: "hybrid_encapsulate L (hybrid_public key) s = (Ok hc, s1)"
    and enc: "encrypt_block L (shared_secret hc) c AAD_KEY k_master s1 = (Ok enc, s2)"
    and copy: "copy_into 1600 enc (blit 32 (mlkem_ct hc) (blit 0 (x25519_eph_pk hc) (replicate 1743 0)))
      = (Ok slot :: bytes result)"
    by (auto simp: encode_key_slot_def then_op_eq_Ok Let_def)
  note hcl = hybrid_encapsulate_Ok [OF assms(2,3,4) hc]
  define buf where "buf = blit 32 (mlkem_ct hc) (blit 0 (x25519_eph_pk hc) (replicate 1743 0))"
  have len: "length buf = 1743" using hcl(1,2) by (simp add: buf_def)
  from encrypt_block_length [OF assms(1) enc] assms(5) have lenc: "length enc = vnmb_overhead c + 32"
    by simp
  have fits: "1600 + length enc \<le> length buf"
    using vnmb_overhead_bounds(2) [of c] by (simp add: lenc len)
  with copy have slot: "slot = blit 1600 enc buf" by (simp add: copy_into_def buf_def)
  have slot_len: "length slot = KEY_SLOT_SIZE" using fits len by (simp add: slot)
  have "subrange 0 32 slot = x25519_eph_pk hc" "subrange 32 1600 slot = mlkem_ct hc"
    using fits len hcl(1,2)
    by (simp_all add: slot subrange_blit_other) (simp_all add: buf_def subrange_blit_other)
  then have "key_slot_secret L slot key = Ok (Some (shared_secret hc))"
    using hcl(4) by (simp add: key_slot_secret_def Let_def)
  moreover have "k_master \<noteq> []" using assms(5) by force
  then have "open_key_slot_with L slot (shared_secret hc) c = Ok k_master"
    using vnmb.unseal_embedded [OF assms(1) _ enc copy, of "vnmb_overhead c + 32"] assms(5)
    by (simp add: open_key_slot_with_def Let_def vnmb_enc_32_def decrypt_into_32_Ok_iff [OF assms(1)]
        openable_payload_def)
  ultimately show thesis using that slot_len by blast
qed

lemma encode_key_slot_total:
  assumes "aead_ok L" "hash_ok L" "kem_ok L" "keypair_ok L key" "length k_master = 32"
  obtains slot s' where "encode_key_slot L k_master (hybrid_public key) c s = (Ok slot, s')"
proof -
  obtain hc s1 where hc: "hybrid_encapsulate L (hybrid_public key) s = (Ok hc, s1)"
    by (rule hybrid_encapsulate_total [OF assms(3,4)])
  note hcl = hybrid_encapsulate_Ok [OF assms(3,2,4) hc]
  obtain enc s2 where enc: "encrypt_block L (shared_secret hc) c AAD_KEY k_master s1 = (Ok enc, s2)"
    by (rule encrypt_block_total [OF assms(1,2) hcl(3)]) (use assms(5) in auto)
  have "length enc \<le> 143"
    using encrypt_block_length [OF assms(1) enc] assms(5) vnmb_overhead_bounds(2) [of c] by simp
  then have "\<exists>slot. encode_key_slot L k_master (hybrid_public key) c s = (Ok slot, s2)"
    using hc enc hcl(1,2) by (simp add: encode_key_slot_def Let_def copy_into_def)
  then show thesis using that by blast
qed

text \<open>
  The blind probing finds the master key unless a cipher tried earlier accepts the slot's
  bytes under the slot's key, which would be a forgery against that cipher.
\<close>

lemma try_password_slot_finds:
  assumes "aead_ok L" "pw_slot_key L slot pw = Ok (Some key)" "open_pw_slot_with L slot key c = Ok k"
    and "\<And>d k'. d \<in> set (tried_before c) \<Longrightarrow> open_pw_slot_with L slot key d \<noteq> Ok k'"
  shows "try_password_slot L slot pw = Ok (Some (k, c))"
proof -
  obtain post where "ALL_CIPHERS = tried_before c @ c # post" using tried_before_split by blast
  moreover have "\<exists>e. open_pw_slot_with L slot key d = Err e" if "d \<in> set (tried_before c)" for d
    using assms(4) [OF that] open_slot_no_panic [OF assms(1)] by (intro not_Ok_Err) auto
  ultimately have "probe (open_pw_slot_with L slot key) ALL_CIPHERS = Ok (Some (k, c))"
    using assms(3) by (intro probe_first) auto
  with assms(2) show ?thesis by (simp add: try_password_slot_def)
qed

lemma try_key_slot_finds:
  assumes "aead_ok L" "key_slot_secret L slot key = Ok (Some sh)" "open_key_slot_with L slot sh c = Ok k"
    and "\<And>d k'. d \<in> set (tried_before c) \<Longrightarrow> open_key_slot_with L slot sh d \<noteq> Ok k'"
  shows "try_key_slot L slot key = Ok (Some (k, c))"
proof -
  obtain post where "ALL_CIPHERS = tried_before c @ c # post" using tried_before_split by blast
  moreover have "\<exists>e. open_key_slot_with L slot sh d = Err e" if "d \<in> set (tried_before c)" for d
    using assms(4) [OF that] open_slot_no_panic [OF assms(1)] by (intro not_Ok_Err) auto
  ultimately have "probe (open_key_slot_with L slot sh) ALL_CIPHERS = Ok (Some (k, c))"
    using assms(3) by (intro probe_first) auto
  with assms(2) show ?thesis by (simp add: try_key_slot_def)
qed

text \<open>Whatever the slot holds, trying it does not panic.\<close>

lemma hybrid_decapsulate_no_panic: "hybrid_decapsulate L key eph ct \<noteq> Panic x"
  by (simp add: hybrid_decapsulate_def kem_decapsulate_def Let_def)

lemma try_password_slot_no_panic: "aead_ok L \<Longrightarrow> try_password_slot L slot pw \<noteq> Panic x"
  unfolding try_password_slot_def pw_slot_key_def Let_def
  by (intro and_then_some_no_panic probe_no_panic)
    (auto simp: derive_key_no_panic open_slot_no_panic)

lemma try_key_slot_no_panic: "aead_ok L \<Longrightarrow> try_key_slot L slot key \<noteq> Panic x"
  unfolding try_key_slot_def key_slot_secret_def Let_def
  by (intro and_then_some_no_panic probe_no_panic)
    (auto simp: hybrid_decapsulate_no_panic open_slot_no_panic)

lemma try_slot_not_Err [simp]:
  "try_password_slot L slot pw \<noteq> Err e" "try_key_slot L slot key \<noteq> Err e"
  unfolding try_password_slot_def try_key_slot_def pw_slot_key_def key_slot_secret_def Let_def
  by (intro and_then_some_not_Err; simp)+

end
