(* ===== verification/Header.thy ===== *)
theory Header
  imports Recipient
begin

text \<open>
  The 512-byte container header (container/header.rs): 68 plaintext bytes (salt, a zero
  cipher byte, KDF profile, the two slot counts) and a VNMB block with the metadata. The
  lemmas give the round trip and what the encryption does and does not protect.
\<close>

section \<open>Layout constants\<close>

definition HEADER_SIZE :: nat where
  [simp]: "HEADER_SIZE = 512"

definition HEADER_REGION_SIZE :: nat where
  [simp]: "HEADER_REGION_SIZE = 1024"

definition SLOT_SIZE :: nat where
  [simp]: "SLOT_SIZE = 32768"

definition MAX_PASSWORD_SLOTS :: nat where
  [simp]: "MAX_PASSWORD_SLOTS = 8"

definition MAX_KEY_SLOTS :: nat where
  [simp]: "MAX_KEY_SLOTS = 8"

definition RECIPIENT_AREA_SIZE :: nat where
  [simp]: "RECIPIENT_AREA_SIZE = MAX_PASSWORD_SLOTS * PW_SLOT_SIZE + MAX_KEY_SLOTS * KEY_SLOT_SIZE"

definition DATA_AREA_OFFSET :: nat where
  [simp]: "DATA_AREA_OFFSET = HEADER_REGION_SIZE + RECIPIENT_AREA_SIZE"

definition HEADER_MAGIC :: bytes where
  "HEADER_MAGIC = str_bytes ''VNM1''"

definition FORMAT_VERSION :: nat where
  "FORMAT_VERSION = 1"

definition SALT_LEN :: nat where
  [simp]: "SALT_LEN = 64"

definition BODY_OFFSET :: nat where
  [simp]: "BODY_OFFSET = 68"

definition BODY_AVAILABLE :: nat where
  [simp]: "BODY_AVAILABLE = HEADER_SIZE - BODY_OFFSET"

definition body_len :: "cipher_algorithm \<Rightarrow> nat" where
  "body_len c = BODY_AVAILABLE - vnmb_overhead c"

definition BODY_LEN :: nat where
  [simp]: "BODY_LEN = 396"

definition enc_body_size :: "cipher_algorithm \<Rightarrow> nat" where
  "enc_body_size c = vnmb_overhead c + body_len c"

definition AAD_OUTER :: bytes where
  "AAD_OUTER = str_bytes ''vnm:header:outer:v1''"

definition AAD_HIDDEN :: bytes where
  "AAD_HIDDEN = str_bytes ''vnm:header:hidden:v1''"

definition header_aad :: "bool \<Rightarrow> bytes" where
  "header_aad is_hidden = (if is_hidden then AAD_HIDDEN else AAD_OUTER)"

lemma length_HEADER_MAGIC [simp]: "length HEADER_MAGIC = 4"
  by (simp add: HEADER_MAGIC_def)

lemma enc_body_size_eq: "enc_body_size c = 444"
  using vnmb_overhead_bounds (2) [of c] by (simp add: enc_body_size_def body_len_def)

lemma body_len_bounds: "333 \<le> body_len c" "body_len c \<le> 405"
  by (cases c; simp add: body_len_def)+

section \<open>Encoding and decoding\<close>

record header_payload =
  hp_cipher :: cipher_algorithm
  hp_kdf_profile :: byte
  hp_num_password_slots :: byte
  hp_num_key_slots :: byte
  hp_outer_slots :: nat
  hp_hidden_start :: nat
  hp_root_slot :: nat
  hp_created_at :: nat
  hp_label :: bytes
  hp_container_id :: bytes

text \<open>The metadata fields written into a zeroed body of \<open>len\<close> bytes.\<close>

definition header_body :: "nat \<Rightarrow> nat \<Rightarrow> header_payload \<Rightarrow> bytes" where
  "header_body len version payload =
     (let body = replicate len 0;
          body = blit 0 HEADER_MAGIC body;
          body = blit 4 (to_le 4 version) body;
          body = blit 8 (to_le 8 DATA_AREA_OFFSET) body;
          body = blit 16 (to_le 8 (hp_outer_slots payload)) body;
          body = blit 24 (to_le 8 (hp_hidden_start payload)) body;
          body = blit 32 (to_le 8 (hp_root_slot payload)) body;
          body = blit 40 (to_le 8 (hp_created_at payload)) body;
          body = blit 48 (hp_label payload) body
      in blit 112 (hp_container_id payload) body)"

text \<open>The plaintext prefix written into a zeroed header.\<close>

definition header_prefix :: "bytes \<Rightarrow> header_payload \<Rightarrow> bytes" where
  "header_prefix salt payload =
     (let buf = blit 0 salt (replicate HEADER_SIZE 0)
      in buf[64 := 0, 65 := hp_kdf_profile payload, 66 := hp_num_password_slots payload,
             67 := hp_num_key_slots payload])"

definition encode_header ::
    "libs \<Rightarrow> header_payload \<Rightarrow> bytes \<Rightarrow> bool \<Rightarrow> ('a sys_scheme, vnm_error, bytes) op" where
  "encode_header L payload k_master is_hidden s =
     (let (salt, s1) = fill_bytes L SALT_LEN s;
          buf = header_prefix salt payload;
          body = header_body (body_len (hp_cipher payload)) FORMAT_VERSION payload;
          aad = header_aad is_hidden
      in then_op (encrypt_block L k_master (hp_cipher payload) aad body)
           (\<lambda>enc. return_op (copy_into BODY_OFFSET enc buf)) s1)"

definition decode_header ::
    "libs \<Rightarrow> bytes \<Rightarrow> bytes \<Rightarrow> cipher_algorithm \<Rightarrow> bool \<Rightarrow> header_payload result" where
  "decode_header L raw k_master c is_hidden =
     (let kdf_profile = raw ! 65; num_pw = raw ! 66; num_key = raw ! 67;
          aad = header_aad is_hidden
      in and_then
           (map_err (\<lambda>e. AuthenticationFailed)
             (decrypt_block L k_master c aad (subrange BODY_OFFSET (BODY_OFFSET + enc_body_size c) raw)))
           (\<lambda>body.
              if length body < 112 then Err (InvalidFormat ''header body too short'')
              else if subrange 0 4 body \<noteq> HEADER_MAGIC then Err AuthenticationFailed
              else if length body < 128 then Panic ''range end index out of range for slice''
              else Ok \<lparr>hp_cipher = c, hp_kdf_profile = kdf_profile,
                       hp_num_password_slots = num_pw, hp_num_key_slots = num_key,
                       hp_outer_slots = from_le (subrange 16 24 body),
                       hp_hidden_start = from_le (subrange 24 32 body),
                       hp_root_slot = from_le (subrange 32 40 body),
                       hp_created_at = from_le (subrange 40 48 body),
                       hp_label = subrange 48 112 body,
                       hp_container_id = subrange 112 128 body\<rparr>))"

definition read_header_plaintext :: "bytes \<Rightarrow> byte \<times> byte \<times> byte" where
  "read_header_plaintext raw = (raw ! 65, raw ! 66, raw ! 67)"

text \<open>The Rust types of the payload's fields: \<open>u64\<close> counts, \<open>[u8; 64]\<close>, \<open>[u8; 16]\<close>.\<close>

definition payload_ok :: "header_payload \<Rightarrow> bool" where
  "payload_ok p \<longleftrightarrow> hp_outer_slots p < 2 ^ 64 \<and> hp_hidden_start p < 2 ^ 64 \<and>
     hp_root_slot p < 2 ^ 64 \<and> hp_created_at p < 2 ^ 64 \<and>
     length (hp_label p) = 64 \<and> length (hp_container_id p) = 16"

section \<open>The body and the prefix\<close>

lemma length_header_body:
  "payload_ok p \<Longrightarrow> 128 \<le> len \<Longrightarrow> length (header_body len v p) = len"
  by (simp add: header_body_def Let_def payload_ok_def)

lemma header_body_fields:
  assumes "payload_ok p" "128 \<le> len"
  shows "subrange 0 4 (header_body len v p) = HEADER_MAGIC"
    and "subrange 4 8 (header_body len v p) = to_le 4 v"
    and "subrange 16 24 (header_body len v p) = to_le 8 (hp_outer_slots p)"
    and "subrange 24 32 (header_body len v p) = to_le 8 (hp_hidden_start p)"
    and "subrange 32 40 (header_body len v p) = to_le 8 (hp_root_slot p)"
    and "subrange 40 48 (header_body len v p) = to_le 8 (hp_created_at p)"
    and "subrange 48 112 (header_body len v p) = hp_label p"
    and "subrange 112 128 (header_body len v p) = hp_container_id p"
  using assms by (simp_all add: header_body_def Let_def payload_ok_def subrange_blit_other)

lemma length_header_prefix [simp]: "length salt = 64 \<Longrightarrow> length (header_prefix salt p) = 512"
  by (simp add: header_prefix_def Let_def)

lemma header_prefix_fields:
  assumes "length salt = 64"
  shows "header_prefix salt p ! 64 = 0" "header_prefix salt p ! 65 = hp_kdf_profile p"
    "header_prefix salt p ! 66 = hp_num_password_slots p" "header_prefix salt p ! 67 = hp_num_key_slots p"
    "subrange 0 64 (header_prefix salt p) = salt"
proof -
  have len: "length (blit 0 salt (replicate 512 0)) = 512" using assms by simp
  then show "header_prefix salt p ! 64 = 0" "header_prefix salt p ! 65 = hp_kdf_profile p"
    "header_prefix salt p ! 66 = hp_num_password_slots p" "header_prefix salt p ! 67 = hp_num_key_slots p"
    by (simp_all add: header_prefix_def Let_def nth_list_update)
  show "subrange 0 64 (header_prefix salt p) = salt"
    using assms by (simp add: header_prefix_def Let_def subrange_def blit_def)
qed

text \<open>Both header encoders put the encrypted body at byte 68 behind the prefix.\<close>

lemma header_image:
  assumes "length salt = 64" "copy_into 68 enc (header_prefix salt p) = (Ok raw :: bytes result)"
  shows "length raw = 512" "raw ! 64 = 0" "raw ! 65 = hp_kdf_profile p"
    "raw ! 66 = hp_num_password_slots p" "raw ! 67 = hp_num_key_slots p"
    "subrange 0 64 raw = salt" "68 + length enc \<le> 512"
proof -
  from assms show fits: "68 + length enc \<le> 512"
    by (simp add: copy_into_def split: if_splits)
  with assms have raw: "raw = blit 68 enc (header_prefix salt p)"
    by (simp add: copy_into_def)
  with assms(1) fits show "length raw = 512" "raw ! 64 = 0" "raw ! 65 = hp_kdf_profile p"
    "raw ! 66 = hp_num_password_slots p" "raw ! 67 = hp_num_key_slots p" "subrange 0 64 raw = salt"
    by (simp_all add: nth_blit header_prefix_fields subrange_blit_other)
qed

section \<open>Round trip\<close>

lemma encode_header_Ok:
  assumes "encode_header L payload k is_hidden s = (Ok raw, s')"
  obtains salt enc where "length salt = 64" "salt = fst (fill_bytes L 64 s)"
    "encrypt_block L k (hp_cipher payload) (header_aad is_hidden)
       (header_body (body_len (hp_cipher payload)) FORMAT_VERSION payload) (snd (fill_bytes L 64 s)) = (Ok enc, s')"
    "copy_into 68 enc (header_prefix salt payload) = (Ok raw :: bytes result)"
proof -
  from assms obtain enc where
    "encrypt_block L k (hp_cipher payload) (header_aad is_hidden)
       (header_body (body_len (hp_cipher payload)) FORMAT_VERSION payload) (snd (fill_bytes L 64 s)) = (Ok enc, s')"
    "copy_into 68 enc (header_prefix (fst (fill_bytes L 64 s)) payload) = (Ok raw :: bytes result)"
    by (auto simp: encode_header_def then_op_eq_Ok Let_def split_beta)
  then show thesis by (intro that) simp_all
qed

lemma decode_encode_header:
  assumes "aead_ok L" "payload_ok payload" "encode_header L payload k is_hidden s = (Ok raw, s')"
  shows "decode_header L raw k (hp_cipher payload) is_hidden = Ok payload"
proof -
  let ?c = "hp_cipher payload" and ?aad = "header_aad is_hidden"
  let ?body = "header_body (body_len ?c) FORMAT_VERSION payload"
  obtain salt enc where salt: "length salt = 64"
    and enc: "encrypt_block L k ?c ?aad ?body (snd (fill_bytes L 64 s)) = (Ok enc, s')"
    and raw: "copy_into 68 enc (header_prefix salt payload) = (Ok raw :: bytes result)"
    using assms(3) by (rule encode_header_Ok)
  have len: "128 \<le> body_len ?c" using body_len_bounds(1) [of ?c] by simp
  note lb = length_header_body [OF assms(2) len, of FORMAT_VERSION]
  have "?body \<noteq> []" using lb len by force
  then have "openable_payload ?c ?body" by (rule openable_payloadI)
  then have "decrypt_block L k ?c ?aad (subrange 68 (68 + enc_body_size ?c) raw) = Ok ?body"
    by (rule vnmb.unseal_embedded [OF assms(1) _ enc raw]) (simp add: lb enc_body_size_def)
  with assms(2) len lb header_body_fields [OF assms(2) len, of FORMAT_VERSION] header_image [OF salt raw]
  show ?thesis
    by (simp add: decode_header_def Let_def payload_ok_def)
qed

lemma encode_header_total:
  assumes "aead_ok L" "hash_ok L" "payload_ok payload" "length k = 32"
  obtains raw where "encode_header L payload k is_hidden s =
    (Ok raw, s\<lparr>sys_rng := sys_rng s + 64 + nonce_section_len (hp_cipher payload)\<rparr>)" "length raw = 512"
proof -
  let ?c = "hp_cipher payload" and ?aad = "header_aad is_hidden"
  let ?body = "header_body (body_len ?c) FORMAT_VERSION payload" and ?s1 = "snd (fill_bytes L 64 s)"
  have len: "128 \<le> body_len ?c" using body_len_bounds(1) [of ?c] by simp
  note lb = length_header_body [OF assms(3) len, of FORMAT_VERSION]
  obtain enc where enc:
    "encrypt_block L k ?c ?aad ?body ?s1 = (Ok enc, ?s1\<lparr>sys_rng := sys_rng ?s1 + nonce_section_len ?c\<rparr>)"
    by (rule encrypt_block_total [OF assms(1,2,4), of ?body])
      (use lb body_len_bounds(2) [of ?c] in simp_all)
  have "length enc = 444"
    using encrypt_block_length [OF assms(1) enc] lb enc_body_size_eq [of ?c] by (simp add: enc_body_size_def)
  then have "copy_into 68 enc (header_prefix (fst (fill_bytes L 64 s)) payload)
      = (Ok (blit 68 enc (header_prefix (fst (fill_bytes L 64 s)) payload)) :: bytes result)"
    "length (blit 68 enc (header_prefix (fst (fill_bytes L 64 s)) payload)) = 512"
    by (simp_all add: copy_into_def)
  with enc show thesis
    by (intro that) (simp_all add: encode_header_def Let_def split_beta, simp add: fill_bytes_def add.assoc)
qed

section \<open>What is not authenticated\<close>

lemma decode_header_prefix:
  assumes "length raw = 512" "length pre = 65"
  shows "decode_header L (pre @ [kp, np, nk] @ drop 68 raw) k c h =
    and_then (decode_header L raw k c h) (\<lambda>m. Ok (m\<lparr>hp_kdf_profile := kp,
      hp_num_password_slots := np, hp_num_key_slots := nk\<rparr>))"
proof -
  let ?raw = "pre @ [kp, np, nk] @ drop 68 raw"
  have "subrange 68 (68 + enc_body_size c) ?raw = subrange 68 (68 + enc_body_size c) raw"
    using assms by (simp add: subrange_def)
  moreover have "?raw ! 65 = kp" "?raw ! 66 = np" "?raw ! 67 = nk"
    using assms(2) by (simp_all add: nth_append)
  ultimately show ?thesis
    by (simp add: decode_header_def Let_def)
      (cases "decrypt_block L k c (header_aad h)
        (subrange 68 (68 + enc_body_size c) raw)"; simp)
qed

lemma decode_header_plaintext:
  "decode_header L raw k c h = Ok m \<Longrightarrow> hp_kdf_profile m = raw ! 65 \<and>
     hp_num_password_slots m = raw ! 66 \<and> hp_num_key_slots m = raw ! 67 \<and> hp_cipher m = c"
  by (auto simp: decode_header_def Let_def and_then_eq_Ok split: if_splits)

lemma decode_header_no_panic:
  assumes "aead_ok L" "length raw = 512"
  shows "decode_header L raw k c h \<noteq> Panic x"
proof -
  have big: "128 \<le> length body"
    if "decrypt_block L k c a (subrange 68 (68 + enc_body_size c) raw) = Ok body" for a body
    using decrypt_block_length [OF assms(1) that] assms(2) vnmb_overhead_bounds(2) [of c]
      enc_body_size_eq [of c] by simp
  show ?thesis
    unfolding decode_header_def Let_def
    by (intro and_then_no_panic)
      (use decrypt_block_no_panic [OF assms(1)] in
        \<open>auto simp: map_err_no_panic split: if_splits dest!: big\<close>)
qed

end
