(* ===== verification/Merkle.thy ===== *)
theory Merkle
  imports Header
begin

text \<open>
  The Merkle root over the raw encrypted slots (storage/merkle.rs): leaves bind the slot
  index and the 32 KB image, levels are folded pairwise with an odd node carried up. The
  bottom-up loop is shown to compute the recursive tree hash of RFC 6962, and two images
  with the same root to agree unless BLAKE3 collides.
\<close>

section \<open>Definitions\<close>

text \<open>The byte offset of a slot, in 64-bit arithmetic.\<close>

definition slot_offset :: "nat \<Rightarrow> nat" where
  "slot_offset slot = wrap64 (DATA_AREA_OFFSET + slot * SLOT_SIZE)"

definition LEAF_CTX :: string where
  "LEAF_CTX = ''venom:merkle:leaf:v1''"

definition NODE_CTX :: string where
  "NODE_CTX = ''venom:merkle:node:v1''"

definition leaf_hash :: "libs \<Rightarrow> nat \<Rightarrow> bytes \<Rightarrow> bytes" where
  "leaf_hash L slot raw = blake3_derive_key L LEAF_CTX (to_le 8 slot @ raw)"

definition node_hash :: "libs \<Rightarrow> bytes \<Rightarrow> bytes \<Rightarrow> bytes" where
  "node_hash L l r = blake3_derive_key L NODE_CTX (l @ r)"

primrec read_leaves :: "libs \<Rightarrow> nat list \<Rightarrow> ('a sys_scheme, vnm_error, bytes list) op" where
  "read_leaves L [] = return_op (Ok [])"
| "read_leaves L (slot # slots) =
     then_op (pread (slot_offset slot) SLOT_SIZE) (\<lambda>raw.
     then_op (read_leaves L slots) (\<lambda>leaves.
       return_op (Ok (leaf_hash L slot raw # leaves))))"

fun merkle_level :: "libs \<Rightarrow> bytes list \<Rightarrow> bytes list" where
  "merkle_level L [] = []"
| "merkle_level L [x] = [x]"
| "merkle_level L (x # y # xs) = node_hash L x y # merkle_level L xs"

lemma length_merkle_level [simp, lens]: "length (merkle_level L xs) = (length xs + 1) div 2"
  by (induction L xs rule: merkle_level.induct) auto

function merkle_loop :: "libs \<Rightarrow> bytes list \<Rightarrow> bytes list" where
  "merkle_loop L leaves =
     (if 1 < length leaves then merkle_loop L (merkle_level L leaves) else leaves)"
  by pat_completeness auto
termination
  by (relation "measure (\<lambda>(L, leaves). length leaves)") auto

declare merkle_loop.simps [simp del]

definition compute_merkle_root :: "libs \<Rightarrow> nat list \<Rightarrow> ('a sys_scheme, vnm_error, bytes) op" where
  "compute_merkle_root L used_slots =
     (if used_slots = [] then return_op (Ok (replicate 32 0))
      else then_op (read_leaves L used_slots) (\<lambda>leaves. return_op (Ok (hd (merkle_loop L leaves)))))"

section \<open>The recursive tree hash\<close>

text \<open>
  RFC 6962 splits a list of more than one leaf at the largest power of two below its
  length.
\<close>

fun split_point :: "nat \<Rightarrow> nat" where
  "split_point n = (if n \<le> 2 then 1 else 2 * split_point ((n + 1) div 2))"

declare split_point.simps [simp del]

lemma split_point_power:
  assumes "2 \<le> n"
  shows "(\<exists>j. split_point n = 2 ^ j) \<and> split_point n < n \<and> n \<le> 2 * split_point n"
  using assms
proof (induction n rule: split_point.induct)
  case (1 n)
  show ?case
  proof (cases "n \<le> 2")
    case True
    then have "split_point n = 2 ^ 0" by (simp add: split_point.simps [of n])
    with "1.prems" True show ?thesis by (auto intro: exI [of _ 0])
  next
    case False
    then have "2 \<le> (n + 1) div 2" by simp
    with "1.IH" False obtain j where "split_point ((n + 1) div 2) = 2 ^ j"
      and "split_point ((n + 1) div 2) < (n + 1) div 2" "(n + 1) div 2 \<le> 2 * split_point ((n + 1) div 2)"
      by auto
    with False show ?thesis
      by (auto simp: split_point.simps [of n] intro: exI [of _ "Suc j"])
  qed
qed

lemmas split_point_bounds = split_point_power [THEN conjunct2]

function tree_hash :: "libs \<Rightarrow> bytes list \<Rightarrow> bytes" where
  "tree_hash L xs =
     (if length xs < 2 then hd xs
      else (let k = split_point (length xs)
            in node_hash L (tree_hash L (take k xs)) (tree_hash L (drop k xs))))"
  by pat_completeness auto
termination
proof (relation "measure (\<lambda>(L, xs). length xs)", goal_cases)
  case (2 L xs k)
  then show ?case using split_point_bounds [of "length xs"] by simp
next
  case (3 L xs k)
  have "split_point n \<noteq> 0" for n
    by (induction n rule: split_point.induct) (subst split_point.simps, auto)
  then have "0 < split_point (length xs)" by simp
  with 3 show ?case by auto
qed simp

declare tree_hash.simps [simp del]

lemma tree_hash_single [simp]: "tree_hash L [x] = x"
  by (simp add: tree_hash.simps)

lemma tree_hash_split:
  "2 \<le> length xs \<Longrightarrow> tree_hash L xs =
     node_hash L (tree_hash L (take (split_point (length xs)) xs))
       (tree_hash L (drop (split_point (length xs)) xs))"
  by (subst tree_hash.simps) (simp add: Let_def)

lemma tree_hash_append:
  "2 \<le> length (xs @ ys) \<Longrightarrow> split_point (length (xs @ ys)) = length xs \<Longrightarrow>
     tree_hash L (xs @ ys) = node_hash L (tree_hash L xs) (tree_hash L ys)"
  by (subst tree_hash_split) simp_all

lemma merkle_level_append:
  "even (length xs) \<Longrightarrow> merkle_level L (xs @ ys) = merkle_level L xs @ merkle_level L ys"
  by (induction L xs rule: merkle_level.induct) auto

lemma merkle_level_short: "length xs < 2 \<Longrightarrow> merkle_level L xs = xs"
  by (cases xs rule: remdups_adj.cases) auto

lemma tree_hash_level: "xs \<noteq> [] \<Longrightarrow> tree_hash L (merkle_level L xs) = tree_hash L xs"
proof (induction xs rule: length_induct)
  case (1 xs)
  let ?n = "length xs" and ?k = "split_point (length xs)"
  consider "?n < 2" | "?n = 2" | "2 < ?n" by arith
  then show ?case
  proof cases
    case 1
    then show ?thesis by (simp add: merkle_level_short)
  next
    case 2
    then obtain x y where "xs = [x, y]" by (cases xs rule: remdups_adj.cases) auto
    then show ?thesis
      by (simp add: tree_hash_split split_point.simps)
  next
    case 3
    then have k: "?k = 2 * split_point ((?n + 1) div 2)" by (simp add: split_point.simps [of ?n])
    have kb: "?k < ?n" "?n \<le> 2 * ?k" using split_point_bounds [of ?n] 3 by auto
    let ?A = "merkle_level L (take ?k xs)" and ?B = "merkle_level L (drop ?k xs)"
    have parts: "merkle_level L xs = ?A @ ?B"
      using merkle_level_append [of "take ?k xs" L "drop ?k xs"] kb k by simp
    have half: "2 \<le> (?n + 1) div 2" using 3 by simp
    have "length (?A @ ?B) = (?n + 1) div 2" by (simp only: parts [symmetric] length_merkle_level)
    moreover have "length ?A = split_point ((?n + 1) div 2)"
      using kb(1) by (simp add: k)
    ultimately have "tree_hash L (merkle_level L xs) = node_hash L (tree_hash L ?A) (tree_hash L ?B)"
      unfolding parts using half by (intro tree_hash_append) simp_all
    moreover have "tree_hash L (merkle_level L (take ?k xs)) = tree_hash L (take ?k xs)"
      by (rule "1.IH" [rule_format]) (use kb 3 in auto)
    moreover have "tree_hash L (merkle_level L (drop ?k xs)) = tree_hash L (drop ?k xs)"
      by (rule "1.IH" [rule_format]) (use kb k half split_point_bounds [OF half] in auto)
    ultimately show ?thesis using 3 by (simp add: tree_hash_split)
  qed
qed

lemma merkle_loop_tree:
  "leaves \<noteq> [] \<Longrightarrow> merkle_loop L leaves = [tree_hash L leaves]"
proof (induction L leaves rule: merkle_loop.induct)
  case (1 L leaves)
  show ?case
  proof (cases "1 < length leaves")
    case True
    then have "length (merkle_level L leaves) \<noteq> 0" by simp
    then have "merkle_level L leaves \<noteq> []" by (metis list.size(3))
    with True 1 show ?thesis
      by (simp add: merkle_loop.simps [of L leaves] tree_hash_level)
  next
    case False
    with "1.prems" obtain x where "leaves = [x]" by (cases leaves) auto
    then show ?thesis by (simp add: merkle_loop.simps)
  qed
qed

section \<open>Binding\<close>

text \<open>
  The messages hashed for the inner nodes of a tree, and a collision of BLAKE3 among a
  finite list of messages that were hashed. (Some collision always exists; what matters
  is that the two computations at hand exhibit one.)
\<close>

function tree_queries :: "libs \<Rightarrow> bytes list \<Rightarrow> bytes list" where
  "tree_queries L xs =
     (if length xs < 2 then []
      else (let k = split_point (length xs)
            in (tree_hash L (take k xs) @ tree_hash L (drop k xs)) #
               tree_queries L (take k xs) @ tree_queries L (drop k xs)))"
  by pat_completeness auto
termination
proof (relation "measure (\<lambda>(L, xs). length xs)", goal_cases)
  case (2 L xs k)
  then show ?case using split_point_bounds [of "length xs"] by simp
next
  case (3 L xs k)
  then show ?case using split_point_power [of "length xs"] by (cases "split_point (length xs)") auto
qed simp

declare tree_queries.simps [simp del]

lemma tree_queries_single [simp]: "tree_queries L [x] = []"
  by (simp add: tree_queries.simps)

definition collides :: "libs \<Rightarrow> string \<Rightarrow> bytes list \<Rightarrow> bool" where
  "collides L ctx ms \<longleftrightarrow>
     (\<exists>m \<in> set ms. \<exists>m' \<in> set ms. m \<noteq> m' \<and> blake3_derive_key L ctx m = blake3_derive_key L ctx m')"

lemma no_collisionD:
  "\<not> collides L ctx ms \<Longrightarrow> m \<in> set ms \<Longrightarrow> m' \<in> set ms \<Longrightarrow>
     blake3_derive_key L ctx m = blake3_derive_key L ctx m' \<Longrightarrow> m = m'"
  by (auto simp: collides_def)

lemma no_collision_subset:
  "\<not> collides L ctx ms \<Longrightarrow> set ms' \<subseteq> set ms \<Longrightarrow> \<not> collides L ctx ms'"
  unfolding collides_def by blast

lemma tree_hash_length:
  assumes "hash_ok L" "xs \<noteq> []" "\<forall>x \<in> set xs. length x = 32"
  shows "length (tree_hash L xs) = 32"
proof (cases "length xs < 2")
  case True
  with assms(2,3) show ?thesis by (simp add: tree_hash.simps)
next
  case False
  then show ?thesis by (simp add: tree_hash_split node_hash_def blake3_len [OF assms(1)])
qed

lemma tree_hash_inject:
  assumes "hash_ok L"
  shows "length xs = length ys \<Longrightarrow> xs \<noteq> [] \<Longrightarrow> \<forall>x \<in> set xs. length x = 32 \<Longrightarrow>
    \<forall>y \<in> set ys. length y = 32 \<Longrightarrow> \<not> collides L NODE_CTX (tree_queries L xs @ tree_queries L ys) \<Longrightarrow>
    tree_hash L xs = tree_hash L ys \<Longrightarrow> xs = ys"
proof (induction xs arbitrary: ys rule: length_induct)
  case (1 xs)
  note len = "1.prems"(1) and ne = "1.prems"(2) and el = "1.prems"(3,4) and nc = "1.prems"(5)
    and eq = "1.prems"(6)
  show ?case
  proof (cases "length xs < 2")
    case True
    with ne obtain x where xs: "xs = [x]" by (cases xs) auto
    with len obtain y where "ys = [y]" by (cases ys) auto
    with xs eq show ?thesis by simp
  next
    case False
    let ?k = "split_point (length xs)"
    have k: "0 < ?k" "?k < length xs"
      using split_point_power [of "length xs"] False by auto
    have parts: "take ?k xs \<noteq> []" "take ?k ys \<noteq> []" "drop ?k xs \<noteq> []" "drop ?k ys \<noteq> []"
      using k len by auto
    have els: "\<forall>x \<in> set (take ?k xs). length x = 32" "\<forall>x \<in> set (take ?k ys). length x = 32"
      "\<forall>x \<in> set (drop ?k xs). length x = 32" "\<forall>x \<in> set (drop ?k ys). length x = 32"
      using el by (meson in_set_takeD in_set_dropD)+
    let ?mx = "tree_hash L (take ?k xs) @ tree_hash L (drop ?k xs)"
    let ?my = "tree_hash L (take ?k ys) @ tree_hash L (drop ?k ys)"
    have qx: "tree_queries L xs = ?mx # tree_queries L (take ?k xs) @ tree_queries L (drop ?k xs)"
      and qy: "tree_queries L ys = ?my # tree_queries L (take ?k ys) @ tree_queries L (drop ?k ys)"
      using False len by (simp_all add: tree_queries.simps [of L xs] tree_queries.simps [of L ys] Let_def)
    have "blake3_derive_key L NODE_CTX ?mx = blake3_derive_key L NODE_CTX ?my"
      using eq len False by (simp add: tree_hash_split node_hash_def)
    then have "?mx = ?my"
      by (rule no_collisionD [OF nc, rotated 2]) (simp_all add: qx qy)
    moreover have "length (tree_hash L (take ?k xs)) = length (tree_hash L (take ?k ys))"
      using tree_hash_length [OF assms(1)] parts els by simp
    ultimately have "tree_hash L (take ?k xs) = tree_hash L (take ?k ys) \<and>
      tree_hash L (drop ?k xs) = tree_hash L (drop ?k ys)"
      by (metis append_eq_append_conv)
    then have eqs: "tree_hash L (take ?k xs) = tree_hash L (take ?k ys)"
      "tree_hash L (drop ?k xs) = tree_hash L (drop ?k ys)" by auto
    have ncs: "\<not> collides L NODE_CTX (tree_queries L (take ?k xs) @ tree_queries L (take ?k ys))"
      "\<not> collides L NODE_CTX (tree_queries L (drop ?k xs) @ tree_queries L (drop ?k ys))"
      by (rule no_collision_subset [OF nc]; force simp: qx qy)+
    have "take ?k xs = take ?k ys"
      by (rule "1.IH" [rule_format, OF _ _ parts(1) _ _ ncs(1) eqs(1)]) (use k len els in simp_all)
    moreover have "drop ?k xs = drop ?k ys"
      by (rule "1.IH" [rule_format, OF _ _ parts(3) _ _ ncs(2) eqs(2)]) (use k len els in simp_all)
    ultimately show ?thesis by (metis append_take_drop_id)
  qed
qed

section \<open>Roots of a file\<close>

lemma read_leaves_Ok_D:
  "read_leaves L slots s = (Ok leaves, s') \<Longrightarrow>
     s' = s \<and> length leaves = length slots \<and>
     leaves = map (\<lambda>slot. leaf_hash L slot
       (subrange (slot_offset slot) (slot_offset slot + SLOT_SIZE) (sys_file s))) slots \<and>
     (\<forall>slot \<in> set slots. slot_offset slot + SLOT_SIZE \<le> length (sys_file s))"
proof (induction slots arbitrary: leaves s')
  case Nil
  then show ?case by simp
next
  case (Cons slot slots)
  from Cons.prems obtain raw rest where
    raw: "pread (slot_offset slot) SLOT_SIZE s = (Ok raw, s)"
    and rest: "read_leaves L slots s = (Ok rest, s')" and leaves: "leaves = leaf_hash L slot raw # rest"
    by (auto simp: then_op_eq_Ok simp del: SLOT_SIZE_def dest: pread_Ok_D)
  from pread_Ok_D [OF raw] Cons.IH [OF rest] leaves show ?case by auto
qed

lemma read_leaves_state: "snd (read_leaves L slots s) = s"
proof (induction slots)
  case (Cons slot slots)
  have "snd (pread (slot_offset slot) SLOT_SIZE s) = s" by (rule pread_state)
  with Cons show ?case
    by (auto simp: then_op_def simp del: SLOT_SIZE_def split: prod.splits outcome.splits dest: pread_same)
qed simp

lemma compute_merkle_root_state: "snd (compute_merkle_root L slots s) = s"
  using read_leaves_state [of L slots s]
  by (auto simp: compute_merkle_root_def then_op_def split: prod.splits outcome.splits)

lemma read_leaves_total:
  "\<forall>slot \<in> set slots. slot_offset slot + SLOT_SIZE \<le> length (sys_file s) \<and> slot_offset slot < 2 ^ 63 \<Longrightarrow>
     \<exists>leaves. read_leaves L slots s = (Ok leaves, s)"
  by (induction slots) (auto simp: pread_inside simp del: SLOT_SIZE_def)

lemma compute_merkle_root_total:
  assumes "\<forall>slot \<in> set slots. slot_offset slot + SLOT_SIZE \<le> length (sys_file s) \<and> slot_offset slot < 2 ^ 63"
  obtains r where "compute_merkle_root L slots s = (Ok r, s)"
proof -
  from read_leaves_total [OF assms, of L] obtain leaves where "read_leaves L slots s = (Ok leaves, s)" ..
  then show thesis
    by (cases "slots = []") (auto intro: that simp: compute_merkle_root_def)
qed

lemma compute_merkle_root_length:
  assumes "hash_ok L" "compute_merkle_root L slots s = (Ok r, s')"
  shows "length r = 32"
proof (cases "slots = []")
  case True
  with assms(2) show ?thesis by (auto simp: compute_merkle_root_def)
next
  case False
  with assms(2) obtain leaves where lv: "read_leaves L slots s = (Ok leaves, s')"
    and r: "r = hd (merkle_loop L leaves)"
    by (auto simp: compute_merkle_root_def then_op_eq_Ok)
  from read_leaves_Ok_D [OF lv] False have "leaves \<noteq> []" "\<forall>x \<in> set leaves. length x = 32"
    by (auto simp: leaf_hash_def blake3_len [OF assms(1)])
  with r tree_hash_length [OF assms(1)] show ?thesis by (simp add: merkle_loop_tree)
qed

text \<open>The image of a slot, as the Merkle tree reads it.\<close>

definition slot_image :: "nat \<Rightarrow> bytes \<Rightarrow> bytes" where
  "slot_image slot f = subrange (slot_offset slot) (slot_offset slot + SLOT_SIZE) f"

lemma compute_merkle_root_eq:
  assumes "compute_merkle_root L slots s = (Ok r, s')" "slots \<noteq> []"
  shows "r = tree_hash L (map (\<lambda>slot. leaf_hash L slot (slot_image slot (sys_file s))) slots)"
proof -
  from assms obtain leaves where lv: "read_leaves L slots s = (Ok leaves, s')"
    and r: "r = hd (merkle_loop L leaves)"
    by (auto simp: compute_merkle_root_def then_op_eq_Ok)
  from read_leaves_Ok_D [OF lv] assms(2) have "leaves \<noteq> []"
    and "leaves = map (\<lambda>slot. leaf_hash L slot (slot_image slot (sys_file s))) slots"
    by (auto simp: slot_image_def)
  with r show ?thesis by (simp add: merkle_loop_tree)
qed

text \<open>The messages hashed for the leaves, and a collision among all those of two files.\<close>

definition leaf_message :: "nat \<Rightarrow> bytes \<Rightarrow> bytes" where
  "leaf_message slot f = to_le 8 slot @ slot_image slot f"

definition file_leaves :: "libs \<Rightarrow> nat list \<Rightarrow> bytes \<Rightarrow> bytes list" where
  "file_leaves L slots f = map (\<lambda>slot. leaf_hash L slot (slot_image slot f)) slots"

definition root_collision :: "libs \<Rightarrow> nat list \<Rightarrow> bytes \<Rightarrow> bytes \<Rightarrow> bool" where
  "root_collision L slots f g \<longleftrightarrow>
     collides L LEAF_CTX (map (\<lambda>slot. leaf_message slot f) slots @ map (\<lambda>slot. leaf_message slot g) slots) \<or>
     collides L NODE_CTX (tree_queries L (file_leaves L slots f) @ tree_queries L (file_leaves L slots g))"

lemma merkle_root_binds:
  assumes "hash_ok L" "\<not> root_collision L slots (sys_file s) (sys_file t)"
    and "compute_merkle_root L slots s = (Ok r, s1)" "compute_merkle_root L slots t = (Ok r, t1)"
    and "slot \<in> set slots"
  shows "slot_image slot (sys_file s) = slot_image slot (sys_file t)"
proof -
  let ?f = "file_leaves L slots (sys_file s)" and ?g = "file_leaves L slots (sys_file t)"
  from assms(5) have ne: "slots \<noteq> []" by auto
  have nc: "\<not> collides L NODE_CTX (tree_queries L ?f @ tree_queries L ?g)"
    and ncl: "\<not> collides L LEAF_CTX (map (\<lambda>slot. leaf_message slot (sys_file s)) slots @
      map (\<lambda>slot. leaf_message slot (sys_file t)) slots)"
    using assms(2) by (simp_all add: root_collision_def)
  have "tree_hash L ?f = tree_hash L ?g"
    using compute_merkle_root_eq [OF assms(3) ne] compute_merkle_root_eq [OF assms(4) ne]
    by (simp add: file_leaves_def)
  then have "?f = ?g"
    by (intro tree_hash_inject [OF assms(1) _ _ _ _ nc])
      (use ne in \<open>auto simp: file_leaves_def leaf_hash_def blake3_len [OF assms(1)]\<close>)
  with assms(5) have "blake3_derive_key L LEAF_CTX (leaf_message slot (sys_file s)) =
      blake3_derive_key L LEAF_CTX (leaf_message slot (sys_file t))"
    by (simp add: file_leaves_def leaf_hash_def leaf_message_def)
  then have "leaf_message slot (sys_file s) = leaf_message slot (sys_file t)"
    by (rule no_collisionD [OF ncl, rotated 2]) (use assms(5) in auto)
  then show ?thesis by (simp add: leaf_message_def)
qed

lemma read_leaves_cong:
  assumes "length (sys_file s) = length (sys_file t)"
  shows "(\<And>slot. slot \<in> set slots \<Longrightarrow> slot_image slot (sys_file s) = slot_image slot (sys_file t)) \<Longrightarrow>
    fst (read_leaves L slots s) = fst (read_leaves L slots t)"
proof (induction slots)
  case (Cons slot slots)
  from Cons.prems [of slot] assms
  have "fst (pread (slot_offset slot) SLOT_SIZE s) = fst (pread (slot_offset slot) SLOT_SIZE t)"
    by (simp add: pread_def slot_image_def)
  moreover have "fst (read_leaves L slots s) = fst (read_leaves L slots t)"
    by (rule Cons.IH) (rule Cons.prems, simp)
  ultimately show ?case
    by (simp add: then_op_readonly read_leaves_state del: SLOT_SIZE_def split: outcome.splits)
qed simp

text \<open>The root depends on the images of the used slots only.\<close>

lemma compute_merkle_root_cong:
  assumes "length (sys_file s) = length (sys_file t)"
    and "\<And>slot. slot \<in> set slots \<Longrightarrow> slot_image slot (sys_file s) = slot_image slot (sys_file t)"
  shows "fst (compute_merkle_root L slots s) = fst (compute_merkle_root L slots t)"
proof -
  have "fst (read_leaves L slots s) = fst (read_leaves L slots t)"
    using assms by (intro read_leaves_cong) auto
  then show ?thesis
    by (auto simp: compute_merkle_root_def then_op_def split: prod.splits outcome.splits)
qed

end
