(* ===== verification/Slot_Store.thy ===== *)
theory Slot_Store
  imports Merkle
begin

unbundle bit_operations_syntax

declare SLOT_SIZE_def [simp del] DATA_AREA_OFFSET_def [simp del]

text \<open>
  The block store over the container file (storage/slot_store.rs): encrypted slot I/O,
  the in-memory free list, and the allocation block that persists it together with the
  generation counter and the Merkle root. The record extends the operating-system state,
  whose \<open>sys_file\<close> is the file the store has open. Two interfaces are stated and
  provided here: \<open>slot_device\<close> (what was written to a slot is read back, other slots
  keep their content) and \<open>slot_pool\<close> (allocation from a set of free slots).
\<close>

section \<open>State\<close>

definition SLOT_PAYLOAD_CAPACITY :: nat where
  [simp]: "SLOT_PAYLOAD_CAPACITY = SLOT_SIZE - 36"

definition ALLOC_HEADER_LEN :: nat where
  [simp]: "ALLOC_HEADER_LEN = 8 + 8 + 32"

record slot_store = sys +
  master_key :: bytes
  store_cipher :: cipher_algorithm
  slot_start :: nat
  slot_limit :: nat
  alloc_slot :: nat
  free_list :: "nat list"
  generation :: nat
  has_generation :: bool
  cached_merkle_root :: bytes
  merkle_dirty :: bool

definition ZERO_ROOT :: bytes where
  "ZERO_ROOT = replicate 32 0"

definition slot_store_new ::
    "bytes \<Rightarrow> cipher_algorithm \<Rightarrow> nat \<Rightarrow> nat \<Rightarrow> nat \<Rightarrow> bool \<Rightarrow> sys \<Rightarrow> slot_store" where
  "slot_store_new key c start limit alloc has_gen s =
     sys.extend s (slot_store.fields key c start limit alloc [] 0 has_gen ZERO_ROOT False)"

section \<open>Slot I/O\<close>

definition derive_slot_key :: "libs \<Rightarrow> nat \<Rightarrow> 'a slot_store_scheme \<Rightarrow> bytes" where
  "derive_slot_key L slot s = blake3_derive_key L ''venom:slot:v1'' (master_key s @ to_le 8 slot)"

definition store_write :: "libs \<Rightarrow> nat \<Rightarrow> bytes \<Rightarrow> ('a slot_store_scheme, vnm_error, unit) op" where
  "store_write L slot plaintext s =
     (let slot_key = derive_slot_key L slot s; aad = to_le 8 slot
      in then_op (encrypt_block L slot_key (store_cipher s) aad plaintext) (\<lambda>encrypted.
           if SLOT_SIZE < length encrypted + 4
           then return_op (Err (Serialization ''plaintext too large for one slot''))
           else (let buf = replicate SLOT_SIZE 0;
                     buf = blit 0 (to_le 4 (length encrypted)) buf;
                     buf = blit 4 encrypted buf
                 in then_op (pwrite (slot_offset slot) buf)
                      (\<lambda>_ s. (Ok (), s\<lparr>merkle_dirty := True\<rparr>)))) s)"

definition store_read :: "libs \<Rightarrow> nat \<Rightarrow> ('a slot_store_scheme, vnm_error, bytes) op" where
  "store_read L slot s =
     then_op (pread (slot_offset slot) SLOT_SIZE) (\<lambda>buf.
       let len = from_le (subrange 0 4 buf)
       in if len < 36 \<or> SLOT_SIZE < 4 + len
          then return_op (Err (CorruptedSlot slot ''invalid length prefix''))
          else return_op
            (map_err (\<lambda>_. CorruptedSlot slot ''authentication failed'')
              (decrypt_block L (derive_slot_key L slot s) (store_cipher s) (to_le 8 slot)
                (subrange 4 (4 + len) buf)))) s"

definition wipe :: "libs \<Rightarrow> nat \<Rightarrow> ('a slot_store_scheme, vnm_error, unit) op" where
  "wipe L slot s =
     (let (buf, s1) = fill_bytes L SLOT_SIZE s
      in then_op (pwrite (slot_offset slot) buf) (\<lambda>_ s. (Ok (), s\<lparr>merkle_dirty := True\<rparr>)) s1)"

section \<open>Allocation\<close>

text \<open>The list is kept in descending order; \<open>pop\<close> takes its last element.\<close>

definition alloc :: "('a slot_store_scheme, vnm_error, nat) op" where
  "alloc s = (if free_list s = [] then (Err NoSpaceLeft, s)
     else (Ok (last (free_list s)), s\<lparr>free_list := butlast (free_list s)\<rparr>))"

text \<open>\<open>partition_point\<close> of a slice whose elements satisfying the predicate come first.\<close>

definition partition_point :: "('x \<Rightarrow> bool) \<Rightarrow> 'x list \<Rightarrow> nat" where
  "partition_point P xs = length (takeWhile P xs)"

definition free_slot :: "libs \<Rightarrow> nat \<Rightarrow> 'a slot_store_scheme \<Rightarrow> 'a slot_store_scheme" where
  "free_slot L slot s =
     (let s1 = snd (wipe L slot s);
          pos = partition_point (\<lambda>x. slot < x) (free_list s1)
      in s1\<lparr>free_list := take pos (free_list s1) @ slot # drop pos (free_list s1)\<rparr>)"

definition current_generation :: "'a slot_store_scheme \<Rightarrow> nat" where
  "current_generation s = generation s"

section \<open>Merkle root\<close>

definition used_slots :: "'a slot_store_scheme \<Rightarrow> nat list" where
  "used_slots s =
     filter (\<lambda>x. x \<noteq> alloc_slot s \<and> x \<notin> set (free_list s)) [slot_start s..<slot_limit s]"

definition update_merkle_root :: "libs \<Rightarrow> ('a slot_store_scheme, vnm_error, unit) op" where
  "update_merkle_root L s =
     then_op (compute_merkle_root L (used_slots s))
       (\<lambda>root s. (Ok (), s\<lparr>cached_merkle_root := root, merkle_dirty := False\<rparr>)) s"

definition is_merkle_dirty :: "'a slot_store_scheme \<Rightarrow> bool" where
  "is_merkle_dirty s = merkle_dirty s"

section \<open>Allocation block\<close>

definition rebuild_free_list :: "'a slot_store_scheme \<Rightarrow> 'a slot_store_scheme" where
  "rebuild_free_list s =
     s\<lparr>free_list := rev (sort (filter (\<lambda>x. x \<noteq> alloc_slot s) [slot_start s..<slot_limit s]))\<rparr>"

text \<open>Bit \<open>i\<close> of the bitmap; a byte past the end reads as not free.\<close>

definition bitmap_bit :: "bytes \<Rightarrow> nat \<Rightarrow> bool" where
  "bitmap_bit bm i = (i div 8 < length bm \<and> drop_bit (i mod 8) (bm ! (i div 8)) AND 1 = 1)"

definition bitmap_slots :: "nat \<Rightarrow> nat \<Rightarrow> bytes \<Rightarrow> nat list" where
  "bitmap_slots start n bm = map (\<lambda>i. wrap64 (start + i)) (filter (bitmap_bit bm) [0..<n])"

definition load_free_list :: "libs \<Rightarrow> ('a slot_store_scheme, vnm_error, unit) op" where
  "load_free_list L s =
     (let min_len = (if has_generation s then ALLOC_HEADER_LEN else 8)
      in case fst (store_read L (alloc_slot s) s) of
           Panic p \<Rightarrow> (Panic p, s)
         | Err e \<Rightarrow> (Ok (), rebuild_free_list s)
         | Ok data \<Rightarrow>
             if length data < min_len then (Ok (), rebuild_free_list s)
             else
               (let n = from_le (subrange 0 8 data);
                    (gen, stored_root, bitmap) =
                      (if has_generation s
                       then (from_le (subrange 8 16 data), subrange 16 48 data, drop 48 data)
                       else (0, ZERO_ROOT, drop 8 data));
                    s = s\<lparr>generation := gen, cached_merkle_root := stored_root\<rparr>;
                    s = s\<lparr>free_list := rev (sort (bitmap_slots (slot_start s) n bitmap))\<rparr>
                in if has_generation s \<and> stored_root \<noteq> ZERO_ROOT
                   then then_op (compute_merkle_root L (used_slots s)) (\<lambda>computed.
                          return_op (if computed \<noteq> stored_root then Err MerkleIntegrityFailure else Ok ())) s
                   else (Ok (), s)))"

primrec set_free_bits :: "nat \<Rightarrow> nat list \<Rightarrow> bytes \<Rightarrow> bytes result" where
  "set_free_bits start [] bm = Ok bm"
| "set_free_bits start (slot # slots) bm =
     (let i = wrap64 (slot + 2 ^ 64 - start)
      in if i div 8 < length bm
         then set_free_bits start slots (bm[i div 8 := bm ! (i div 8) OR push_bit (i mod 8) 1])
         else Panic ''index out of bounds'')"

definition save_free_list :: "libs \<Rightarrow> ('a slot_store_scheme, vnm_error, unit) op" where
  "save_free_list L s =
     (let n = wrap64 (slot_limit s + 2 ^ 64 - slot_start s)
      in then_op (return_op (set_free_bits (slot_start s) (free_list s) (replicate (wrap64 (n + 7) div 8) 0)))
           (\<lambda>bitmap s.
             let new_gen = (if has_generation s then wrap64 (generation s + 1) else 0);
                 s = (if has_generation s then s\<lparr>generation := new_gen\<rparr> else s);
                 data = to_le 8 n @
                   (if has_generation s then to_le 8 new_gen @ cached_merkle_root s else []) @ bitmap
             in store_write L (alloc_slot s) data s) s)"

definition flush_file :: "('a slot_store_scheme, vnm_error, unit) op" where
  "flush_file s = (Ok (), s)"

section \<open>Well-formed stores\<close>

text \<open>
  The slots and the allocation block lie inside the file, and the free list is a strictly
  descending list of slots of the volume, never the allocation block.
\<close>

definition volume_ok :: "'a slot_store_scheme \<Rightarrow> bool" where
  "volume_ok s \<longleftrightarrow> slot_start s \<le> alloc_slot s \<and> alloc_slot s < slot_limit s \<and>
     DATA_AREA_OFFSET + slot_limit s * SLOT_SIZE \<le> length (sys_file s) \<and>
     length (sys_file s) < 2 ^ 63 \<and> length (master_key s) = 32"

definition free_ok :: "'a slot_store_scheme \<Rightarrow> bool" where
  "free_ok s \<longleftrightarrow> sorted_wrt (>) (free_list s) \<and>
     set (free_list s) \<subseteq> {slot_start s..<slot_limit s} - {alloc_slot s}"

definition store_inv :: "'a slot_store_scheme \<Rightarrow> bool" where
  "store_inv s \<longleftrightarrow> volume_ok s \<and> free_ok s \<and> length (cached_merkle_root s) = 32 \<and>
     generation s < 2 ^ 64"

definition in_volume :: "'a slot_store_scheme \<Rightarrow> nat \<Rightarrow> bool" where
  "in_volume s slot \<longleftrightarrow> slot_start s \<le> slot \<and> slot < slot_limit s"

lemma slot_end_mono: "slot < limit \<Longrightarrow> slot * SLOT_SIZE + SLOT_SIZE \<le> limit * SLOT_SIZE"
  by (metis Suc_leI add.commute mult_Suc mult_le_mono1)

lemma volume_okD:
  assumes "volume_ok s"
  shows "slot_start s \<le> alloc_slot s" "alloc_slot s < slot_limit s"
    "DATA_AREA_OFFSET + slot_limit s * SLOT_SIZE \<le> length (sys_file s)"
    "length (sys_file s) < 2 ^ 63" "length (master_key s) = 32"
  using assms unfolding volume_ok_def by blast+

lemma slot_offset_inside:
  assumes "volume_ok s" "slot < slot_limit s"
  shows "slot_offset slot = DATA_AREA_OFFSET + slot * SLOT_SIZE"
    and "slot_offset slot + SLOT_SIZE \<le> length (sys_file s)" and "slot_offset slot < 2 ^ 63"
proof -
  have b: "DATA_AREA_OFFSET + slot * SLOT_SIZE + SLOT_SIZE \<le> length (sys_file s)"
    using volume_okD(3) [OF assms(1)] slot_end_mono [OF assms(2)] by linarith
  then have f: "DATA_AREA_OFFSET + slot * SLOT_SIZE < 2 ^ 63"
    using volume_okD(4) [OF assms(1)] by linarith
  then have "DATA_AREA_OFFSET + slot * SLOT_SIZE < 2 ^ 64"
    by (rule less_trans) simp
  then show off: "slot_offset slot = DATA_AREA_OFFSET + slot * SLOT_SIZE"
    unfolding slot_offset_def by (rule wrap64_id)
  show "slot_offset slot + SLOT_SIZE \<le> length (sys_file s)" "slot_offset slot < 2 ^ 63"
    unfolding off by (rule b, rule f)
qed

lemma slots_disjoint:
  assumes "volume_ok s" "i < slot_limit s" "j < slot_limit s" "i \<noteq> j"
  shows "slot_offset j + SLOT_SIZE \<le> slot_offset i \<or> slot_offset i + SLOT_SIZE \<le> slot_offset j"
proof -
  from assms(4) have "j < i \<or> i < j" by arith
  then have "j * SLOT_SIZE + SLOT_SIZE \<le> i * SLOT_SIZE \<or> i * SLOT_SIZE + SLOT_SIZE \<le> j * SLOT_SIZE"
    using slot_end_mono by blast
  then show ?thesis
    unfolding slot_offset_inside(1) [OF assms(1,2)] slot_offset_inside(1) [OF assms(1,3)] by linarith
qed

section \<open>Reading what was written\<close>

text \<open>The 32 KB image of an encrypted block.\<close>

definition slot_buf :: "bytes \<Rightarrow> bytes" where
  "slot_buf encrypted = blit 4 encrypted (blit 0 (to_le 4 (length encrypted)) (replicate SLOT_SIZE 0))"

lemma SLOT_SIZE_gt: "4 \<le> SLOT_SIZE" "SLOT_SIZE < 2 ^ 32"
  by (simp_all add: SLOT_SIZE_def)

lemma length_slot_buf [simp]: "length encrypted + 4 \<le> SLOT_SIZE \<Longrightarrow> length (slot_buf encrypted) = SLOT_SIZE"
  using SLOT_SIZE_gt by (simp add: slot_buf_def)

lemma slot_buf_framed:
  "length encrypted + 4 \<le> SLOT_SIZE \<Longrightarrow>
     slot_buf encrypted = to_le 4 (length encrypted) @ encrypted @ replicate (SLOT_SIZE - 4 - length encrypted) 0"
  by (simp add: slot_buf_def blit_def min_def)

lemma store_write_inside:
  assumes "volume_ok s" "slot < slot_limit s"
  shows "store_write L slot p s =
    then_op (encrypt_block L (derive_slot_key L slot s) (store_cipher s) (to_le 8 slot) p) (\<lambda>enc s1.
      if SLOT_SIZE < length enc + 4
      then (Err (Serialization ''plaintext too large for one slot''), s1)
      else (Ok (), s1\<lparr>sys_file := blit (slot_offset slot) (slot_buf enc) (sys_file s1), merkle_dirty := True\<rparr>)) s"
proof -
  have w: "pwrite (slot_offset slot) (slot_buf enc) s1 =
      (Ok (), s1\<lparr>sys_file := blit (slot_offset slot) (slot_buf enc) (sys_file s1)\<rparr>)"
    if "\<not> SLOT_SIZE < length enc + 4" "sys_file s1 = sys_file s" for enc and s1 :: "'a slot_store_scheme"
    by (rule pwrite_inside)
      (use that slot_offset_inside [OF assms] in simp_all)
  obtain r s1 where e: "encrypt_block L (derive_slot_key L slot s) (store_cipher s) (to_le 8 slot) p s = (r, s1)"
    by fastforce
  from encrypt_block_state [OF e] have "sys_file s1 = sys_file s" by simp
  with e w show ?thesis
    by (cases r) (simp_all add: store_write_def Let_def slot_buf_def [symmetric])
qed

text \<open>Everything a successful write changes.\<close>

lemma store_write_Ok:
  assumes "volume_ok s" "slot < slot_limit s" "store_write L slot p s = (Ok (), s')"
  obtains enc where
    "encrypt_block L (derive_slot_key L slot s) (store_cipher s) (to_le 8 slot) p s
       = (Ok enc, s\<lparr>sys_rng := sys_rng s + nonce_section_len (store_cipher s)\<rparr>)"
    "length enc + 4 \<le> SLOT_SIZE"
    "s' = s\<lparr>sys_rng := sys_rng s + nonce_section_len (store_cipher s),
      sys_file := blit (slot_offset slot) (slot_buf enc) (sys_file s), merkle_dirty := True\<rparr>"
proof -
  from assms(3) obtain enc s1 where
    e: "encrypt_block L (derive_slot_key L slot s) (store_cipher s) (to_le 8 slot) p s = (Ok enc, s1)"
    and rest: "(if SLOT_SIZE < length enc + 4 then (Err (Serialization ''plaintext too large for one slot''), s1)
      else (Ok (), s1\<lparr>sys_file := blit (slot_offset slot) (slot_buf enc) (sys_file s1), merkle_dirty := True\<rparr>))
      = (Ok (), s')"
    by (auto simp: store_write_inside [OF assms(1,2)] then_op_eq_Ok)
  from encrypt_block_state [OF e] have s1: "s1 = s\<lparr>sys_rng := sys_rng s + nonce_section_len (store_cipher s)\<rparr>" .
  show thesis
    by (rule that [of enc]) (use e rest s1 in \<open>auto split: if_splits\<close>)
qed

lemma slot_image_inside:
  assumes "volume_ok s" "slot < slot_limit s"
  shows "pread (slot_offset slot) SLOT_SIZE s = (Ok (slot_image slot (sys_file s)), s)"
  using slot_offset_inside [OF assms] by (simp add: pread_inside slot_image_def)

text \<open>A slot's content is a function of its image, its index, the key and the cipher.\<close>

definition decode_slot :: "libs \<Rightarrow> bytes \<Rightarrow> cipher_algorithm \<Rightarrow> nat \<Rightarrow> bytes \<Rightarrow> bytes result" where
  "decode_slot L key c slot buf =
     (let len = from_le (subrange 0 4 buf)
      in if len < 36 \<or> SLOT_SIZE < 4 + len then Err (CorruptedSlot slot ''invalid length prefix'')
         else map_err (\<lambda>_. CorruptedSlot slot ''authentication failed'')
           (decrypt_block L (blake3_derive_key L ''venom:slot:v1'' (key @ to_le 8 slot)) c (to_le 8 slot)
             (subrange 4 (4 + len) buf)))"

lemma store_read_inside:
  assumes "volume_ok s" "slot < slot_limit s"
  shows "store_read L slot s =
    (decode_slot L (master_key s) (store_cipher s) slot (slot_image slot (sys_file s)), s)"
  by (simp add: store_read_def slot_image_inside [OF assms] decode_slot_def Let_def derive_slot_key_def)

lemma store_read_state [simp]: "snd (store_read L slot s) = s"
proof -
  have "snd (pread (slot_offset slot) SLOT_SIZE s) = s" by (rule pread_state)
  then show ?thesis
    by (simp add: store_read_def then_op_readonly Let_def split: outcome.splits)
qed

lemma decode_slot_buf:
  assumes "aead_ok L" "p \<noteq> []" "length enc + 4 \<le> SLOT_SIZE"
    and "encrypt_block L (blake3_derive_key L ''venom:slot:v1'' (key @ to_le 8 slot)) c (to_le 8 slot) p s
       = (Ok enc, s')"
  shows "decode_slot L key c slot (slot_buf enc) = Ok p"
proof -
  have small: "length enc < 2 ^ 32" using assms(3) SLOT_SIZE_gt(2) by linarith
  note fr = vnmb.unseal_framed [OF assms(1) openable_payloadI [OF assms(2)] assms(4) small
      slot_buf_framed [OF assms(3)]]
  have len: "length enc = vnmb_overhead c + length p"
    by (rule encrypt_block_length [OF assms(1,4)])
  with fr assms(3) vnmb_overhead_bounds(1) [of c] show ?thesis
    by (simp add: decode_slot_def Let_def)
qed

lemma volume_ok_update [simp]:
  "length f = length (sys_file s) \<Longrightarrow> volume_ok (s\<lparr>sys_rng := r, sys_file := f, merkle_dirty := d\<rparr>) = volume_ok s"
  by (simp add: volume_ok_def)

lemma slot_image_write_same:
  assumes "volume_ok s" "slot < slot_limit s" "length buf = SLOT_SIZE"
  shows "slot_image slot (blit (slot_offset slot) buf (sys_file s)) = buf"
  using slot_offset_inside(2) [OF assms(1,2)] assms(3) by (simp add: slot_image_def)

lemma slot_image_write_other:
  assumes "volume_ok s" "slot < slot_limit s" "j < slot_limit s" "j \<noteq> slot" "length buf = SLOT_SIZE"
  shows "slot_image j (blit (slot_offset slot) buf (sys_file s)) = slot_image j (sys_file s)"
  unfolding slot_image_def
  by (rule subrange_blit_other)
    (use slots_disjoint [OF assms(1,2,3) assms(4) [symmetric]] slot_offset_inside(2) [OF assms(1,2)]
      slot_offset_inside(2) [OF assms(1,3)] assms(5) in auto)

section \<open>The interface: a device of slots\<close>

primrec write_all :: "(nat \<Rightarrow> 'd \<Rightarrow> ('s, 'e, unit) op) \<Rightarrow> (nat \<times> 'd) list \<Rightarrow> ('s, 'e, unit) op" where
  "write_all w [] = return_op (Ok ())"
| "write_all w (x # xs) = then_op (w (fst x) (snd x)) (\<lambda>_. write_all w xs)"

text \<open>
  What a client of the store relies on: reading leaves the state alone, a successful write
  is read back, and no other slot of the volume changes, also when the write fails.
\<close>

locale slot_device =
  fixes inv :: "'l \<Rightarrow> 's \<Rightarrow> bool"
    and valid :: "'s \<Rightarrow> nat \<Rightarrow> bool"
    and payload :: "'d \<Rightarrow> bool"
    and rd :: "'l \<Rightarrow> nat \<Rightarrow> ('s, 'e, 'd) op"
    and wr :: "'l \<Rightarrow> nat \<Rightarrow> 'd \<Rightarrow> ('s, 'e, unit) op"
  assumes read_state: "snd (rd L i s) = s"
    and write_inv: "inv L s \<Longrightarrow> valid s i \<Longrightarrow> wr L i d s = (r, s') \<Longrightarrow> inv L s' \<and> valid s' = valid s"
    and read_same: "inv L s \<Longrightarrow> valid s i \<Longrightarrow> payload d \<Longrightarrow> wr L i d s = (Ok (), s') \<Longrightarrow>
      fst (rd L i s') = Ok d"
    and read_other: "inv L s \<Longrightarrow> valid s i \<Longrightarrow> valid s j \<Longrightarrow> j \<noteq> i \<Longrightarrow> wr L i d s = (r, s') \<Longrightarrow>
      fst (rd L j s') = fst (rd L j s)"
begin

lemma write_all_reads:
  assumes "distinct (map fst xs)" "inv L s" "\<forall>x \<in> set xs. valid s (fst x) \<and> payload (snd x)"
    and "write_all (wr L) xs s = (Ok (), s')"
  shows "inv L s' \<and> valid s' = valid s \<and> (\<forall>x \<in> set xs. fst (rd L (fst x) s') = Ok (snd x)) \<and>
    (\<forall>j. valid s j \<longrightarrow> j \<notin> fst ` set xs \<longrightarrow> fst (rd L j s') = fst (rd L j s))"
  using assms
proof (induction xs arbitrary: s)
  case Nil
  then show ?case by simp
next
  case (Cons x xs)
  from Cons.prems(4) obtain s1 where w: "wr L (fst x) (snd x) s = (Ok (), s1)"
    and ws: "write_all (wr L) xs s1 = (Ok (), s')"
    by (auto simp: then_op_eq_Ok)
  from Cons.prems(3) have v: "valid s (fst x)" "payload (snd x)" by auto
  note inv1 = write_inv [OF Cons.prems(2) v(1) w]
  from Cons.IH [OF _ _ _ ws] Cons.prems inv1
  have IH: "inv L s'" "valid s' = valid s" "\<forall>y \<in> set xs. fst (rd L (fst y) s') = Ok (snd y)"
    "\<And>j. valid s j \<Longrightarrow> j \<notin> fst ` set xs \<Longrightarrow> fst (rd L j s') = fst (rd L j s1)"
    by auto
  have "fst (rd L (fst x) s') = Ok (snd x)"
    using IH(4) [OF v(1)] Cons.prems(1) read_same [OF Cons.prems(2) v w] by simp
  moreover have "fst (rd L j s') = fst (rd L j s)"
    if "valid s j" "j \<noteq> fst x" "j \<notin> fst ` set xs" for j
    using IH(4) [OF that(1,3)] read_other [OF Cons.prems(2) v(1) that(1,2) w] by simp
  ultimately show ?case using IH by auto
qed

end

section \<open>The store is a device\<close>

text \<open>Fields that slot writes leave alone.\<close>

definition same_volume :: "'a slot_store_scheme \<Rightarrow> 'a slot_store_scheme \<Rightarrow> bool" where
  "same_volume s s' \<longleftrightarrow> master_key s' = master_key s \<and> store_cipher s' = store_cipher s \<and>
     slot_start s' = slot_start s \<and> slot_limit s' = slot_limit s \<and> alloc_slot s' = alloc_slot s \<and>
     free_list s' = free_list s \<and> generation s' = generation s \<and> has_generation s' = has_generation s \<and>
     cached_merkle_root s' = cached_merkle_root s \<and> slot_store.more s' = slot_store.more s \<and>
     sys_clock s' = sys_clock s \<and> sys_rollback s' = sys_rollback s \<and> sys_exists s' = sys_exists s \<and>
     length (sys_file s') = length (sys_file s)"

lemma same_volume_refl [simp]: "same_volume s s"
  by (simp add: same_volume_def)

lemma same_volume_fields:
  assumes "same_volume s s'"
  shows "master_key s' = master_key s" "store_cipher s' = store_cipher s" "slot_start s' = slot_start s"
    "slot_limit s' = slot_limit s" "alloc_slot s' = alloc_slot s" "free_list s' = free_list s"
    "generation s' = generation s" "has_generation s' = has_generation s"
    "cached_merkle_root s' = cached_merkle_root s" "length (sys_file s') = length (sys_file s)"
    "slot_store.more s' = slot_store.more s" "sys_clock s' = sys_clock s" "sys_rollback s' = sys_rollback s"
    "sys_exists s' = sys_exists s"
  using assms unfolding same_volume_def by blast+

lemma same_volume_ok: "same_volume s s' \<Longrightarrow> volume_ok s' = volume_ok s"
  by (simp add: volume_ok_def same_volume_fields)

lemma same_volume_inv: "same_volume s s' \<Longrightarrow> store_inv s' = store_inv s"
  by (simp add: store_inv_def free_ok_def same_volume_ok same_volume_fields)

lemma store_write_same_volume:
  assumes "volume_ok s" "slot < slot_limit s" "store_write L slot p s = (r, s')"
  shows "same_volume s s'"
proof -
  obtain r1 s1 where e: "encrypt_block L (derive_slot_key L slot s) (store_cipher s) (to_le 8 slot) p s = (r1, s1)"
    by fastforce
  note st = encrypt_block_state [OF e]
  show ?thesis
    using assms(3) st slot_offset_inside(2) [OF assms(1,2)] e
    by (cases r1) (auto simp: store_write_inside [OF assms(1,2)] same_volume_def split: if_splits)
qed

lemma store_write_images:
  assumes "volume_ok s" "slot < slot_limit s" "j < slot_limit s" "j \<noteq> slot"
    and "store_write L slot p s = (r, s')"
  shows "slot_image j (sys_file s') = slot_image j (sys_file s)"
proof -
  obtain r1 s1 where e: "encrypt_block L (derive_slot_key L slot s) (store_cipher s) (to_le 8 slot) p s = (r1, s1)"
    by fastforce
  note st = encrypt_block_state [OF e]
  show ?thesis
    using assms(5) st e slot_image_write_other [OF assms(1-4)]
    by (cases r1) (auto simp: store_write_inside [OF assms(1,2)] split: if_splits)
qed

lemma store_write_read_same:
  assumes "aead_ok L" "volume_ok s" "slot < slot_limit s" "p \<noteq> []" "store_write L slot p s = (Ok (), s')"
  shows "fst (store_read L slot s') = Ok p"
proof -
  obtain enc where
    e: "encrypt_block L (derive_slot_key L slot s) (store_cipher s) (to_le 8 slot) p s
       = (Ok enc, s\<lparr>sys_rng := sys_rng s + nonce_section_len (store_cipher s)\<rparr>)"
    and fits: "length enc + 4 \<le> SLOT_SIZE"
    and s': "s' = s\<lparr>sys_rng := sys_rng s + nonce_section_len (store_cipher s),
      sys_file := blit (slot_offset slot) (slot_buf enc) (sys_file s), merkle_dirty := True\<rparr>"
    using store_write_Ok [OF assms(2,3,5)] .
  have vol: "volume_ok s'" "slot < slot_limit s'"
    using same_volume_ok [OF store_write_same_volume [OF assms(2,3,5)]] assms(2,3) by (simp_all add: s')
  have img: "slot_image slot (sys_file s') = slot_buf enc"
    using slot_image_write_same [OF assms(2,3)] fits by (simp add: s')
  have kc: "master_key s' = master_key s" "store_cipher s' = store_cipher s"
    by (simp_all add: s')
  show ?thesis
    using decode_slot_buf [OF assms(1,4) fits e [unfolded derive_slot_key_def]]
    by (simp add: store_read_inside [OF vol] img kc)
qed

lemma store_write_read_other:
  assumes "volume_ok s" "slot < slot_limit s" "j < slot_limit s" "j \<noteq> slot"
    and "store_write L slot p s = (r, s')"
  shows "fst (store_read L j s') = fst (store_read L j s)"
proof -
  note sv = store_write_same_volume [OF assms(1,2,5)]
  have "volume_ok s'" "j < slot_limit s'"
    using same_volume_ok [OF sv] same_volume_fields [OF sv] assms(1,3) by simp_all
  then show ?thesis
    by (simp add: store_read_inside assms(1,3) same_volume_fields [OF sv] store_write_images [OF assms])
qed

definition device_inv :: "libs \<Rightarrow> 'a slot_store_scheme \<Rightarrow> bool" where
  "device_inv L s \<longleftrightarrow> aead_ok L \<and> store_inv s"

definition nonempty_payload :: "bytes \<Rightarrow> bool" where
  "nonempty_payload p \<longleftrightarrow> p \<noteq> []"

interpretation dev: slot_device device_inv in_volume nonempty_payload store_read store_write
proof (unfold_locales, goal_cases)
  case 1
  show ?case by simp
next
  case (2 L s i d r s')
  then have "same_volume s s'"
    by (intro store_write_same_volume) (auto simp: device_inv_def store_inv_def in_volume_def)
  with 2 show ?case
    by (auto simp: device_inv_def same_volume_inv in_volume_def same_volume_fields fun_eq_iff)
next
  case (3 L s i d s')
  then show ?case
    by (intro store_write_read_same) (auto simp: device_inv_def store_inv_def in_volume_def nonempty_payload_def)
next
  case (4 L s i j d r s')
  then show ?case
    by (intro store_write_read_other [where slot = i])
      (auto simp: device_inv_def store_inv_def in_volume_def)
qed

end
