(* ===== verification/Slot_Alloc.thy ===== *)
theory Slot_Alloc
  imports Slot_Store
begin

text \<open>
  Allocation and persistence of the free list (storage/slot_store.rs). The interface
  \<open>slot_pool\<close> says what the callers of \<open>alloc\<close> and \<open>free_slot\<close> rely on and is provided by
  the store; then the bitmap, the round trip of the allocation block, and what the
  generation counter and the Merkle root of that block guarantee when it is loaded.
\<close>

section \<open>The interface: a pool of slots\<close>

primrec take_all :: "('s, 'e, nat) op \<Rightarrow> nat \<Rightarrow> ('s, 'e, nat list) op" where
  "take_all tk 0 = return_op (Ok [])"
| "take_all tk (Suc n) = then_op tk (\<lambda>i. then_op (take_all tk n) (\<lambda>is. return_op (Ok (i # is))))"

locale slot_pool =
  fixes inv :: "'s \<Rightarrow> bool"
    and owned :: "'s \<Rightarrow> nat set"
    and avail :: "'s \<Rightarrow> nat set"
    and tk :: "('s, 'e, nat) op"
    and give :: "nat \<Rightarrow> 's \<Rightarrow> 's"
    and no_space :: 'e
  assumes avail_owned: "inv s \<Longrightarrow> avail s \<subseteq> owned s"
    and owned_finite: "inv s \<Longrightarrow> finite (owned s)"
    and take_Ok: "inv s \<Longrightarrow> avail s \<noteq> {} \<Longrightarrow> \<exists>s'. tk s = (Ok (Min (avail s)), s') \<and>
      inv s' \<and> owned s' = owned s \<and> avail s' = avail s - {Min (avail s)}"
    and take_none: "inv s \<Longrightarrow> avail s = {} \<Longrightarrow> tk s = (Err no_space, s)"
    and give_inv: "inv s \<Longrightarrow> i \<in> owned s \<Longrightarrow> i \<notin> avail s \<Longrightarrow> inv (give i s) \<and>
      owned (give i s) = owned s \<and> avail (give i s) = insert i (avail s)"
begin

lemma avail_finite: "inv s \<Longrightarrow> finite (avail s)"
  using avail_owned owned_finite finite_subset by blast

lemma take_D:
  assumes "inv s" "tk s = (Ok i, s')"
  shows "inv s' \<and> owned s' = owned s \<and> i \<in> avail s \<and> avail s' = avail s - {i} \<and>
    (\<forall>j \<in> avail s'. i < j)"
proof -
  have ne: "avail s \<noteq> {}" using assms take_none [OF assms(1)] by auto
  from take_Ok [OF assms(1) ne] assms(2)
  have *: "i = Min (avail s)" "inv s'" "owned s' = owned s" "avail s' = avail s - {i}" by auto
  have "i \<in> avail s" using Min_in [OF avail_finite [OF assms(1)] ne] *(1) by simp
  moreover have "i < j" if "j \<in> avail s'" for j
    using Min_le [OF avail_finite [OF assms(1)], of j] that *(1,4) by auto
  ultimately show ?thesis using * by auto
qed

text \<open>Allocated slots were free, come in ascending order and are never handed out twice.\<close>

lemma take_all_Ok:
  assumes "inv s" "take_all tk n s = (Ok is, s')"
  shows "inv s' \<and> owned s' = owned s \<and> length is = n \<and> set is \<subseteq> avail s \<and>
    sorted_wrt (<) is \<and> avail s' = avail s - set is \<and> (\<forall>i \<in> set is. \<forall>j \<in> avail s'. i < j)"
  using assms
proof (induction n arbitrary: s "is")
  case 0
  then show ?case by simp
next
  case (Suc n)
  from Suc.prems(2) obtain i s1 js where t: "tk s = (Ok i, s1)"
    and ts: "take_all tk n s1 = (Ok js, s')" and eq: "is = i # js"
    by (auto simp: then_op_eq_Ok)
  note d = take_D [OF Suc.prems(1) t]
  with Suc.IH [OF _ ts] have "inv s'" "owned s' = owned s1" "length js = n" "set js \<subseteq> avail s1"
    "sorted_wrt (<) js" "avail s' = avail s1 - set js" "\<forall>i \<in> set js. \<forall>j \<in> avail s'. i < j"
    by auto
  with d eq show ?case by auto
qed

lemma take_all_error:
  assumes "inv s" "take_all tk n s = (r, s')" "\<And>is. r \<noteq> Ok is"
  shows "r = Err no_space"
  using assms
proof (induction n arbitrary: s r s')
  case 0
  from 0(2) have "r = Ok []" by simp
  with 0(3) show ?case by blast
next
  case (Suc n)
  show ?case
  proof (cases "avail s = {}")
    case True
    from take_none [OF Suc.prems(1) this] Suc.prems(2) show ?thesis by simp
  next
    case False
    from take_Ok [OF Suc.prems(1) this] obtain s1 where t: "tk s = (Ok (Min (avail s)), s1)" "inv s1" by blast
    obtain r2 s2 where t2: "take_all tk n s1 = (r2, s2)" by fastforce
    have "r2 \<noteq> Ok js" for js
      using Suc.prems(2) Suc.prems(3) [of "Min (avail s) # js"] t(1) t2 by auto
    from Suc.IH [OF t(2) t2 this] Suc.prems(2) t(1) t2 show ?thesis by simp
  qed
qed

lemma take_all_total:
  assumes "inv s" "n \<le> card (avail s)"
  shows "\<exists>is s'. take_all tk n s = (Ok is, s')"
  using assms
proof (induction n arbitrary: s)
  case 0
  then show ?case by simp
next
  case (Suc n)
  then have ne: "avail s \<noteq> {}" by auto
  from take_Ok [OF Suc.prems(1) ne] obtain s1 where t: "tk s = (Ok (Min (avail s)), s1)" "inv s1"
    "avail s1 = avail s - {Min (avail s)}" by blast
  have "n \<le> card (avail s1)"
    using Suc.prems(2) Min_in [OF avail_finite [OF Suc.prems(1)] ne] avail_finite [OF Suc.prems(1)]
    by (simp add: t(3) card_Diff_singleton)
  with Suc.IH t obtain js s' where "take_all tk n s1 = (Ok js, s')" by blast
  with t show ?case by simp
qed

text \<open>Giving back what was just taken restores the pool.\<close>

lemma take_give:
  assumes "inv s" "tk s = (Ok i, s')"
  shows "inv (give i s') \<and> avail (give i s') = avail s"
  using take_D [OF assms] give_inv [of s' i] avail_owned [OF assms(1)] by auto

end

section \<open>The store is a pool\<close>

definition pool_owned :: "'a slot_store_scheme \<Rightarrow> nat set" where
  "pool_owned s = {slot_start s..<slot_limit s} - {alloc_slot s}"

definition free_set :: "'a slot_store_scheme \<Rightarrow> nat set" where
  "free_set s = set (free_list s)"

lemma desc_last_Min:
  assumes "sorted_wrt (>) xs" "xs \<noteq> []"
  shows "last xs = Min (set xs) \<and> set (butlast xs) = set xs - {last xs} \<and> sorted_wrt (>) (butlast xs)"
proof -
  from assms(2) obtain ys y where xs: "xs = ys @ [y]" by (cases xs rule: rev_cases) auto
  from assms(1) have gt: "\<forall>x \<in> set ys. y < x" "sorted_wrt (>) ys" by (auto simp: xs sorted_wrt_append)
  then have "Min (set xs) = y" by (intro Min_eqI) (auto simp: xs intro: less_imp_le)
  with gt show ?thesis by (auto simp: xs)
qed

lemma wipe_inside:
  assumes "volume_ok s" "slot < slot_limit s"
  shows "wipe L slot s = (Ok (), s\<lparr>sys_rng := sys_rng s + SLOT_SIZE,
    sys_file := blit (slot_offset slot) (map (rand_tape L) [sys_rng s..<sys_rng s + SLOT_SIZE]) (sys_file s),
    merkle_dirty := True\<rparr>)"
  using slot_offset_inside [OF assms] by (simp add: wipe_def fill_bytes_def pwrite_inside Let_def)

lemma wipe_same_volume:
  assumes "volume_ok s" "slot < slot_limit s"
  shows "same_volume s (snd (wipe L slot s))"
  using slot_offset_inside [OF assms] by (simp add: wipe_inside [OF assms] same_volume_def)

text \<open>Insertion at the partition point of a descending list.\<close>

definition insert_desc :: "nat \<Rightarrow> nat list \<Rightarrow> nat list" where
  "insert_desc x xs = (let pos = partition_point (\<lambda>y. x < y) xs in take pos xs @ x # drop pos xs)"

lemma insert_desc_eq: "insert_desc x xs = takeWhile (\<lambda>y. x < y) xs @ x # dropWhile (\<lambda>y. x < y) xs"
  by (simp add: insert_desc_def partition_point_def takeWhile_eq_take [symmetric] dropWhile_eq_drop [symmetric] Let_def)

lemma set_insert_desc [simp]: "set (insert_desc x xs) = insert x (set xs)"
proof -
  have "set (takeWhile (\<lambda>y. x < y) xs) \<union> set (dropWhile (\<lambda>y. x < y) xs) = set xs"
    by (metis set_append takeWhile_dropWhile_id)
  then show ?thesis by (auto simp: insert_desc_eq)
qed

lemma insert_desc_sorted:
  assumes "sorted_wrt (>) xs" "x \<notin> set xs"
  shows "sorted_wrt (>) (insert_desc x xs)"
  using assms
proof (induction xs)
  case Nil
  then show ?case by (simp add: insert_desc_eq)
next
  case (Cons y ys)
  show ?case
  proof (cases "x < y")
    case True
    with Cons have "sorted_wrt (>) (insert_desc x ys)" "\<forall>z \<in> set (insert_desc x ys). z < y" by auto
    with True show ?thesis by (simp add: insert_desc_eq)
  next
    case False
    with Cons.prems have "y < x" "\<forall>z \<in> set ys. z < y" by auto
    with False Cons.prems show ?thesis by (auto simp: insert_desc_eq)
  qed
qed

lemma free_slot_eq:
  "free_slot L slot s = (let s1 = snd (wipe L slot s) in s1\<lparr>free_list := insert_desc slot (free_list s1)\<rparr>)"
  by (simp add: free_slot_def insert_desc_def Let_def)

lemma volume_ok_free_list [simp]: "volume_ok (s\<lparr>free_list := x\<rparr>) = volume_ok s"
  by (simp add: volume_ok_def)

lemma store_inv_free_list:
  "store_inv s \<Longrightarrow> free_ok (s\<lparr>free_list := x\<rparr>) \<Longrightarrow> store_inv (s\<lparr>free_list := x\<rparr>)"
  by (simp add: store_inv_def)

lemma alloc_Ok:
  assumes "store_inv s" "free_list s \<noteq> []"
  shows "alloc s = (Ok (Min (free_set s)), s\<lparr>free_list := butlast (free_list s)\<rparr>) \<and>
    store_inv (s\<lparr>free_list := butlast (free_list s)\<rparr>) \<and>
    set (butlast (free_list s)) = free_set s - {Min (free_set s)}"
proof -
  from assms have "sorted_wrt (>) (free_list s)" by (simp add: store_inv_def free_ok_def)
  note d = desc_last_Min [OF this assms(2)]
  have "free_ok (s\<lparr>free_list := butlast (free_list s)\<rparr>)"
    using d assms(1) by (auto simp: free_ok_def store_inv_def)
  with d assms show ?thesis by (simp add: alloc_def free_set_def store_inv_free_list)
qed

lemma free_slot_inv:
  assumes "store_inv s" "slot \<in> pool_owned s" "slot \<notin> free_set s"
  shows "store_inv (free_slot L slot s) \<and> free_set (free_slot L slot s) = insert slot (free_set s) \<and>
    pool_owned (free_slot L slot s) = pool_owned s"
proof -
  let ?s1 = "snd (wipe L slot s)"
  have sv: "same_volume s ?s1"
    by (rule wipe_same_volume) (use assms in \<open>auto simp: store_inv_def pool_owned_def\<close>)
  note f = same_volume_fields [OF sv]
  have "sorted_wrt (>) (insert_desc slot (free_list ?s1))"
    by (rule insert_desc_sorted) (use assms f in \<open>auto simp: store_inv_def free_ok_def free_set_def\<close>)
  moreover have "set (insert_desc slot (free_list ?s1)) = insert slot (free_set s)"
    by (simp add: f free_set_def)
  ultimately have "free_ok (?s1\<lparr>free_list := insert_desc slot (free_list ?s1)\<rparr>)"
    using assms(1,2) f by (auto simp: free_ok_def free_set_def store_inv_def pool_owned_def)
  with same_volume_inv [OF sv] assms(1)
  have "store_inv (?s1\<lparr>free_list := insert_desc slot (free_list ?s1)\<rparr>)"
    by (simp add: store_inv_free_list)
  with f show ?thesis
    by (simp add: free_slot_eq Let_def free_set_def pool_owned_def)
qed

interpretation pool: slot_pool store_inv pool_owned free_set alloc "free_slot L" NoSpaceLeft for L
proof (unfold_locales, goal_cases)
  case (1 s)
  then show ?case by (auto simp: store_inv_def free_ok_def free_set_def pool_owned_def)
next
  case (2 s)
  show ?case by (simp add: pool_owned_def)
next
  case (3 s)
  then have "free_list s \<noteq> []" by (simp add: free_set_def)
  from alloc_Ok [OF 3(1) this] show ?case by (simp add: pool_owned_def free_set_def)
next
  case (4 s)
  then show ?case by (simp add: alloc_def free_set_def)
next
  case (5 s i)
  from free_slot_inv [OF this] show ?case by blast
qed

section \<open>The bitmap\<close>

lemma and_one_drop_bit: "(drop_bit k (b :: byte) AND 1 = 1) = bit b k"
  by (simp add: and_one_eq bit_iff_odd_drop_bit odd_iff_mod_2_eq_one)

lemma bitmap_bit_iff: "bitmap_bit bm i \<longleftrightarrow> i div 8 < length bm \<and> bit (bm ! (i div 8)) (i mod 8)"
  by (simp add: bitmap_bit_def and_one_drop_bit)

lemma bit_or_push: "k < 8 \<Longrightarrow> bit ((b :: byte) OR 2 ^ k) j \<longleftrightarrow> bit b j \<or> j = k"
  by (auto simp: bit_or_iff bit_exp_iff)

lemma bitmap_bit_set:
  assumes "k div 8 < length bm"
  shows "bitmap_bit (bm[k div 8 := bm ! (k div 8) OR push_bit (k mod 8) 1]) i \<longleftrightarrow> bitmap_bit bm i \<or> i = k"
proof (cases "i div 8 = k div 8")
  case True
  then have "i = k \<longleftrightarrow> i mod 8 = k mod 8" by (metis div_mult_mod_eq)
  with True assms show ?thesis by (simp add: bitmap_bit_iff bit_or_push)
next
  case False
  then show ?thesis by (auto simp: bitmap_bit_iff)
qed

lemma set_free_bits_Ok:
  assumes "\<forall>x \<in> set slots. start \<le> x \<and> x - start < 8 * length bm \<and> x < 2 ^ 64"
  shows "\<exists>bm'. set_free_bits start slots bm = Ok bm' \<and> length bm' = length bm \<and>
    (\<forall>i. bitmap_bit bm' i \<longleftrightarrow> bitmap_bit bm i \<or> start + i \<in> set slots)"
  using assms
proof (induction slots arbitrary: bm)
  case Nil
  then show ?case by simp
next
  case (Cons x xs)
  from Cons.prems have x: "start \<le> x" "x - start < 8 * length bm" "x < 2 ^ 64" by auto
  then have w: "wrap64 (x + 2 ^ 64 - start) = x - start"
  proof -
    from x(1) have "x + 2 ^ 64 - start = (x - start) + 2 ^ 64" by simp
    moreover have "(x - start) mod 2 ^ 64 = x - start" using x(3) by (intro mod_less) linarith
    ultimately show ?thesis unfolding wrap64_def by (metis mod_add_self2)
  qed
  have b: "(x - start) div 8 < length bm" using x(2) by auto
  define bm1 where "bm1 = bm[(x - start) div 8 := bm ! ((x - start) div 8) OR push_bit ((x - start) mod 8) 1]"
  have "length bm1 = length bm" by (simp add: bm1_def)
  with Cons.IH [of bm1] Cons.prems obtain bm' where bm': "set_free_bits start xs bm1 = Ok bm'"
    "length bm' = length bm" "\<And>i. bitmap_bit bm' i \<longleftrightarrow> bitmap_bit bm1 i \<or> start + i \<in> set xs"
    by auto
  have "set_free_bits start (x # xs) bm = Ok bm'"
    using b bm'(1) unfolding set_free_bits.simps Let_def w bm1_def by simp
  moreover have "bitmap_bit bm1 i \<longleftrightarrow> bitmap_bit bm i \<or> i = x - start" for i
    unfolding bm1_def by (rule bitmap_bit_set [OF b])
  ultimately show ?case
    using bm'(2,3) x(1) by auto
qed

lemma bitmap_bit_zero [simp]: "\<not> bitmap_bit (replicate n 0) i"
  by (simp add: bitmap_bit_iff)

text \<open>A strictly descending list is determined by its set.\<close>

lemma rev_sort_set:
  assumes "sorted_wrt (>) xs" "distinct ys" "set ys = set xs"
  shows "rev (sort ys) = xs"
proof -
  have s: "sorted_wrt (<) (rev xs)" using assms(1) by (simp add: sorted_wrt_rev)
  then have "sorted (rev xs)" "distinct (rev xs)" by (simp_all add: strict_sorted_iff)
  with assms(2,3) have "sort ys = rev xs"
    by (intro sorted_distinct_set_unique) auto
  then show ?thesis by simp
qed

lemma bitmap_slots_free_list:
  assumes "sorted_wrt (>) xs" "set xs \<subseteq> {start..<start + n}" "start + n \<le> 2 ^ 64"
    and "\<And>i. bitmap_bit bm i \<longleftrightarrow> start + i \<in> set xs"
  shows "rev (sort (bitmap_slots start n bm)) = xs"
proof (rule rev_sort_set [OF assms(1)])
  have w: "wrap64 (start + i) = start + i" if "i < n" for i
    using that assms(3) by (intro wrap64_id) simp
  have eq: "bitmap_slots start n bm = map (\<lambda>i. start + i) (filter (bitmap_bit bm) [0..<n])"
    unfolding bitmap_slots_def by (rule map_cong) (auto simp: w)
  show "distinct (bitmap_slots start n bm)" by (simp add: eq distinct_map)
  show "set (bitmap_slots start n bm) = set xs"
  proof
    show "set (bitmap_slots start n bm) \<subseteq> set xs" by (auto simp: eq assms(4))
    show "set xs \<subseteq> set (bitmap_slots start n bm)"
    proof
      fix x assume x: "x \<in> set xs"
      with assms(2) have "start \<le> x" "x < start + n" by auto
      with x have "x - start \<in> set (filter (bitmap_bit bm) [0..<n])" "x = start + (x - start)"
        by (auto simp: assms(4))
      then show "x \<in> set (bitmap_slots start n bm)" unfolding eq by force
    qed
  qed
qed

end
