(* ===== verification/Slot_Persist.thy ===== *)
theory Slot_Persist
  imports Slot_Alloc
begin

text \<open>
  What survives a close and a reopen of the block store (storage/slot_store.rs): the round
  trip of the allocation block, its capacity, the Merkle check on load, and the recovery
  path taken when the block cannot be read.
\<close>

section \<open>Saving\<close>

text \<open>The content of the allocation block for a given bitmap and generation.\<close>

definition alloc_data :: "'a slot_store_scheme \<Rightarrow> nat \<Rightarrow> bytes \<Rightarrow> bytes" where
  "alloc_data s gen bitmap = to_le 8 (slot_limit s - slot_start s) @
     (if has_generation s then to_le 8 gen @ cached_merkle_root s else []) @ bitmap"

definition bumped :: "'a slot_store_scheme \<Rightarrow> 'a slot_store_scheme" where
  "bumped s = (if has_generation s then s\<lparr>generation := wrap64 (generation s + 1)\<rparr> else s)"

lemma bumped_fields [simp]:
  "master_key (bumped s) = master_key s" "store_cipher (bumped s) = store_cipher s"
  "slot_start (bumped s) = slot_start s" "slot_limit (bumped s) = slot_limit s"
  "alloc_slot (bumped s) = alloc_slot s" "free_list (bumped s) = free_list s"
  "has_generation (bumped s) = has_generation s" "sys_file (bumped s) = sys_file s"
  "cached_merkle_root (bumped s) = cached_merkle_root s" "sys_rng (bumped s) = sys_rng s"
  "sys_clock (bumped s) = sys_clock s" "sys_exists (bumped s) = sys_exists s" "sys_rollback (bumped s) = sys_rollback s"
  "volume_ok (bumped s) = volume_ok s" "used_slots (bumped s) = used_slots s"
  by (simp_all add: bumped_def volume_ok_def used_slots_def)

lemma store_inv_bumped: "store_inv s \<Longrightarrow> store_inv (bumped s)"
  using wrap64_bound by (simp add: store_inv_def free_ok_def) (simp add: bumped_def)

lemma slot_limit_bound: "volume_ok s \<Longrightarrow> slot_limit s < 2 ^ 63"
proof -
  assume v: "volume_ok s"
  have "slot_limit s \<le> slot_limit s * SLOT_SIZE" by (simp add: SLOT_SIZE_def)
  with volume_okD(3,4) [OF v] show ?thesis by linarith
qed

lemma save_free_list_eq:
  assumes "store_inv s"
  obtains bm where "length bm = (slot_limit s - slot_start s + 7) div 8"
    "\<And>i. bitmap_bit bm i \<longleftrightarrow> slot_start s + i \<in> set (free_list s)"
    "save_free_list L s = store_write L (alloc_slot s)
       (alloc_data s (wrap64 (generation s + 1)) bm) (bumped s)"
proof -
  let ?n = "slot_limit s - slot_start s"
  have vol: "volume_ok s" and fr: "set (free_list s) \<subseteq> {slot_start s..<slot_limit s}"
    using assms by (auto simp: store_inv_def free_ok_def)
  have "\<forall>x \<in> set (free_list s). slot_start s \<le> x \<and> x - slot_start s < 8 * length (replicate ((?n + 7) div 8) (0 :: byte))
      \<and> x < 2 ^ 64"
  proof
    fix x assume "x \<in> set (free_list s)"
    with fr have x: "slot_start s \<le> x" "x < slot_limit s" by auto
    moreover have "x < 2 ^ 64" using x slot_limit_bound [OF vol] by simp
    moreover have "?n \<le> 8 * ((?n + 7) div 8)" by simp
    ultimately show "slot_start s \<le> x \<and> x - slot_start s < 8 * length (replicate ((?n + 7) div 8) (0 :: byte)) \<and> x < 2 ^ 64"
      by simp
  qed
  from set_free_bits_Ok [OF this] obtain bm where bm:
    "set_free_bits (slot_start s) (free_list s) (replicate ((?n + 7) div 8) 0) = Ok bm"
    "length bm = (?n + 7) div 8" "\<And>i. bitmap_bit bm i \<longleftrightarrow> slot_start s + i \<in> set (free_list s)"
    by auto
  have lim: "slot_start s \<le> slot_limit s" "slot_limit s < 2 ^ 64" "?n + 7 < 2 ^ 64"
    using slot_limit_bound [OF vol] volume_okD(1,2) [OF vol] by simp_all
  note n = wrap64_diff [OF lim(1,2)] wrap64_id [OF lim(3)]
  show thesis
    by (rule that [OF bm(2,3)])
      (simp only: save_free_list_def Let_def n, simp add: bm(1) alloc_data_def bumped_def)
qed

lemma alloc_in_volume: "volume_ok s \<Longrightarrow> alloc_slot s < slot_limit s"
  by (rule volume_okD(2))

lemma save_free_list_inv:
  assumes "store_inv s" "save_free_list L s = (r, s')"
  shows "store_inv s' \<and> same_volume (bumped s) s'"
proof -
  have vol: "volume_ok (bumped s)" using assms(1) by (simp add: store_inv_def)
  obtain bm where "save_free_list L s = store_write L (alloc_slot s)
       (alloc_data s (wrap64 (generation s + 1)) bm) (bumped s)"
    by (rule save_free_list_eq [OF assms(1)])
  with assms(2) store_write_same_volume [OF vol, of "alloc_slot s"] alloc_in_volume [OF vol]
  have "same_volume (bumped s) s'" by simp
  with same_volume_inv store_inv_bumped [OF assms(1)] show ?thesis by blast
qed

text \<open>Only the allocation block of the volume changes.\<close>

lemma save_free_list_images:
  assumes "store_inv s" "save_free_list L s = (r, s')" "j < slot_limit s" "j \<noteq> alloc_slot s"
  shows "slot_image j (sys_file s') = slot_image j (sys_file s)"
proof -
  have vol: "volume_ok (bumped s)" using assms(1) by (simp add: store_inv_def)
  obtain bm where "save_free_list L s = store_write L (alloc_slot s)
       (alloc_data s (wrap64 (generation s + 1)) bm) (bumped s)"
    by (rule save_free_list_eq [OF assms(1)])
  with assms store_write_images [OF vol, of "alloc_slot s" j] alloc_in_volume [OF vol]
  show ?thesis by simp
qed

section \<open>Capacity\<close>

lemma store_write_result:
  assumes "aead_ok L" "hash_ok L" "volume_ok s" "slot < slot_limit s" "length p < 2 ^ 30"
  shows "fst (store_write L slot p s) =
    (if length p + vnmb_overhead (store_cipher s) + 4 \<le> SLOT_SIZE then Ok ()
     else Err (Serialization ''plaintext too large for one slot''))"
proof -
  have "length (derive_slot_key L slot s) = 32"
    using assms(2) by (simp add: derive_slot_key_def blake3_len)
  from encrypt_block_total [OF assms(1,2) this assms(5)] obtain enc where
    e: "encrypt_block L (derive_slot_key L slot s) (store_cipher s) (to_le 8 slot) p s =
      (Ok enc, s\<lparr>sys_rng := sys_rng s + nonce_section_len (store_cipher s)\<rparr>)" .
  from encrypt_block_length [OF assms(1) e] show ?thesis
    by (simp add: store_write_inside [OF assms(3,4)] e)
qed

definition alloc_prefix_len :: "'a slot_store_scheme \<Rightarrow> nat" where
  "alloc_prefix_len s = (if has_generation s then 48 else 8)"

lemma alloc_data_length:
  "length (cached_merkle_root s) = 32 \<Longrightarrow> length (alloc_data s g bm) = alloc_prefix_len s + length bm"
  by (simp add: alloc_data_def alloc_prefix_len_def)

text \<open>The block holds the bitmap only while it fits one slot.\<close>

lemma save_free_list_result:
  assumes "aead_ok L" "hash_ok L" "store_inv s" "slot_limit s - slot_start s < 2 ^ 32"
  shows "fst (save_free_list L s) =
    (if alloc_prefix_len s + (slot_limit s - slot_start s + 7) div 8 + vnmb_overhead (store_cipher s) + 4 \<le> SLOT_SIZE
     then Ok () else Err (Serialization ''plaintext too large for one slot''))"
proof -
  have vol: "volume_ok (bumped s)" and rt: "length (cached_merkle_root s) = 32"
    using assms(3) by (simp_all add: store_inv_def)
  obtain bm where bm: "length bm = (slot_limit s - slot_start s + 7) div 8" and
    eq: "save_free_list L s = store_write L (alloc_slot s)
       (alloc_data s (wrap64 (generation s + 1)) bm) (bumped s)"
    by (rule save_free_list_eq [OF assms(3)])
  have len: "length (alloc_data s g bm) = alloc_prefix_len s + (slot_limit s - slot_start s + 7) div 8" for g
    by (simp add: alloc_data_length rt bm)
  have "length (alloc_data s (wrap64 (generation s + 1)) bm) < 2 ^ 30"
    using assms(4) unfolding len by (auto simp: alloc_prefix_len_def)
  from store_write_result [OF assms(1,2) vol _ this, of "alloc_slot s"] alloc_in_volume [OF vol]
  show ?thesis by (simp add: eq len)
qed

section \<open>Loading what was saved\<close>

text \<open>
  The stores that reopen the same volume over a file in which the allocation block is
  intact; the other slots may have changed.
\<close>

definition reopens :: "'a slot_store_scheme \<Rightarrow> 'b slot_store_scheme \<Rightarrow> bool" where
  "reopens s t \<longleftrightarrow> length (sys_file t) = length (sys_file s) \<and>
     slot_image (alloc_slot s) (sys_file t) = slot_image (alloc_slot s) (sys_file s) \<and>
     master_key t = master_key s \<and> store_cipher t = store_cipher s \<and>
     slot_start t = slot_start s \<and> slot_limit t = slot_limit s \<and> alloc_slot t = alloc_slot s \<and>
     has_generation t = has_generation s"

lemma reopens_volume: "reopens s t \<Longrightarrow> volume_ok t = volume_ok s"
  by (simp add: reopens_def volume_ok_def)

lemma read_alloc_reopens:
  assumes "volume_ok s" "reopens s t"
  shows "fst (store_read L (alloc_slot t) t) = fst (store_read L (alloc_slot s) s)"
proof -
  have "volume_ok t" using assms by (simp add: reopens_volume)
  then show ?thesis
    using assms alloc_in_volume [of s] alloc_in_volume [of t]
    by (simp add: store_read_inside reopens_def)
qed

lemma alloc_data_parts:
  assumes "length (cached_merkle_root s) = 32"
  shows "subrange 0 8 (alloc_data s g bm) = to_le 8 (slot_limit s - slot_start s)"
    and "has_generation s \<Longrightarrow> subrange 8 16 (alloc_data s g bm) = to_le 8 g"
    and "has_generation s \<Longrightarrow> subrange 16 48 (alloc_data s g bm) = cached_merkle_root s"
    and "has_generation s \<Longrightarrow> drop 48 (alloc_data s g bm) = bm"
    and "\<not> has_generation s \<Longrightarrow> drop 8 (alloc_data s g bm) = bm"
  using assms by (simp_all add: alloc_data_def subrange_def)

definition loaded :: "nat list \<Rightarrow> nat \<Rightarrow> bytes \<Rightarrow> 'a slot_store_scheme \<Rightarrow> 'a slot_store_scheme" where
  "loaded free gen root t = t\<lparr>generation := gen, cached_merkle_root := root, free_list := free\<rparr>"

lemma load_free_list_alloc_data:
  assumes "store_inv s" "length bm = (slot_limit s - slot_start s + 7) div 8"
    and bits: "\<And>i. bitmap_bit bm i \<longleftrightarrow> slot_start s + i \<in> set (free_list s)"
    and "g < 2 ^ 64" "fst (store_read L (alloc_slot t) t) = Ok (alloc_data s g bm)"
    and geo: "slot_start t = slot_start s" "has_generation t = has_generation s"
  shows "load_free_list L t =
    (if has_generation s
     then let t' = loaded (free_list s) g (cached_merkle_root s) t in
       if cached_merkle_root s \<noteq> ZERO_ROOT
       then then_op (compute_merkle_root L (used_slots t')) (\<lambda>computed. return_op
         (if computed \<noteq> cached_merkle_root s then Err MerkleIntegrityFailure else Ok ())) t'
       else (Ok (), t')
     else (Ok (), loaded (free_list s) 0 ZERO_ROOT t))"
proof -
  have vol: "volume_ok s" and rt: "length (cached_merkle_root s) = 32"
    and fo: "sorted_wrt (>) (free_list s)" "set (free_list s) \<subseteq> {slot_start s..<slot_limit s}"
    using assms(1) by (auto simp: store_inv_def free_ok_def)
  let ?n = "slot_limit s - slot_start s"
  have le: "slot_start s \<le> slot_limit s" using volume_okD(1,2) [OF vol] by linarith
  have n64: "?n < 2 ^ 64" and lim: "slot_start s + ?n \<le> 2 ^ 64"
    using slot_limit_bound [OF vol] le by simp_all
  have "rev (sort (bitmap_slots (slot_start s) ?n bm)) = free_list s"
    by (rule bitmap_slots_free_list [OF fo(1) _ lim bits]) (use fo(2) le in simp)
  then have bs: "rev (sort (bitmap_slots (slot_start t) ?n bm)) = free_list s" by (simp add: geo)
  have ln: "(if has_generation t then ALLOC_HEADER_LEN else 8) \<le> length (alloc_data s g bm)"
    by (simp add: alloc_data_length rt alloc_prefix_len_def geo)
  note parts = alloc_data_parts [OF rt, of g bm]
  show ?thesis
  proof (cases "has_generation s")
    case True
    then show ?thesis
      using ln assms(4) n64 bs
      by (simp add: load_free_list_def assms(5) parts geo loaded_def Let_def)
  next
    case False
    then show ?thesis
      using ln n64 bs
      by (simp add: load_free_list_def assms(5) parts geo loaded_def Let_def)
  qed
qed

lemma used_slots_inside: "slot \<in> set (used_slots s) \<Longrightarrow> slot < slot_limit s \<and> slot \<noteq> alloc_slot s"
  by (auto simp: used_slots_def)

lemma compute_root_inside:
  assumes "volume_ok s" "\<forall>slot \<in> set slots. slot < slot_limit s"
  obtains r where "compute_merkle_root L slots s = (Ok r, s)"
  by (rule compute_merkle_root_total [of slots s L])
    (use slot_offset_inside [OF assms(1)] assms(2) in auto)

lemma compute_root_same_file:
  "sys_file t = sys_file s \<Longrightarrow> fst (compute_merkle_root L slots t) = fst (compute_merkle_root L slots s)"
  by (rule compute_merkle_root_cong) simp_all

lemma load_free_list_root:
  assumes "volume_ok t" "\<forall>slot \<in> set slots. slot < slot_limit t"
  shows "then_op (compute_merkle_root L slots) (\<lambda>computed. return_op
      (if computed \<noteq> root then Err MerkleIntegrityFailure else Ok ())) t =
    (if fst (compute_merkle_root L slots t) = Ok root then Ok () else Err MerkleIntegrityFailure, t)"
proof -
  obtain r where "compute_merkle_root L slots t = (Ok r, t)" by (rule compute_root_inside [OF assms])
  then show ?thesis by simp
qed

text \<open>
  A saved store reopens with its free list, the bumped generation and the saved root;
  the load fails exactly when the file no longer hashes to that root.
\<close>

lemma load_after_save:
  assumes L: "aead_ok L" and inv: "store_inv s" and save: "save_free_list L s = (Ok (), s')"
    and re: "reopens s' t"
  shows "load_free_list L t =
    (if has_generation s
     then (if cached_merkle_root s \<noteq> ZERO_ROOT \<and>
             fst (compute_merkle_root L (used_slots s) t) \<noteq> Ok (cached_merkle_root s)
           then Err MerkleIntegrityFailure else Ok (),
           loaded (free_list s) (wrap64 (generation s + 1)) (cached_merkle_root s) t)
     else (Ok (), loaded (free_list s) 0 ZERO_ROOT t))"
proof -
  have vol: "volume_ok (bumped s)" using inv by (simp add: store_inv_def)
  obtain bm where bm: "length bm = (slot_limit s - slot_start s + 7) div 8"
    "\<And>i. bitmap_bit bm i \<longleftrightarrow> slot_start s + i \<in> set (free_list s)"
    and eq: "save_free_list L s = store_write L (alloc_slot s)
       (alloc_data s (wrap64 (generation s + 1)) bm) (bumped s)"
    by (rule save_free_list_eq [OF inv, where L = L]) blast
  let ?d = "alloc_data s (wrap64 (generation s + 1)) bm"
  have sv: "same_volume (bumped s) s'" and inv': "store_inv s'"
    using save_free_list_inv [OF inv save] by auto
  note f = same_volume_fields [OF sv, simplified]
  have "fst (store_read L (alloc_slot s) s') = Ok ?d"
    by (rule store_write_read_same [OF L vol _ _ save [unfolded eq]])
      (use alloc_in_volume [OF vol] in \<open>simp_all add: alloc_data_def\<close>)
  then have rd: "fst (store_read L (alloc_slot t) t) = Ok ?d"
    using read_alloc_reopens [OF _ re, of L] inv' by (simp add: store_inv_def f)
  have geo: "slot_start t = slot_start s" "has_generation t = has_generation s"
    and geo': "slot_limit t = slot_limit s" "alloc_slot t = alloc_slot s"
    using re by (simp_all add: reopens_def f)
  have volt: "volume_ok t" using inv' re by (simp add: reopens_volume store_inv_def)
  let ?t = "loaded (free_list s) (wrap64 (generation s + 1)) (cached_merkle_root s) t"
  have us: "used_slots ?t = used_slots s"
    using geo geo' by (simp add: used_slots_def loaded_def)
  have volt': "volume_ok ?t" "slot_limit ?t = slot_limit s" "sys_file ?t = sys_file t"
    using volt by (simp_all add: volume_ok_def loaded_def geo')
  have "\<forall>slot \<in> set (used_slots s). slot < slot_limit ?t"
    using used_slots_inside [of _ s] volt'(2) by simp
  note root = load_free_list_root [OF volt'(1) this, of L "cached_merkle_root s"]
  show ?thesis
    unfolding load_free_list_alloc_data [OF inv bm wrap64_bound rd geo] us Let_def root
      compute_root_same_file [OF volt'(3)]
    by simp
qed

section \<open>Integrity\<close>

text \<open>A store that hashes to its cached root is saved and reopened without an error.\<close>

lemma load_after_save_clean:
  assumes "aead_ok L" "store_inv s" "save_free_list L s = (Ok (), s')" "reopens s' t"
    and "sys_file t = sys_file s'" "has_generation s"
    and "fst (compute_merkle_root L (used_slots s) s) = Ok (cached_merkle_root s)"
  shows "load_free_list L t =
    (Ok (), loaded (free_list s) (wrap64 (generation s + 1)) (cached_merkle_root s) t)"
proof -
  have "length (sys_file s') = length (sys_file s)"
    using same_volume_fields(10) [of "bumped s" s'] save_free_list_inv [OF assms(2,3)] by simp
  then have "fst (compute_merkle_root L (used_slots s) t) = fst (compute_merkle_root L (used_slots s) s)"
    by (intro compute_merkle_root_cong)
      (use assms(5) save_free_list_images [OF assms(2,3)] used_slots_inside [of _ s] in auto)
  with assms(6,7) show ?thesis
    by (simp add: load_after_save [OF assms(1-4)])
qed

text \<open>Any change to a used slot after the root was computed is detected, or BLAKE3 collides.\<close>

lemma load_detects_change:
  assumes "aead_ok L" "hash_ok L" "\<not> root_collision L (used_slots s) (sys_file s) (sys_file t)" "store_inv s"
    and "save_free_list L s = (Ok (), s')" "reopens s' t" "has_generation s"
    and root: "fst (compute_merkle_root L (used_slots s) s) = Ok (cached_merkle_root s)"
    and "cached_merkle_root s \<noteq> ZERO_ROOT"
    and "slot \<in> set (used_slots s)" "slot_image slot (sys_file t) \<noteq> slot_image slot (sys_file s)"
  shows "fst (load_free_list L t) = Err MerkleIntegrityFailure"
proof -
  have "fst (compute_merkle_root L (used_slots s) t) \<noteq> Ok (cached_merkle_root s)"
  proof
    assume t: "fst (compute_merkle_root L (used_slots s) t) = Ok (cached_merkle_root s)"
    from root obtain s1 where "compute_merkle_root L (used_slots s) s = (Ok (cached_merkle_root s), s1)"
      by (metis prod.collapse)
    moreover from t obtain t1 where "compute_merkle_root L (used_slots s) t = (Ok (cached_merkle_root s), t1)"
      by (metis prod.collapse)
    ultimately have "slot_image slot (sys_file s) = slot_image slot (sys_file t)"
      by (rule merkle_root_binds [OF assms(2,3) _ _ assms(10)])
    with assms(11) show False by simp
  qed
  with assms(7,9) show ?thesis by (simp add: load_after_save [OF assms(1,4,5,6)])
qed

text \<open>
  An allocation block that cannot be read or is too short is not an error: the free list
  is rebuilt with every slot of the volume in it.
\<close>

lemma load_unreadable:
  assumes "fst (store_read L (alloc_slot t) t) = Err e"
  shows "load_free_list L t = (Ok (), rebuild_free_list t)"
  using assms by (simp add: load_free_list_def)

lemma rebuild_free_set: "free_set (rebuild_free_list t) = pool_owned t"
  by (auto simp: rebuild_free_list_def free_set_def pool_owned_def)

lemma rebuild_inv:
  assumes "volume_ok t" "length (cached_merkle_root t) = 32" "generation t < 2 ^ 64"
  shows "store_inv (rebuild_free_list t)"
proof -
  have "sorted_wrt (<) (sort (filter (\<lambda>x. x \<noteq> alloc_slot t) [slot_start t..<slot_limit t]))"
    by (simp add: strict_sorted_iff)
  then have "free_ok (rebuild_free_list t)"
    by (auto simp: free_ok_def rebuild_free_list_def sorted_wrt_rev)
  with assms show ?thesis by (simp add: store_inv_def rebuild_free_list_def volume_ok_def)
qed

section \<open>Refreshing the root\<close>

lemma update_merkle_root_Ok:
  assumes "hash_ok L" "store_inv s"
  obtains root where "update_merkle_root L s = (Ok (), s\<lparr>cached_merkle_root := root, merkle_dirty := False\<rparr>)"
    "fst (compute_merkle_root L (used_slots s) s) = Ok root" "length root = 32"
    "store_inv (s\<lparr>cached_merkle_root := root, merkle_dirty := False\<rparr>)"
proof -
  have "volume_ok s" using assms(2) by (simp add: store_inv_def)
  then obtain r where r: "compute_merkle_root L (used_slots s) s = (Ok r, s)"
    by (rule compute_root_inside [of s "used_slots s"]) (auto dest: used_slots_inside)
  have len: "length r = 32" by (rule compute_merkle_root_length [OF assms(1) r])
  have "store_inv (s\<lparr>cached_merkle_root := r, merkle_dirty := False\<rparr>)"
    using assms(2) len by (simp add: store_inv_def volume_ok_def free_ok_def)
  with r len show thesis by (intro that [of r]) (simp_all add: update_merkle_root_def)
qed

end
