(* ===== verification/Rollback.thy ===== *)
theory Rollback
  imports Slot_Persist
begin

text \<open>
  The local anti-rollback state (rollback.rs): the last generation seen of each container,
  kept in a file outside the container. A missing or unreadable state file counts as
  empty. The interface \<open>baseline\<close> says what the container relies on: after an update,
  exactly the smaller generations are refused.
\<close>

record rollback_state =
  entries :: "string \<rightharpoonup> nat"

definition rollback_load :: "'a sys_scheme \<Rightarrow> rollback_state" where
  "rollback_load s = \<lparr>entries = (case sys_rollback s of None \<Rightarrow> Map.empty | Some m \<Rightarrow> m)\<rparr>"

definition rollback_check :: "libs \<Rightarrow> bytes \<Rightarrow> nat \<Rightarrow> rollback_state \<Rightarrow> unit result" where
  "rollback_check L container_id current_gen st =
     (case entries st (hex_encode L container_id) of
        Some stored \<Rightarrow> (if current_gen < stored then Err (RollbackDetected current_gen stored) else Ok ())
      | None \<Rightarrow> Ok ())"

definition rollback_persist :: "rollback_state \<Rightarrow> ('a sys_scheme, vnm_error, unit) op" where
  "rollback_persist st s = (Ok (), s\<lparr>sys_rollback := Some (entries st)\<rparr>)"

definition rollback_update :: "libs \<Rightarrow> bytes \<Rightarrow> nat \<Rightarrow> ('a sys_scheme, vnm_error, unit) op" where
  "rollback_update L container_id gen s =
     (let st = rollback_load s
      in rollback_persist (st\<lparr>entries := (entries st)(hex_encode L container_id \<mapsto> gen)\<rparr>) s)"

definition rollback_reset :: "libs \<Rightarrow> bytes \<Rightarrow> ('a sys_scheme, vnm_error, unit) op" where
  "rollback_reset L container_id s =
     (let st = rollback_load s
      in rollback_persist (st\<lparr>entries := (entries st)(hex_encode L container_id := None)\<rparr>) s)"

section \<open>The interface: baselines\<close>

locale baseline =
  fixes law :: "'l \<Rightarrow> bool"
    and accepts :: "'l \<Rightarrow> 'k \<Rightarrow> nat \<Rightarrow> 's \<Rightarrow> bool"
    and record_gen :: "'l \<Rightarrow> 'k \<Rightarrow> nat \<Rightarrow> 's \<Rightarrow> 's"
    and forget :: "'l \<Rightarrow> 'k \<Rightarrow> 's \<Rightarrow> 's"
  assumes accepts_recorded: "accepts L k g (record_gen L k g0 s) \<longleftrightarrow> g0 \<le> g"
    and accepts_other: "law L \<Longrightarrow> k' \<noteq> k \<Longrightarrow> accepts L k' g (record_gen L k g0 s) \<longleftrightarrow> accepts L k' g s"
    and accepts_forgotten: "accepts L k g (forget L k s)"
begin

primrec record_all :: "'l \<Rightarrow> 'k \<Rightarrow> nat list \<Rightarrow> 's \<Rightarrow> 's" where
  "record_all L k [] s = s"
| "record_all L k (g # gs) s = record_all L k gs (record_gen L k g s)"

text \<open>A run of updates leaves the last one as the baseline; other containers keep theirs.\<close>

lemma accepts_record_all:
  "gs \<noteq> [] \<Longrightarrow> accepts L k g (record_all L k gs s) \<longleftrightarrow> last gs \<le> g"
proof (induction gs arbitrary: s)
  case (Cons x xs)
  then show ?case by (cases "xs = []") (simp_all add: accepts_recorded)
qed simp

lemma accepts_other_all:
  "law L \<Longrightarrow> k' \<noteq> k \<Longrightarrow> accepts L k' g (record_all L k gs s) \<longleftrightarrow> accepts L k' g s"
  by (induction gs arbitrary: s) (simp_all add: accepts_other)

end

definition rollback_accepts :: "libs \<Rightarrow> bytes \<Rightarrow> nat \<Rightarrow> 'a sys_scheme \<Rightarrow> bool" where
  "rollback_accepts L container_id gen s \<longleftrightarrow> rollback_check L container_id gen (rollback_load s) = Ok ()"

definition after_update :: "libs \<Rightarrow> bytes \<Rightarrow> nat \<Rightarrow> 'a sys_scheme \<Rightarrow> 'a sys_scheme" where
  "after_update L container_id gen s = snd (rollback_update L container_id gen s)"

definition after_reset :: "libs \<Rightarrow> bytes \<Rightarrow> 'a sys_scheme \<Rightarrow> 'a sys_scheme" where
  "after_reset L container_id s = snd (rollback_reset L container_id s)"

lemma hex_inject: "kdf_ok L \<Longrightarrow> hex_encode L a = hex_encode L b \<longleftrightarrow> a = b"
  unfolding kdf_ok_def by (metis option.inject)

lemma rollback_load_persist: "rollback_load (snd (rollback_persist st s)) = st"
  by (simp add: rollback_load_def rollback_persist_def)

lemma rollback_update_eq:
  "rollback_update L cid g s = (Ok (), s\<lparr>sys_rollback :=
     Some ((entries (rollback_load s))(hex_encode L cid \<mapsto> g))\<rparr>)"
  by (simp add: rollback_update_def rollback_persist_def Let_def)

lemma rollback_check_Ok_iff:
  "rollback_check L cid g st = Ok () \<longleftrightarrow>
     (\<forall>stored. entries st (hex_encode L cid) = Some stored \<longrightarrow> stored \<le> g)"
  by (auto simp: rollback_check_def split: option.splits)

lemma rollback_check_refused:
  "entries st (hex_encode L cid) = Some stored \<Longrightarrow> g < stored \<Longrightarrow>
     rollback_check L cid g st = Err (RollbackDetected g stored)"
  by (simp add: rollback_check_def)

lemma rollback_check_no_panic: "rollback_check L cid g st \<noteq> Panic x"
  by (auto simp: rollback_check_def split: option.splits)

interpretation base: baseline kdf_ok rollback_accepts after_update after_reset
proof (unfold_locales, goal_cases)
  case (1 L k g g0 s)
  show ?case
    by (simp add: rollback_accepts_def after_update_def rollback_update_eq rollback_check_Ok_iff)
      (simp add: rollback_load_def)
next
  case (2 L k' k g g0 s)
  then show ?case
    by (simp add: rollback_accepts_def after_update_def rollback_update_eq rollback_check_Ok_iff)
      (simp add: rollback_load_def hex_inject)
next
  case (3 L k g s)
  show ?case
    by (simp add: rollback_accepts_def after_reset_def rollback_reset_def Let_def
        rollback_load_persist rollback_check_Ok_iff)
qed

end
