(* ===== verification/Container.thy ===== *)
theory Container
  imports Rollback
begin

text \<open>
  The container (fs/container.rs): creation with an optional hidden volume, opening with a
  password or a private key, the recipient slots, node I/O and flush. The container record
  extends the outer or hidden volume's block store; operations that take a path work on
  the same file. Creation and opening are state passing over the operating system.
\<close>

section \<open>State and constants\<close>

record vnm_container = slot_store +
  vc_root_slot :: nat
  vc_is_hidden :: bool
  vc_cipher :: cipher_algorithm
  vc_outer_slots :: nat
  vc_outer_limit :: nat
  vc_label :: "bytes option"
  vc_created_at :: nat
  vc_k_master :: bytes
  vc_path :: string
  vc_container_id :: bytes

record hidden_volume_options =
  ho_password :: bytes
  ho_size_bytes :: nat
  ho_label :: "bytes option"
  ho_kdf_profile :: string

datatype open_credential = Password bytes | PrivateKey hybrid_private_key

record recipient_info =
  ri_is_key :: bool
  ri_slot_index :: nat

definition OUTER_ALLOC_SLOT :: nat where [simp]: "OUTER_ALLOC_SLOT = 0"
definition OUTER_ROOT_SLOT :: nat where [simp]: "OUTER_ROOT_SLOT = 1"

definition MIN_SIZE :: nat where
  "MIN_SIZE = DATA_AREA_OFFSET + 16 * SLOT_SIZE + 512"

definition ZERO_ID :: bytes where
  "ZERO_ID = replicate 16 0"

section \<open>Helpers\<close>

definition new_k_master :: "libs \<Rightarrow> 'a sys_scheme \<Rightarrow> bytes \<times> 'a sys_scheme" where
  "new_k_master L s = fill_bytes L 32 s"

definition write_bytes_at :: "nat \<Rightarrow> bytes \<Rightarrow> ('a sys_scheme, vnm_error, unit) op" where
  "write_bytes_at offset data = pwrite offset data"

definition read_512_at :: "nat \<Rightarrow> ('a sys_scheme, vnm_error, bytes) op" where
  "read_512_at offset = pread offset 512"

definition write_empty_dir :: "libs \<Rightarrow> nat \<Rightarrow> ('a slot_store_scheme, vnm_error, unit) op" where
  "write_empty_dir L slot s =
     (case msgpack_enc L (Directory \<lparr>db_kind = KDirectory, db_entries = []\<rparr>) of
        None \<Rightarrow> (Err (Serialization ''rmp_serde''), s)
      | Some data \<Rightarrow> store_write L slot data s)"

text \<open>\<open>String::from_utf8\<close> accepts well-formed UTF-8 only.\<close>

definition utf8_cont :: "byte \<Rightarrow> bool" where
  "utf8_cont b \<longleftrightarrow> 0x80 \<le> b \<and> b \<le> 0xBF"

fun utf8_valid :: "bytes \<Rightarrow> bool" where
  "utf8_valid [] = True"
| "utf8_valid (a # rest) =
     (if a < 0x80 then utf8_valid rest
      else if 0xC2 \<le> a \<and> a \<le> 0xDF then
        (case rest of b # bs \<Rightarrow> utf8_cont b \<and> utf8_valid bs | [] \<Rightarrow> False)
      else if 0xE0 \<le> a \<and> a \<le> 0xEF then
        (case rest of b # c # bs \<Rightarrow>
           utf8_cont b \<and> utf8_cont c \<and> (a = 0xE0 \<longrightarrow> 0xA0 \<le> b) \<and> (a = 0xED \<longrightarrow> b \<le> 0x9F) \<and> utf8_valid bs
         | _ \<Rightarrow> False)
      else if 0xF0 \<le> a \<and> a \<le> 0xF4 then
        (case rest of b # c # d # bs \<Rightarrow>
           utf8_cont b \<and> utf8_cont c \<and> utf8_cont d \<and> (a = 0xF0 \<longrightarrow> 0x90 \<le> b) \<and>
           (a = 0xF4 \<longrightarrow> b \<le> 0x8F) \<and> utf8_valid bs
         | _ \<Rightarrow> False)
      else False)"

definition label_from :: "bytes \<Rightarrow> bytes option" where
  "label_from raw =
     (let stop = length (takeWhile (\<lambda>b. b \<noteq> 0) raw)
      in if stop = 0 then None
         else if utf8_valid (take stop raw) then Some (take stop raw) else None)"

text \<open>The label field of a new header: at most 64 bytes, zero padded.\<close>

definition label_field :: "bytes option \<Rightarrow> bytes" where
  "label_field label = (case label of None \<Rightarrow> replicate 64 0
     | Some b \<Rightarrow> blit 0 (take (min (length b) 64) b) (replicate 64 0))"

definition pw_slot_offset :: "nat \<Rightarrow> nat" where
  "pw_slot_offset i = HEADER_REGION_SIZE + i * PW_SLOT_SIZE"

definition key_slot_offset :: "nat \<Rightarrow> nat" where
  "key_slot_offset j = HEADER_REGION_SIZE + (MAX_PASSWORD_SLOTS * PW_SLOT_SIZE + j * KEY_SLOT_SIZE)"

definition write_recipient_slot :: "nat \<Rightarrow> bytes \<Rightarrow> ('a sys_scheme, vnm_error, unit) op" where
  "write_recipient_slot i slot = write_bytes_at (pw_slot_offset i) slot"

definition read_pw_slot_raw :: "nat \<Rightarrow> ('a sys_scheme, vnm_error, bytes) op" where
  "read_pw_slot_raw i = pread (pw_slot_offset i) PW_SLOT_SIZE"

definition read_key_slot_raw :: "nat \<Rightarrow> ('a sys_scheme, vnm_error, bytes) op" where
  "read_key_slot_raw j = pread (key_slot_offset j) KEY_SLOT_SIZE"

definition write_key_slot_raw :: "nat \<Rightarrow> bytes \<Rightarrow> ('a sys_scheme, vnm_error, unit) op" where
  "write_key_slot_raw j slot = write_bytes_at (key_slot_offset j) slot"

text \<open>A loop over the slots of one kind: an unreadable slot ends it, a match returns.\<close>

fun try_slots :: "(nat \<Rightarrow> bytes result) \<Rightarrow> (bytes \<Rightarrow> 'k option result) \<Rightarrow> nat list \<Rightarrow> 'k option result" where
  "try_slots rd f [] = Ok None"
| "try_slots rd f (i # is) = and_then_some (ok_opt (rd i)) (\<lambda>slot.
     and_then (f slot) (\<lambda>r. case r of Some k \<Rightarrow> Ok (Some k) | None \<Rightarrow> try_slots rd f is))"

definition try_pw_slots ::
    "libs \<Rightarrow> bytes \<Rightarrow> byte \<Rightarrow> 'a sys_scheme \<Rightarrow> (bytes \<times> cipher_algorithm) option result" where
  "try_pw_slots L pw n s =
     try_slots (\<lambda>i. fst (read_pw_slot_raw i s)) (\<lambda>slot. try_password_slot L slot pw) [0..<unat n]"

definition try_key_slots ::
    "libs \<Rightarrow> hybrid_private_key \<Rightarrow> byte \<Rightarrow> 'a sys_scheme \<Rightarrow> (bytes \<times> cipher_algorithm) option result" where
  "try_key_slots L private n s =
     try_slots (\<lambda>j. fst (read_key_slot_raw j s)) (\<lambda>slot. try_key_slot L slot private) [0..<unat n]"

section \<open>Hidden headers\<close>

definition derive_hidden_key :: "libs \<Rightarrow> bytes \<Rightarrow> bytes \<Rightarrow> bytes result" where
  "derive_hidden_key L raw password =
     (let salt = subrange 0 64 raw; kdf_profile = raw ! 65
      in and_then (derive_key L password (salted_params L kdf_profile salt)) (\<lambda>dk.
           if length dk \<noteq> 32 then Err (KdfError ''unexpected key length'') else Ok dk))"

definition try_hidden_at ::
    "libs \<Rightarrow> nat \<Rightarrow> bytes \<Rightarrow> 'a sys_scheme \<Rightarrow> (bytes \<times> header_payload) option result" where
  "try_hidden_at L hdr_offset password s =
     and_then_some (ok_opt (fst (read_512_at hdr_offset s))) (\<lambda>raw.
     and_then_some (ok_opt (derive_hidden_key L raw password)) (\<lambda>k.
     and_then_some (probe (\<lambda>c. decode_header L raw k c True) ALL_CIPHERS) (\<lambda>(meta, c).
       Ok (Some (k, meta)))))"

definition encode_header_with_password ::
    "libs \<Rightarrow> header_payload \<Rightarrow> bytes \<Rightarrow> bool \<Rightarrow> ('a sys_scheme, vnm_error, bytes) op" where
  "encode_header_with_password L payload password is_hidden s =
     (let (salt, s1) = fill_bytes L 64 s
      in then_op (return_op (derive_key L password (salted_params L (hp_kdf_profile payload) salt))) (\<lambda>dk.
           case as_array_32 dk of
             None \<Rightarrow> return_op (Panic ''called unwrap on a None value'')
           | Some key \<Rightarrow>
               (let buf = header_prefix salt payload;
                    body = header_body BODY_LEN 3 payload;
                    aad = header_aad is_hidden
                in then_op (encrypt_block L key (hp_cipher payload) aad body)
                     (\<lambda>enc. return_op (copy_into BODY_OFFSET enc buf)))) s1)"

section \<open>Creation\<close>

text \<open>The slot counts of the two volumes, from the requested sizes.\<close>

definition tail_size :: "hidden_volume_options option \<Rightarrow> nat" where
  "tail_size hidden = (if hidden \<noteq> None then 1024 else 512)"

definition plan_slots :: "nat \<Rightarrow> hidden_volume_options option \<Rightarrow> (nat \<times> nat) result" where
  "plan_slots total_size_bytes hidden =
     (let usable_for_data = total_size_bytes - (DATA_AREA_OFFSET + tail_size hidden);
          total_data_slots = usable_for_data div SLOT_SIZE
      in case hidden of
           None \<Rightarrow> Ok (total_data_slots, 0)
         | Some h \<Rightarrow>
             (let h_slots = max (wrap64 (ho_size_bytes h + SLOT_SIZE - 1) div SLOT_SIZE) 2;
                  o_slots = total_data_slots - h_slots
              in if o_slots < 2 then Err (SizeTooSmall MIN_SIZE) else Ok (o_slots, h_slots)))"

definition plan_file_size :: "nat \<Rightarrow> nat \<Rightarrow> hidden_volume_options option \<Rightarrow> nat" where
  "plan_file_size outer_slots hidden_slots hidden =
     wrap64 (DATA_AREA_OFFSET + (outer_slots + hidden_slots) * SLOT_SIZE + tail_size hidden)"

text \<open>\<open>File::create\<close> truncates; \<open>set_len\<close> refuses lengths beyond the signed 64-bit range.\<close>

definition create_file :: "nat \<Rightarrow> ('a sys_scheme, vnm_error, unit) op" where
  "create_file file_size s =
     (if 2 ^ 63 \<le> file_size then (Err (Io InvalidInput), s\<lparr>sys_file := [], sys_exists := True\<rparr>)
      else (Ok (), s\<lparr>sys_file := replicate file_size 0, sys_exists := True\<rparr>))"

text \<open>The fill loop: 64 KiB of random bytes at a time.\<close>

definition FILL_CHUNK :: nat where
  "FILL_CHUNK = 65536"

function fill_random :: "libs \<Rightarrow> nat \<Rightarrow> nat \<Rightarrow> ('a sys_scheme, vnm_error, unit) op" where
  "fill_random L file_size filled =
     (if filled < file_size then
        (\<lambda>s. let (buf, s) = fill_bytes L FILL_CHUNK s;
                 n = min (file_size - filled) (length buf)
             in then_op (pwrite filled (take n buf))
                  (\<lambda>_. fill_random L file_size (filled + min (file_size - filled) FILL_CHUNK)) s)
      else return_op (Ok ()))"
  by pat_completeness auto
termination
  by (relation "measure (\<lambda>(L, file_size, filled). file_size - filled)") (auto simp: FILL_CHUNK_def)

declare fill_random.simps [simp del]

definition kdf_id_of :: "string \<Rightarrow> byte" where
  "kdf_id_of kdf_profile = (if kdf_profile = ''sensitive'' then 1 else 0)"

text \<open>Running an operation of a freshly opened store, and returning to the file.\<close>

definition with_store ::
    "(sys \<Rightarrow> slot_store) \<Rightarrow> (slot_store, vnm_error, unit) op \<Rightarrow> (sys, vnm_error, slot_store) op" where
  "with_store mk m s = (case m (mk s) of
      (Ok _, st) \<Rightarrow> (Ok st, sys.truncate st)
    | (Err e, st) \<Rightarrow> (Err e, sys.truncate st)
    | (Panic p, st) \<Rightarrow> (Panic p, sys.truncate st))"

text \<open>All slots free but the root, an empty root directory, and the allocation block.\<close>

definition init_volume :: "libs \<Rightarrow> nat \<Rightarrow> ('a slot_store_scheme, vnm_error, unit) op" where
  "init_volume L root s =
     (let s = rebuild_free_list s;
          s = s\<lparr>free_list := filter (\<lambda>x. x \<noteq> root) (free_list s)\<rparr>
      in then_op (write_empty_dir L root) (\<lambda>_. save_free_list L) s)"

definition hidden_payload ::
    "cipher_algorithm \<Rightarrow> hidden_volume_options \<Rightarrow> nat \<Rightarrow> nat \<Rightarrow> nat \<Rightarrow> bytes \<Rightarrow> header_payload" where
  "hidden_payload c h outer_slots hidden_slots now cid =
     \<lparr>hp_cipher = c, hp_kdf_profile = kdf_id_of (ho_kdf_profile h),
      hp_num_password_slots = 1, hp_num_key_slots = 0,
      hp_outer_slots = hidden_slots, hp_hidden_start = outer_slots,
      hp_root_slot = outer_slots + 1, hp_created_at = now, hp_label = label_field (ho_label h),
      hp_container_id = cid\<rparr>"

definition create_hidden ::
    "libs \<Rightarrow> cipher_algorithm \<Rightarrow> hidden_volume_options \<Rightarrow> nat \<Rightarrow> nat \<Rightarrow> nat \<Rightarrow> nat \<Rightarrow> (sys, vnm_error, unit) op" where
  "create_hidden L c h outer_slots hidden_slots file_size now s =
     (let (k_hidden, s) = new_k_master L s;
          hid_start = outer_slots;
          (hid_container_id, s) = fill_bytes L 16 s
      in then_op (encode_password_slot L k_hidden (ho_password h) (kdf_id_of (ho_kdf_profile h))) (\<lambda>pw_slot.
         let hid_payload = hidden_payload c h outer_slots hidden_slots now hid_container_id
         in then_op (encode_header L hid_payload k_hidden True) (\<lambda>hid_hdr.
            then_op (write_bytes_at (file_size - 512) hid_hdr) (\<lambda>_.
            then_op (encode_header_with_password L hid_payload (ho_password h) True) (\<lambda>hid_hdr.
            then_op (write_bytes_at (file_size - 512) hid_hdr) (\<lambda>_.
            then_op (write_bytes_at 512 hid_hdr) (\<lambda>_.
              let hid_alloc = hid_start + hidden_slots - 1
              in then_op (with_store (slot_store_new k_hidden c hid_start (hid_start + hidden_slots) hid_alloc True)
                     (init_volume L (hid_start + 1)))
                   (\<lambda>_. return_op (Ok ())))))))) s)"

definition outer_payload :: "cipher_algorithm \<Rightarrow> byte \<Rightarrow> bool \<Rightarrow> nat \<Rightarrow> nat \<Rightarrow> bytes option \<Rightarrow> bytes \<Rightarrow> header_payload" where
  "outer_payload c kdf_id has_password outer_slots now label cid =
     \<lparr>hp_cipher = c, hp_kdf_profile = kdf_id,
      hp_num_password_slots = (if has_password then 1 else 0), hp_num_key_slots = 0,
      hp_outer_slots = outer_slots, hp_hidden_start = 0,
      hp_root_slot = OUTER_ROOT_SLOT, hp_created_at = now, hp_label = label_field label,
      hp_container_id = cid\<rparr>"

definition create_outer ::
    "libs \<Rightarrow> string \<Rightarrow> bytes \<Rightarrow> cipher_algorithm \<Rightarrow> byte \<Rightarrow> bytes option \<Rightarrow> bool \<Rightarrow>
     nat \<Rightarrow> nat \<Rightarrow> nat \<Rightarrow> bytes \<Rightarrow> bytes \<Rightarrow> (sys, vnm_error, vnm_container) op" where
  "create_outer L path outer_password c kdf_id label has_hidden outer_slots file_size now k_outer cid s =
     (let has_password = (outer_password \<noteq> []);
          payload = outer_payload c kdf_id has_password outer_slots now label cid
      in then_op (encode_header L payload k_outer False) (\<lambda>outer_hdr.
         then_op (write_bytes_at 0 outer_hdr) (\<lambda>_.
         then_op (write_bytes_at (if has_hidden then file_size - 1024 else file_size - 512) outer_hdr) (\<lambda>_.
         then_op (if has_password
                  then then_op (encode_password_slot L k_outer outer_password kdf_id) (write_recipient_slot 0)
                  else return_op (Ok ())) (\<lambda>_.
         then_op (with_store (slot_store_new k_outer c 0 outer_slots OUTER_ALLOC_SLOT True)
                    (init_volume L OUTER_ROOT_SLOT)) (\<lambda>store.
         then_op (rollback_update L cid (current_generation store)) (\<lambda>_ s.
           (Ok (slot_store.extend (store\<lparr>sys_rollback := sys_rollback s\<rparr>)
              (vnm_container.fields OUTER_ROOT_SLOT False c outer_slots outer_slots label now
                k_outer path cid)), s))))))) s)"

definition create ::
    "libs \<Rightarrow> string \<Rightarrow> bytes \<Rightarrow> nat \<Rightarrow> cipher_algorithm \<Rightarrow> string \<Rightarrow> bytes option \<Rightarrow>
     hidden_volume_options option \<Rightarrow> (sys, vnm_error, vnm_container) op" where
  "create L path outer_password total_size_bytes c kdf_profile label hidden s =
     (if sys_exists s then (Err (ContainerAlreadyExists path), s)
      else if total_size_bytes < MIN_SIZE then (Err (SizeTooSmall MIN_SIZE), s)
      else then_op (return_op (plan_slots total_size_bytes hidden)) (\<lambda>(outer_slots, hidden_slots).
        let file_size = plan_file_size outer_slots hidden_slots hidden
        in then_op (create_file file_size) (\<lambda>_.
           then_op (fill_random L file_size 0) (\<lambda>_ s.
           let now = sys_clock s;
               (k_outer, s) = new_k_master L s;
               kdf_id = kdf_id_of kdf_profile;
               (outer_container_id, s) = fill_bytes L 16 s
           in then_op (case hidden of None \<Rightarrow> return_op (Ok ())
                 | Some h \<Rightarrow> create_hidden L c h outer_slots hidden_slots file_size now)
               (\<lambda>_. create_outer L path outer_password c kdf_id label (hidden \<noteq> None) outer_slots
                  file_size now k_outer outer_container_id) s))) s)"

section \<open>Opening\<close>

text \<open>The slot counts of the primary header, or of a backup when both are zero.\<close>

definition counts_at :: "nat \<Rightarrow> 'a sys_scheme \<Rightarrow> (byte \<times> byte) option" where
  "counts_at off s = (case fst (read_512_at off s) of
     Ok raw \<Rightarrow> (let (_, p, k) = read_header_plaintext raw in if 0 < p \<or> 0 < k then Some (p, k) else None)
   | _ \<Rightarrow> None)"

definition outer_counts :: "'a sys_scheme \<Rightarrow> byte \<times> byte" where
  "outer_counts s =
     (let file_size = length (sys_file s);
          raw_0 = (case fst (read_512_at 0 s) of Ok raw \<Rightarrow> raw | _ \<Rightarrow> replicate 512 0);
          (_, n_pw0, n_key0) = read_header_plaintext raw_0
      in if n_pw0 = 0 \<and> n_key0 = 0
         then (case counts_at (file_size - 512) s of
                 Some r \<Rightarrow> r
               | None \<Rightarrow> (case counts_at (file_size - 1024) s of Some r \<Rightarrow> r | None \<Rightarrow> (n_pw0, n_key0)))
         else (n_pw0, n_key0))"

definition outer_key ::
    "libs \<Rightarrow> open_credential \<Rightarrow> 'a sys_scheme \<Rightarrow> (bytes \<times> cipher_algorithm) option result" where
  "outer_key L credential s =
     (let (n_pw, n_key) = outer_counts s
      in case credential of
           Password pw \<Rightarrow> try_pw_slots L pw n_pw s
         | PrivateKey private \<Rightarrow> try_key_slots L private n_key s)"

fun find_header :: "libs \<Rightarrow> bytes \<Rightarrow> nat list \<Rightarrow> 'a sys_scheme \<Rightarrow> header_payload option result" where
  "find_header L k [] s = Ok None"
| "find_header L k (off # offs) s = (case fst (read_512_at off s) of
     Ok raw \<Rightarrow> and_then (probe (\<lambda>c. decode_header L raw k c False) ALL_CIPHERS)
       (\<lambda>r. case r of Some (meta, c) \<Rightarrow> Ok (Some meta) | None \<Rightarrow> find_header L k offs s)
   | _ \<Rightarrow> find_header L k offs s)"

text \<open>
  Opening the store of a volume: the free list is loaded, with its Merkle check, and the
  generation is compared with the baseline.
\<close>

definition mount_volume ::
    "libs \<Rightarrow> string \<Rightarrow> bytes \<Rightarrow> header_payload \<Rightarrow> bool \<Rightarrow> nat \<Rightarrow> nat \<Rightarrow> nat \<Rightarrow> sys \<Rightarrow> vnm_container result" where
  "mount_volume L path k meta is_hidden start limit alloc_at s =
     (let has_gen = (hp_container_id meta \<noteq> ZERO_ID);
          (r, store) = load_free_list L (slot_store_new k (hp_cipher meta) start limit alloc_at has_gen s)
      in and_then r (\<lambda>_.
         and_then (if has_gen
             then rollback_check L (hp_container_id meta) (current_generation store) (rollback_load store)
             else Ok ()) (\<lambda>_.
         Ok (slot_store.extend store
           (vnm_container.fields (hp_root_slot meta) is_hidden (hp_cipher meta) (hp_outer_slots meta)
             (if is_hidden then start else hp_outer_slots meta) (label_from (hp_label meta))
             (hp_created_at meta) k path (hp_container_id meta))))))"

definition open_hidden :: "libs \<Rightarrow> string \<Rightarrow> open_credential \<Rightarrow> sys \<Rightarrow> vnm_container result" where
  "open_hidden L path credential s =
     (case credential of
        PrivateKey _ \<Rightarrow> Err AuthenticationFailed
      | Password pw \<Rightarrow>
          and_then (and_then (try_hidden_at L (length (sys_file s) - 512) pw s)
              (\<lambda>r. case r of Some x \<Rightarrow> Ok (Some x) | None \<Rightarrow> try_hidden_at L 512 pw s))
            (\<lambda>hidden. case hidden of
               None \<Rightarrow> Err AuthenticationFailed
             | Some (k, meta) \<Rightarrow>
                 (let hid_start = hp_hidden_start meta;
                      hid_end = wrap64 (hid_start + hp_outer_slots meta);
                      hid_alloc = wrap64 (hid_end + 2 ^ 64 - 1)
                  in mount_volume L path k meta True hid_start hid_end hid_alloc s)))"

definition open_container :: "libs \<Rightarrow> string \<Rightarrow> open_credential \<Rightarrow> sys \<Rightarrow> vnm_container result" where
  "open_container L path credential s =
     (if \<not> sys_exists s then Err (ContainerNotFound path)
      else (let file_size = length (sys_file s)
            in and_then (outer_key L credential s) (\<lambda>k_outer. case k_outer of
                 None \<Rightarrow> open_hidden L path credential s
               | Some (k, _) \<Rightarrow>
                   and_then (find_header L k [0, file_size - 512, file_size - 1024] s) (\<lambda>found.
                     case found of
                       Some meta \<Rightarrow> mount_volume L path k meta False 0 (hp_outer_slots meta) OUTER_ALLOC_SLOT s
                     | None \<Rightarrow> open_hidden L path credential s))))"

section \<open>Recipients\<close>

definition list_recipients :: "('a vnm_container_scheme, vnm_error, recipient_info list) op" where
  "list_recipients s =
     then_op (read_512_at 0) (\<lambda>raw.
       let (_, n_pw, n_key) = read_header_plaintext raw
       in return_op (Ok (
            map (\<lambda>i. \<lparr>ri_is_key = False, ri_slot_index = i\<rparr>) [0..<unat n_pw] @
            map (\<lambda>j. \<lparr>ri_is_key = True, ri_slot_index = j\<rparr>) [0..<unat n_key]))) s"

definition backup_offset :: "nat \<Rightarrow> nat" where
  "backup_offset file_size =
     (let tail = (file_size - DATA_AREA_OFFSET) mod SLOT_SIZE
      in if tail = 1024 then file_size - 1024 else file_size - 512)"

definition update_slot_counts ::
    "libs \<Rightarrow> byte \<Rightarrow> byte \<Rightarrow> bytes \<Rightarrow> cipher_algorithm \<Rightarrow> bytes \<Rightarrow> ('a sys_scheme, vnm_error, unit) op" where
  "update_slot_counts L n_pw n_key k_master c old_raw s =
     then_op (return_op (decode_header L old_raw k_master c False)) (\<lambda>meta.
       let new_payload = meta\<lparr>hp_num_password_slots := n_pw, hp_num_key_slots := n_key\<rparr>
       in then_op (encode_header L new_payload k_master False) (\<lambda>new_hdr s.
            let backup_off = backup_offset (length (sys_file s))
            in then_op (write_bytes_at 0 new_hdr) (\<lambda>_. write_bytes_at backup_off new_hdr) s)) s"

definition add_password_recipient :: "libs \<Rightarrow> bytes \<Rightarrow> ('a vnm_container_scheme, vnm_error, unit) op" where
  "add_password_recipient L new_password s =
     then_op (read_512_at 0) (\<lambda>raw.
       let (kdf_profile, n_pw, n_key) = read_header_plaintext raw
       in if MAX_PASSWORD_SLOTS \<le> unat n_pw
          then return_op (Err (InvalidFormat ''max password recipients reached''))
          else then_op (encode_password_slot L (vc_k_master s) new_password kdf_profile) (\<lambda>slot.
               then_op (write_recipient_slot (unat n_pw) slot) (\<lambda>_.
               update_slot_counts L (n_pw + 1) n_key (vc_k_master s) (vc_cipher s) raw))) s"

definition add_key_recipient ::
    "libs \<Rightarrow> hybrid_public_key \<Rightarrow> ('a vnm_container_scheme, vnm_error, unit) op" where
  "add_key_recipient L recipient s =
     then_op (read_512_at 0) (\<lambda>raw.
       let (_, n_pw, n_key) = read_header_plaintext raw
       in if MAX_KEY_SLOTS \<le> unat n_key
          then return_op (Err (InvalidFormat ''max key recipients reached''))
          else then_op (encode_key_slot L (vc_k_master s) recipient (vc_cipher s)) (\<lambda>slot.
               then_op (write_key_slot_raw (unat n_key) slot) (\<lambda>_.
               update_slot_counts L n_pw (n_key + 1) (vc_k_master s) (vc_cipher s) raw))) s"

primrec read_key_slots :: "nat list \<Rightarrow> ('a sys_scheme, vnm_error, bytes list) op" where
  "read_key_slots [] = return_op (Ok [])"
| "read_key_slots (i # is) = then_op (read_key_slot_raw i) (\<lambda>slot.
     then_op (read_key_slots is) (\<lambda>slots. return_op (Ok (slot # slots))))"

definition remove_at :: "nat \<Rightarrow> 'x list \<Rightarrow> 'x list" where
  "remove_at i xs = take i xs @ drop (Suc i) xs"

definition remove_key_recipient :: "libs \<Rightarrow> nat \<Rightarrow> ('a vnm_container_scheme, vnm_error, unit) op" where
  "remove_key_recipient L slot_index s =
     then_op (read_512_at 0) (\<lambda>raw.
       let (_, n_pw, n_key) = read_header_plaintext raw
       in if unat n_key \<le> slot_index
          then return_op (Err (InvalidFormat ''key slot index out of range''))
          else then_op (read_key_slots [0..<unat n_key]) (\<lambda>slots.
            let slots = remove_at slot_index slots
            in then_op (write_all write_key_slot_raw (enumerate 0 slots)) (\<lambda>_ s'.
                 let (random_slot, s'') = fill_bytes L KEY_SLOT_SIZE s'
                 in then_op (write_key_slot_raw (length slots) random_slot) (\<lambda>_.
                      update_slot_counts L n_pw (n_key - 1) (vc_k_master s) (vc_cipher s) raw) s''))) s"

section \<open>Node I/O and flush\<close>

definition read_node :: "libs \<Rightarrow> nat \<Rightarrow> ('a slot_store_scheme, vnm_error, vault_node) op" where
  "read_node L slot s = then_op (store_read L slot) (\<lambda>data.
     return_op (ok_or (Serialization ''rmp_serde'') (msgpack_dec L data))) s"

definition update_node :: "libs \<Rightarrow> nat \<Rightarrow> vault_node \<Rightarrow> ('a slot_store_scheme, vnm_error, unit) op" where
  "update_node L slot node s =
     then_op (return_op (ok_or (Serialization ''rmp_serde'') (msgpack_enc L node)))
       (\<lambda>payload. store_write L slot payload) s"

definition write_node :: "libs \<Rightarrow> vault_node \<Rightarrow> ('a slot_store_scheme, vnm_error, nat) op" where
  "write_node L node s =
     then_op alloc (\<lambda>slot.
     then_op (return_op (ok_or (Serialization ''rmp_serde'') (msgpack_enc L node))) (\<lambda>payload.
     then_op (store_write L slot payload) (\<lambda>_. return_op (Ok slot)))) s"

definition free_node :: "libs \<Rightarrow> nat \<Rightarrow> 'a slot_store_scheme \<Rightarrow> 'a slot_store_scheme" where
  "free_node L slot s = free_slot L slot s"

definition flush :: "libs \<Rightarrow> ('a vnm_container_scheme, vnm_error, unit) op" where
  "flush L s =
     then_op (if is_merkle_dirty s then update_merkle_root L else return_op (Ok ())) (\<lambda>_.
     then_op (save_free_list L) (\<lambda>_.
     then_op flush_file (\<lambda>_ s'.
       if vc_container_id s \<noteq> ZERO_ID
       then rollback_update L (vc_container_id s) (current_generation s') s'
       else (Ok (), s')))) s"

definition reset_rollback_state :: "libs \<Rightarrow> ('a vnm_container_scheme, vnm_error, unit) op" where
  "reset_rollback_state L s =
     (if vc_container_id s = ZERO_ID then (Ok (), s) else rollback_reset L (vc_container_id s) s)"

end
