(* ===== verification/Container_Nodes.thy ===== *)
theory Container_Nodes
  imports Container
begin

text \<open>
  Node I/O, flush and robustness of the container (fs/container.rs): the container is a
  device of nodes over the device of slots, a flush makes the store reopen with the same
  content under the next generation, an older copy is refused, and opening never panics.
\<close>

section \<open>The container is a device of nodes\<close>

definition node_inv :: "libs \<Rightarrow> 'a slot_store_scheme \<Rightarrow> bool" where
  "node_inv L s \<longleftrightarrow> aead_ok L \<and> msgpack_ok L \<and> store_inv s"

definition any_node :: "vault_node \<Rightarrow> bool" where
  "any_node n \<longleftrightarrow> True"

lemma node_inv_device: "node_inv L s \<Longrightarrow> device_inv L s"
  by (simp add: node_inv_def device_inv_def)

lemma read_node_fst:
  "fst (read_node L i s) = and_then (fst (store_read L i s)) (\<lambda>data. ok_or (Serialization ''rmp_serde'') (msgpack_dec L data))"
proof -
  obtain r where "store_read L i s = (r, s)"
    using store_read_state [of L i s] by (metis prod.collapse)
  then show ?thesis by (cases r) (simp_all add: read_node_def)
qed

lemma read_node_state [simp]: "snd (read_node L i s) = s"
proof -
  obtain r where "store_read L i s = (r, s)"
    using store_read_state [of L i s] by (metis prod.collapse)
  then show ?thesis by (cases r) (simp_all add: read_node_def)
qed

lemma update_node_cases:
  assumes "update_node L i n s = (r, s')"
  obtains "msgpack_enc L n = None" "s' = s" "r = Err (Serialization ''rmp_serde'')"
  | data where "msgpack_enc L n = Some data" "store_write L i data s = (r, s')"
  using assms by (cases "msgpack_enc L n") (simp_all add: update_node_def)

interpretation nodes: slot_device node_inv in_volume any_node read_node update_node
proof (unfold_locales, goal_cases)
  case 1
  show ?case by simp
next
  case (2 L s i d r s')
  from 2(3) show ?case
  proof (cases rule: update_node_cases)
    case 1
    with 2 show ?thesis by simp
  next
    case (2 data)
    from dev.write_inv [OF node_inv_device [OF \<open>node_inv L s\<close>] \<open>in_volume s i\<close> 2(2)] \<open>node_inv L s\<close>
    show ?thesis by (simp add: node_inv_def device_inv_def)
  qed
next
  case (3 L s i d s')
  from 3(4) show ?case
  proof (cases rule: update_node_cases)
    case (2 data)
    with 3 have "nonempty_payload data" "msgpack_dec L data = Some d"
      by (auto simp: node_inv_def nonempty_payload_def msgpack_ok_def)
    with dev.read_same [OF node_inv_device [OF 3(1)] 3(2) _ 2(2)] show ?thesis
      by (simp add: read_node_fst)
  qed simp
next
  case (4 L s i j d r s')
  from 4(5) show ?case
  proof (cases rule: update_node_cases)
    case (2 data)
    from dev.read_other [OF node_inv_device [OF 4(1)] 4(2,3,4) 2(2)] show ?thesis
      by (simp add: read_node_fst)
  qed simp
qed

text \<open>A new node goes to the lowest free slot and is read back from it.\<close>

lemma write_node_Ok:
  assumes "node_inv L s" "write_node L n s = (Ok i, s')"
  shows "i = Min (free_set s) \<and> i \<in> free_set s \<and> node_inv L s' \<and> free_set s' = free_set s - {i} \<and>
    pool_owned s' = pool_owned s \<and> fst (read_node L i s') = Ok n \<and>
    (\<forall>j. in_volume s j \<longrightarrow> j \<noteq> i \<longrightarrow> fst (read_node L j s') = fst (read_node L j s))"
proof -
  from assms(2) obtain s1 data where a: "alloc s = (Ok i, s1)" and d: "msgpack_enc L n = Some data"
    and w: "store_write L i data s1 = (Ok (), s')"
    by (auto simp: write_node_def then_op_eq_Ok)
  have inv: "store_inv s" using assms(1) by (simp add: node_inv_def)
  note td = pool.take_D [OF inv a]
  have "free_set s \<noteq> {}" using td by auto
  from pool.take_Ok [OF inv this] a have i: "i = Min (free_set s)" by simp
  from td pool.avail_owned [OF inv] have own: "i \<in> pool_owned s1" by auto
  have s1: "s1 = s\<lparr>free_list := butlast (free_list s)\<rparr>"
    using a by (simp add: alloc_def split: if_splits)
  have ni: "node_inv L s1" using assms(1) td by (simp add: node_inv_def)
  have iv: "in_volume s1 i" using own by (auto simp: in_volume_def pool_owned_def)
  have u: "update_node L i n s1 = (Ok (), s')" using d w by (simp add: update_node_def)
  have sv: "same_volume s1 s'"
    by (rule store_write_same_volume [OF _ _ w])
      (use ni iv in \<open>auto simp: node_inv_def store_inv_def in_volume_def\<close>)
  have "fst (read_node L j s') = fst (read_node L j s)" if "in_volume s j" "j \<noteq> i" for j
  proof -
    have "in_volume s1 j" using that(1) by (simp add: s1 in_volume_def)
    from nodes.read_other [OF ni iv this that(2) u]
    have "fst (read_node L j s') = fst (read_node L j s1)" .
    moreover have "fst (store_read L j s1) = fst (store_read L j s)"
      using inv that(1) by (simp add: store_read_inside store_inv_def in_volume_def s1)
    ultimately show ?thesis by (simp add: read_node_fst)
  qed
  moreover have "node_inv L s'" by (rule nodes.write_inv [OF ni iv u, THEN conjunct1])
  moreover have "fst (read_node L i s') = Ok n"
    by (rule nodes.read_same [OF ni iv _ u]) (simp add: any_node_def)
  moreover have "free_set s' = free_set s - {i}" "pool_owned s' = pool_owned s"
    using td same_volume_fields [OF sv] by (simp_all add: free_set_def pool_owned_def)
  ultimately show ?thesis using i td by simp
qed

section \<open>Flush and reopen\<close>

text \<open>
  The cached root is due for a refresh, or was never computed, or is the root of the file. The code does not keep
  this: \<open>alloc\<close> changes the used slots without setting \<open>merkle_dirty\<close> (slot_store.rs:163), so a write that fails
  after its allocation can leave a clean container with a root that is not that of its used slots.
\<close>

definition root_fresh :: "libs \<Rightarrow> 'a slot_store_scheme \<Rightarrow> bool" where
  "root_fresh L s \<longleftrightarrow> merkle_dirty s \<or> cached_merkle_root s = ZERO_ROOT \<or>
     fst (compute_merkle_root L (used_slots s) s) = Ok (cached_merkle_root s)"

lemma store_write_dirty: "store_write L slot p s = (Ok (), s') \<Longrightarrow> merkle_dirty s'"
  by (auto simp: store_write_def Let_def then_op_eq_Ok split: if_splits)

lemma compute_root_other_fields:
  "fst (compute_merkle_root L slots (s\<lparr>cached_merkle_root := r, merkle_dirty := d\<rparr>)) =
     fst (compute_merkle_root L slots s)"
  by (rule compute_merkle_root_cong) simp_all

text \<open>The state a flush saves: the root is recomputed when a slot was written or wiped.\<close>

definition refreshed :: "libs \<Rightarrow> 'a slot_store_scheme \<Rightarrow> 'a slot_store_scheme" where
  "refreshed L s = (if merkle_dirty s then snd (update_merkle_root L s) else s)"

lemma refreshed_Ok:
  assumes "hash_ok L" "store_inv s"
  shows "store_inv (refreshed L s)" "free_list (refreshed L s) = free_list s"
    "generation (refreshed L s) = generation s" "has_generation (refreshed L s) = has_generation s"
    "used_slots (refreshed L s) = used_slots s" "sys_file (refreshed L s) = sys_file s"
    "(if is_merkle_dirty s then update_merkle_root L else return_op (Ok ())) s = (Ok (), refreshed L s)"
    "root_fresh L s \<Longrightarrow> cached_merkle_root (refreshed L s) = ZERO_ROOT \<or>
       fst (compute_merkle_root L (used_slots s) (refreshed L s)) = Ok (cached_merkle_root (refreshed L s))"
proof -
  obtain root where r: "update_merkle_root L s = (Ok (), s\<lparr>cached_merkle_root := root, merkle_dirty := False\<rparr>)"
    "fst (compute_merkle_root L (used_slots s) s) = Ok root"
    "store_inv (s\<lparr>cached_merkle_root := root, merkle_dirty := False\<rparr>)"
    by (rule update_merkle_root_Ok [OF assms])
  show "store_inv (refreshed L s)" "free_list (refreshed L s) = free_list s"
    "generation (refreshed L s) = generation s" "has_generation (refreshed L s) = has_generation s"
    "used_slots (refreshed L s) = used_slots s" "sys_file (refreshed L s) = sys_file s"
    "(if is_merkle_dirty s then update_merkle_root L else return_op (Ok ())) s = (Ok (), refreshed L s)"
    using r(1,3) assms(2) by (simp_all add: refreshed_def used_slots_def is_merkle_dirty_def)
  show "root_fresh L s \<Longrightarrow> cached_merkle_root (refreshed L s) = ZERO_ROOT \<or>
       fst (compute_merkle_root L (used_slots s) (refreshed L s)) = Ok (cached_merkle_root (refreshed L s))"
    using r(1,2) by (auto simp: refreshed_def root_fresh_def compute_root_other_fields)
qed

lemma flush_Ok:
  assumes "hash_ok L" "store_inv s" "flush L s = (Ok (), s')"
  obtains s1 where "save_free_list L (refreshed L s) = (Ok (), s1)"
    "s' = (if vc_container_id s \<noteq> ZERO_ID
       then s1\<lparr>sys_rollback := Some ((entries (rollback_load s1))(hex_encode L (vc_container_id s) \<mapsto> generation s1))\<rparr>
       else s1)"
proof -
  from assms(3) obtain s1 where "save_free_list L (refreshed L s) = (Ok (), s1)"
    "(if vc_container_id s \<noteq> ZERO_ID then rollback_update L (vc_container_id s) (current_generation s1) s1
      else (Ok (), s1)) = (Ok (), s')"
    using refreshed_Ok(7) [OF assms(1,2)]
    by (auto simp: flush_def then_op_eq_Ok flush_file_def)
  then show thesis
    by (intro that [of s1]) (auto simp: rollback_update_eq current_generation_def split: if_splits)
qed

lemma sys_rollback_inv [simp]: "store_inv (s\<lparr>sys_rollback := x\<rparr>) = store_inv s"
  by (simp add: store_inv_def volume_ok_def free_ok_def)

text \<open>
  After a flush the file reopens without an error, with the free list of the running
  store and the next generation.
\<close>

lemma flush_reopen:
  assumes "aead_ok L" "hash_ok L" "store_inv s" "root_fresh L s" "has_generation s"
    and "flush L s = (Ok (), s')" "reopens s' t" "sys_file t = sys_file s'"
  shows "load_free_list L t =
    (Ok (), loaded (free_list s) (wrap64 (generation s + 1)) (cached_merkle_root (refreshed L s)) t)"
proof -
  obtain s1 where s1: "save_free_list L (refreshed L s) = (Ok (), s1)"
    and s': "s' = (if vc_container_id s \<noteq> ZERO_ID
       then s1\<lparr>sys_rollback := Some ((entries (rollback_load s1))(hex_encode L (vc_container_id s) \<mapsto> generation s1))\<rparr>
       else s1)"
    by (rule flush_Ok [OF assms(2,3,6)])
  have re: "reopens s1 t" and f: "sys_file t = sys_file s1"
    using assms(7,8) s' by (auto simp: reopens_def split: if_splits)
  note rf = refreshed_Ok [OF assms(2,3)]
  show ?thesis
  proof (cases "cached_merkle_root (refreshed L s) = ZERO_ROOT")
    case True
    then show ?thesis
      using load_after_save [OF assms(1) rf(1) s1 re] assms(5) by (simp add: rf)
  next
    case False
    with rf(8) [OF assms(4)] have
      "fst (compute_merkle_root L (used_slots (refreshed L s)) (refreshed L s)) = Ok (cached_merkle_root (refreshed L s))"
      by (simp add: rf(5))
    from load_after_save_clean [OF assms(1) rf(1) s1 re f _ this] assms(5) show ?thesis
      by (simp add: rf)
  qed
qed

text \<open>
  A root that is neither due nor that of the file is saved as it is, and the next load refuses it.
\<close>

lemma flush_reopen_stale:
  assumes "aead_ok L" "hash_ok L" "store_inv s" "\<not> root_fresh L s" "has_generation s"
    and "flush L s = (Ok (), s')" "reopens s' t" "sys_file t = sys_file s'"
  shows "fst (load_free_list L t) = Err MerkleIntegrityFailure"
proof -
  have rf: "refreshed L s = s" and nz: "cached_merkle_root s \<noteq> ZERO_ROOT"
    and stale: "fst (compute_merkle_root L (used_slots s) s) \<noteq> Ok (cached_merkle_root s)"
    using assms(4) by (auto simp: root_fresh_def refreshed_def)
  obtain s1 where s1: "save_free_list L s = (Ok (), s1)"
    and s': "s' = (if vc_container_id s \<noteq> ZERO_ID
       then s1\<lparr>sys_rollback := Some ((entries (rollback_load s1))(hex_encode L (vc_container_id s) \<mapsto> generation s1))\<rparr>
       else s1)"
    by (rule flush_Ok [OF assms(2,3,6)]) (simp add: rf)
  have re: "reopens s1 t" and f: "sys_file t = sys_file s1"
    using assms(7,8) s' by (auto simp: reopens_def split: if_splits)
  have "length (sys_file s1) = length (sys_file s)"
    using same_volume_fields(10) [of "bumped s" s1] save_free_list_inv [OF assms(3) s1] by simp
  then have "fst (compute_merkle_root L (used_slots s) t) = fst (compute_merkle_root L (used_slots s) s)"
    by (intro compute_merkle_root_cong)
      (use f save_free_list_images [OF assms(3) s1] used_slots_inside [of _ s] in auto)
  with stale nz assms(5) show ?thesis
    by (simp add: load_after_save [OF assms(1,3) s1 re])
qed

section \<open>Records across the two levels\<close>

lemma truncate_fields [simp]:
  "sys_file (sys.truncate s) = sys_file s" "sys_exists (sys.truncate s) = sys_exists s"
  "sys_rng (sys.truncate s) = sys_rng s" "sys_clock (sys.truncate s) = sys_clock s"
  "sys_rollback (sys.truncate s) = sys_rollback s"
  by (simp_all add: sys.truncate_def)

lemma slot_store_new_fields [simp]:
  fixes s :: sys
  shows "sys_file (slot_store_new k c a b al g s) = sys_file s"
    "sys_exists (slot_store_new k c a b al g s) = sys_exists s"
    "sys_rng (slot_store_new k c a b al g s) = sys_rng s"
    "sys_clock (slot_store_new k c a b al g s) = sys_clock s"
    "sys_rollback (slot_store_new k c a b al g s) = sys_rollback s"
    "master_key (slot_store_new k c a b al g s) = k" "store_cipher (slot_store_new k c a b al g s) = c"
    "slot_start (slot_store_new k c a b al g s) = a" "slot_limit (slot_store_new k c a b al g s) = b"
    "alloc_slot (slot_store_new k c a b al g s) = al" "free_list (slot_store_new k c a b al g s) = []"
    "generation (slot_store_new k c a b al g s) = 0" "has_generation (slot_store_new k c a b al g s) = g"
    "cached_merkle_root (slot_store_new k c a b al g s) = ZERO_ROOT"
    "merkle_dirty (slot_store_new k c a b al g s) = False"
  by (simp_all add: slot_store_new_def sys.defs slot_store.defs)

section \<open>Mounting\<close>

lemma mount_volume_loaded:
  assumes "load_free_list L (slot_store_new k (hp_cipher meta) start limit al True s) = (Ok (), st)"
    and "sys_rollback st = sys_rollback s" "hp_container_id meta \<noteq> ZERO_ID"
  shows "mount_volume L path k meta h start limit al s =
    and_then (rollback_check L (hp_container_id meta) (generation st) (rollback_load s)) (\<lambda>_.
      Ok (slot_store.extend st (vnm_container.fields (hp_root_slot meta) h (hp_cipher meta) (hp_outer_slots meta)
        (if h then start else hp_outer_slots meta) (label_from (hp_label meta)) (hp_created_at meta) k path
        (hp_container_id meta))))"
  using assms by (simp add: mount_volume_def current_generation_def rollback_load_def)

lemma mount_volume_refused:
  assumes "load_free_list L (slot_store_new k (hp_cipher meta) start limit al True s) = (Ok (), st)"
    and "sys_rollback s = Some m" "m (hex_encode L (hp_container_id meta)) = Some stored"
    and "sys_rollback st = sys_rollback s" "hp_container_id meta \<noteq> ZERO_ID" "generation st < stored"
  shows "mount_volume L path k meta h start limit al s = Err (RollbackDetected (generation st) stored)"
  using assms
  by (simp add: mount_volume_loaded [OF assms(1,4,5)] rollback_check_def rollback_load_def)

text \<open>A flush followed by a mount, with the baseline of the moment.\<close>

lemma refreshed_form:
  obtains r d where "refreshed L s = s\<lparr>cached_merkle_root := r, merkle_dirty := d\<rparr>"
proof -
  obtain r s' where c: "compute_merkle_root L (used_slots s) s = (r, s')" by fastforce
  then have s': "s' = s" using compute_merkle_root_state [of L "used_slots s" s] by simp
  have "\<exists>r d. refreshed L s = s\<lparr>cached_merkle_root := r, merkle_dirty := d\<rparr>"
  proof (cases "merkle_dirty s \<and> (\<exists>x. r = Ok x)")
    case True
    then obtain x where x: "merkle_dirty s" "r = Ok x" by blast
    with c s' show ?thesis
      by (intro exI [of _ x] exI [of _ False]) (simp add: refreshed_def update_merkle_root_def)
  next
    case False
    with c s' have "refreshed L s = s"
      by (cases r) (auto simp: refreshed_def update_merkle_root_def)
    then show ?thesis
      by (intro exI [of _ "cached_merkle_root s"] exI [of _ "merkle_dirty s"]) simp
  qed
  then show thesis using that by blast
qed

lemma flush_fields:
  assumes "hash_ok L" "store_inv c" "has_generation c" "flush L c = (Ok (), c')"
  shows "master_key c' = master_key c" "store_cipher c' = store_cipher c" "slot_start c' = slot_start c"
    "slot_limit c' = slot_limit c" "alloc_slot c' = alloc_slot c" "has_generation c' = has_generation c"
    "generation c' = wrap64 (generation c + 1)" "store_inv c'"
    "\<And>j. j < slot_limit c \<Longrightarrow> j \<noteq> alloc_slot c \<Longrightarrow> slot_image j (sys_file c') = slot_image j (sys_file c)"
    "slot_store.more c' = slot_store.more c"
    "vc_container_id c \<noteq> ZERO_ID \<Longrightarrow> \<exists>m. sys_rollback c' = Some (m(hex_encode L (vc_container_id c) \<mapsto> generation c'))"
proof -
  obtain s1 where s1: "save_free_list L (refreshed L c) = (Ok (), s1)"
    and c': "c' = (if vc_container_id c \<noteq> ZERO_ID
       then s1\<lparr>sys_rollback := Some ((entries (rollback_load s1))(hex_encode L (vc_container_id c) \<mapsto> generation s1))\<rparr>
       else s1)"
    by (rule flush_Ok [OF assms(1,2,4)])
  obtain r d where rf: "refreshed L c = c\<lparr>cached_merkle_root := r, merkle_dirty := d\<rparr>"
    by (rule refreshed_form)
  note inv = save_free_list_inv [OF refreshed_Ok(1) [OF assms(1,2)] s1]
  note f = same_volume_fields [OF conjunct2 [OF inv], simplified]
  show "master_key c' = master_key c" "store_cipher c' = store_cipher c" "slot_start c' = slot_start c"
    "slot_limit c' = slot_limit c" "alloc_slot c' = alloc_slot c" "has_generation c' = has_generation c"
    "generation c' = wrap64 (generation c + 1)" "store_inv c'" "slot_store.more c' = slot_store.more c"
    using f inv assms(3) by (simp_all add: c' rf bumped_def)
  show "slot_image j (sys_file c') = slot_image j (sys_file c)" if "j < slot_limit c" "j \<noteq> alloc_slot c" for j
    using save_free_list_images [OF refreshed_Ok(1) [OF assms(1,2)] s1, of j] that by (simp add: c' rf)
  show "\<exists>m. sys_rollback c' = Some (m(hex_encode L (vc_container_id c) \<mapsto> generation c'))"
    if "vc_container_id c \<noteq> ZERO_ID"
    using that by (auto simp: c')
qed

lemma mount_after_stale_flush:
  assumes "aead_ok L" "hash_ok L" "store_inv c" "\<not> root_fresh L c" "has_generation c"
    and "flush L c = (Ok (), c')" "sys_file (s :: sys) = sys_file c'"
    and "hp_cipher meta = store_cipher c" "hp_container_id meta \<noteq> ZERO_ID"
  shows "mount_volume L path (master_key c) meta h (slot_start c) (slot_limit c) (alloc_slot c) s =
    Err MerkleIntegrityFailure"
proof -
  let ?t = "slot_store_new (master_key c) (hp_cipher meta) (slot_start c) (slot_limit c) (alloc_slot c) True s"
  have "reopens c' ?t" using flush_fields [OF assms(2,3,5,6)] assms(5,7,8) by (simp add: reopens_def)
  from flush_reopen_stale [OF assms(1-6) this] assms(7,9) show ?thesis
    by (simp add: mount_volume_def split_beta)
qed

lemma mount_after_flush:
  assumes "aead_ok L" "hash_ok L" "store_inv c" "root_fresh L c" "has_generation c"
    and "flush L c = (Ok (), c')" "sys_file (s :: sys) = sys_file c'"
    and "hp_cipher meta = store_cipher c" "hp_container_id meta \<noteq> ZERO_ID"
  obtains st where
    "mount_volume L path (master_key c) meta h (slot_start c) (slot_limit c) (alloc_slot c) s =
      and_then (rollback_check L (hp_container_id meta) (generation c') (rollback_load s)) (\<lambda>_.
        Ok (slot_store.extend st (vnm_container.fields (hp_root_slot meta) h (hp_cipher meta) (hp_outer_slots meta)
          (if h then slot_start c else hp_outer_slots meta) (label_from (hp_label meta)) (hp_created_at meta)
          (master_key c) path (hp_container_id meta))))"
    "free_list st = free_list c" "generation st = generation c'" "master_key st = master_key c"
    "store_cipher st = store_cipher c" "slot_limit st = slot_limit c" "sys_file st = sys_file c'"
    "slot_start st = slot_start c" "alloc_slot st = alloc_slot c"
proof -
  let ?t = "slot_store_new (master_key c) (hp_cipher meta) (slot_start c) (slot_limit c) (alloc_slot c) True s"
  note ff = flush_fields [OF assms(2,3,5,6)]
  have "reopens c' ?t" using ff assms(5,7,8) by (simp add: reopens_def)
  from flush_reopen [OF assms(1-6) this] assms(7)
  have load: "load_free_list L ?t = (Ok (), loaded (free_list c) (wrap64 (generation c + 1))
      (cached_merkle_root (refreshed L c)) ?t)"
    by simp
  let ?st = "loaded (free_list c) (wrap64 (generation c + 1)) (cached_merkle_root (refreshed L c)) ?t"
  have st: "free_list ?st = free_list c" "generation ?st = generation c'" "sys_rollback ?st = sys_rollback s"
    "master_key ?st = master_key c" "store_cipher ?st = store_cipher c" "slot_limit ?st = slot_limit c"
    "sys_file ?st = sys_file c'" "slot_start ?st = slot_start c" "alloc_slot ?st = alloc_slot c"
    using ff(7) assms(7,8) by (simp_all add: loaded_def)
  show thesis
    using that [of ?st] st mount_volume_loaded [OF load st(3) assms(9)] by simp
qed

section \<open>Opening never panics\<close>

lemma decode_slot_no_panic: "aead_ok L \<Longrightarrow> decode_slot L k c slot buf \<noteq> Panic p"
  by (auto simp: decode_slot_def Let_def decode_header_no_panic decrypt_block_no_panic)

lemma store_read_no_panic: "aead_ok L \<Longrightarrow> fst (store_read L slot s) \<noteq> Panic p"
  by (auto simp: store_read_def then_op_def Let_def decrypt_block_no_panic pread_no_panic
      split: prod.splits outcome.splits)

lemma read_leaves_no_panic: "fst (read_leaves L slots s) \<noteq> Panic p"
proof (induction slots arbitrary: s)
  case (Cons slot slots)
  have "fst (pread (slot_offset slot) SLOT_SIZE s) \<noteq> Panic p"
    by (simp add: pread_def)
  then show ?case
    unfolding read_leaves.simps by (intro then_op_no_panic Cons) simp_all
qed simp

lemma compute_merkle_root_no_panic: "fst (compute_merkle_root L slots s) \<noteq> Panic p"
  using read_leaves_no_panic [of L slots s p]
  by (auto simp: compute_merkle_root_def then_op_def split: prod.splits outcome.splits)

lemma check_root_no_panic:
  "fst (then_op (compute_merkle_root L slots) (\<lambda>r. return_op (if P r then Err e else Ok ())) s) \<noteq> Panic p"
  using compute_merkle_root_no_panic [of L slots s p]
  by (auto simp: then_op_def split: prod.splits outcome.splits)

lemma load_free_list_no_panic:
  assumes "aead_ok L"
  shows "fst (load_free_list L s) \<noteq> Panic p"
  using store_read_no_panic [OF assms, of "alloc_slot s" s]
  by (auto simp: load_free_list_def Let_def check_root_no_panic split: outcome.splits if_splits)

lemma mount_volume_no_panic:
  assumes "aead_ok L"
  shows "mount_volume L path k meta h start limit al s \<noteq> Panic p"
proof -
  let ?t = "slot_store_new k (hp_cipher meta) start limit al (hp_container_id meta \<noteq> ZERO_ID) s"
  obtain r st where l: "load_free_list L ?t = (r, st)" by fastforce
  with load_free_list_no_panic [OF assms, of ?t] have "r \<noteq> Panic x" for x by (metis fst_conv)
  then show ?thesis
    unfolding mount_volume_def Let_def l prod.case
    by (intro and_then_no_panic) (simp_all add: rollback_check_no_panic)
qed

lemma read_512_length: "fst (read_512_at off s) = Ok raw \<Longrightarrow> length raw = 512"
  by (auto simp: read_512_at_def pread_def split: if_splits)

lemma read_no_panic:
  "fst (read_512_at off s) \<noteq> Panic p" "fst (read_pw_slot_raw i s) \<noteq> Panic p" "fst (read_key_slot_raw i s) \<noteq> Panic p"
  by (simp_all add: read_512_at_def read_pw_slot_raw_def read_key_slot_raw_def pread_def)

lemma try_slots_no_panic:
  assumes "\<And>i x. rd i \<noteq> Panic x" "\<And>slot x. f slot \<noteq> Panic x"
  shows "try_slots rd f is \<noteq> Panic p"
proof (induction "is")
  case (Cons i "is")
  from Cons assms show ?case
    unfolding try_slots.simps
    by (intro and_then_some_no_panic and_then_no_panic option_no_panic) simp_all
qed simp

lemma outer_key_no_panic: "aead_ok L \<Longrightarrow> outer_key L cred s \<noteq> Panic p"
  by (auto simp: outer_key_def try_pw_slots_def try_key_slots_def try_slots_no_panic read_no_panic
      try_password_slot_no_panic try_key_slot_no_panic split: prod.splits open_credential.splits)

lemma header_probe_no_panic:
  "aead_ok L \<Longrightarrow> length raw = 512 \<Longrightarrow> probe (\<lambda>c. decode_header L raw k c h) cs \<noteq> Panic p"
  by (rule probe_no_panic) (rule decode_header_no_panic)

lemma find_header_no_panic: "aead_ok L \<Longrightarrow> find_header L k offs s \<noteq> Panic p"
proof (induction offs)
  case (Cons off offs)
  then have IH: "find_header L k offs s \<noteq> Panic p" by simp
  show ?case
  proof (cases "fst (read_512_at off s)")
    case (Ok raw)
    have "and_then (probe (\<lambda>c. decode_header L raw k c False) ALL_CIPHERS)
       (\<lambda>r. case r of Some (meta, c) \<Rightarrow> Ok (Some meta) | None \<Rightarrow> find_header L k offs s) \<noteq> Panic p"
      by (intro and_then_no_panic option_no_panic header_probe_no_panic IH Cons read_512_length [OF Ok])
        (simp split: prod.splits)
    with Ok show ?thesis by simp
  qed (use IH in simp_all)
qed simp

lemma derive_hidden_key_no_panic: "derive_hidden_key L raw pw \<noteq> Panic p"
  unfolding derive_hidden_key_def Let_def
  by (intro and_then_no_panic derive_key_no_panic) simp

lemma try_hidden_at_no_panic:
  assumes "aead_ok L"
  shows "try_hidden_at L off pw s \<noteq> Panic p"
  unfolding try_hidden_at_def
proof (intro and_then_some_no_panic, goal_cases)
  case (3 raw k)
  then have "length raw = 512" by (simp add: read_512_length)
  from header_probe_no_panic [OF assms this] show ?case .
qed (auto simp: read_no_panic derive_hidden_key_no_panic)

lemma open_hidden_no_panic:
  assumes "aead_ok L"
  shows "open_hidden L path cred s \<noteq> Panic p"
proof (cases cred)
  case (Password pw)
  then show ?thesis
    unfolding open_hidden_def Password open_credential.case
    by (intro and_then_no_panic option_no_panic try_hidden_at_no_panic assms)
      (auto simp: mount_volume_no_panic [OF assms] Let_def split: prod.splits)
qed (simp add: open_hidden_def)

lemma open_container_no_panic:
  assumes "aead_ok L"
  shows "open_container L path cred s \<noteq> Panic p"
proof (cases "sys_exists s")
  case True
  have "and_then (find_header L k offs s) (\<lambda>found. case found of
      Some meta \<Rightarrow> mount_volume L path k meta False 0 (hp_outer_slots meta) OUTER_ALLOC_SLOT s
    | None \<Rightarrow> open_hidden L path cred s) \<noteq> Panic p" for k offs
    by (intro and_then_no_panic option_no_panic find_header_no_panic open_hidden_no_panic
        mount_volume_no_panic assms)
  then show ?thesis
    unfolding open_container_def Let_def if_not_P [OF not_not [THEN iffD2, OF True]]
    by (intro and_then_no_panic option_no_panic outer_key_no_panic open_hidden_no_panic assms)
      (simp del: find_header.simps OUTER_ALLOC_SLOT_def split: prod.split)
qed (simp add: open_container_def)

end
