(* ===== verification/Container_Create.thy ===== *)
theory Container_Create
  imports Container_Nodes
begin

text \<open>
  Creation of a container (fs/container.rs): the regions of the file, the random fill, and
  the round trip from \<open>create\<close> to \<open>open_container\<close> for a password.
\<close>

section \<open>Layout\<close>

lemma DATA_AREA_OFFSET_eq: "DATA_AREA_OFFSET = 16376"
  by (simp add: DATA_AREA_OFFSET_def)

lemma plan_outer_only:
  assumes "MIN_SIZE \<le> tot" "tot < 2 ^ 64"
  obtains n where "plan_slots tot None = Ok (n, 0)" "16 \<le> n"
    "plan_file_size n 0 None = DATA_AREA_OFFSET + n * SLOT_SIZE + 512"
    "DATA_AREA_OFFSET + n * SLOT_SIZE + 512 \<le> tot"
proof -
  let ?n = "(tot - (DATA_AREA_OFFSET + 512)) div SLOT_SIZE"
  have mult: "?n * SLOT_SIZE \<le> tot - (DATA_AREA_OFFSET + 512)" by (rule div_times_less_eq_dividend)
  have min: "DATA_AREA_OFFSET + 16 * SLOT_SIZE + 512 \<le> tot" using assms(1) by (simp add: MIN_SIZE_def)
  have le: "DATA_AREA_OFFSET + ?n * SLOT_SIZE + 512 \<le> tot" using mult min by linarith
  have "16 * SLOT_SIZE \<le> tot - (DATA_AREA_OFFSET + 512)" using min by linarith
  then have "16 * SLOT_SIZE div SLOT_SIZE \<le> ?n" by (rule div_le_mono)
  then have "16 \<le> ?n" by (simp add: SLOT_SIZE_def)
  moreover have "plan_slots tot None = Ok (?n, 0)"
    by (simp add: plan_slots_def tail_size_def Let_def)
  moreover have "plan_file_size ?n 0 None = DATA_AREA_OFFSET + ?n * SLOT_SIZE + 512"
    using le assms(2) by (simp add: plan_file_size_def tail_size_def)
  ultimately show thesis using le by (intro that)
qed

lemma plan_with_hidden:
  assumes "plan_slots tot (Some h) = Ok (n, m)" "tot < 2 ^ 64"
  shows "2 \<le> n \<and> 2 \<le> m \<and> (ho_size_bytes h + SLOT_SIZE - 1 < 2 ^ 64 \<longrightarrow> ho_size_bytes h \<le> m * SLOT_SIZE) \<and>
    plan_file_size n m (Some h) = DATA_AREA_OFFSET + (n + m) * SLOT_SIZE + 1024 \<and>
    DATA_AREA_OFFSET + (n + m) * SLOT_SIZE + 1024 \<le> tot"
proof -
  let ?t = "(tot - (DATA_AREA_OFFSET + 1024)) div SLOT_SIZE"
  from assms(1) have m: "m = max (wrap64 (ho_size_bytes h + SLOT_SIZE - 1) div SLOT_SIZE) 2"
    and n: "n = ?t - m" "2 \<le> n"
    by (auto simp: plan_slots_def tail_size_def Let_def split: if_splits)
  from n have nm: "n + m = ?t" by linarith
  then have mult: "(n + m) * SLOT_SIZE \<le> tot - (DATA_AREA_OFFSET + 1024)" by simp
  have "0 < (n + m) * SLOT_SIZE" using n(2) by (simp add: SLOT_SIZE_def)
  with mult have le: "DATA_AREA_OFFSET + (n + m) * SLOT_SIZE + 1024 \<le> tot" by linarith
  moreover from le assms(2) have "plan_file_size n m (Some h) = DATA_AREA_OFFSET + (n + m) * SLOT_SIZE + 1024"
    by (simp add: plan_file_size_def tail_size_def)
  moreover have "ho_size_bytes h \<le> m * SLOT_SIZE" if "ho_size_bytes h + SLOT_SIZE - 1 < 2 ^ 64"
  proof -
    let ?x = "ho_size_bytes h"
    have "(?x + SLOT_SIZE - 1) div SLOT_SIZE \<le> m" using that m by simp
    then have "(?x + SLOT_SIZE - 1) div SLOT_SIZE * SLOT_SIZE \<le> m * SLOT_SIZE" by (rule mult_le_mono1)
    moreover have "?x \<le> (?x + SLOT_SIZE - 1) div SLOT_SIZE * SLOT_SIZE"
      by (simp add: SLOT_SIZE_def)
    ultimately show ?thesis by linarith
  qed
  ultimately show ?thesis using n(2) m by simp
qed

section \<open>The random fill\<close>

lemma fill_random_Ok:
  assumes "filled \<le> file_size" "length (sys_file s) = file_size" "file_size < 2 ^ 63"
  shows "\<exists>r. fill_random L file_size filled s = (Ok (), s\<lparr>sys_rng := r,
    sys_file := take filled (sys_file s) @ map (rand_tape L) [sys_rng s..<sys_rng s + (file_size - filled)]\<rparr>)"
  using assms
proof (induction "file_size - filled" arbitrary: filled s rule: less_induct)
  case less
  show ?case
  proof (cases "filled < file_size")
    case False
    with less.prems show ?thesis
      by (intro exI [of _ "sys_rng s"]) (simp add: fill_random.simps [of L file_size])
  next
    case True
    let ?n = "min (file_size - filled) FILL_CHUNK"
    let ?buf = "map (rand_tape L) [sys_rng s..<sys_rng s + ?n]"
    define s1 where "s1 = s\<lparr>sys_rng := sys_rng s + FILL_CHUNK, sys_file := blit filled ?buf (sys_file s)\<rparr>"
    have tk: "take ?n (map (rand_tape L) [sys_rng s..<sys_rng s + FILL_CHUNK]) = ?buf"
      by (simp add: take_map)
    have n: "0 < ?n" "filled + ?n \<le> file_size" using True by (auto simp: FILL_CHUNK_def)
    have "pwrite filled ?buf (s\<lparr>sys_rng := sys_rng s + FILL_CHUNK\<rparr>) = (Ok (), s1)"
      unfolding s1_def by (subst pwrite_inside) (use less.prems n in simp_all)
    then have step: "fill_random L file_size filled s = fill_random L file_size (filled + ?n) s1"
      using True tk by (simp add: fill_random.simps [of L file_size filled] fill_bytes_def Let_def)
    have len1: "length (sys_file s1) = file_size" using less.prems n by (simp add: s1_def)
    have lt: "file_size - (filled + ?n) < file_size - filled" using n by linarith
    from less.hyps [OF lt n(2) len1 less.prems(3)]
    obtain r where "fill_random L file_size (filled + ?n) s1 = (Ok (), s1\<lparr>sys_rng := r,
      sys_file := take (filled + ?n) (sys_file s1) @
        map (rand_tape L) [sys_rng s1..<sys_rng s1 + (file_size - (filled + ?n))]\<rparr>)" by blast
    moreover have "take (filled + ?n) (sys_file s1) = take filled (sys_file s) @ ?buf"
      using less.prems n(2) by (simp add: s1_def blit_def)
    moreover have "?buf @ map (rand_tape L) [sys_rng s1..<sys_rng s1 + (file_size - (filled + ?n))]
        = map (rand_tape L) [sys_rng s..<sys_rng s + (file_size - filled)]"
    proof (cases "file_size - filled \<le> FILL_CHUNK")
      case False
      then have "sys_rng s + (file_size - filled) = sys_rng s + FILL_CHUNK + (file_size - (filled + FILL_CHUNK))"
        by simp
      with False upt_add_eq_append [of "sys_rng s" "sys_rng s + FILL_CHUNK" "file_size - (filled + FILL_CHUNK)"]
      show ?thesis
        by (simp add: s1_def map_append [symmetric] del: map_append)
    qed (simp add: s1_def)
    ultimately show ?thesis
      by (intro exI [of _ r]) (simp add: step, simp add: s1_def)
  qed
qed

section \<open>Volumes do not interfere\<close>

text \<open>
  The bytes of the file outside a volume: the headers, the recipient area, the tail, and
  the other volume's slots.
\<close>

definition outside_volume :: "'a slot_store_scheme \<Rightarrow> nat \<Rightarrow> nat \<Rightarrow> bool" where
  "outside_volume s a b \<longleftrightarrow> b \<le> length (sys_file s) \<and>
     (b \<le> DATA_AREA_OFFSET + slot_start s * SLOT_SIZE \<or> DATA_AREA_OFFSET + slot_limit s * SLOT_SIZE \<le> a)"

lemma slot_inside_volume:
  assumes "volume_ok s" "in_volume s slot"
  shows "DATA_AREA_OFFSET + slot_start s * SLOT_SIZE \<le> slot_offset slot"
    and "slot_offset slot + SLOT_SIZE \<le> DATA_AREA_OFFSET + slot_limit s * SLOT_SIZE"
proof -
  have l: "slot < slot_limit s" and ge: "slot_start s \<le> slot" using assms(2) by (simp_all add: in_volume_def)
  have off: "slot_offset slot = DATA_AREA_OFFSET + slot * SLOT_SIZE" by (rule slot_offset_inside [OF assms(1) l])
  have "slot_start s * SLOT_SIZE \<le> slot * SLOT_SIZE" using ge by (rule mult_le_mono1)
  then show "DATA_AREA_OFFSET + slot_start s * SLOT_SIZE \<le> slot_offset slot" by (simp add: off)
  show "slot_offset slot + SLOT_SIZE \<le> DATA_AREA_OFFSET + slot_limit s * SLOT_SIZE"
    using slot_end_mono [OF l] by (simp add: off)
qed

lemma blit_slot_outside:
  assumes "volume_ok s" "in_volume s slot" "outside_volume s a b" "length buf = SLOT_SIZE"
  shows "subrange a b (blit (slot_offset slot) buf (sys_file s)) = subrange a b (sys_file s)"
proof -
  have l: "slot < slot_limit s" using assms(2) by (simp add: in_volume_def)
  show ?thesis
    by (rule subrange_blit_other)
      (use slot_offset_inside(2) [OF assms(1) l] slot_inside_volume [OF assms(1,2)] assms(3,4) in
        \<open>auto simp: outside_volume_def\<close>)
qed

lemma store_write_outside:
  assumes "volume_ok s" "in_volume s slot" "outside_volume s a b" "store_write L slot p s = (r, s')"
  shows "subrange a b (sys_file s') = subrange a b (sys_file s)"
proof -
  have l: "slot < slot_limit s" using assms(2) by (simp add: in_volume_def)
  obtain r1 s1 where e: "encrypt_block L (derive_slot_key L slot s) (store_cipher s) (to_le 8 slot) p s = (r1, s1)"
    by fastforce
  note st = encrypt_block_state [OF e]
  show ?thesis
    using assms(4) st e blit_slot_outside [OF assms(1-3)]
    by (cases r1) (auto simp: store_write_inside [OF assms(1) l] split: if_splits)
qed

lemma wipe_outside:
  assumes "volume_ok s" "in_volume s slot" "outside_volume s a b"
  shows "subrange a b (sys_file (snd (wipe L slot s))) = subrange a b (sys_file s)"
proof -
  have l: "slot < slot_limit s" using assms(2) by (simp add: in_volume_def)
  show ?thesis using blit_slot_outside [OF assms] by (simp add: wipe_inside [OF assms(1) l])
qed

lemma save_free_list_outside:
  assumes "store_inv s" "save_free_list L s = (r, s')" "outside_volume s a b"
  shows "subrange a b (sys_file s') = subrange a b (sys_file s)"
proof -
  have vol: "volume_ok (bumped s)" using assms(1) by (simp add: store_inv_def)
  obtain bm where "save_free_list L s = store_write L (alloc_slot s)
       (alloc_data s (wrap64 (generation s + 1)) bm) (bumped s)"
    by (rule save_free_list_eq [OF assms(1)])
  with assms(2) have w: "store_write L (alloc_slot s) (alloc_data s (wrap64 (generation s + 1)) bm) (bumped s) = (r, s')"
    by simp
  have "in_volume (bumped s) (alloc_slot s)" "outside_volume (bumped s) a b"
    using volume_okD(1,2) [OF vol] assms(3) by (simp_all add: in_volume_def outside_volume_def)
  from store_write_outside [OF vol this w] show ?thesis by simp
qed

section \<open>A new volume\<close>

definition empty_dir :: vault_node where
  "empty_dir = Directory \<lparr>db_kind = KDirectory, db_entries = []\<rparr>"

lemma write_empty_dir_eq: "write_empty_dir L slot = update_node L slot empty_dir"
  by (rule ext) (simp add: write_empty_dir_def update_node_def empty_dir_def split: option.splits)

lemma same_volume_free_list: "same_volume s s' \<Longrightarrow> free_set s' = free_set s \<and> pool_owned s' = pool_owned s"
  by (simp add: free_set_def pool_owned_def same_volume_fields)

lemma update_node_same_volume:
  assumes "volume_ok s" "in_volume s i" "update_node L i n s = (r, s')"
  shows "same_volume s s'"
  using assms(3)
  by (cases rule: update_node_cases)
    (use store_write_same_volume [OF assms(1)] assms(2) in \<open>auto simp: in_volume_def\<close>)

lemma update_node_outside:
  assumes "volume_ok s" "in_volume s i" "update_node L i n s = (r, s')" "outside_volume s a b"
  shows "subrange a b (sys_file s') = subrange a b (sys_file s)"
  using assms(3)
  by (cases rule: update_node_cases) (use store_write_outside [OF assms(1,2,4)] in auto)

text \<open>The store just before the allocation block is written, and what the new volume holds.\<close>

lemma init_volume_Ok:
  assumes laws: "aead_ok L" "msgpack_ok L" and vol: "volume_ok s"
    and "length (cached_merkle_root s) = 32" "generation s < 2 ^ 64"
    and root: "root \<in> pool_owned s" and init: "init_volume L root s = (Ok (), s')"
  obtains s2 where "store_inv s2" "save_free_list L s2 = (Ok (), s')"
    "same_volume (s\<lparr>free_list := free_list s2\<rparr>) s2" "free_set s2 = pool_owned s - {root}"
    "store_inv s'" "fst (read_node L root s') = Ok empty_dir"
    "\<forall>a b. outside_volume s a b \<longrightarrow> subrange a b (sys_file s') = subrange a b (sys_file s)"
proof -
  define s1 where "s1 = s\<lparr>free_list := filter (\<lambda>x. x \<noteq> root) (free_list (rebuild_free_list s))\<rparr>"
  have rb: "store_inv (rebuild_free_list s)" by (rule rebuild_inv [OF vol assms(4,5)])
  have "sorted_wrt (>) (filter (\<lambda>x. x \<noteq> root) (free_list (rebuild_free_list s)))"
    using rb by (intro sorted_wrt_filter) (simp add: store_inv_def free_ok_def)
  moreover have st: "set (free_list (rebuild_free_list s)) = pool_owned s"
    by (rule rebuild_free_set [unfolded free_set_def])
  ultimately have "free_ok s1" by (auto simp: s1_def free_ok_def) (simp_all add: pool_owned_def)
  then have inv1: "store_inv s1" using vol assms(4,5) by (simp add: store_inv_def s1_def)
  have fs1: "free_set s1 = pool_owned s - {root}"
    by (auto simp: s1_def free_set_def st)
  have s1eq: "s1 = rebuild_free_list s\<lparr>free_list := filter (\<lambda>x. x \<noteq> root) (free_list (rebuild_free_list s))\<rparr>"
    by (simp add: s1_def rebuild_free_list_def)
  from init obtain s2 where u: "update_node L root empty_dir s1 = (Ok (), s2)"
    and save: "save_free_list L s2 = (Ok (), s')"
    by (auto simp: init_volume_def Let_def write_empty_dir_eq then_op_eq_Ok s1eq)
  have iv: "in_volume s1 root" "root \<noteq> alloc_slot s1" using root by (auto simp: in_volume_def pool_owned_def s1_def)
  have vol1: "volume_ok s1" using inv1 by (simp add: store_inv_def)
  note sv = update_node_same_volume [OF vol1 iv(1) u]
  have inv2: "store_inv s2" using same_volume_inv [OF sv] inv1 by simp
  note f2 = same_volume_fields [OF sv]
  have vol2: "volume_ok s2" using inv2 by (simp add: store_inv_def)
  have rd2: "fst (read_node L root s2) = Ok empty_dir"
    by (rule nodes.read_same [OF _ iv(1) _ u]) (use laws inv1 in \<open>simp_all add: node_inv_def any_node_def\<close>)
  note sinv = save_free_list_inv [OF inv2 save]
  have "fst (store_read L root s') = fst (store_read L root s2)"
  proof -
    have rl: "root < slot_limit s2" "root \<noteq> alloc_slot s2" using iv f2 by (simp_all add: in_volume_def)
    have "volume_ok s'" "root < slot_limit s'"
      using sinv rl(1) same_volume_fields(4) [OF conjunct2 [OF sinv]] by (simp_all add: store_inv_def)
    then show ?thesis
      using rl(1) save_free_list_images [OF inv2 save rl] same_volume_fields(1,2) [OF conjunct2 [OF sinv]]
      by (simp add: store_read_inside vol2)
  qed
  then have rd: "fst (read_node L root s') = Ok empty_dir" using rd2 by (simp add: read_node_fst)
  have out: "subrange a b (sys_file s') = subrange a b (sys_file s)" if "outside_volume s a b" for a b
  proof -
    have "outside_volume s1 a b" using that by (simp add: outside_volume_def s1_def)
    moreover from this have "outside_volume s2 a b" by (simp add: outside_volume_def f2)
    ultimately show ?thesis
      using update_node_outside [OF vol1 iv(1) u] save_free_list_outside [OF inv2 save] by (simp add: s1_def)
  qed
  have "same_volume (s\<lparr>free_list := free_list s2\<rparr>) s2"
    using sv by (simp add: same_volume_def s1_def)
  moreover have "free_set s2 = pool_owned s - {root}" using same_volume_free_list [OF sv] fs1 by simp
  moreover have "store_inv s'" using sinv by (rule conjunct1)
  moreover have "\<forall>a b. outside_volume s a b \<longrightarrow> subrange a b (sys_file s') = subrange a b (sys_file s)"
    using out by blast
  ultimately show thesis using that [OF inv2 save _ _ _ rd] by blast
qed

section \<open>Blank stores\<close>

lemma length_ZERO_ROOT [simp]: "length ZERO_ROOT = 32"
  by (simp add: ZERO_ROOT_def)

lemma with_store_Ok:
  "with_store mk m s = (Ok st, s') \<Longrightarrow> m (mk s) = (Ok (), st) \<and> s' = sys.truncate st"
  by (auto simp: with_store_def split: prod.splits outcome.splits)

section \<open>What creation writes\<close>

lemma write_bytes_inside:
  "off + length data \<le> length (sys_file s) \<Longrightarrow> off < 2 ^ 63 \<Longrightarrow>
     write_bytes_at off data s = (Ok (), s\<lparr>sys_file := blit off data (sys_file s)\<rparr>)"
  by (simp add: write_bytes_at_def pwrite_inside)

lemma write_bytes_Ok:
  assumes "off + length data \<le> length (sys_file s)" "write_bytes_at off data s = (Ok (), s')"
  shows "s' = s\<lparr>sys_file := blit off data (sys_file s)\<rparr>"
  using assms by (auto simp: write_bytes_at_def pwrite_def split: if_splits)

lemma encode_password_slot_state:
  assumes "encode_password_slot L k pw prof s = (Ok slot, s')"
  obtains r where "s' = s\<lparr>sys_rng := r\<rparr>"
proof -
  from assms obtain key enc where
    "encrypt_block L key Triple AAD_PW k (snd (fill_bytes L 32 s)) = (Ok enc, s')"
    by (auto simp: encode_password_slot_def then_op_eq_Ok Let_def split_beta split: option.splits)
  from encrypt_block_state [OF this] show thesis by (intro that) (simp add: fill_bytes_def)
qed

lemma encode_header_state:
  assumes "encode_header L p k h s = (Ok raw, s')"
  obtains r where "s' = s\<lparr>sys_rng := r\<rparr>" "length raw = 512"
proof -
  from assms obtain salt enc where e: "encrypt_block L k (hp_cipher p) (header_aad h)
       (header_body (body_len (hp_cipher p)) FORMAT_VERSION p) (snd (fill_bytes L 64 s)) = (Ok enc, s')"
    and img: "length salt = 64" "copy_into 68 enc (header_prefix salt p) = (Ok raw :: bytes result)"
    by (rule encode_header_Ok) blast
  from encrypt_block_state [OF e] header_image(1) [OF img] show thesis
    by (intro that) (simp_all add: fill_bytes_def)
qed

lemma outer_payload_ok:
  "n < 2 ^ 64 \<Longrightarrow> now < 2 ^ 64 \<Longrightarrow> length cid = 16 \<Longrightarrow> payload_ok (outer_payload c kid hp n now label cid)"
  by (simp add: payload_ok_def outer_payload_def label_field_def split: option.splits)

text \<open>The password slot written by \<open>create\<close> or \<open>add_password_recipient\<close>.\<close>

definition holds_password :: "libs \<Rightarrow> bytes \<Rightarrow> bytes \<Rightarrow> bytes \<Rightarrow> bool" where
  "holds_password L slot pw k \<longleftrightarrow> length slot = PW_SLOT_SIZE \<and>
     (\<exists>key. pw_slot_key L slot pw = Ok (Some key) \<and> open_pw_slot_with L slot key Triple = Ok k)"

definition made_for_password :: "libs \<Rightarrow> bytes \<Rightarrow> bytes \<Rightarrow> bytes \<Rightarrow> bool" where
  "made_for_password L slot pw k \<longleftrightarrow>
     (\<exists>prof (s :: sys) s'. encode_password_slot L k pw prof s = (Ok slot, s'))"

lemma made_holds_password:
  assumes "aead_ok L" "kdf_ok L" "length k = 32" "made_for_password L slot pw k"
  shows "holds_password L slot pw k"
proof -
  from assms(4) obtain prof s s' where e: "encode_password_slot L k pw prof (s :: sys) = (Ok slot, s')"
    by (auto simp: made_for_password_def)
  show ?thesis
    by (rule encode_password_slot_Ok [OF assms(1-3) e]) (auto simp: holds_password_def)
qed

text \<open>No cipher tried before \<open>Triple\<close> accepts the slot under the password.\<close>

definition pw_slot_clear :: "libs \<Rightarrow> bytes \<Rightarrow> bytes \<Rightarrow> bool" where
  "pw_slot_clear L slot pw \<longleftrightarrow> (\<forall>key d k'. pw_slot_key L slot pw = Ok (Some key) \<longrightarrow>
     d \<in> set (tried_before Triple) \<longrightarrow> open_pw_slot_with L slot key d \<noteq> Ok k')"

definition header_clear :: "libs \<Rightarrow> bytes \<Rightarrow> bytes \<Rightarrow> cipher_algorithm \<Rightarrow> bool \<Rightarrow> bool" where
  "header_clear L raw k c h \<longleftrightarrow> (\<forall>d m. d \<in> set (tried_before c) \<longrightarrow> decode_header L raw k d h \<noteq> Ok m)"

lemma holds_password_try:
  assumes "aead_ok L" "holds_password L slot pw k" "pw_slot_clear L slot pw"
  shows "try_password_slot L slot pw = Ok (Some (k, Triple))"
proof -
  from assms(2) obtain key where key: "pw_slot_key L slot pw = Ok (Some key)"
    "open_pw_slot_with L slot key Triple = Ok k"
    by (auto simp: holds_password_def)
  show ?thesis
    by (rule try_password_slot_finds [OF assms(1) key])
      (use assms(3) key(1) in \<open>auto simp: pw_slot_clear_def\<close>)
qed

lemma header_probe_finds:
  assumes "aead_ok L" "length raw = 512" "decode_header L raw k c h = Ok m" "header_clear L raw k c h"
  shows "probe (\<lambda>c. decode_header L raw k c h) ALL_CIPHERS = Ok (Some (m, c))"
proof -
  obtain post where "ALL_CIPHERS = tried_before c @ c # post" using tried_before_split by blast
  moreover have "\<exists>e. decode_header L raw k d h = Err e" if "d \<in> set (tried_before c)" for d
    using assms(4) that decode_header_no_panic [OF assms(1,2)]
    by (intro not_Ok_Err) (auto simp: header_clear_def)
  ultimately show ?thesis using assms(3) by (intro probe_first) auto
qed

text \<open>The bytes 0 to 512 and 1024 to 1200 after the header writes, and the store of the new volume.\<close>

lemma create_outer_Ok:
  assumes laws: "aead_ok L" "kdf_ok L" "msgpack_ok L"
    and sz: "length (sys_file s) = DATA_AREA_OFFSET + n * SLOT_SIZE + 512" "2 \<le> n"
      "length (sys_file s) < 2 ^ 63"
    and vals: "length k = 32" "length cid = 16" "now < 2 ^ 64"
    and run: "create_outer L path pw c kid label False n (length (sys_file s)) now k cid s = (Ok cont, s')"
  obtains st2 st where "store_inv st2" "save_free_list L st2 = (Ok (), st)"
    "same_volume (slot_store_new k c 0 n 0 True s\<lparr>sys_file := sys_file st2, free_list := free_list st2\<rparr>) st2"
    "free_set st2 = {0..<n} - {0, 1}" "fst (read_node L 1 st) = Ok empty_dir"
    "s' = (sys.truncate st)\<lparr>sys_rollback := Some ((entries (rollback_load st))(hex_encode L cid \<mapsto> generation st))\<rparr>"
    "cont = slot_store.extend (st\<lparr>sys_rollback := sys_rollback s'\<rparr>)
      (vnm_container.fields 1 False c n n label now k path cid)"
    "decode_header L (subrange 0 512 (sys_file s')) k c False = Ok (outer_payload c kid (pw \<noteq> []) n now label cid)"
    "pw \<noteq> [] \<Longrightarrow> made_for_password L (subrange 1024 1200 (sys_file s')) pw k"
    "length (sys_file s') = length (sys_file s)"
proof -
  let ?pl = "outer_payload c kid (pw \<noteq> []) n now label cid" and ?fs = "length (sys_file s)"
  from run obtain hdr sa sb sc sd se st where
    hdr: "encode_header L ?pl k False s = (Ok hdr, sa)"
    and wb: "write_bytes_at 0 hdr sa = (Ok (), sb)"
    and wc: "write_bytes_at (?fs - 512) hdr sb = (Ok (), sc)"
    and wd: "(if pw \<noteq> [] then then_op (encode_password_slot L k pw kid) (write_recipient_slot 0)
      else return_op (Ok ())) sc = (Ok (), sd)"
    and ws: "with_store (slot_store_new k c 0 n 0 True) (init_volume L 1) sd = (Ok st, se)"
    and s'0: "rollback_update L cid (current_generation st) se = (Ok (), s')"
    and cont: "cont = slot_store.extend (st\<lparr>sys_rollback := sys_rollback s'\<rparr>)
      (vnm_container.fields 1 False c n n label now k path cid)"
    by (auto simp: create_outer_def then_op_eq_Ok Let_def)
  have n64: "n < 2 ^ 64"
  proof -
    have "n \<le> n * SLOT_SIZE" by (simp add: SLOT_SIZE_def)
    with sz(1,3) have "n < 2 ^ 63" by linarith
    then show ?thesis by simp
  qed
  obtain r where sa: "sa = s\<lparr>sys_rng := r\<rparr>" and hl: "length hdr = 512"
    by (rule encode_header_state [OF hdr])
  have dec: "decode_header L hdr k c False = Ok ?pl"
    using decode_encode_header [OF laws(1) outer_payload_ok [OF n64 vals(3,2)] hdr]
    by (simp add: outer_payload_def)
  have big: "1200 + 512 \<le> ?fs" using sz(1) by (simp add: DATA_AREA_OFFSET_eq)
  have sb: "sb = sa\<lparr>sys_file := blit 0 hdr (sys_file sa)\<rparr>"
    by (rule write_bytes_Ok [OF _ wb]) (use hl big sa in simp)
  have sc: "sc = sb\<lparr>sys_file := blit (?fs - 512) hdr (sys_file sb)\<rparr>"
    by (rule write_bytes_Ok [OF _ wc]) (use hl big sa sb in simp)
  have lc: "length (sys_file sc) = ?fs" using hl big by (simp add: sa sb sc)
  have lb: "length (sys_file sb) = ?fs" using hl big by (simp add: sa sb)
  have hb: "subrange 0 512 (sys_file sb) = hdr"
    unfolding sb using hl big by (simp add: sa)
  have fc: "sys_file sc = blit (?fs - 512) hdr (sys_file sb)" by (simp add: sc)
  have "subrange 0 512 (sys_file sc) = subrange 0 512 (sys_file sb)"
    unfolding fc by (rule subrange_blit_other) (use hl big lb in linarith)+
  then have hc: "subrange 0 512 (sys_file sc) = hdr" using hb by simp
  have keep: "sys_exists sc = sys_exists s \<and> sys_clock sc = sys_clock s \<and> sys_rollback sc = sys_rollback s"
    by (simp add: sa sb sc)
  have sd: "length (sys_file sd) = ?fs \<and> subrange 0 512 (sys_file sd) = hdr \<and>
    sys_exists sd = sys_exists s \<and> sys_clock sd = sys_clock s \<and> sys_rollback sd = sys_rollback s \<and>
    (pw \<noteq> [] \<longrightarrow> made_for_password L (subrange 1024 1200 (sys_file sd)) pw k)"
  proof (cases "pw = []")
    case True
    with wd have "sd = sc" by simp
    with True lc hc keep show ?thesis by simp
  next
    case False
    with wd obtain slot sc' where e: "encode_password_slot L k pw kid sc = (Ok slot, sc')"
      and w: "write_bytes_at 1024 slot sc' = (Ok (), sd)"
      by (auto simp: then_op_eq_Ok write_recipient_slot_def pw_slot_offset_def)
    obtain r' where sc': "sc' = sc\<lparr>sys_rng := r'\<rparr>" by (rule encode_password_slot_state [OF e])
    from e have hp: "made_for_password L slot pw k" by (auto simp: made_for_password_def)
    have sl: "length slot = 176"
      by (rule encode_password_slot_Ok [OF laws(1,2) vals(1) e]) simp
    have "sd = sc'\<lparr>sys_file := blit 1024 slot (sys_file sc')\<rparr>"
      by (rule write_bytes_Ok [OF _ w]) (use sl lc big sc' in simp)
    with sl hp lc hc big keep show ?thesis by (simp add: sc' subrange_blit_other)
  qed
  from with_store_Ok [OF ws] have init: "init_volume L 1 (slot_store_new k c 0 n 0 True sd) = (Ok (), st)"
    and se: "se = sys.truncate st" by auto
  have vol: "volume_ok (slot_store_new k c 0 n 0 True sd)"
    using sz vals(1) sd by (simp add: volume_ok_def)
  have pre: "length (cached_merkle_root (slot_store_new k c 0 n 0 True sd)) = 32"
    "generation (slot_store_new k c 0 n 0 True sd) < 2 ^ 64" "1 \<in> pool_owned (slot_store_new k c 0 n 0 True sd)"
    using sz(2) by (simp_all add: pool_owned_def)
  obtain st2 where st2: "store_inv st2" "save_free_list L st2 = (Ok (), st)"
    "same_volume (slot_store_new k c 0 n 0 True sd\<lparr>free_list := free_list st2\<rparr>) st2"
    "free_set st2 = pool_owned (slot_store_new k c 0 n 0 True sd) - {1}"
    "fst (read_node L 1 st) = Ok empty_dir"
    "\<forall>a b. outside_volume (slot_store_new k c 0 n 0 True sd) a b \<longrightarrow>
       subrange a b (sys_file st) = subrange a b (sys_file (slot_store_new k c 0 n 0 True sd))"
    by (rule init_volume_Ok [OF laws(1,3) vol pre init]) (rule that)
  have out: "subrange a b (sys_file st) = subrange a b (sys_file sd)" if "b \<le> 1200" for a b
    by (rule st2(6) [rule_format, simplified]) (use that big sd in \<open>simp add: outside_volume_def DATA_AREA_OFFSET_eq\<close>)
  have s': "s' = (sys.truncate st)\<lparr>sys_rollback :=
      Some ((entries (rollback_load st))(hex_encode L cid \<mapsto> generation st))\<rparr>"
    using s'0 by (simp add: rollback_update_eq se current_generation_def rollback_load_def)
  show thesis
  proof (rule that [OF st2(1,2) _ _ st2(5) s' cont])
    show "free_set st2 = {0..<n} - {0, 1}" using st2(4) by (auto simp: pool_owned_def)
    show "decode_header L (subrange 0 512 (sys_file s')) k c False = Ok ?pl"
      using out [of 512 0] sd dec by (simp add: s')
    show "pw \<noteq> [] \<Longrightarrow> made_for_password L (subrange 1024 1200 (sys_file s')) pw k"
      using out [of 1200 1024] sd by (simp add: s')
    show "length (sys_file s') = length (sys_file s)"
      using sd same_volume_fields(10) [OF st2(3)]
        same_volume_fields(10) [OF save_free_list_inv [OF st2(1,2), THEN conjunct2]]
      by (simp add: s')
    show "same_volume (slot_store_new k c 0 n 0 True s\<lparr>sys_file := sys_file st2, free_list := free_list st2\<rparr>) st2"
      using st2(3) sd by (simp add: same_volume_def slot_store_new_def sys.defs slot_store.defs)
  qed
qed

section \<open>Create, then open\<close>

text \<open>The outer-only run: the plan, the random file and the two random strings.\<close>

lemma create_outer_only_Ok:
  assumes "tot < 2 ^ 64" "create L path pw tot c prof label None s = (Ok cont, s')"
  obtains n k cid s0 where "16 \<le> n" "n = (tot - (DATA_AREA_OFFSET + 512)) div SLOT_SIZE"
    "length (sys_file s0) = DATA_AREA_OFFSET + n * SLOT_SIZE + 512" "length (sys_file s0) < 2 ^ 63"
    "k = map (rand_tape L) [sys_rng s0 - 48..<sys_rng s0 - 16]" "48 \<le> sys_rng s0"
    "length cid = 16" "sys_exists s0" "sys_clock s0 = sys_clock s"
    "cid = map (rand_tape L) [sys_rng s0 - 16..<sys_rng s0]"
    "create_outer L path pw c (kdf_id_of prof) label False n (length (sys_file s0)) (sys_clock s) k cid s0
       = (Ok cont, s')"
proof -
  from assms(2) have min: "MIN_SIZE \<le> tot" by (auto simp: create_def split: if_splits)
  obtain n where n: "plan_slots tot None = Ok (n, 0)" "16 \<le> n"
    "plan_file_size n 0 None = DATA_AREA_OFFSET + n * SLOT_SIZE + 512"
    by (rule plan_outer_only [OF min assms(1)])
  have n_eq: "n = (tot - (DATA_AREA_OFFSET + 512)) div SLOT_SIZE"
    using n(1) by (simp add: plan_slots_def tail_size_def Let_def)
  let ?fs = "DATA_AREA_OFFSET + n * SLOT_SIZE + 512"
  from assms(2) n obtain s1 s2 where cf: "create_file ?fs s = (Ok (), s1)"
    and fr: "fill_random L ?fs 0 s1 = (Ok (), s2)"
    and rest: "(let now = sys_clock s2; (k, s3) = new_k_master L s2; kid = kdf_id_of prof; (cid, s4) = fill_bytes L 16 s3
      in create_outer L path pw c kid label False n ?fs now k cid s4) = (Ok cont, s')"
    by (auto simp: create_def then_op_eq_Ok Let_def split_beta split: if_splits)
  from cf have s1: "s1 = s\<lparr>sys_file := replicate ?fs 0, sys_exists := True\<rparr>" and small: "?fs < 2 ^ 63"
    by (auto simp: create_file_def split: if_splits)
  have "length (sys_file s1) = ?fs" by (simp add: s1)
  from fill_random_Ok [OF _ this small, of 0 L] fr obtain r where
    s2: "s2 = s1\<lparr>sys_rng := r, sys_file := map (rand_tape L) [sys_rng s1..<sys_rng s1 + ?fs]\<rparr>"
    by auto
  define k where "k = fst (new_k_master L s2)"
  define s3 where "s3 = snd (new_k_master L s2)"
  define cid where "cid = fst (fill_bytes L 16 s3)"
  define s0 where "s0 = snd (fill_bytes L 16 s3)"
  have run: "create_outer L path pw c (kdf_id_of prof) label False n ?fs (sys_clock s2) k cid s0 = (Ok cont, s')"
    using rest by (simp add: Let_def split_beta k_def s3_def cid_def s0_def)
  have f0: "sys_file s0 = sys_file s2" "sys_exists s0 = sys_exists s2" "sys_clock s0 = sys_clock s2"
    by (simp_all add: s0_def s3_def fill_bytes_def new_k_master_def)
  have f2: "length (sys_file s2) = ?fs" "sys_exists s2" "sys_clock s2 = sys_clock s"
    by (simp_all add: s2 s1)
  have "length cid = 16" "48 \<le> sys_rng s0"
    "k = map (rand_tape L) [sys_rng s0 - 48..<sys_rng s0 - 16]"
    "cid = map (rand_tape L) [sys_rng s0 - 16..<sys_rng s0]"
    by (simp_all add: k_def cid_def s0_def s3_def new_k_master_def fill_bytes_def add.commute)
  then show thesis
    using run small f0 f2 n(2) n_eq by (intro that [of n s0 k cid]) simp_all
qed

lemma tried_slot_0:
  assumes "aead_ok L" "1200 \<le> length (sys_file s)" "holds_password L (subrange 1024 1200 (sys_file s)) pw k"
    and "pw_slot_clear L (subrange 1024 1200 (sys_file s)) pw" "0 < unat n"
  shows "try_pw_slots L pw n s = Ok (Some (k, Triple))"
proof -
  have "[0..<unat n] = 0 # [Suc 0..<unat n]" using assms(5) by (rule upt_conv_Cons)
  then show ?thesis
    using holds_password_try [OF assms(1,3,4)] assms(2)
    by (simp add: try_pw_slots_def read_pw_slot_raw_def pw_slot_offset_def pread_inside)
qed

lemma reopen_mount:
  assumes laws: "aead_ok L" and inv: "store_inv st2" and save: "save_free_list L st2 = (Ok (), st)"
    and zero: "cached_merkle_root st2 = ZERO_ROOT" and gen: "has_generation st2"
    and same: "length (sys_file s) = length (sys_file st)"
      "slot_image (alloc_slot st) (sys_file s) = slot_image (alloc_slot st) (sys_file st)"
    and cid: "hp_container_id meta \<noteq> ZERO_ID"
    and geo: "master_key st = k" "store_cipher st = hp_cipher meta" "slot_start st = a" "slot_limit st = b"
      "alloc_slot st = al" "has_generation st"
    and base: "sys_rollback s = Some m" "m (hex_encode L (hp_container_id meta)) = Some g"
      "g \<le> wrap64 (generation st2 + 1)"
  shows "mount_volume L path k meta h a b al s =
    Ok (slot_store.extend (loaded (free_list st2) (wrap64 (generation st2 + 1)) ZERO_ROOT
        (slot_store_new k (hp_cipher meta) a b al True s))
      (vnm_container.fields (hp_root_slot meta) h (hp_cipher meta) (hp_outer_slots meta)
        (if h then a else hp_outer_slots meta) (label_from (hp_label meta)) (hp_created_at meta) k path
        (hp_container_id meta)))"
proof -
  let ?t = "slot_store_new k (hp_cipher meta) a b al True s"
  have "reopens st ?t" using geo same by (simp add: reopens_def)
  from load_after_save [OF laws inv save this] zero gen
  have load: "load_free_list L ?t =
    (Ok (), loaded (free_list st2) (wrap64 (generation st2 + 1)) ZERO_ROOT ?t)"
    by simp
  have "rollback_check L (hp_container_id meta) (wrap64 (generation st2 + 1)) (rollback_load s) = Ok ()"
    using base by (simp add: rollback_check_Ok_iff rollback_load_def)
  then show ?thesis
    by (simp add: mount_volume_loaded [OF load _ cid] loaded_def)
qed

lemma extend_reopened:
  "slot_store.extend (st\<lparr>merkle_dirty := d\<rparr>) (vnm_container.fields r h c os ol lb now k p cid) =
   (slot_store.extend st (vnm_container.fields r h c os ol lb' now k p' cid))
     \<lparr>merkle_dirty := d, vc_label := lb, vc_path := p\<rparr>"
  by (simp add: slot_store.defs vnm_container.defs)

lemma outer_counts_password:
  assumes "1200 + 512 \<le> length (sys_file s)" "decode_header L (subrange 0 512 (sys_file s)) k c h = Ok m"
    and "hp_num_password_slots m \<noteq> 0"
  shows "fst (outer_counts s) = hp_num_password_slots m"
proof -
  have "subrange 0 512 (sys_file s) ! 66 = hp_num_password_slots m"
    using decode_header_plaintext [OF assms(2)] by simp
  then show ?thesis
    using assms(1,3)
    by (simp add: outer_counts_def read_512_at_def pread_inside read_header_plaintext_def Let_def del: nth_subrange)
qed

text \<open>
  Opening what was created, on a machine where the header and the recipient slots may have changed: the
  key is found somehow, and the header decodes to the same fields but for the recipient counts.
\<close>

definition without_counts :: "header_payload \<Rightarrow> header_payload" where
  "without_counts m = m\<lparr>hp_num_password_slots := 0, hp_num_key_slots := 0\<rparr>"

lemma without_counts_fields:
  assumes "without_counts m = without_counts m'"
  shows "hp_cipher m = hp_cipher m'" "hp_outer_slots m = hp_outer_slots m'" "hp_root_slot m = hp_root_slot m'"
    "hp_created_at m = hp_created_at m'" "hp_label m = hp_label m'" "hp_container_id m = hp_container_id m'"
  using assms by (simp_all add: without_counts_def) (metis header_payload.select_convs header_payload.surjective
      header_payload.update_convs)+

lemma extend_truncate: "sys.extend (sys.truncate c) (sys.more c) = c"
  by (simp add: sys.defs)

definition reopened_on :: "vnm_container \<Rightarrow> sys \<Rightarrow> bytes option \<Rightarrow> string \<Rightarrow> vnm_container" where
  "reopened_on cont t label path = (sys.extend t (sys.more cont))\<lparr>merkle_dirty := False, vc_label := label, vc_path := path\<rparr>"

lemma reopened_extend:
  "slot_store.extend (sys.extend t (sys.more (st\<lparr>merkle_dirty := False\<rparr>))) (vnm_container.fields r h c os ol lb' now k p' cid) =
   reopened_on (slot_store.extend (st\<lparr>sys_rollback := R\<rparr>) (vnm_container.fields r h c os ol lb now k p cid)) t lb' p'"
  by (cases st) (simp add: reopened_on_def slot_store.defs vnm_container.defs sys.defs)

lemma created_reopens:
  assumes laws: "aead_ok L" "kdf_ok L" "msgpack_ok L"
    and rng: "tot < 2 ^ 64" "sys_clock s < 2 ^ 64"
    and run: "create L path pw tot c prof label None s = (Ok cont, s')"
    and cid: "vc_container_id cont \<noteq> ZERO_ID"
  shows "length (vc_k_master cont) = 32" "sys_exists s'" "sys.truncate cont = s'"
    "\<exists>n. length (sys_file s') = DATA_AREA_OFFSET + n * SLOT_SIZE + 512 \<and> 16 \<le> n" "length (sys_file s') < 2 ^ 63"
    "vc_cipher cont = c" "vc_path cont = path"
    "\<exists>n. decode_header L (subrange 0 512 (sys_file s')) (vc_k_master cont) c False =
      Ok (outer_payload c (kdf_id_of prof) (pw \<noteq> []) n (sys_clock s) label (vc_container_id cont)) \<and>
      n < 2 ^ 64 \<and> length (vc_container_id cont) = 16"
    "pw \<noteq> [] \<Longrightarrow> made_for_password L (subrange 1024 1200 (sys_file s')) pw (vc_k_master cont)"
    "\<And>t cred x path' m m0. sys_exists t \<Longrightarrow> length (sys_file t) = length (sys_file s') \<Longrightarrow>
      slot_image 0 (sys_file t) = slot_image 0 (sys_file s') \<Longrightarrow> sys_rollback t = sys_rollback s' \<Longrightarrow>
      outer_key L cred t = Ok (Some (vc_k_master cont, x)) \<Longrightarrow>
      decode_header L (subrange 0 512 (sys_file t)) (vc_k_master cont) c False = Ok m \<Longrightarrow>
      header_clear L (subrange 0 512 (sys_file t)) (vc_k_master cont) c False \<Longrightarrow>
      decode_header L (subrange 0 512 (sys_file s')) (vc_k_master cont) c False = Ok m0 \<Longrightarrow>
      without_counts m = without_counts m0 \<Longrightarrow>
      open_container L path' cred t = Ok (reopened_on cont t (label_from (label_field label)) path')"
proof -
  obtain n k id s0 where n: "16 \<le> n" and len0: "length (sys_file s0) = DATA_AREA_OFFSET + n * SLOT_SIZE + 512"
    "length (sys_file s0) < 2 ^ 63" and kt: "k = map (rand_tape L) [sys_rng s0 - 48..<sys_rng s0 - 16]"
      "48 \<le> sys_rng s0" and il: "length id = 16" and ex: "sys_exists s0"
    and outer: "create_outer L path pw c (kdf_id_of prof) label False n (length (sys_file s0)) (sys_clock s) k id s0
       = (Ok cont, s')"
    by (rule create_outer_only_Ok [OF rng(1) run]) (rule that)
  have n2: "2 \<le> n" using n by simp
  have kl: "length k = 32" "length id = 16" using kt il by simp_all
  obtain st2 st where inv: "store_inv st2" and save: "save_free_list L st2 = (Ok (), st)"
    and sv: "same_volume (slot_store_new k c 0 n 0 True s0\<lparr>sys_file := sys_file st2, free_list := free_list st2\<rparr>) st2"
    and s': "s' = (sys.truncate st)\<lparr>sys_rollback := Some ((entries (rollback_load st))(hex_encode L id \<mapsto> generation st))\<rparr>"
    and cont: "cont = slot_store.extend (st\<lparr>sys_rollback := sys_rollback s'\<rparr>)
      (vnm_container.fields 1 False c n n label (sys_clock s) k path id)"
    and dec: "decode_header L (subrange 0 512 (sys_file s')) k c False =
      Ok (outer_payload c (kdf_id_of prof) (pw \<noteq> []) n (sys_clock s) label id)"
    and mp: "pw \<noteq> [] \<Longrightarrow> made_for_password L (subrange 1024 1200 (sys_file s')) pw k"
    and len': "length (sys_file s') = length (sys_file s0)"
    by (rule create_outer_Ok [OF laws len0(1) n2 len0(2) kl rng(2) outer]) (rule that, assumption+)
  let ?m = "outer_payload c (kdf_id_of prof) (pw \<noteq> []) n (sys_clock s) label id"
  note f2 = same_volume_fields [OF sv, simplified]
  note f = same_volume_fields [OF save_free_list_inv [OF inv save, THEN conjunct2], simplified]
  have ck: "vc_k_master cont = k" "vc_container_id cont = id" "vc_cipher cont = c" "vc_path cont = path"
    by (simp_all add: cont slot_store.defs vnm_container.defs)
  show "length (vc_k_master cont) = 32" "vc_cipher cont = c" "vc_path cont = path" by (simp_all add: ck kl)
  show "sys_exists s'" using f f2 ex by (simp add: s')
  show "sys.truncate cont = s'" by (simp add: cont s' slot_store.defs sys.defs)
  show "\<exists>n. length (sys_file s') = DATA_AREA_OFFSET + n * SLOT_SIZE + 512 \<and> 16 \<le> n" "length (sys_file s') < 2 ^ 63"
    using len' len0 n by auto
  have n64: "n < 2 ^ 64"
  proof -
    have "n \<le> n * SLOT_SIZE" by (simp add: SLOT_SIZE_def)
    with len0 have "n < 2 ^ 63" by linarith
    then show ?thesis by simp
  qed
  show "\<exists>n. decode_header L (subrange 0 512 (sys_file s')) (vc_k_master cont) c False =
      Ok (outer_payload c (kdf_id_of prof) (pw \<noteq> []) n (sys_clock s) label (vc_container_id cont)) \<and>
      n < 2 ^ 64 \<and> length (vc_container_id cont) = 16"
    using dec ck n64 kl by auto
  show "pw \<noteq> [] \<Longrightarrow> made_for_password L (subrange 1024 1200 (sys_file s')) pw (vc_k_master cont)"
    using mp ck by simp
  fix t :: sys and cred x path' m m0
  assume t: "sys_exists t" "length (sys_file t) = length (sys_file s')"
    "slot_image 0 (sys_file t) = slot_image 0 (sys_file s')" "sys_rollback t = sys_rollback s'"
    and key: "outer_key L cred t = Ok (Some (vc_k_master cont, x))"
    and dt: "decode_header L (subrange 0 512 (sys_file t)) (vc_k_master cont) c False = Ok m"
    and clear: "header_clear L (subrange 0 512 (sys_file t)) (vc_k_master cont) c False"
    and d0: "decode_header L (subrange 0 512 (sys_file s')) (vc_k_master cont) c False = Ok m0"
    and same: "without_counts m = without_counts m0"
  have "m0 = ?m" using d0 dec ck by simp
  note mf = without_counts_fields [OF same [unfolded this], unfolded outer_payload_def, simplified]
  have gen: "generation st = wrap64 (generation st2 + 1)" using f f2 by (simp add: bumped_def)
  have big: "1200 + 512 \<le> length (sys_file t)" using t(2) len' len0(1) by (simp add: DATA_AREA_OFFSET_eq)
  have "probe (\<lambda>c. decode_header L (subrange 0 512 (sys_file t)) k c False) ALL_CIPHERS = Ok (Some (m, c))"
    by (rule header_probe_finds [OF laws(1)]) (use big clear dt ck in simp_all)
  then have find: "find_header L k (0 # offs) t = Ok (Some m)" for offs
    using big by (simp add: read_512_at_def pread_inside)
  have base: "sys_rollback t = Some ((entries (rollback_load st))(hex_encode L id \<mapsto> generation st))"
    by (simp add: t s')
  have im: "length (sys_file t) = length (sys_file st)" "slot_image 0 (sys_file t) = slot_image 0 (sys_file st)"
    using t by (simp_all add: s')
  have mount: "mount_volume L path' k m False 0 n 0 t =
    Ok (slot_store.extend (loaded (free_list st2) (wrap64 (generation st2 + 1)) ZERO_ROOT
        (slot_store_new k (hp_cipher m) 0 n 0 True t))
      (vnm_container.fields (hp_root_slot m) False (hp_cipher m) (hp_outer_slots m)
        (hp_outer_slots m) (label_from (hp_label m)) (hp_created_at m) k path' (hp_container_id m)))"
    using reopen_mount [OF laws(1) inv save, of t m k 0 n 0 _ "generation st" path' False] f f2 cid ck base gen im mf
    by simp
  have more: "sys.more (st\<lparr>merkle_dirty := False\<rparr>) = slot_store.fields (master_key st) (store_cipher st) (slot_start st)
      (slot_limit st) (alloc_slot st) (free_list st) (generation st) (has_generation st) (cached_merkle_root st) False"
    by (cases st) (simp add: slot_store.defs)
  have "loaded (free_list st2) (wrap64 (generation st2 + 1)) ZERO_ROOT (slot_store_new k c 0 n 0 True t)
      = sys.extend t (sys.more (st\<lparr>merkle_dirty := False\<rparr>))"
    by (rule slot_store.equality)
      (use f f2 gen in \<open>simp_all add: loaded_def slot_store_new_def more sys.defs slot_store.defs\<close>)
  with mount have "mount_volume L path' k m False 0 n 0 t =
      Ok (reopened_on cont t (label_from (label_field label)) path')"
    by (simp only: cont mf reopened_extend [symmetric] One_nat_def)
  with t(1) key find ck mf show "open_container L path' cred t = Ok (reopened_on cont t (label_from (label_field label)) path')"
    by (simp add: open_container_def Let_def del: find_header.simps)
qed

lemma create_then_open:
  assumes laws: "aead_ok L" "kdf_ok L" "msgpack_ok L"
    and rng: "tot < 2 ^ 64" "sys_clock s < 2 ^ 64" and pw: "pw \<noteq> []"
    and run: "create L path pw tot c prof label None s = (Ok cont, s')"
    and cid: "vc_container_id cont \<noteq> ZERO_ID"
    and clear: "pw_slot_clear L (subrange 1024 1200 (sys_file s')) pw"
      "header_clear L (subrange 0 512 (sys_file s')) (vc_k_master cont) c False"
  shows "open_container L path' (Password pw) s' =
    Ok (cont\<lparr>merkle_dirty := False, vc_label := label_from (label_field label), vc_path := path'\<rparr>)"
proof -
  note cr = created_reopens [OF laws rng run cid]
  obtain n where dec: "decode_header L (subrange 0 512 (sys_file s')) (vc_k_master cont) c False =
      Ok (outer_payload c (kdf_id_of prof) (pw \<noteq> []) n (sys_clock s) label (vc_container_id cont))"
    using cr(8) by blast
  have big: "1200 + 512 \<le> length (sys_file s')" using cr(4) by (auto simp: DATA_AREA_OFFSET_eq)
  have "fst (outer_counts s') = 1"
    using outer_counts_password [OF big dec] pw by (simp add: outer_payload_def)
  moreover have "try_pw_slots L pw 1 s' = Ok (Some (vc_k_master cont, Triple))"
    using tried_slot_0 [OF laws(1) _ made_holds_password [OF laws(1,2) cr(1) cr(9) [OF pw]] clear(1), of 1] big by simp
  ultimately have "outer_key L (Password pw) s' = Ok (Some (vc_k_master cont, Triple))"
    by (simp add: outer_key_def split_beta)
  from cr(10) [OF cr(2) refl refl refl this dec clear(2) dec refl]
  show ?thesis using extend_truncate [of cont] cr(3) by (simp add: reopened_on_def)
qed

section \<open>When creation succeeds\<close>

text \<open>The allocation block of \<open>n\<close> slots fits one slot.\<close>

definition alloc_fits :: "cipher_algorithm \<Rightarrow> nat \<Rightarrow> bool" where
  "alloc_fits c n \<longleftrightarrow> 48 + (n + 7) div 8 + vnmb_overhead c + 4 \<le> SLOT_SIZE"

definition small_empty_dir :: "libs \<Rightarrow> bool" where
  "small_empty_dir L \<longleftrightarrow> (\<exists>data. msgpack_enc L empty_dir = Some data \<and> length data \<le> 1000)"

lemma init_volume_result:
  assumes laws: "aead_ok L" "hash_ok L" "small_empty_dir L" and vol: "volume_ok s"
    and "length (cached_merkle_root s) = 32" "generation s < 2 ^ 64" "has_generation s"
    and root: "root \<in> pool_owned s" and small: "slot_limit s - slot_start s < 2 ^ 32"
  shows "fst (init_volume L root s) =
    (if alloc_fits (store_cipher s) (slot_limit s - slot_start s) then Ok ()
     else Err (Serialization ''plaintext too large for one slot''))"
    and "sys_exists (snd (init_volume L root s)) = sys_exists s"
    and "length (sys_file (snd (init_volume L root s))) = length (sys_file s)"
proof -
  define s1 where "s1 = rebuild_free_list s\<lparr>free_list := filter (\<lambda>x. x \<noteq> root) (free_list (rebuild_free_list s))\<rparr>"
  have rb: "store_inv (rebuild_free_list s)" by (rule rebuild_inv [OF vol assms(5,6)])
  have "sorted_wrt (>) (filter (\<lambda>x. x \<noteq> root) (free_list (rebuild_free_list s)))"
    using rb by (intro sorted_wrt_filter) (simp add: store_inv_def free_ok_def)
  then have inv1: "store_inv s1"
    using rb unfolding s1_def by (intro store_inv_free_list) (auto simp: store_inv_def free_ok_def)
  have f1: "slot_limit s1 = slot_limit s" "slot_start s1 = slot_start s" "store_cipher s1 = store_cipher s"
    "alloc_slot s1 = alloc_slot s" "has_generation s1 = has_generation s"
    by (simp_all add: s1_def rebuild_free_list_def)
  have vol1: "volume_ok s1" using inv1 by (simp add: store_inv_def)
  have iv: "in_volume s1 root" using root by (auto simp: in_volume_def pool_owned_def f1)
  obtain data where data: "msgpack_enc L empty_dir = Some data" "length data \<le> 1000"
    using laws(3) by (auto simp: small_empty_dir_def)
  have fits: "length data + vnmb_overhead (store_cipher s1) + 4 \<le> SLOT_SIZE" "length data < 2 ^ 30"
    using data(2) vnmb_overhead_bounds(2) [of "store_cipher s1"] by (simp_all add: SLOT_SIZE_def)
  have "fst (store_write L root data s1) = Ok ()"
    using store_write_result [OF laws(1,2) vol1 _ fits(2), of root] fits(1) iv by (simp add: in_volume_def)
  then obtain s2 where u: "update_node L root empty_dir s1 = (Ok (), s2)"
    using data(1) by (simp add: update_node_def) (metis prod.collapse)
  note sv = update_node_same_volume [OF vol1 iv u]
  note f2 = same_volume_fields [OF sv]
  have inv2: "store_inv s2" using same_volume_inv [OF sv] inv1 by simp
  have eq: "init_volume L root s = save_free_list L s2"
    using u by (simp add: init_volume_def write_empty_dir_eq Let_def s1_def)
  then show "fst (init_volume L root s) =
    (if alloc_fits (store_cipher s) (slot_limit s - slot_start s) then Ok ()
     else Err (Serialization ''plaintext too large for one slot''))"
    using save_free_list_result [OF laws(1,2) inv2] small assms(7)
    by (simp add: f1 f2 alloc_fits_def alloc_prefix_len_def)
  have "same_volume (bumped s2) (snd (save_free_list L s2))"
    using save_free_list_inv [OF inv2] by (metis prod.collapse)
  from same_volume_fields(10,14) [OF this]
  show "sys_exists (snd (init_volume L root s)) = sys_exists s"
    "length (sys_file (snd (init_volume L root s))) = length (sys_file s)"
    using f2 by (simp_all add: eq s1_def rebuild_free_list_def)
qed

lemma create_outer_result:
  assumes laws: "aead_ok L" "hash_ok L" "kdf_ok L" "small_empty_dir L"
    and sz: "length (sys_file s) = DATA_AREA_OFFSET + n * SLOT_SIZE + 512" "2 \<le> n" "n < 2 ^ 32"
    and vals: "length k = 32" "length cid = 16" "now < 2 ^ 64" "length pw < 2 ^ 32"
  shows "if alloc_fits c n
    then \<exists>cont s'. create_outer L path pw c kid label False n (length (sys_file s)) now k cid s = (Ok cont, s')
    else \<exists>s'. create_outer L path pw c kid label False n (length (sys_file s)) now k cid s =
      (Err (Serialization ''plaintext too large for one slot''), s') \<and>
      sys_exists s' = sys_exists s \<and> length (sys_file s') = length (sys_file s)"
proof -
  let ?pl = "outer_payload c kid (pw \<noteq> []) n now label cid" and ?fs = "length (sys_file s)"
  have fs: "1200 + 512 \<le> ?fs" "?fs < 2 ^ 63"
    using sz by (simp_all add: DATA_AREA_OFFSET_eq SLOT_SIZE_def)
  have pok: "payload_ok ?pl" by (rule outer_payload_ok) (use sz(3) vals in simp_all)
  obtain hdr where hdr: "encode_header L ?pl k False s =
      (Ok hdr, s\<lparr>sys_rng := sys_rng s + 64 + nonce_section_len (hp_cipher ?pl)\<rparr>)" and hl: "length hdr = 512"
    by (rule encode_header_total [OF laws(1,2) pok vals(1)])
  let ?sa = "s\<lparr>sys_rng := sys_rng s + 64 + nonce_section_len (hp_cipher ?pl)\<rparr>"
  define sb where "sb = ?sa\<lparr>sys_file := blit 0 hdr (sys_file ?sa)\<rparr>"
  define sc where "sc = sb\<lparr>sys_file := blit (?fs - 512) hdr (sys_file sb)\<rparr>"
  have wb: "write_bytes_at 0 hdr ?sa = (Ok (), sb)"
    unfolding sb_def by (rule write_bytes_inside) (use hl fs in simp_all)
  have lb: "length (sys_file sb) = ?fs" using hl fs by (simp add: sb_def)
  have wc: "write_bytes_at (?fs - 512) hdr sb = (Ok (), sc)"
    unfolding sc_def by (rule write_bytes_inside) (use hl fs lb in simp_all)
  have lc: "length (sys_file sc) = ?fs" using hl fs lb by (simp add: sc_def)
  obtain sd where wd: "(if pw \<noteq> [] then then_op (encode_password_slot L k pw kid) (write_recipient_slot 0)
      else return_op (Ok ())) sc = (Ok (), sd)" and ld: "length (sys_file sd) = ?fs" "sys_exists sd = sys_exists s"
  proof (cases "pw = []")
    case True
    then show ?thesis using that lc by (simp add: sc_def sb_def)
  next
    case False
    obtain slot sc' where e: "encode_password_slot L k pw kid sc = (Ok slot, sc')"
      by (rule encode_password_slot_total [OF laws(1,2,3) vals(1,4)])
    obtain r' where sc': "sc' = sc\<lparr>sys_rng := r'\<rparr>" by (rule encode_password_slot_state [OF e])
    have sl: "length slot = 176"
      by (rule encode_password_slot_Ok [OF laws(1,3) vals(1) e]) simp
    have "write_recipient_slot 0 slot sc' = (Ok (), sc'\<lparr>sys_file := blit 1024 slot (sys_file sc')\<rparr>)"
      unfolding write_recipient_slot_def
      by (subst write_bytes_inside) (use sl lc fs in \<open>simp_all add: sc' pw_slot_offset_def\<close>)
    then show ?thesis
      using False e sl lc fs
      by (intro that [of "sc'\<lparr>sys_file := blit 1024 slot (sys_file sc')\<rparr>"]) (simp_all add: sc' sc_def sb_def)
  qed
  let ?st = "slot_store_new k c 0 n 0 True sd"
  have vol: "volume_ok ?st" using sz(1,2) fs vals(1) ld by (simp add: volume_ok_def)
  have res: "fst (init_volume L 1 ?st) =
    (if alloc_fits c n then Ok () else Err (Serialization ''plaintext too large for one slot''))"
    and same: "sys_exists (snd (init_volume L 1 ?st)) = sys_exists s"
      "length (sys_file (snd (init_volume L 1 ?st))) = ?fs"
    using init_volume_result [OF laws(1,2,4) vol, of 1] sz(2,3) ld by (simp_all add: pool_owned_def)
  obtain r st where i: "init_volume L 1 ?st = (r, st)" by fastforce
  note steps = create_outer_def Let_def hdr wb wc wd
  show ?thesis
    using i res same by (auto simp: steps with_store_def rollback_update_eq)
qed

lemma create_result:
  assumes laws: "aead_ok L" "hash_ok L" "kdf_ok L" "small_empty_dir L"
    and free: "\<not> sys_exists s" and rng: "MIN_SIZE \<le> tot" "tot < 2 ^ 47" "length pw < 2 ^ 32" "sys_clock s < 2 ^ 64"
  shows "if alloc_fits c ((tot - (DATA_AREA_OFFSET + 512)) div SLOT_SIZE)
    then \<exists>cont s'. create L path pw tot c prof label None s = (Ok cont, s')
    else \<exists>s'. create L path pw tot c prof label None s =
      (Err (Serialization ''plaintext too large for one slot''), s') \<and> sys_exists s' \<and>
      length (sys_file s') = DATA_AREA_OFFSET + (tot - (DATA_AREA_OFFSET + 512)) div SLOT_SIZE * SLOT_SIZE + 512"
proof -
  have t64: "tot < 2 ^ 64" using rng(2) by simp
  obtain n where n: "plan_slots tot None = Ok (n, 0)" "16 \<le> n"
    "plan_file_size n 0 None = DATA_AREA_OFFSET + n * SLOT_SIZE + 512"
    "DATA_AREA_OFFSET + n * SLOT_SIZE + 512 \<le> tot"
    by (rule plan_outer_only [OF rng(1) t64])
  have n_eq: "n = (tot - (DATA_AREA_OFFSET + 512)) div SLOT_SIZE"
    using n(1) by (simp add: plan_slots_def tail_size_def Let_def)
  let ?fs = "DATA_AREA_OFFSET + n * SLOT_SIZE + 512"
  have fs: "?fs < 2 ^ 63" "n < 2 ^ 32" using n(4) rng(2) by (simp_all add: SLOT_SIZE_def)
  define s1 where "s1 = s\<lparr>sys_file := replicate ?fs 0, sys_exists := True\<rparr>"
  have cf: "create_file ?fs s = (Ok (), s1)" using fs by (simp add: create_file_def s1_def)
  have "length (sys_file s1) = ?fs" by (simp add: s1_def)
  from fill_random_Ok [OF _ this fs(1), of 0 L] obtain s2 where fr: "fill_random L ?fs 0 s1 = (Ok (), s2)"
    and f2: "length (sys_file s2) = ?fs" "sys_clock s2 = sys_clock s" "sys_exists s2"
    by (auto simp: s1_def)
  define k where "k = fst (new_k_master L s2)"
  define s3 where "s3 = snd (new_k_master L s2)"
  define cid where "cid = fst (fill_bytes L 16 s3)"
  define s0 where "s0 = snd (fill_bytes L 16 s3)"
  have f0: "length (sys_file s0) = ?fs" "length k = 32" "length cid = 16" "sys_exists s0"
    using f2 by (simp_all add: s0_def s3_def fill_bytes_def new_k_master_def k_def cid_def)
  have eq: "create L path pw tot c prof label None s =
      create_outer L path pw c (kdf_id_of prof) label False n (length (sys_file s0)) (sys_clock s) k cid s0"
    using free rng(1) cf fr n(1,3) f0(1) f2(2)
    by (simp add: create_def Let_def split_beta k_def s3_def cid_def s0_def)
  have "if alloc_fits c n
    then \<exists>cont s'. create L path pw tot c prof label None s = (Ok cont, s')
    else \<exists>s'. create L path pw tot c prof label None s = (Err (Serialization ''plaintext too large for one slot''), s') \<and>
      sys_exists s' = sys_exists s0 \<and> length (sys_file s') = length (sys_file s0)"
    unfolding eq by (rule create_outer_result [OF laws]) (use f0 n(2) fs rng(3,4) in simp_all)
  then show ?thesis unfolding n_eq [symmetric] using f0(1,4) by (simp split: if_splits)
qed

end
