(* ===== verification/Format_Properties.thy ===== *)
theory Format_Properties
  imports Container_Create
begin

text \<open>
  The properties of the encrypted formats: VNMB blocks, recipient slots, the hybrid key
  encapsulation, container headers and the Merkle root, each with a concrete instance.
\<close>

section \<open>Demonstration values\<close>

definition demo_sys :: sys where
  "demo_sys = \<lparr>sys_file = [], sys_exists = False, sys_rng = 0, sys_clock = 1700000000, sys_rollback = None\<rparr>"

definition demo_key :: bytes where
  "demo_key = map of_nat [0..<32]"

lemma length_demo_key [simp]: "length demo_key = 32"
  by (simp add: demo_key_def)

definition demo_keypair :: hybrid_private_key where
  "demo_keypair = fst (hybrid_generate demo_libs demo_sys)"

lemma demo_keypair_ok: "keypair_ok demo_libs demo_keypair"
  unfolding demo_keypair_def by (rule hybrid_generate_keypair)

text \<open>
  The demonstration tags are sixteen equal bytes, so a block whose tag position holds two
  different neighbours is refused; the probes of a password slot that come before
  \<open>Triple\<close> look at such positions.
\<close>

lemma demo_into_32_tag:
  assumes "c \<noteq> Triple" "decrypt_block_into_32 demo_libs k c a d = Ok p"
  shows "d ! (length d - 16) = d ! (length d - 15)"
proof -
  from assms(2) have dec: "decrypt_single demo_libs k c a d = Ok p" and l: "length p = 32"
    using assms(1) by (simp_all add: decrypt_into_32_Ok_iff decrypt_block_cases)
  obtain alg where len: "8 + nonce_section_len c + 16 \<le> length d" and
    op: "aead_open demo_libs alg k (subrange 8 (8 + nonce_section_len c) d) a
       (subrange (8 + nonce_section_len c) (length d - 16) d) (drop (length d - 16) d) = Some p"
    by (rule decrypt_single_Ok [OF dec])
  then have "drop (length d - 16) d = demo_tag alg k a"
    by (simp add: demo_libs_def demo_open_def split: if_splits)
  then have "drop (length d - 16) d ! 0 = drop (length d - 16) d ! 1" by (simp add: demo_tag_def)
  moreover have "Suc (length d - 16) = length d - 15" using len by simp
  ultimately show ?thesis using len by simp
qed

lemma of_nat_Suc_neq: "(of_nat (Suc m) :: byte) \<noteq> of_nat m"
  by simp

lemma demo_pw_slot_clear:
  assumes "encode_password_slot demo_libs k pw prof s = (Ok slot, s')" "length k = 32" "k ! 1 \<noteq> k ! 2"
  shows "pw_slot_clear demo_libs slot pw"
proof -
  obtain key enc buf s1 where enc: "encrypt_block demo_libs key Triple AAD_PW k s1 = (Ok enc, s')"
    and copy: "copy_into 33 enc buf = (Ok slot :: bytes result)" and lb: "length buf = 176"
    using assms(1)
    by (auto simp: encode_password_slot_def then_op_eq_Ok Let_def split_beta split: option.splits)
  have le: "length enc = 143" using encrypt_block_length [OF _ enc] assms(2) by simp
  with copy lb have slot: "slot = blit 33 enc buf" by (simp add: copy_into_def)
  then have ls: "length slot = 176" using le lb by simp
  have sl: "slot ! (33 + i) = enc ! i" if "i < 143" for i
    using that le lb by (simp add: slot nth_blit)
  from enc have "encrypt_triple demo_libs key AAD_PW k s1 = (Ok enc, s')" by (simp add: encrypt_block_def)
  then obtain n1 n2 n3 l1 l2 l3 where n: "length n1 = 24" "length n2 = 15" "length n3 = 16"
    and seal: "seal_layer demo_libs XChaCha20 (tk1 (derive_triple_keys demo_libs key)) n1 AAD_PW k = Ok l1"
      "seal_layer demo_libs Deoxys (tk2 (derive_triple_keys demo_libs key)) n2 AAD_PW l1 = Ok l2"
      "seal_layer demo_libs SerpentEax (tk3 (derive_triple_keys demo_libs key)) n3 AAD_PW l2 = Ok l3"
    and b: "enc = VNMB_MAGIC @ to_le 4 VNMB_VERSION @ n1 @ n2 @ n3 @ l3"
    and n3: "n3 = map (rand_tape demo_libs) [sys_rng s1 + 39..<sys_rng s1 + 55]"
    by (rule encrypt_triple_Ok)
  from seal obtain t1 t2 t3 where l3: "l3 = ((k @ t1) @ t2) @ t3"
    by (auto simp: seal_layer_def demo_libs_def demo_seal_def)
  have e1: "enc ! 64 = k ! 1" "enc ! 65 = k ! 2"
    using n assms(2) by (simp_all add: b l3 nth_append)
  have e2: "enc ! 55 = of_nat (sys_rng s1 + 47)" "enc ! 56 = of_nat (sys_rng s1 + 48)"
    "enc ! 57 = of_nat (sys_rng s1 + 49)"
    using n by (simp_all add: b nth_append) (simp_all add: n3 demo_libs_def)
  have "open_pw_slot_with demo_libs slot key' d \<noteq> Ok k'" if "d \<in> set (tried_before Triple)" for key' d k'
  proof
    assume ok: "open_pw_slot_with demo_libs slot key' d = Ok k'"
    from that have d: "d = XChaCha20Poly1305 \<or> d = DeoxysII256 \<or> d = Serpent256"
      by (auto simp: tried_before_def ALL_CIPHERS_def)
    let ?b = "subrange 33 (33 + vnmb_enc_32 d) slot"
    have "?b ! (length ?b - 16) = ?b ! (length ?b - 15)"
      by (rule demo_into_32_tag [of d _ _ _ k'])
        (use d ok in \<open>auto simp: open_pw_slot_with_def Let_def\<close>)
    with d ls sl [of 64] sl [of 65] sl [of 55] sl [of 56] sl [of 57] e1 e2 assms(3)
      of_nat_Suc_neq [of "sys_rng s1 + 47"] of_nat_Suc_neq [of "sys_rng s1 + 48"]
    show False by (auto simp: vnmb_enc_32_def)
  qed
  then show ?thesis by (auto simp: pw_slot_clear_def)
qed

section \<open>VNMB blocks\<close>

text \<open>C7: Encrypting any non-empty payload below 1 GiB under a 32-byte key succeeds for every cipher, touches
nothing but the random source, adds exactly \<open>vnmb_overhead\<close> bytes, and decrypts to the payload.\<close>

theorem block_roundtrip:
  assumes "libs_ok L" "length key = 32" "p \<noteq> []" "length p < 2 ^ 30"
  shows "\<exists>b. encrypt_block L key c aad p s = (Ok b, s\<lparr>sys_rng := sys_rng s + nonce_section_len c\<rparr>) \<and>
    length b = vnmb_overhead c + length p \<and> decrypt_block L key c aad b = Ok p"
proof -
  note L = libs_okD(1,2) [OF assms(1)]
  obtain b where b: "encrypt_block L key c aad p s = (Ok b, s\<lparr>sys_rng := sys_rng s + nonce_section_len c\<rparr>)"
    by (rule encrypt_block_total [OF L assms(2,4)])
  with encrypt_block_length [OF L(1) b] decrypt_encrypt_block [OF L(1) b] assms(3) show ?thesis
    by auto
qed

theorem block_roundtrip_witness:
  "\<exists>b. encrypt_block demo_libs demo_key Triple [9] [1, 2, 3] demo_sys =
      (Ok b, demo_sys\<lparr>sys_rng := sys_rng demo_sys + nonce_section_len Triple\<rparr>) \<and>
    length b = vnmb_overhead Triple + length [1 :: byte, 2, 3] \<and> decrypt_block demo_libs demo_key Triple [9] b = Ok [1, 2, 3]"
  by (rule block_roundtrip) simp_all

text \<open>Decrypting arbitrary bytes with any cipher never panics, and a block that is accepted is exactly
the overhead longer than the text it yields.\<close>

theorem decrypt_block_safe:
  assumes "libs_ok L"
  shows "decrypt_block L key c aad d \<noteq> Panic x \<and> decrypt_block_into_32 L key c aad d \<noteq> Panic x \<and>
    (\<forall>p. decrypt_block L key c aad d = Ok p \<longrightarrow> length d = vnmb_overhead c + length p)"
  using decrypt_block_no_panic decrypt_into_32_no_panic decrypt_block_length libs_okD(1) [OF assms] by blast

theorem decrypt_block_safe_witness:
  "decrypt_block demo_libs demo_key DeoxysII256 [] [1, 2] \<noteq> Panic ''x'' \<and>
   decrypt_block_into_32 demo_libs demo_key DeoxysII256 [] [1, 2] \<noteq> Panic ''x''"
  using decrypt_block_safe [of demo_libs demo_key DeoxysII256 "[]" "[1, 2]" "''x''"] by simp

text \<open>The in-place variant that decrypts into a 32-byte buffer accepts exactly the blocks the general
routine decrypts to 32 bytes, with the same bytes.\<close>

theorem decrypt_into_32_agrees:
  assumes "libs_ok L"
  shows "decrypt_block_into_32 L key c aad d = Ok p \<longleftrightarrow> decrypt_block L key c aad d = Ok p \<and> length p = 32"
  by (rule decrypt_into_32_Ok_iff [OF libs_okD(1) [OF assms]])

theorem decrypt_into_32_agrees_witness:
  "decrypt_block_into_32 demo_libs demo_key Serpent256 [] [] = Ok [0] \<longleftrightarrow>
   decrypt_block demo_libs demo_key Serpent256 [] [] = Ok [0] \<and> length [0 :: byte] = 32"
  by (rule decrypt_into_32_agrees) simp

text \<open>The triple cascade seals an empty payload but never opens the block again: its minimum length check
asks for at least one byte of plaintext.\<close>

theorem triple_empty_refused:
  assumes "libs_ok L" "encrypt_block L key Triple aad [] s = (Ok b, s')"
  shows "length b = 111 \<and> decrypt_block L key Triple aad b = Err AuthenticationFailed"
  using encrypt_block_length [OF libs_okD(1) [OF assms(1)] assms(2)]
  by (simp add: decrypt_block_def decrypt_triple_def)

theorem triple_empty_refused_witness:
  "\<exists>b s'. encrypt_block demo_libs demo_key Triple [] [] demo_sys = (Ok b, s') \<and>
     length b = 111 \<and> decrypt_block demo_libs demo_key Triple [] b = Err AuthenticationFailed"
proof -
  obtain b s' where b: "encrypt_block demo_libs demo_key Triple [] [] demo_sys = (Ok b, s')"
    by (rule encrypt_block_total [of demo_libs demo_key "[]" Triple "[]" demo_sys]) auto
  from triple_empty_refused [OF _ b] b show ?thesis by auto
qed

section \<open>Recipient slots\<close>

text \<open>Hybrid encapsulation to the public key of a generated key pair succeeds, and decapsulation with the
private key recovers the same 32-byte secret from the two transmitted values.\<close>

theorem hybrid_kem_roundtrip:
  assumes "libs_ok L" "keypair_ok L key"
  shows "\<exists>hc s'. hybrid_encapsulate L (hybrid_public key) s = (Ok hc, s') \<and>
    length (shared_secret hc) = 32 \<and>
    hybrid_decapsulate L key (x25519_eph_pk hc) (mlkem_ct hc) = Ok (shared_secret hc)"
proof -
  note L = libs_okD(4,2) [OF assms(1)]
  obtain hc s' where hc: "hybrid_encapsulate L (hybrid_public key) s = (Ok hc, s')"
    by (rule hybrid_encapsulate_total [OF L(1) assms(2)])
  with hybrid_encapsulate_Ok [OF L assms(2) hc] show ?thesis by blast
qed

theorem hybrid_kem_roundtrip_witness:
  "\<exists>hc s'. hybrid_encapsulate demo_libs (hybrid_public demo_keypair) demo_sys = (Ok hc, s') \<and>
    length (shared_secret hc) = 32 \<and>
    hybrid_decapsulate demo_libs demo_keypair (x25519_eph_pk hc) (mlkem_ct hc) = Ok (shared_secret hc)"
  by (rule hybrid_kem_roundtrip) (simp_all add: demo_keypair_ok)

text \<open>A password slot is 176 bytes and the right password recovers the master key from it, unless one of
the ciphers probed earlier accepts the slot's bytes.\<close>

theorem password_slot_roundtrip:
  assumes "libs_ok L" "length k_master = 32" "length pw < 2 ^ 32"
  shows "\<exists>slot s'. encode_password_slot L k_master pw prof s = (Ok slot, s') \<and> length slot = PW_SLOT_SIZE \<and>
    (pw_slot_clear L slot pw \<longrightarrow> try_password_slot L slot pw = Ok (Some (k_master, Triple)))"
proof -
  note L = libs_okD [OF assms(1)]
  obtain slot s' where e: "encode_password_slot L k_master pw prof s = (Ok slot, s')"
    by (rule encode_password_slot_total [OF L(1,2,3) assms(2,3)])
  then have "holds_password L slot pw k_master"
    by (rule encode_password_slot_Ok [OF L(1,3) assms(2)]) (auto simp: holds_password_def)
  with e holds_password_try [OF L(1)] show ?thesis
    by (auto simp: holds_password_def)
qed

theorem password_slot_roundtrip_witness:
  "\<exists>slot s'. encode_password_slot demo_libs demo_key [112, 119] 0 demo_sys = (Ok slot, s') \<and>
    length slot = PW_SLOT_SIZE \<and> try_password_slot demo_libs slot [112, 119] = Ok (Some (demo_key, Triple))"
proof -
  obtain slot s' where e: "encode_password_slot demo_libs demo_key [112, 119] 0 demo_sys = (Ok slot, s')"
    and len: "length slot = PW_SLOT_SIZE"
    and try_: "pw_slot_clear demo_libs slot [112, 119] \<longrightarrow>
      try_password_slot demo_libs slot [112, 119] = Ok (Some (demo_key, Triple))"
    using password_slot_roundtrip [OF demo_libs_ok length_demo_key, of "[112, 119]" 0 demo_sys] by auto
  have "demo_key ! 1 \<noteq> demo_key ! 2" by (simp add: demo_key_def)
  with demo_pw_slot_clear [OF e] e len try_ show ?thesis by simp
qed

text \<open>No cipher tried before the container's accepts the key slot.\<close>

definition key_slot_clear :: "libs \<Rightarrow> bytes \<Rightarrow> hybrid_private_key \<Rightarrow> cipher_algorithm \<Rightarrow> bool" where
  "key_slot_clear L slot key c \<longleftrightarrow> (\<forall>sh d k'. key_slot_secret L slot key = Ok (Some sh) \<longrightarrow>
     d \<in> set (tried_before c) \<longrightarrow> open_key_slot_with L slot sh d \<noteq> Ok k')"

text \<open>A key slot is 1743 bytes for every cipher and the private key recovers the master key from it, with
the container's cipher, unless a cipher probed earlier accepts the slot's bytes.\<close>

theorem key_slot_roundtrip:
  assumes "libs_ok L" "keypair_ok L key" "length k_master = 32"
    and "encode_key_slot L k_master (hybrid_public key) c s = (Ok slot, s')" "key_slot_clear L slot key c"
  shows "length slot = KEY_SLOT_SIZE \<and> try_key_slot L slot key = Ok (Some (k_master, c))"
proof -
  note L = libs_okD [OF assms(1)]
  obtain sh where sh: "key_slot_secret L slot key = Ok (Some sh)" "length slot = KEY_SLOT_SIZE"
    "open_key_slot_with L slot sh c = Ok k_master"
    by (rule encode_key_slot_Ok [OF L(1,4,2) assms(2,3,4)])
  have "try_key_slot L slot key = Ok (Some (k_master, c))"
    by (rule try_key_slot_finds [OF L(1) sh(1,3)]) (use assms(5) sh(1) in \<open>auto simp: key_slot_clear_def\<close>)
  with sh(2) show ?thesis by simp
qed

theorem key_slot_roundtrip_witness:
  "\<exists>slot s'. encode_key_slot demo_libs demo_key (hybrid_public demo_keypair) XChaCha20Poly1305 demo_sys = (Ok slot, s') \<and>
     length slot = KEY_SLOT_SIZE \<and> try_key_slot demo_libs slot demo_keypair = Ok (Some (demo_key, XChaCha20Poly1305))"
proof -
  obtain slot s' where e: "encode_key_slot demo_libs demo_key (hybrid_public demo_keypair) XChaCha20Poly1305 demo_sys
      = (Ok slot, s')"
    by (rule encode_key_slot_total [OF _ _ _ demo_keypair_ok, of demo_key]) simp_all
  have "key_slot_clear demo_libs slot demo_keypair XChaCha20Poly1305"
    by (simp add: key_slot_clear_def tried_before_def ALL_CIPHERS_def)
  from key_slot_roundtrip [OF _ demo_keypair_ok _ e this] e show ?thesis by auto
qed

section \<open>Headers\<close>

text \<open>C8: Encoding a header succeeds for every cipher, gives 512 bytes, and decoding it with the key, the cipher
and the volume kind gives back every field of the payload.\<close>

theorem header_roundtrip:
  assumes "libs_ok L" "payload_ok m" "length k = 32"
  shows "\<exists>raw s'. encode_header L m k h s = (Ok raw, s') \<and> length raw = HEADER_SIZE \<and>
    decode_header L raw k (hp_cipher m) h = Ok m \<and>
    read_header_plaintext raw = (hp_kdf_profile m, hp_num_password_slots m, hp_num_key_slots m)"
proof -
  note L = libs_okD [OF assms(1)]
  obtain raw where raw: "encode_header L m k h s =
    (Ok raw, s\<lparr>sys_rng := sys_rng s + 64 + nonce_section_len (hp_cipher m)\<rparr>)" and "length raw = 512"
    by (rule encode_header_total [OF L(1,2) assms(2,3)])
  moreover note dec = decode_encode_header [OF L(1) assms(2) raw]
  have "read_header_plaintext raw = (hp_kdf_profile m, hp_num_password_slots m, hp_num_key_slots m)"
    using decode_header_plaintext [OF dec] by (simp add: read_header_plaintext_def)
  ultimately show ?thesis using dec by auto
qed

definition demo_payload :: header_payload where
  "demo_payload = \<lparr>hp_cipher = DeoxysII256, hp_kdf_profile = 1, hp_num_password_slots = 1, hp_num_key_slots = 2,
     hp_outer_slots = 100, hp_hidden_start = 0, hp_root_slot = 1, hp_created_at = 1700000000,
     hp_label = replicate 64 0, hp_container_id = replicate 16 5\<rparr>"

theorem header_roundtrip_witness:
  "\<exists>raw s'. encode_header demo_libs demo_payload demo_key False demo_sys = (Ok raw, s') \<and> length raw = HEADER_SIZE \<and>
    decode_header demo_libs raw demo_key (hp_cipher demo_payload) False = Ok demo_payload \<and>
    read_header_plaintext raw = (hp_kdf_profile demo_payload, hp_num_password_slots demo_payload, hp_num_key_slots demo_payload)"
  by (rule header_roundtrip) (simp_all add: payload_ok_def demo_payload_def)

text \<open>C9: The 68 plaintext bytes of a header are not authenticated: whatever replaces the salt, the KDF profile
and the two slot counts, the header still decodes, to the same metadata with the replaced values.\<close>

theorem header_prefix_malleable:
  assumes "length raw = HEADER_SIZE" "length pre = 65"
  shows "decode_header L (pre @ [kp, np, nk] @ drop BODY_OFFSET raw) k c h =
    and_then (decode_header L raw k c h) (\<lambda>m. Ok (m\<lparr>hp_kdf_profile := kp,
      hp_num_password_slots := np, hp_num_key_slots := nk\<rparr>))"
  using decode_header_prefix [of raw pre] assms by simp

theorem header_prefix_malleable_witness:
  "decode_header demo_libs (replicate 65 9 @ [1, 200, 0] @ drop BODY_OFFSET (replicate 512 0)) demo_key Triple False =
    and_then (decode_header demo_libs (replicate 512 0) demo_key Triple False) (\<lambda>m. Ok (m\<lparr>hp_kdf_profile := 1,
      hp_num_password_slots := 200, hp_num_key_slots := 0\<rparr>))"
  by (rule header_prefix_malleable) simp_all

section \<open>Merkle root\<close>

text \<open>C10: The bottom-up loop that carries an odd node up computes the recursive tree hash of RFC 6962 over the
leaves of the used slots, and no used slot means the all-zero root.\<close>

theorem merkle_root_is_tree_hash:
  assumes "compute_merkle_root L slots s = (Ok r, s')"
  shows "s' = s \<and> r = (if slots = [] then replicate 32 0 else tree_hash L (file_leaves L slots (sys_file s)))"
proof (cases "slots = []")
  case True
  with assms show ?thesis by (simp add: compute_merkle_root_def)
next
  case False
  have "s' = s" using compute_merkle_root_state [of L slots s] assms by simp
  with False compute_merkle_root_eq [OF assms False] show ?thesis by (simp add: file_leaves_def)
qed

theorem merkle_root_is_tree_hash_witness:
  "\<exists>r. compute_merkle_root demo_libs [] demo_sys = (Ok r, demo_sys) \<and> r = replicate 32 0"
proof -
  have c: "compute_merkle_root demo_libs [] demo_sys = (Ok (replicate 32 0), demo_sys)"
    by (simp add: compute_merkle_root_def)
  from merkle_root_is_tree_hash [OF c] c show ?thesis by simp
qed

text \<open>Two files of which the same slots hash to the same root agree on each of those slots, unless the two
computations themselves contain two different messages with the same BLAKE3 digest.\<close>

theorem merkle_root_binds_slots:
  assumes "libs_ok L" "compute_merkle_root L slots s = (Ok r, s1)" "compute_merkle_root L slots t = (Ok r, t1)"
    and "slot \<in> set slots"
  shows "slot_image slot (sys_file s) = slot_image slot (sys_file t) \<or>
    root_collision L slots (sys_file s) (sys_file t)"
  using merkle_root_binds [OF libs_okD(2) [OF assms(1)] _ assms(2,3,4)] by blast

theorem merkle_root_binds_slots_witness:
  "slot_image 0 (sys_file (demo_sys\<lparr>sys_file := replicate 100000 7\<rparr>)) =
     slot_image 0 (sys_file (demo_sys\<lparr>sys_file := replicate 100000 7\<rparr>)) \<or>
   root_collision demo_libs [0] (sys_file (demo_sys\<lparr>sys_file := replicate 100000 7\<rparr>))
     (sys_file (demo_sys\<lparr>sys_file := replicate 100000 7\<rparr>))"
proof -
  obtain r where r: "compute_merkle_root demo_libs [0] (demo_sys\<lparr>sys_file := replicate 100000 7\<rparr>) =
      (Ok r, demo_sys\<lparr>sys_file := replicate 100000 7\<rparr>)"
    by (rule compute_merkle_root_total [of "[0]" "demo_sys\<lparr>sys_file := replicate 100000 7\<rparr>"])
      (simp_all add: slot_offset_def DATA_AREA_OFFSET_def SLOT_SIZE_def wrap64_def)
  show ?thesis by (rule merkle_root_binds_slots [OF demo_libs_ok r r]) simp
qed

end
