(* ===== verification/Store_Properties.thy ===== *)
theory Store_Properties
  imports Format_Properties
begin

text \<open>
  The properties of the block store (storage/slot_store.rs): slot I/O, allocation, the
  invariant, and what survives a save and a load. The instances run on a store of twenty
  slots over a file of random bytes.
\<close>

section \<open>A demonstration store\<close>

definition demo_store :: slot_store where
  "demo_store = rebuild_free_list (slot_store_new demo_key XChaCha20Poly1305 0 20 0 True
     (demo_sys\<lparr>sys_file := replicate (DATA_AREA_OFFSET + 20 * SLOT_SIZE + 512) 7, sys_exists := True\<rparr>))"

lemma demo_store_fields [simp]:
  "slot_start demo_store = 0" "slot_limit demo_store = 20" "alloc_slot demo_store = 0"
  "has_generation demo_store = True" "generation demo_store = 0" "store_cipher demo_store = XChaCha20Poly1305"
  "master_key demo_store = demo_key" "cached_merkle_root demo_store = ZERO_ROOT"
  "sys_file demo_store = replicate (DATA_AREA_OFFSET + 20 * SLOT_SIZE + 512) 7"
  by (simp_all add: demo_store_def rebuild_free_list_def)

lemma demo_volume: "volume_ok demo_store"
  by (simp add: volume_ok_def DATA_AREA_OFFSET_eq SLOT_SIZE_def)

lemma demo_free_set: "free_set demo_store = {1..<20}"
  by (simp add: demo_store_def rebuild_free_set) (auto simp: pool_owned_def)

lemma demo_store_inv: "store_inv demo_store"
  unfolding demo_store_def
  by (rule rebuild_inv) (simp_all add: volume_ok_def DATA_AREA_OFFSET_eq SLOT_SIZE_def)

lemma demo_write:
  assumes "slot < 20" "length p \<le> 1000"
  obtains s' where "store_write demo_libs slot p demo_store = (Ok (), s')"
proof -
  have "fst (store_write demo_libs slot p demo_store) = Ok ()"
    using store_write_result [OF _ _ demo_volume, of demo_libs slot p] assms by (simp add: SLOT_SIZE_def)
  then show thesis using that by (metis prod.collapse)
qed

section \<open>Slot I/O\<close>

text \<open>C1: A write of a non-empty payload to a slot of the volume succeeds exactly when payload, VNMB overhead
and the 4-byte length fit the 32 KB slot; then the payload is read back, every other slot reads as
before, and no byte outside the volume's slots changes.\<close>

theorem store_write_read:
  assumes "libs_ok L" "store_inv s" "in_volume s slot" "p \<noteq> []" "length p < 2 ^ 30"
  shows "\<exists>r s'. store_write L slot p s = (r, s') \<and> store_inv s' \<and>
    (r = Ok () \<longleftrightarrow> length p + vnmb_overhead (store_cipher s) + 4 \<le> SLOT_SIZE) \<and>
    (r = Ok () \<longrightarrow> fst (store_read L slot s') = Ok p) \<and>
    (\<forall>j. in_volume s j \<longrightarrow> j \<noteq> slot \<longrightarrow> fst (store_read L j s') = fst (store_read L j s)) \<and>
    (\<forall>a b. outside_volume s a b \<longrightarrow> subrange a b (sys_file s') = subrange a b (sys_file s))"
proof -
  note L = libs_okD [OF assms(1)]
  have vol: "volume_ok s" and dev: "device_inv L s" and lim: "slot < slot_limit s"
    using assms(2,3) L by (simp_all add: store_inv_def device_inv_def in_volume_def)
  obtain r s' where w: "store_write L slot p s = (r, s')" by fastforce
  have "fst (store_read L slot s') = Ok p" if "r = Ok ()"
    by (rule dev.read_same [OF dev assms(3)]) (use w that assms(4) in \<open>simp_all add: nonempty_payload_def\<close>)
  moreover have "fst (store_read L j s') = fst (store_read L j s)" if "in_volume s j" "j \<noteq> slot" for j
    by (rule dev.read_other [OF dev assms(3) that w])
  moreover have "store_inv s'" using dev.write_inv [OF dev assms(3) w] by (simp add: device_inv_def)
  moreover have "r = Ok () \<longleftrightarrow> length p + vnmb_overhead (store_cipher s) + 4 \<le> SLOT_SIZE"
    using store_write_result [OF L(1,2) vol lim assms(5)] w by (auto split: if_splits)
  ultimately show ?thesis using w store_write_outside [OF vol assms(3) _ w] by blast
qed

theorem store_write_read_witness:
  "\<exists>s'. store_write demo_libs 3 [1, 2] demo_store = (Ok (), s') \<and> store_inv s' \<and>
    fst (store_read demo_libs 3 s') = Ok [1, 2] \<and>
    fst (store_read demo_libs 4 s') = fst (store_read demo_libs 4 demo_store)"
  using store_write_read [OF demo_libs_ok demo_store_inv, of 3 "[1, 2]"]
  by (auto simp: in_volume_def SLOT_SIZE_def)

text \<open>Reading any slot of any file never panics and leaves the store as it is; what it accepts was sealed
under the key of that very slot: the same 32 KB image decrypts under the slot's derived key and index.\<close>

theorem store_read_safe:
  assumes "libs_ok L"
  shows "fst (store_read L slot s) \<noteq> Panic x \<and> snd (store_read L slot s) = s \<and>
    (\<forall>p. fst (store_read L slot s) = Ok p \<longrightarrow> (\<exists>len.
       len + 4 \<le> SLOT_SIZE \<and> len = vnmb_overhead (store_cipher s) + length p \<and>
       decrypt_block L (derive_slot_key L slot s) (store_cipher s) (to_le 8 slot)
         (subrange (slot_offset slot + 4) (slot_offset slot + 4 + len) (sys_file s)) = Ok p))"
proof -
  note L = libs_okD(1) [OF assms]
  have "\<exists>len. len + 4 \<le> SLOT_SIZE \<and> len = vnmb_overhead (store_cipher s) + length p \<and>
       decrypt_block L (derive_slot_key L slot s) (store_cipher s) (to_le 8 slot)
         (subrange (slot_offset slot + 4) (slot_offset slot + 4 + len) (sys_file s)) = Ok p"
    if "fst (store_read L slot s) = Ok p" for p
  proof -
    obtain rr where pr: "pread (slot_offset slot) SLOT_SIZE s = (rr, s)"
      using pread_same by (metis prod.collapse)
    from that pr obtain buf where rr: "rr = Ok buf"
      by (cases rr) (simp_all add: store_read_def)
    with that pr have rest: "(let len = from_le (subrange 0 4 buf)
         in if len < 36 \<or> SLOT_SIZE < 4 + len then Err (CorruptedSlot slot ''invalid length prefix'')
            else map_err (\<lambda>_. CorruptedSlot slot ''authentication failed'')
              (decrypt_block L (derive_slot_key L slot s) (store_cipher s) (to_le 8 slot) (subrange 4 (4 + len) buf))) = Ok p"
      by (simp add: store_read_def Let_def split: if_splits)
    have buf: "pread (slot_offset slot) SLOT_SIZE s = (Ok buf, s)" using pr rr by simp
    let ?len = "from_le (subrange 0 4 buf)"
    from rest have len: "?len + 4 \<le> SLOT_SIZE"
      and dec: "decrypt_block L (derive_slot_key L slot s) (store_cipher s) (to_le 8 slot) (subrange 4 (4 + ?len) buf) = Ok p"
      by (auto simp: Let_def split: if_splits)
    note b = pread_Ok_D [OF buf]
    have "subrange 4 (4 + n) buf = subrange (slot_offset slot + 4) (slot_offset slot + 4 + n) (sys_file s)"
      if "n + 4 \<le> SLOT_SIZE" for n
      using b that by (simp add: subrange_subrange add.assoc)
    from this [OF len] have
      "subrange 4 (4 + ?len) buf = subrange (slot_offset slot + 4) (slot_offset slot + 4 + ?len) (sys_file s)" .
    moreover have "length (subrange 4 (4 + n) buf) = n" if "n + 4 \<le> SLOT_SIZE" for n
      using conjunct1 [OF conjunct2 [OF b]] that by simp
    from this [OF len] have "length (subrange 4 (4 + ?len) buf) = ?len" .
    ultimately show ?thesis using dec decrypt_block_length [OF L dec] len by auto
  qed
  then show ?thesis using store_read_no_panic [OF L] by simp
qed

theorem store_read_safe_witness:
  "fst (store_read demo_libs 5 demo_store) \<noteq> Panic ''x'' \<and> snd (store_read demo_libs 5 demo_store) = demo_store"
  using store_read_safe [OF demo_libs_ok, of 5 demo_store "''x''"] by blast

section \<open>Allocation\<close>

text \<open>C4: Allocating \<open>n\<close> slots in a row hands out the \<open>n\<close> smallest free slots in ascending order, each once, all
of the volume and none the allocation block; it fails, with \<open>NoSpaceLeft\<close>, exactly when fewer than \<open>n\<close>
are free.\<close>

theorem alloc_many:
  assumes "store_inv s"
  shows "case take_all alloc n s of
      (Ok is, s') \<Rightarrow> n \<le> card (free_set s) \<and> store_inv s' \<and> length is = n \<and> sorted_wrt (<) is \<and>
        set is \<subseteq> pool_owned s \<and> free_set s' = free_set s - set is \<and> (\<forall>i \<in> set is. \<forall>j \<in> free_set s'. i < j)
    | (Err e, s') \<Rightarrow> e = NoSpaceLeft \<and> card (free_set s) < n
    | (Panic x, s') \<Rightarrow> False"
proof -
  obtain r s' where t: "take_all alloc n s = (r, s')" by fastforce
  show ?thesis
  proof (cases r)
    case (Ok "is")
    from pool.take_all_Ok [OF assms t [unfolded Ok]] have
      *: "store_inv s'" "length is = n" "set is \<subseteq> free_set s" "sorted_wrt (<) is"
        "free_set s' = free_set s - set is" "\<forall>i \<in> set is. \<forall>j \<in> free_set s'. i < j" by auto
    have "distinct is" using *(4) strict_sorted_iff by blast
    then have "n = card (set is)" using *(2) by (simp add: distinct_card)
    also have "\<dots> \<le> card (free_set s)"
      by (rule card_mono [OF pool.avail_finite [OF assms] *(3)])
    finally have "n \<le> card (free_set s)" .
    with * Ok t pool.avail_owned [OF assms] show ?thesis by auto
  next
    case (Err e)
    from pool.take_all_error [OF assms t] Err have "e = NoSpaceLeft" by simp
    moreover have "card (free_set s) < n"
      using pool.take_all_total [OF assms, of n] t Err by (metis leI outcome.distinct(1) prod.inject)
    ultimately show ?thesis using t Err by simp
  next
    case (Panic x)
    from pool.take_all_error [OF assms t] Panic show ?thesis by simp
  qed
qed

theorem alloc_many_witness:
  "\<exists>is s'. take_all alloc 3 demo_store = (Ok is, s') \<and> store_inv s' \<and> length is = 3 \<and> sorted_wrt (<) is"
  using alloc_many [OF demo_store_inv, of 3] demo_free_set
  by (auto split: prod.splits outcome.splits)

text \<open>C5: Freeing a slot in use overwrites it with random bytes, leaves the image of every other slot of the volume,
makes it free and keeps the store well formed; if the slot was handed out by the allocation just before, the free set
is again the one before that allocation.\<close>

theorem free_slot_correct:
  assumes "store_inv s" "slot \<in> pool_owned s" "slot \<notin> free_set s"
  shows "store_inv (free_slot L slot s) \<and> free_set (free_slot L slot s) = insert slot (free_set s) \<and>
    slot_image slot (sys_file (free_slot L slot s)) = map (rand_tape L) [sys_rng s..<sys_rng s + SLOT_SIZE] \<and>
    (\<forall>j. in_volume s j \<longrightarrow> j \<noteq> slot \<longrightarrow>
       slot_image j (sys_file (free_slot L slot s)) = slot_image j (sys_file s)) \<and>
    (\<forall>s0. store_inv s0 \<longrightarrow> alloc s0 = (Ok slot, s) \<longrightarrow> free_set (free_slot L slot s) = free_set s0)"
proof -
  have again: "free_set (free_slot L slot s) = free_set s0" if al: "store_inv s0" "alloc s0 = (Ok slot, s)" for s0
    using pool.take_D [OF al] free_slot_inv [OF assms, of L] by auto
  have vol: "volume_ok s" and lim: "slot < slot_limit s"
    using assms(1,2) by (auto simp: store_inv_def pool_owned_def)
  have f: "sys_file (free_slot L slot s) = blit (slot_offset slot)
      (map (rand_tape L) [sys_rng s..<sys_rng s + SLOT_SIZE]) (sys_file s)"
    by (simp add: free_slot_eq wipe_inside [OF vol lim] Let_def)
  show ?thesis
    unfolding f using free_slot_inv [OF assms, of L] slot_image_write_same [OF vol lim]
      slot_image_write_other [OF vol lim] again by (auto simp: in_volume_def)
qed

theorem free_slot_correct_witness:
  "\<exists>s. s = snd (alloc demo_store) \<and>
    store_inv (free_slot demo_libs 1 s) \<and> free_set (free_slot demo_libs 1 s) = free_set demo_store \<and>
    slot_image 1 (sys_file (free_slot demo_libs 1 s)) = map (rand_tape demo_libs) [sys_rng s..<sys_rng s + SLOT_SIZE]"
proof -
  have ne: "free_set demo_store \<noteq> {}" by (simp add: demo_free_set)
  have "Min {1..<20} = (1 :: nat)" by (rule Min_eqI) auto
  with pool.take_Ok [OF demo_store_inv ne] obtain s where s: "alloc demo_store = (Ok 1, s)" "store_inv s"
    "pool_owned s = pool_owned demo_store" "free_set s = free_set demo_store - {1}"
    by (auto simp: demo_free_set)
  have "1 \<in> pool_owned s" "1 \<notin> free_set s" by (simp_all add: s(3,4)) (simp add: pool_owned_def)
  note fr = free_slot_correct [OF s(2) this, of demo_libs]
  have "free_set (free_slot demo_libs 1 s) = free_set demo_store" using fr demo_store_inv s(1) by blast
  with fr s(1) show ?thesis by auto
qed

section \<open>Persistence\<close>

text \<open>Saving the allocation state succeeds exactly when the bitmap, its 48-byte prefix and the VNMB overhead
fit one slot, so volumes of more than about 261,000 slots (8.5 GB) cannot be saved at all; a failed
save has already advanced the in-memory generation.\<close>

theorem save_capacity:
  assumes "libs_ok L" "store_inv s" "has_generation s" "slot_limit s - slot_start s < 2 ^ 32"
  shows "\<exists>r s'. save_free_list L s = (r, s') \<and> store_inv s' \<and>
    generation s' = wrap64 (generation s + 1) \<and>
    (if alloc_fits (store_cipher s) (slot_limit s - slot_start s) then r = Ok ()
     else r = Err (Serialization ''plaintext too large for one slot''))"
proof -
  note L = libs_okD [OF assms(1)]
  obtain r s' where sv: "save_free_list L s = (r, s')" by fastforce
  note inv = save_free_list_inv [OF assms(2) sv]
  have "generation s' = wrap64 (generation s + 1)"
    using same_volume_fields(7) [OF conjunct2 [OF inv]] assms(3) by (simp add: bumped_def)
  with inv sv save_free_list_result [OF L(1,2) assms(2,4)] assms(3) show ?thesis
    by (simp add: alloc_fits_def alloc_prefix_len_def)
qed

lemma demo_save:
  obtains s' where "save_free_list demo_libs demo_store = (Ok (), s')"
proof -
  have "fst (save_free_list demo_libs demo_store) = Ok ()"
    using save_free_list_result [OF _ _ demo_store_inv, of demo_libs]
    by (simp add: SLOT_SIZE_def alloc_prefix_len_def)
  then show thesis using that by (metis prod.collapse)
qed

theorem save_capacity_witness:
  "\<exists>s'. save_free_list demo_libs demo_store = (Ok (), s') \<and> store_inv s' \<and> generation s' = wrap64 (generation demo_store + 1)"
  using save_capacity [OF demo_libs_ok demo_store_inv] by (auto simp: alloc_fits_def SLOT_SIZE_def)

text \<open>C2: A saved store reopens with the same free list, the next generation and the saved Merkle root, whatever
happened to the other slots in between; the load reports \<open>MerkleIntegrityFailure\<close> exactly when a root
was recorded and the used slots no longer hash to it.\<close>

theorem save_load:
  assumes "libs_ok L" "store_inv s" "has_generation s" "save_free_list L s = (Ok (), s')" "reopens s' t"
  shows "load_free_list L t =
    (if cached_merkle_root s \<noteq> ZERO_ROOT \<and>
        fst (compute_merkle_root L (used_slots s) t) \<noteq> Ok (cached_merkle_root s)
     then Err MerkleIntegrityFailure else Ok (),
     t\<lparr>generation := wrap64 (generation s + 1), cached_merkle_root := cached_merkle_root s,
       free_list := free_list s\<rparr>)"
  using load_after_save [OF libs_okD(1) [OF assms(1)] assms(2,4,5)] assms(3) by (simp add: loaded_def)

theorem save_load_witness:
  "\<exists>s'. save_free_list demo_libs demo_store = (Ok (), s') \<and>
    load_free_list demo_libs s' =
    (if cached_merkle_root demo_store \<noteq> ZERO_ROOT \<and>
        fst (compute_merkle_root demo_libs (used_slots demo_store) s') \<noteq> Ok (cached_merkle_root demo_store)
     then Err MerkleIntegrityFailure else Ok (),
     s'\<lparr>generation := wrap64 (generation demo_store + 1), cached_merkle_root := cached_merkle_root demo_store,
       free_list := free_list demo_store\<rparr>)"
proof -
  obtain s' where s': "save_free_list demo_libs demo_store = (Ok (), s')" by (rule demo_save)
  have "reopens s' s'" by (simp add: reopens_def)
  from save_load [OF demo_libs_ok demo_store_inv _ s' this] s' show ?thesis by simp
qed

text \<open>C3: Suppose the Merkle root of the used slots of a volume that keeps a generation has been computed, is not the all-zero root that stands for none,
and has been saved. If a store with the same key and geometry then loads a file whose allocation block is as saved but
in which a used slot has changed, the load fails with \<open>MerkleIntegrityFailure\<close>, unless the two root computations
exhibit a BLAKE3 collision. (A damaged allocation block is the case of C6.)\<close>

theorem tampering_detected:
  assumes "libs_ok L" "store_inv s" "has_generation s"
    and "update_merkle_root L s = (Ok (), s1)" "cached_merkle_root s1 \<noteq> ZERO_ROOT"
    and "save_free_list L s1 = (Ok (), s2)" "reopens s2 t"
    and "slot \<in> set (used_slots s)" "slot_image slot (sys_file t) \<noteq> slot_image slot (sys_file s)"
  shows "fst (load_free_list L t) = Err MerkleIntegrityFailure \<or>
    root_collision L (used_slots s) (sys_file s) (sys_file t)"
proof -
  note L = libs_okD [OF assms(1)]
  obtain root where u: "update_merkle_root L s = (Ok (), s\<lparr>cached_merkle_root := root, merkle_dirty := False\<rparr>)"
    "fst (compute_merkle_root L (used_slots s) s) = Ok root"
    "store_inv (s\<lparr>cached_merkle_root := root, merkle_dirty := False\<rparr>)"
    by (rule update_merkle_root_Ok [OF L(2) assms(2)])
  have s1: "s1 = s\<lparr>cached_merkle_root := root, merkle_dirty := False\<rparr>" using u(1) assms(4) by simp
  have us: "used_slots s1 = used_slots s" by (simp add: s1 used_slots_def)
  show ?thesis
  proof (cases "root_collision L (used_slots s) (sys_file s) (sys_file t)")
    case False
    have "fst (load_free_list L t) = Err MerkleIntegrityFailure"
      by (rule load_detects_change [OF L(1,2) _ _ assms(6,7), of slot])
        (use False u assms us in \<open>simp_all add: s1 compute_root_other_fields\<close>)
    then show ?thesis ..
  qed simp
qed

lemma subrange_replicate [simp]: "b \<le> n \<Longrightarrow> subrange a b (replicate n x) = replicate (b - a) x"
  by (simp add: subrange_def min_def)

lemma demo_image:
  assumes "slot < 20"
  shows "slot_image slot (sys_file demo_store) = replicate SLOT_SIZE 7"
  using slot_offset_inside(2) [OF demo_volume, of slot] assms by (simp add: slot_image_def)

lemma demo_alloc:
  obtains s where "alloc demo_store = (Ok 1, s)" "store_inv s" "used_slots s = [1]" "sys_file s = sys_file demo_store"
    "has_generation s" "alloc_slot s = 0" "slot_limit s = 20" "slot_start s = 0" "master_key s = demo_key"
    "store_cipher s = XChaCha20Poly1305"
proof -
  have ne: "free_set demo_store \<noteq> {}" by (simp add: demo_free_set)
  have "Min {1..<20} = (1 :: nat)" by (rule Min_eqI) auto
  with pool.take_Ok [OF demo_store_inv ne] obtain s where s: "alloc demo_store = (Ok 1, s)" "store_inv s"
    "free_set s = {1..<20} - {1}"
    by (auto simp: demo_free_set)
  have eq: "s = demo_store\<lparr>free_list := butlast (free_list demo_store)\<rparr>"
    using s(1) by (simp add: alloc_def split: if_splits)
  have "used_slots s = filter (\<lambda>x. x \<noteq> 0 \<and> x \<notin> {1..<20} - {1}) [0..<20]"
    using s(3) by (simp add: used_slots_def free_set_def eq)
  also have "\<dots> = [1]" by (simp add: upt_rec)
  finally show thesis using s by (intro that [of s]) (simp_all add: eq)
qed

theorem tampering_detected_witness:
  "\<exists>s s1 s2 (t :: slot_store). alloc demo_store = (Ok 1, s) \<and> update_merkle_root demo_libs s = (Ok (), s1) \<and>
    save_free_list demo_libs s1 = (Ok (), s2) \<and> sys_file t = blit (slot_offset 1) [0] (sys_file s2) \<and>
    (fst (load_free_list demo_libs t) = Err MerkleIntegrityFailure \<or>
     root_collision demo_libs (used_slots s) (sys_file s) (sys_file t))"
proof -
  obtain s where s: "alloc demo_store = (Ok 1, s)" "store_inv s" "used_slots s = [1]" "sys_file s = sys_file demo_store"
    "has_generation s" "alloc_slot s = 0" "slot_limit s = 20" "slot_start s = 0" "master_key s = demo_key"
    "store_cipher s = XChaCha20Poly1305"
    by (rule demo_alloc)
  obtain root where u: "update_merkle_root demo_libs s = (Ok (), s\<lparr>cached_merkle_root := root, merkle_dirty := False\<rparr>)"
    "fst (compute_merkle_root demo_libs (used_slots s) s) = Ok root"
    "store_inv (s\<lparr>cached_merkle_root := root, merkle_dirty := False\<rparr>)"
    by (rule update_merkle_root_Ok [OF demo_laws(2) s(2)]) (rule that)
  define s1 where "s1 = s\<lparr>cached_merkle_root := root, merkle_dirty := False\<rparr>"
  obtain sr where "compute_merkle_root demo_libs [1] s = (Ok root, sr)"
    using u(2) unfolding s(3) by (cases "compute_merkle_root demo_libs [1] s") simp
  from compute_merkle_root_eq [OF this] have "root = leaf_hash demo_libs 1 (slot_image 1 (sys_file s))"
    by simp
  then have "root ! 0 = (to_le 8 1 @ slot_image 1 (sys_file s) @ replicate 32 0) ! 0"
    by (simp add: leaf_hash_def demo_libs_def pad_to_def nth_append)
  also have "\<dots> = 1" using to_le.simps(2) [of 7 1] by simp
  finally have root: "root \<noteq> ZERO_ROOT" by (auto simp: ZERO_ROOT_def)
  have "fst (save_free_list demo_libs s1) = Ok ()"
    using save_free_list_result [OF _ _ u(3), of demo_libs] s(5,7,8,10)
    by (simp add: SLOT_SIZE_def alloc_prefix_len_def s1_def)
  then obtain s2 where sv: "save_free_list demo_libs s1 = (Ok (), s2)" by (metis prod.collapse)
  have inv2: "store_inv s2" and svol: "same_volume (bumped s1) s2"
    using save_free_list_inv [OF u(3) sv [unfolded s1_def]] by (simp_all add: s1_def)
  note f = same_volume_fields [OF svol, simplified]
  have vol2: "volume_ok s2" using inv2 by (simp add: store_inv_def)
  define t where "t = s2\<lparr>sys_file := blit (slot_offset 1) [0] (sys_file s2)\<rparr>"
  have lims: "1 < slot_limit s2" "0 < slot_limit s2" using f s(7) by (simp_all add: s1_def)
  have o1: "slot_offset 1 + 32768 \<le> length (sys_file s2)" and o0: "slot_offset 0 + 32768 \<le> length (sys_file s2)"
    using slot_offset_inside(2) [OF vol2 lims(1)] slot_offset_inside(2) [OF vol2 lims(2)] by (simp_all add: SLOT_SIZE_def)
  have dj: "slot_offset 0 + 32768 \<le> slot_offset 1"
    using slot_offset_inside(1) [OF vol2 lims(1)] slot_offset_inside(1) [OF vol2 lims(2)] by (simp add: SLOT_SIZE_def)
  have "slot_image 0 (sys_file t) = slot_image 0 (sys_file s2)"
    unfolding slot_image_def t_def by (simp add: SLOT_SIZE_def) (rule subrange_blit_other; use o1 o0 dj in simp)
  then have re: "reopens s2 t"
    using o1 f s(6) by (simp add: reopens_def t_def s1_def)
  have "slot_image 1 (sys_file t) ! 0 = 0"
    using o1 by (simp add: slot_image_def t_def SLOT_SIZE_def nth_blit)
  moreover have "slot_image 1 (sys_file s) ! 0 = 7"
    using demo_image [of 1] by (simp add: s(4) SLOT_SIZE_def)
  ultimately have neq: "slot_image 1 (sys_file t) \<noteq> slot_image 1 (sys_file s)" by auto
  have "fst (load_free_list demo_libs t) = Err MerkleIntegrityFailure \<or>
     root_collision demo_libs (used_slots s) (sys_file s) (sys_file t)"
    by (rule tampering_detected [OF demo_libs_ok s(2,5) u(1) _ sv [unfolded s1_def] re _ neq])
      (simp_all add: root s(3))
  moreover have "sys_file t = blit (slot_offset 1) [0] (sys_file s2)" by (simp add: t_def)
  ultimately show ?thesis using s(1) u(1) [folded s1_def] sv by blast
qed

text \<open>C6: An allocation block that cannot be read (wrong key, damaged length, failed authentication) is not
reported: in any volume with a slot besides it the load succeeds with every other slot free, and the next allocation
hands out the lowest of them. In an outer volume, whose first slot is the allocation block, that is the root directory's
slot; in a volume laid out as \<open>create\<close> does a hidden one, with the allocation block behind its first slot, it is that
first slot.\<close>

theorem unreadable_alloc_block:
  assumes "volume_ok s" "pool_owned s \<noteq> {}" "generation s < 2 ^ 64"
    and "length (cached_merkle_root s) = 32" "fst (store_read L (alloc_slot s) s) = Err e"
  shows "\<exists>s1 s2. load_free_list L s = (Ok (), s1) \<and> free_set s1 = pool_owned s \<and>
    alloc s1 = (Ok (Min (pool_owned s)), s2) \<and>
    (alloc_slot s \<noteq> slot_start s \<longrightarrow> Min (pool_owned s) = slot_start s) \<and>
    (slot_start s = 0 \<longrightarrow> alloc_slot s = 0 \<longrightarrow> Min (pool_owned s) = OUTER_ROOT_SLOT)"
proof -
  let ?s1 = "rebuild_free_list s"
  have inv: "store_inv ?s1" by (rule rebuild_inv [OF assms(1,4,3)])
  have ne: "free_set ?s1 \<noteq> {}" using assms(2) by (simp add: rebuild_free_set)
  have first: "Min (pool_owned s) = slot_start s" if "alloc_slot s \<noteq> slot_start s"
    by (rule Min_eqI) (use that volume_okD(1,2) [OF assms(1)] in \<open>auto simp: pool_owned_def\<close>)
  have root: "Min (pool_owned s) = slot_start s + 1" if "alloc_slot s = slot_start s"
  proof (rule Min_eqI)
    from that have own: "pool_owned s = {slot_start s + 1..<slot_limit s}" by (auto simp: pool_owned_def)
    then show "finite (pool_owned s)" by simp
    show "slot_start s + 1 \<le> y" if "y \<in> pool_owned s" for y using that own by simp
    show "slot_start s + 1 \<in> pool_owned s" using assms(2) own by auto
  qed
  from pool.take_Ok [OF inv ne] obtain s2 where "alloc ?s1 = (Ok (Min (pool_owned s)), s2)"
    by (auto simp: rebuild_free_set)
  with first root show ?thesis
    using load_unreadable [OF assms(5)] by (auto simp: rebuild_free_set)
qed

lemma demo_prefix: "from_le (replicate 4 7) = 117901063"
proof -
  have "replicate 4 (7 :: byte) = replicate (Suc (Suc (Suc (Suc 0)))) 7" by (rule arg_cong) simp
  also have "\<dots> = [7, 7, 7, 7]" by (simp only: replicate.simps)
  finally have "replicate 4 (7 :: byte) = [7, 7, 7, 7]" .
  then show ?thesis by simp
qed

theorem unreadable_alloc_block_witness:
  "\<exists>s1 s2. load_free_list demo_libs demo_store = (Ok (), s1) \<and> free_set s1 = pool_owned demo_store \<and>
    alloc s1 = (Ok OUTER_ROOT_SLOT, s2)"
proof -
  have "fst (store_read demo_libs 0 demo_store) = Err (CorruptedSlot 0 ''invalid length prefix'')"
    using store_read_inside [OF demo_volume, of 0] demo_image [of 0]
    by (simp add: decode_slot_def SLOT_SIZE_def demo_prefix)
  then have "fst (store_read demo_libs (alloc_slot demo_store) demo_store) =
      Err (CorruptedSlot 0 ''invalid length prefix'')" by simp
  moreover have "1 \<in> pool_owned demo_store" by (simp add: pool_owned_def)
  then have "pool_owned demo_store \<noteq> {}" by blast
  ultimately obtain s1 s2 where "load_free_list demo_libs demo_store = (Ok (), s1)" "free_set s1 = pool_owned demo_store"
    "alloc s1 = (Ok (Min (pool_owned demo_store)), s2)" "Min (pool_owned demo_store) = OUTER_ROOT_SLOT"
    using unreadable_alloc_block [OF demo_volume] by fastforce
  then show ?thesis by auto
qed

end
