(* ===== verification/Container_Recipients.thy ===== *)
theory Container_Recipients
  imports Container_Create
begin

text \<open>
  Recipients (fs/container.rs): what adding a key recipient writes, and that the key opens the container
  afterwards while its volume and the other recipients stay as they were.
\<close>

section \<open>Key slots\<close>

definition key_slot :: "nat \<Rightarrow> bytes \<Rightarrow> bytes" where
  "key_slot j f = subrange (key_slot_offset j) (key_slot_offset j + KEY_SLOT_SIZE) f"

definition holds_key :: "libs \<Rightarrow> bytes \<Rightarrow> hybrid_private_key \<Rightarrow> bytes \<Rightarrow> cipher_algorithm \<Rightarrow> bool" where
  "holds_key L slot key k c \<longleftrightarrow>
     (\<exists>sh. key_slot_secret L slot key = Ok (Some sh) \<and> open_key_slot_with L slot sh c = Ok k)"

text \<open>No cipher tried before \<open>c\<close> accepts the slot under the key.\<close>

definition key_slot_clear :: "libs \<Rightarrow> bytes \<Rightarrow> hybrid_private_key \<Rightarrow> cipher_algorithm \<Rightarrow> bool" where
  "key_slot_clear L slot key c \<longleftrightarrow> (\<forall>sh d k'. key_slot_secret L slot key = Ok (Some sh) \<longrightarrow>
     d \<in> set (tried_before c) \<longrightarrow> open_key_slot_with L slot sh d \<noteq> Ok k')"

lemma holds_key_try:
  assumes "aead_ok L" "holds_key L slot key k c" "key_slot_clear L slot key c"
  shows "try_key_slot L slot key = Ok (Some (k, c))"
proof -
  from assms(2) obtain sh where sh: "key_slot_secret L slot key = Ok (Some sh)" "open_key_slot_with L slot sh c = Ok k"
    by (auto simp: holds_key_def)
  show ?thesis
    by (rule try_key_slot_finds [OF assms(1) sh]) (use assms(3) sh(1) in \<open>auto simp: key_slot_clear_def\<close>)
qed

lemma key_slot_bounds:
  "j < 8 \<Longrightarrow> 2432 \<le> key_slot_offset j \<and> key_slot_offset j + KEY_SLOT_SIZE \<le> DATA_AREA_OFFSET"
  by (simp add: key_slot_offset_def DATA_AREA_OFFSET_def HEADER_REGION_SIZE_def RECIPIENT_AREA_SIZE_def)

lemma read_key_slot_inside:
  "j < 8 \<Longrightarrow> DATA_AREA_OFFSET \<le> length (sys_file s) \<Longrightarrow> fst (read_key_slot_raw j s) = Ok (key_slot j (sys_file s))"
  using key_slot_bounds [of j] unfolding read_key_slot_raw_def key_slot_def
  by (subst pread_inside) (simp_all add: DATA_AREA_OFFSET_eq)

text \<open>The first slot the key opens decides, when the ones before it do not open at all.\<close>

lemma try_key_slots_at:
  assumes "aead_ok L" "j < unat n" "unat n \<le> 8" "DATA_AREA_OFFSET \<le> length (sys_file s)"
    and "holds_key L (key_slot j (sys_file s)) key k c" "key_slot_clear L (key_slot j (sys_file s)) key c"
    and "\<forall>i < j. try_key_slot L (key_slot i (sys_file s)) key = Ok None"
  shows "try_key_slots L key n s = Ok (Some (k, c))"
proof -
  let ?f = "\<lambda>slot. try_key_slot L slot key" and ?rd = "\<lambda>i. fst (read_key_slot_raw i s)"
  have skip: "try_slots ?rd ?f (is @ js) = try_slots ?rd ?f js"
    if "\<forall>i \<in> set is. i < j" for "is" js
    using that
  proof (induction "is")
    case (Cons i "is")
    then have "?rd i = Ok (key_slot i (sys_file s))" using assms by (intro read_key_slot_inside) auto
    with Cons assms(7) show ?case by simp
  qed simp
  have "[0..<unat n] = [0..<j] @ j # [Suc j..<unat n]"
    using assms(2) upt_add_eq_append [of 0 j "unat n - j"] upt_conv_Cons [of j "unat n"] by simp
  moreover have "?rd j = Ok (key_slot j (sys_file s))" using assms by (intro read_key_slot_inside) auto
  ultimately show ?thesis
    using holds_key_try [OF assms(1,5,6)] by (simp add: try_key_slots_def skip)
qed

section \<open>Adding a key\<close>

lemma backup_offset_inside:
  "DATA_AREA_OFFSET + 512 \<le> n \<Longrightarrow> DATA_AREA_OFFSET \<le> backup_offset n \<and> backup_offset n + 512 \<le> n"
proof -
  assume n: "DATA_AREA_OFFSET + 512 \<le> n"
  show ?thesis
  proof (cases "(n - DATA_AREA_OFFSET) mod SLOT_SIZE = 1024")
    case True
    with mod_less_eq_dividend [of "n - DATA_AREA_OFFSET" SLOT_SIZE] have "1024 \<le> n - DATA_AREA_OFFSET" by linarith
    with n True show ?thesis by (simp add: backup_offset_def DATA_AREA_OFFSET_eq)
  next
    case False
    with n show ?thesis by (simp add: backup_offset_def DATA_AREA_OFFSET_eq)
  qed
qed

lemma decode_payload_ok:
  assumes "decode_header L raw k c h = Ok m"
  shows "payload_ok m"
proof -
  obtain body where b: "128 \<le> length body" "hp_outer_slots m = from_le (subrange 16 24 body)"
    "hp_hidden_start m = from_le (subrange 24 32 body)" "hp_root_slot m = from_le (subrange 32 40 body)"
    "hp_created_at m = from_le (subrange 40 48 body)" "hp_label m = subrange 48 112 body"
    "hp_container_id m = subrange 112 128 body"
    using assms by (auto simp: decode_header_def Let_def and_then_eq_Ok not_less split: if_splits)
  have "from_le bs < 2 ^ 64" if "length bs = 8" for bs using from_le_bound [of bs] that by simp
  with b show ?thesis by (simp add: payload_ok_def)
qed

lemma encode_key_slot_state:
  assumes "encode_key_slot L k pk c s = (Ok slot, s')"
  obtains r where "s' = s\<lparr>sys_rng := r\<rparr>"
proof -
  from assms obtain hc s1 enc where "hybrid_encapsulate L pk s = (Ok hc, s1)"
    and e: "encrypt_block L (shared_secret hc) c AAD_KEY k s1 = (Ok enc, s')"
    by (auto simp: encode_key_slot_def then_op_eq_Ok Let_def)
  from hybrid_encapsulate_frame [OF this(1)] encrypt_block_state [OF e] show thesis by (intro that) simp
qed

text \<open>
  The header and its backup gain one key, slot \<open>n\<close> of the key area holds the master key for the new
  recipient, and nothing else of the file changes below the backup header.
\<close>

lemma add_key_recipient_Ok:
  assumes laws: "aead_ok L" "kem_ok L" "hash_ok L" and key: "keypair_ok L key" "length (vc_k_master s) = 32"
    and len: "DATA_AREA_OFFSET + 512 \<le> length (sys_file s)"
    and dec: "decode_header L (subrange 0 512 (sys_file s)) (vc_k_master s) (vc_cipher s) False = Ok m"
    and n: "n = unat (hp_num_key_slots m)"
    and run: "add_key_recipient L (hybrid_public key) s = (Ok (), s')"
  obtains r f where "s' = s\<lparr>sys_rng := r, sys_file := f\<rparr>" "length f = length (sys_file s)" "n < 8"
    "decode_header L (subrange 0 512 f) (vc_k_master s) (vc_cipher s) False =
       Ok (m\<lparr>hp_num_key_slots := hp_num_key_slots m + 1\<rparr>)"
    "holds_key L (key_slot n f) key (vc_k_master s) (vc_cipher s)"
    "\<And>a b. 512 \<le> a \<Longrightarrow> b \<le> backup_offset (length f) \<Longrightarrow> b \<le> key_slot_offset n \<or> key_slot_offset n + KEY_SLOT_SIZE \<le> a \<Longrightarrow>
       subrange a b f = subrange a b (sys_file s)"
proof -
  let ?k = "vc_k_master s" and ?c = "vc_cipher s" and ?raw = "subrange 0 512 (sys_file s)"
  let ?m = "m\<lparr>hp_num_password_slots := ?raw ! 66, hp_num_key_slots := ?raw ! 67 + 1\<rparr>"
  let ?bo = "backup_offset (length (sys_file s))"
  have rd: "read_512_at 0 s = (Ok ?raw, s)"
    using len by (simp add: read_512_at_def pread_inside DATA_AREA_OFFSET_eq)
  note plain = decode_header_plaintext [OF dec]
  from run rd dec obtain slot s1 s2 s3 hdr s4 where n8: "unat (?raw ! 67) < 8"
    and es: "encode_key_slot L ?k (hybrid_public key) ?c s = (Ok slot, s1)"
    and w1: "write_bytes_at (key_slot_offset (unat (?raw ! 67))) slot s1 = (Ok (), s2)"
    and eh: "encode_header L ?m ?k False s2 = (Ok hdr, s3)"
    and w2: "write_bytes_at 0 hdr s3 = (Ok (), s4)"
    and w3: "write_bytes_at (backup_offset (length (sys_file s3))) hdr s4 = (Ok (), s')"
    by (auto simp: add_key_recipient_def read_header_plaintext_def Let_def then_op_eq_Ok write_key_slot_raw_def
        update_slot_counts_def simp del: nth_subrange split: if_splits)
  have nn: "unat (?raw ! 67) = n" using plain n by simp
  obtain sh where sh: "key_slot_secret L slot key = Ok (Some sh)" "length slot = KEY_SLOT_SIZE"
    "open_key_slot_with L slot sh ?c = Ok ?k"
    by (rule encode_key_slot_Ok [OF laws key es])
  obtain r1 where s1: "s1 = s\<lparr>sys_rng := r1\<rparr>" by (rule encode_key_slot_state [OF es])
  obtain r2 where s3: "s3 = s2\<lparr>sys_rng := r2\<rparr>" and hl: "length hdr = 512" by (rule encode_header_state [OF eh])
  have kb: "2432 \<le> key_slot_offset n" "key_slot_offset n + KEY_SLOT_SIZE \<le> DATA_AREA_OFFSET"
    using key_slot_bounds n8 nn by auto
  have bb: "DATA_AREA_OFFSET \<le> ?bo" "?bo + 512 \<le> length (sys_file s)"
    using backup_offset_inside [OF len] by auto
  define f1 where "f1 = blit (key_slot_offset n) slot (sys_file s)"
  define f2 where "f2 = blit 0 hdr f1"
  define f where "f = blit ?bo hdr f2"
  have l1: "length f1 = length (sys_file s)" "length f2 = length (sys_file s)" "length f = length (sys_file s)"
    using kb bb sh(2) hl len by (simp_all add: f1_def f2_def f_def)
  have s2: "s2 = s1\<lparr>sys_file := f1\<rparr>"
    using write_bytes_Ok [OF _ w1] kb bb sh(2) len nn by (simp add: s1 f1_def)
  have s4: "s4 = s3\<lparr>sys_file := f2\<rparr>"
    using write_bytes_Ok [OF _ w2] hl l1 bb by (simp add: s3 s2 f2_def)
  have s': "s' = s4\<lparr>sys_file := f\<rparr>"
    using write_bytes_Ok [OF _ w3] hl l1 bb by (simp add: s4 s3 s2 f_def)
  have h2: "subrange 0 512 f2 = hdr" using hl l1 bb by (simp add: f2_def)
  have hdr: "subrange 0 512 f = hdr"
    unfolding f_def using h2 l1 bb hl by (subst subrange_blit_other) (simp_all add: DATA_AREA_OFFSET_eq)
  have m: "?m = m\<lparr>hp_num_key_slots := hp_num_key_slots m + 1\<rparr>" using plain by simp
  have "payload_ok ?m" using decode_payload_ok [OF dec] by (simp add: payload_ok_def)
  from decode_encode_header [OF laws(1) this eh] plain
  have d: "decode_header L hdr ?k ?c False = Ok ?m" by simp
  have ks: "key_slot n f = slot"
  proof -
    have "key_slot n f = key_slot n f2"
      unfolding key_slot_def f_def using l1 kb bb hl by (intro subrange_blit_other) auto
    also have "\<dots> = key_slot n f1"
      unfolding key_slot_def f2_def using l1 kb bb hl by (intro subrange_blit_other) auto
    also have "\<dots> = slot" using kb bb sh(2) by (simp add: key_slot_def f1_def)
    finally show ?thesis .
  qed
  show thesis
  proof (rule that)
    show "s' = s\<lparr>sys_rng := r2, sys_file := f\<rparr>" by (simp add: s' s4 s3 s2 s1)
    show "length f = length (sys_file s)" "n < 8" using l1 n8 nn by simp_all
    show "decode_header L (subrange 0 512 f) ?k ?c False = Ok (m\<lparr>hp_num_key_slots := hp_num_key_slots m + 1\<rparr>)"
      using d by (simp only: hdr m)
    show "holds_key L (key_slot n f) key ?k ?c" using sh by (auto simp: holds_key_def ks)
    fix a b
    assume ab: "512 \<le> a" "b \<le> backup_offset (length f)" "b \<le> key_slot_offset n \<or> key_slot_offset n + KEY_SLOT_SIZE \<le> a"
    have "subrange a b f = subrange a b f2"
      unfolding f_def using ab(2) l1 bb hl by (intro subrange_blit_other) auto
    also have "\<dots> = subrange a b f1"
      unfolding f2_def using ab(1,2) l1 bb hl by (intro subrange_blit_other) auto
    also have "\<dots> = subrange a b (sys_file s)"
      unfolding f1_def using ab(2,3) l1 kb bb sh(2) by (intro subrange_blit_other) auto
    finally show "subrange a b f = subrange a b (sys_file s)" .
  qed
qed

text \<open>The file stays where it is.\<close>

lemma write_bytes_exists: "write_bytes_at off d s = (r, s') \<Longrightarrow> sys_exists s' = sys_exists s"
  by (auto simp: write_bytes_at_def pwrite_def split: if_splits)

lemma add_key_recipient_exists:
  assumes "add_key_recipient L pk s = (Ok (), s')"
  shows "sys_exists s' = sys_exists s"
proof -
  from assms obtain raw s0 slot c k m s1 s2 s3 s4 hdr j where "read_512_at 0 s = (Ok raw, s0)"
    "encode_key_slot L k pk c s0 = (Ok slot, s1)" "write_bytes_at (key_slot_offset j) slot s1 = (Ok (), s2)"
    "encode_header L m k False s2 = (Ok hdr, s3)" "write_bytes_at 0 hdr s3 = (Ok (), s4)"
    "write_bytes_at (backup_offset (length (sys_file s3))) hdr s4 = (Ok (), s')"
    unfolding add_key_recipient_def update_slot_counts_def write_key_slot_raw_def Let_def split_beta
    by (fastforce simp: then_op_eq_Ok split: if_splits)
  then show ?thesis
    by (elim encode_key_slot_state encode_header_state)
      (auto simp: read_512_at_def dest!: write_bytes_exists pread_same)
qed

text \<open>With room for another key it succeeds.\<close>

lemma add_key_recipient_total:
  assumes laws: "aead_ok L" "kem_ok L" "hash_ok L" and key: "keypair_ok L key" "length (vc_k_master s) = 32"
    and len: "DATA_AREA_OFFSET + 512 \<le> length (sys_file s)" "length (sys_file s) < 2 ^ 63"
    and dec: "decode_header L (subrange 0 512 (sys_file s)) (vc_k_master s) (vc_cipher s) False = Ok m"
    and room: "unat (hp_num_key_slots m) < 8"
  shows "\<exists>s'. add_key_recipient L (hybrid_public key) s = (Ok (), s')"
proof -
  let ?k = "vc_k_master s" and ?c = "vc_cipher s" and ?raw = "subrange 0 512 (sys_file s)"
  let ?m = "m\<lparr>hp_num_password_slots := ?raw ! 66, hp_num_key_slots := ?raw ! 67 + 1\<rparr>"
  have rd: "read_512_at 0 s = (Ok ?raw, s)"
    using len by (simp add: read_512_at_def pread_inside DATA_AREA_OFFSET_eq)
  note plain = decode_header_plaintext [OF dec]
  have n8: "unat (?raw ! 67) < 8" using plain room by simp
  have kb: "key_slot_offset (unat (?raw ! 67)) + KEY_SLOT_SIZE \<le> DATA_AREA_OFFSET" using key_slot_bounds [OF n8] by simp
  have bb: "backup_offset (length (sys_file s)) + 512 \<le> length (sys_file s)"
    using backup_offset_inside [OF len(1)] by auto
  obtain slot s1 where es: "encode_key_slot L ?k (hybrid_public key) ?c s = (Ok slot, s1)"
    by (rule encode_key_slot_total [OF laws(1,3,2) key])
  have sl: "length slot = KEY_SLOT_SIZE" by (rule encode_key_slot_Ok [OF laws key es])
  obtain r1 where s1: "s1 = s\<lparr>sys_rng := r1\<rparr>" by (rule encode_key_slot_state [OF es])
  let ?s2 = "s1\<lparr>sys_file := blit (key_slot_offset (unat (?raw ! 67))) slot (sys_file s1)\<rparr>"
  have w1: "write_bytes_at (key_slot_offset (unat (?raw ! 67))) slot s1 = (Ok (), ?s2)"
    using kb sl len by (intro write_bytes_inside) (simp_all add: s1)
  have "payload_ok ?m" using decode_payload_ok [OF dec] by (simp add: payload_ok_def)
  then obtain hdr s3 where eh: "encode_header L ?m ?k False ?s2 = (Ok hdr, s3)"
    using encode_header_total [OF laws(1,3) _ key(2), of ?m False ?s2] by blast
  obtain r3 where s3: "s3 = ?s2\<lparr>sys_rng := r3\<rparr>" and hl: "length hdr = 512" by (rule encode_header_state [OF eh])
  have l3: "length (sys_file s3) = length (sys_file s)" using kb sl len by (simp add: s3 s1)
  let ?s4 = "s3\<lparr>sys_file := blit 0 hdr (sys_file s3)\<rparr>"
  have w2: "write_bytes_at 0 hdr s3 = (Ok (), ?s4)"
    using l3 len hl by (intro write_bytes_inside) (simp_all add: DATA_AREA_OFFSET_eq)
  have w3: "\<exists>s5. write_bytes_at (backup_offset (length (sys_file s3))) hdr ?s4 = (Ok (), s5)"
    by (rule exI, rule write_bytes_inside) (use l3 bb len hl in \<open>simp_all add: DATA_AREA_OFFSET_eq\<close>)
  from rd dec n8 es w1 eh w2 w3 show ?thesis
    by (auto simp: add_key_recipient_def read_header_plaintext_def Let_def write_key_slot_raw_def
        update_slot_counts_def simp del: nth_subrange)
qed

section \<open>The key opens the container\<close>

lemma outer_counts_header:
  assumes "DATA_AREA_OFFSET \<le> length (sys_file s)" "decode_header L (subrange 0 512 (sys_file s)) k c h = Ok m"
    and "hp_num_key_slots m \<noteq> 0"
  shows "outer_counts s = (hp_num_password_slots m, hp_num_key_slots m)"
proof -
  have "subrange 0 512 (sys_file s) ! 66 = hp_num_password_slots m" "subrange 0 512 (sys_file s) ! 67 = hp_num_key_slots m"
    using decode_header_plaintext [OF assms(2)] by simp_all
  then show ?thesis
    using assms(1,3)
    by (simp add: outer_counts_def read_512_at_def pread_inside read_header_plaintext_def Let_def DATA_AREA_OFFSET_eq del: nth_subrange)
qed

text \<open>A new container to which a key was added: opening with the key, and with the password if there is one.\<close>

lemma added_key_opens:
  assumes laws: "aead_ok L" "kdf_ok L" "msgpack_ok L" "kem_ok L" "hash_ok L"
    and rng: "tot < 2 ^ 64" "sys_clock s < 2 ^ 64"
    and run: "create L path pw tot c prof label None s = (Ok cont, s')"
    and cid: "vc_container_id cont \<noteq> ZERO_ID" and key: "keypair_ok L key"
    and add: "add_key_recipient L (hybrid_public key) cont = (Ok (), cont')"
    and clear: "key_slot_clear L (key_slot 0 (sys_file cont')) key c"
      "header_clear L (subrange 0 512 (sys_file cont')) (vc_k_master cont) c False"
  shows "open_container L path' (PrivateKey key) (sys.truncate cont') =
      Ok (reopened_on cont (sys.truncate cont') (label_from (label_field label)) path')"
    and "pw \<noteq> [] \<Longrightarrow> pw_slot_clear L (subrange 1024 1200 (sys_file cont')) pw \<Longrightarrow>
      open_container L path' (Password pw) (sys.truncate cont') =
      Ok (reopened_on cont (sys.truncate cont') (label_from (label_field label)) path')"
proof -
  note cr = created_reopens [OF laws(1-3) rng run cid]
  let ?k = "vc_k_master cont" and ?t = "sys.truncate cont'"
  have fc: "sys_file cont = sys_file s'" "sys_exists cont" "sys_rollback cont = sys_rollback s'"
    using cr(2) unfolding cr(3) [symmetric] by (simp_all add: sys.defs)
  obtain n where dec: "decode_header L (subrange 0 512 (sys_file cont)) ?k (vc_cipher cont) False =
      Ok (outer_payload c (kdf_id_of prof) (pw \<noteq> []) n (sys_clock s) label (vc_container_id cont))"
    using cr(6,8) by (auto simp: fc)
  let ?old = "outer_payload c (kdf_id_of prof) (pw \<noteq> []) n (sys_clock s) label (vc_container_id cont)"
  obtain ns where ns: "length (sys_file s') = DATA_AREA_OFFSET + ns * SLOT_SIZE + 512" "16 \<le> ns" using cr(4) by blast
  have len: "DATA_AREA_OFFSET + 512 \<le> length (sys_file cont)" using ns by (simp add: fc)
  have bo: "backup_offset (length (sys_file cont)) = DATA_AREA_OFFSET + ns * SLOT_SIZE"
    using ns by (simp add: fc backup_offset_def SLOT_SIZE_def)
  obtain r f where c': "cont' = cont\<lparr>sys_rng := r, sys_file := f\<rparr>" and lf: "length f = length (sys_file cont)"
    and d: "decode_header L (subrange 0 512 f) ?k (vc_cipher cont) False = Ok (?old\<lparr>hp_num_key_slots := hp_num_key_slots ?old + 1\<rparr>)"
    and hk: "holds_key L (key_slot 0 f) key ?k (vc_cipher cont)"
    and keep: "\<And>a b. 512 \<le> a \<Longrightarrow> b \<le> backup_offset (length f) \<Longrightarrow> b \<le> key_slot_offset 0 \<or> key_slot_offset 0 + KEY_SLOT_SIZE \<le> a \<Longrightarrow>
       subrange a b f = subrange a b (sys_file cont)"
    by (rule add_key_recipient_Ok [OF laws(1,4,5) key cr(1) len dec _ add, of 0])
      (simp add: outer_payload_def, rule that)
  let ?new = "?old\<lparr>hp_num_key_slots := hp_num_key_slots ?old + 1\<rparr>"
  have k0: "2432 \<le> key_slot_offset 0" "key_slot_offset 0 + KEY_SLOT_SIZE \<le> DATA_AREA_OFFSET"
    using key_slot_bounds [of 0] by auto
  have t: "sys_file ?t = f" "sys_exists ?t" "sys_rollback ?t = sys_rollback s'" "sys_file cont' = f" using fc by (simp_all add: c' sys.defs)
  have dt: "decode_header L (subrange 0 512 (sys_file ?t)) ?k c False = Ok ?new" using d cr(6) by (simp only: t)
  have d0: "decode_header L (subrange 0 512 (sys_file s')) ?k c False = Ok ?old" using dec cr(6) by (simp only: fc)
  have im: "slot_image 0 (sys_file ?t) = slot_image 0 (sys_file s')"
  proof -
    have "SLOT_SIZE \<le> ns * SLOT_SIZE" using ns(2) by simp
    with keep [of "slot_offset 0" "slot_offset 0 + SLOT_SIZE"] k0 bo lf show ?thesis
      by (simp add: slot_image_def slot_offset_def t fc) (simp add: DATA_AREA_OFFSET_eq)
  qed
  have clr: "header_clear L (subrange 0 512 (sys_file ?t)) ?k c False" using clear(2) by (simp add: c' t)
  have lt: "length (sys_file ?t) = length (sys_file s')" "DATA_AREA_OFFSET \<le> length (sys_file ?t)"
    using lf len by (simp_all add: t fc)
  have same: "without_counts ?new = without_counts ?old" by (simp add: without_counts_def)
  have oc: "outer_counts ?t = (hp_num_password_slots ?new, 1)"
    using outer_counts_header [OF lt(2) dt] by (simp add: outer_payload_def)
  note reopen = cr(10) [OF t(2) lt(1) im t(3) _ dt clr d0 same]
  have "try_key_slots L key 1 ?t = Ok (Some (?k, c))"
    by (rule try_key_slots_at [OF laws(1), of 0]) (use lt hk clear(1) cr(6) in \<open>simp_all add: t c'\<close>)
  then show "open_container L path' (PrivateKey key) ?t = Ok (reopened_on cont ?t (label_from (label_field label)) path')"
    by (intro reopen) (simp add: outer_key_def oc)
  assume pw: "pw \<noteq> []" "pw_slot_clear L (subrange 1024 1200 (sys_file cont')) pw"
  have p: "subrange 1024 1200 (sys_file ?t) = subrange 1024 1200 (sys_file s')"
    using keep [of 1024 1200] k0 bo lf by (simp add: t fc DATA_AREA_OFFSET_eq)
  have "try_pw_slots L pw 1 ?t = Ok (Some (?k, Triple))"
  proof (rule tried_slot_0 [OF laws(1)])
    show "1200 \<le> length (sys_file ?t)" using lt(2) by (simp add: DATA_AREA_OFFSET_eq)
    show "holds_password L (subrange 1024 1200 (sys_file ?t)) pw ?k"
      unfolding p by (rule made_holds_password [OF laws(1,2) cr(1) cr(9) [OF pw(1)]])
    show "pw_slot_clear L (subrange 1024 1200 (sys_file ?t)) pw" using pw(2) by (simp add: t)
  qed simp
  then show "open_container L path' (Password pw) ?t = Ok (reopened_on cont ?t (label_from (label_field label)) path')"
    by (intro reopen) (simp add: outer_key_def oc pw(1) outer_payload_def)
qed

end
