(* ===== verification/Container_Properties.thy ===== *)
theory Container_Properties
  imports Store_Properties Container_Recipients
begin

text \<open>
  The properties of the container (fs/container.rs): the plan of its file, creation and
  opening, node I/O, flush and the protection against older copies.
\<close>

section \<open>Creation\<close>

text \<open>The slot counts chosen by \<open>create\<close> never overflow: header region, recipient area, the slots of both
volumes and the tail follow each other and fit the requested size, the outer volume has room for its
allocation block and root, and a hidden volume of at least two slots covers its requested size.\<close>

theorem create_layout:
  assumes "MIN_SIZE \<le> tot" "tot < 2 ^ 64" "plan_slots tot hidden = Ok (n, m)"
  shows "plan_file_size n m hidden = HEADER_REGION_SIZE + RECIPIENT_AREA_SIZE + (n + m) * SLOT_SIZE + tail_size hidden \<and>
    plan_file_size n m hidden \<le> tot \<and> 2 \<le> n \<and>
    (case hidden of None \<Rightarrow> m = 0
     | Some h \<Rightarrow> 2 \<le> m \<and> (ho_size_bytes h + SLOT_SIZE - 1 < 2 ^ 64 \<longrightarrow> ho_size_bytes h \<le> m * SLOT_SIZE))"
proof (cases hidden)
  case None
  obtain n' where "plan_slots tot None = Ok (n', 0)" "16 \<le> n'"
    "plan_file_size n' 0 None = DATA_AREA_OFFSET + n' * SLOT_SIZE + 512"
    "DATA_AREA_OFFSET + n' * SLOT_SIZE + 512 \<le> tot"
    by (rule plan_outer_only [OF assms(1,2)])
  with None assms(3) show ?thesis by (simp add: tail_size_def DATA_AREA_OFFSET_def)
next
  case (Some h)
  from plan_with_hidden [OF assms(3) [unfolded Some] assms(2)] show ?thesis
    by (simp add: Some tail_size_def DATA_AREA_OFFSET_def)
qed

theorem create_layout_witness:
  "plan_file_size 30 0 None = HEADER_REGION_SIZE + RECIPIENT_AREA_SIZE + (30 + 0) * SLOT_SIZE + tail_size None \<and>
    plan_file_size 30 0 None \<le> 1000000"
  using create_layout [of 1000000 None 30 0]
  by (simp add: plan_slots_def tail_size_def MIN_SIZE_def DATA_AREA_OFFSET_eq SLOT_SIZE_def)

text \<open>C11: On a free path a container without a hidden volume is created for every size from \<open>MIN_SIZE\<close> to 128 TiB
whose allocation block fits one slot; for larger ones the call fails and leaves behind a file of the full planned
length.\<close>

theorem create_succeeds:
  assumes "libs_ok L" "small_empty_dir L" "\<not> sys_exists s" "MIN_SIZE \<le> tot" "tot < 2 ^ 47"
    and "length pw < 2 ^ 32" "sys_clock s < 2 ^ 64"
  shows "if alloc_fits c ((tot - (DATA_AREA_OFFSET + 512)) div SLOT_SIZE)
    then \<exists>cont s'. create L path pw tot c prof label None s = (Ok cont, s')
    else \<exists>s'. create L path pw tot c prof label None s =
      (Err (Serialization ''plaintext too large for one slot''), s') \<and> sys_exists s' \<and>
      length (sys_file s') = DATA_AREA_OFFSET + (tot - (DATA_AREA_OFFSET + 512)) div SLOT_SIZE * SLOT_SIZE + 512"
  using create_result [OF libs_okD(1,2,3) [OF assms(1)] assms(2-7)] .

lemma demo_small_empty_dir: "small_empty_dir demo_libs"
  by (simp add: small_empty_dir_def empty_dir_def demo_libs_def put_list_def put_nat.simps)

lemma demo_create:
  obtains cont s' where
    "create demo_libs ''c.vnm'' [112, 119] 600000 XChaCha20Poly1305 ''interactive'' None None demo_sys = (Ok cont, s')"
proof -
  have "\<exists>cont s'. create demo_libs ''c.vnm'' [112, 119] 600000 XChaCha20Poly1305 ''interactive'' None None demo_sys = (Ok cont, s')"
    using create_result [OF demo_laws(1,2,3) demo_small_empty_dir, of demo_sys 600000 "[112, 119]" XChaCha20Poly1305 "''c.vnm''" "''interactive''" None]
    by (simp add: demo_sys_def MIN_SIZE_def DATA_AREA_OFFSET_eq SLOT_SIZE_def alloc_fits_def)
  then show thesis using that by blast
qed

theorem create_succeeds_witness:
  "\<exists>cont s'. create demo_libs ''c.vnm'' [112, 119] 600000 XChaCha20Poly1305 ''interactive'' None None demo_sys = (Ok cont, s')"
  using create_succeeds [OF demo_libs_ok demo_small_empty_dir, of demo_sys 600000 "[112, 119]" XChaCha20Poly1305 "''c.vnm''" "''interactive''" None]
  by (simp add: demo_sys_def MIN_SIZE_def DATA_AREA_OFFSET_eq SLOT_SIZE_def alloc_fits_def)

text \<open>C12: A container created with a password and without a hidden volume opens again with that password: the same master key, slots, root,
free list, generation and identifier, with nothing left to refresh and the label as stored in
64 bytes; provided its random identifier is not all zero and no cipher probed earlier accepts the password slot or the
header.\<close>

theorem create_then_open_same:
  assumes "libs_ok L" "tot < 2 ^ 64" "sys_clock s < 2 ^ 64" "pw \<noteq> []"
    and "create L path pw tot c prof label None s = (Ok cont, s')"
    and "vc_container_id cont \<noteq> ZERO_ID"
    and "pw_slot_clear L (subrange 1024 1200 (sys_file s')) pw"
    and "header_clear L (subrange 0 512 (sys_file s')) (vc_k_master cont) c False"
  shows "open_container L path' (Password pw) s' =
    Ok (cont\<lparr>merkle_dirty := False, vc_label := label_from (label_field label), vc_path := path'\<rparr>)"
  by (rule create_then_open [OF libs_okD(1,3,5) [OF assms(1)] assms(2-8)])

lemma demo_create_id:
  assumes "create demo_libs path pw tot c prof label None s = (Ok cont, s')" "tot < 2 ^ 64" "sys_clock s < 2 ^ 64"
  shows "vc_container_id cont \<noteq> ZERO_ID"
proof -
  obtain n k cid s0 where n: "16 \<le> n" and len0: "length (sys_file s0) = DATA_AREA_OFFSET + n * SLOT_SIZE + 512"
    "length (sys_file s0) < 2 ^ 63" and k: "k = map (rand_tape demo_libs) [sys_rng s0 - 48..<sys_rng s0 - 16]"
      "48 \<le> sys_rng s0" and cid: "length cid = 16" "cid = map (rand_tape demo_libs) [sys_rng s0 - 16..<sys_rng s0]"
    and outer: "create_outer demo_libs path pw c (kdf_id_of prof) label False n
       (length (sys_file s0)) (sys_clock s) k cid s0 = (Ok cont, s')"
    by (rule create_outer_only_Ok [OF assms(2,1)]) (rule that)
  have n2: "2 \<le> n" and kl: "length k = 32" using n k by simp_all
  obtain st where cont: "cont = slot_store.extend (st\<lparr>sys_rollback := sys_rollback s'\<rparr>)
      (vnm_container.fields 1 False c n n label (sys_clock s) k path cid)"
    by (rule create_outer_Ok [OF demo_laws(1,3,5) len0(1) n2 len0(2) kl cid(1) assms(3) outer]) (rule that, assumption+)
  have "cid ! 0 \<noteq> cid ! 1"
    using cid(2) k(2) of_nat_Suc_neq [of "sys_rng s0 - 16"] by (simp add: demo_libs_def)
  then have "cid \<noteq> ZERO_ID" by (auto simp: ZERO_ID_def)
  then show ?thesis by (simp add: cont slot_store.defs vnm_container.defs)
qed

lemma demo_create_clear:
  assumes "create demo_libs path pw tot XChaCha20Poly1305 prof label None s = (Ok cont, s')"
    and "tot < 2 ^ 64" "sys_clock s < 2 ^ 64" "pw \<noteq> []"
  shows "pw_slot_clear demo_libs (subrange 1024 1200 (sys_file s')) pw"
    "header_clear demo_libs (subrange 0 512 (sys_file s')) (vc_k_master cont) XChaCha20Poly1305 False"
proof -
  obtain n k cid s0 where n: "16 \<le> n" and len0: "length (sys_file s0) = DATA_AREA_OFFSET + n * SLOT_SIZE + 512"
    "length (sys_file s0) < 2 ^ 63" and k: "k = map (rand_tape demo_libs) [sys_rng s0 - 48..<sys_rng s0 - 16]"
      "48 \<le> sys_rng s0" and cid: "length cid = 16" "cid = map (rand_tape demo_libs) [sys_rng s0 - 16..<sys_rng s0]"
    and outer: "create_outer demo_libs path pw XChaCha20Poly1305 (kdf_id_of prof) label False n
       (length (sys_file s0)) (sys_clock s) k cid s0 = (Ok cont, s')"
    by (rule create_outer_only_Ok [OF assms(2,1)]) (rule that)
  have n2: "2 \<le> n" and kl: "length k = 32" using n k by simp_all
  have made: "pw \<noteq> [] \<Longrightarrow> made_for_password demo_libs (subrange 1024 1200 (sys_file s')) pw k"
    by (rule create_outer_Ok [OF demo_laws(1,3,5) len0(1) n2 len0(2) kl cid(1) assms(3) outer]) assumption
  have "k ! 1 = of_nat (Suc (sys_rng s0 - 48))" "k ! 2 = of_nat (Suc (Suc (sys_rng s0 - 48)))"
    using k by (simp_all add: demo_libs_def numeral_2_eq_2)
  then have "k ! 1 \<noteq> k ! 2" using of_nat_Suc_neq [of "Suc (sys_rng s0 - 48)"] by metis
  moreover from made assms(4) obtain prof' sx sy where
    "encode_password_slot demo_libs k pw prof' (sx :: sys) = (Ok (subrange 1024 1200 (sys_file s')), sy)"
    by (auto simp: made_for_password_def)
  ultimately show "pw_slot_clear demo_libs (subrange 1024 1200 (sys_file s')) pw"
    using demo_pw_slot_clear kl by blast
  show "header_clear demo_libs (subrange 0 512 (sys_file s')) (vc_k_master cont) XChaCha20Poly1305 False"
    by (simp add: header_clear_def tried_before_def ALL_CIPHERS_def)
qed

theorem create_then_open_same_witness:
  "\<exists>cont s'. create demo_libs ''c.vnm'' [112, 119] 600000 XChaCha20Poly1305 ''interactive'' None None demo_sys = (Ok cont, s') \<and>
    open_container demo_libs ''d.vnm'' (Password [112, 119]) s' =
      Ok (cont\<lparr>merkle_dirty := False, vc_label := label_from (label_field None), vc_path := ''d.vnm''\<rparr>)"
proof -
  obtain cont s' where c: "create demo_libs ''c.vnm'' [112, 119] 600000 XChaCha20Poly1305 ''interactive'' None None demo_sys = (Ok cont, s')"
    by (rule demo_create)
  have s: "(600000 :: nat) < 2 ^ 64" "sys_clock demo_sys < 2 ^ 64" "[112 :: byte, 119] \<noteq> []"
    by (simp_all add: demo_sys_def)
  from create_then_open_same [OF demo_libs_ok s c demo_create_id [OF c s(1,2)] demo_create_clear [OF c s]] c show ?thesis by blast
qed

section \<open>Recipients\<close>


text \<open>On the demonstration libraries a key can be added to every new container.\<close>

lemma demo_add_key:
  assumes "create demo_libs path pw tot c prof label None s = (Ok cont, s')" "tot < 2 ^ 64" "sys_clock s < 2 ^ 64"
    and "vc_container_id cont \<noteq> ZERO_ID"
  obtains cont' where "add_key_recipient demo_libs (hybrid_public demo_keypair) cont = (Ok (), cont')"
proof -
  note cr = created_reopens [OF demo_laws(1,3,5) assms(2,3,1,4)]
  have fc: "sys_file cont = sys_file s'" unfolding cr(3) [symmetric] by (simp add: sys.defs)
  obtain n where dec: "decode_header demo_libs (subrange 0 512 (sys_file cont)) (vc_k_master cont) (vc_cipher cont) False =
      Ok (outer_payload c (kdf_id_of prof) (pw \<noteq> []) n (sys_clock s) label (vc_container_id cont))"
    using cr(6,8) by (auto simp: fc)
  have "\<exists>cont'. add_key_recipient demo_libs (hybrid_public demo_keypair) cont = (Ok (), cont')"
    by (rule add_key_recipient_total [OF demo_laws(1,4,2) demo_keypair_ok cr(1) _ _ dec])
      (use cr(4,5) in \<open>auto simp: fc outer_payload_def\<close>)
  then show thesis using that by blast
qed


section \<open>Opening arbitrary files\<close>

text \<open>C15: Whatever bytes the container file holds, and whatever credential is offered, opening it returns a
container or an error and never panics.\<close>

theorem open_never_panics:
  assumes "libs_ok L"
  shows "open_container L path cred s \<noteq> Panic x"
  by (rule open_container_no_panic [OF libs_okD(1) [OF assms]])

theorem open_never_panics_witness:
  "open_container demo_libs ''c'' (Password [1]) (demo_sys\<lparr>sys_exists := True, sys_file := replicate 2000 255\<rparr>) \<noteq> Panic ''x''"
  by (rule open_never_panics) simp

section \<open>Nodes\<close>

text \<open>Writing a node takes the lowest free slot, after which the node reads back from it, every other slot of
the volume reads as before, and exactly that slot has left the free set; the container stays well
formed.\<close>

theorem write_node_correct:
  assumes "libs_ok L" "store_inv s" "write_node L n s = (Ok i, s')"
  shows "i = Min (free_set s) \<and> store_inv s' \<and> free_set s' = free_set s - {i} \<and> i \<in> pool_owned s \<and>
    fst (read_node L i s') = Ok n \<and>
    (\<forall>j. in_volume s j \<longrightarrow> j \<noteq> i \<longrightarrow> fst (read_node L j s') = fst (read_node L j s))"
proof -
  have "node_inv L s" using libs_okD(1,5) [OF assms(1)] assms(2) by (simp add: node_inv_def)
  from write_node_Ok [OF this assms(3)] pool.avail_owned [OF assms(2)] show ?thesis
    by (auto simp: node_inv_def)
qed

lemma demo_write_node:
  obtains i s' where "write_node demo_libs empty_dir demo_store = (Ok i, s')"
proof -
  have ne: "free_set demo_store \<noteq> {}" by (simp add: demo_free_set)
  from pool.take_Ok [OF demo_store_inv ne] obtain i s where a: "alloc demo_store = (Ok i, s)" "store_inv s"
    "pool_owned s = pool_owned demo_store" and i: "i = Min {1..<20}"
    by (auto simp: demo_free_set)
  have "i \<in> {1..<20}" unfolding i by (rule Min_in) auto
  then have lim: "i < slot_limit s" using a(1) by (auto simp: alloc_def split: if_splits)
  obtain data where d: "msgpack_enc demo_libs empty_dir = Some data" "length data \<le> 1000"
    using demo_small_empty_dir by (auto simp: small_empty_dir_def)
  have "fst (store_write demo_libs i data s) = Ok ()"
    using store_write_result [OF demo_laws(1,2) _ lim, of data] a(2) d(2) vnmb_overhead_bounds(2) [of "store_cipher s"]
    by (simp add: store_inv_def SLOT_SIZE_def)
  then obtain s2 where "store_write demo_libs i data s = (Ok (), s2)" by (metis prod.collapse)
  with a(1) d(1) show thesis by (intro that [of i s2]) (simp add: write_node_def)
qed

theorem write_node_correct_witness:
  "\<exists>i s'. write_node demo_libs empty_dir demo_store = (Ok i, s') \<and> store_inv s' \<and>
    fst (read_node demo_libs i s') = Ok empty_dir \<and> free_set s' = free_set demo_store - {i}"
proof -
  obtain i s' where w: "write_node demo_libs empty_dir demo_store = (Ok i, s')" by (rule demo_write_node)
  from write_node_correct [OF demo_libs_ok demo_store_inv w] w show ?thesis by blast
qed

section \<open>Flush, mount, and older copies\<close>

text \<open>C16: What a successful flush of a container with an identifier leaves mounts again under the same key, by a header
with its cipher and identifier, exactly when the cached Merkle root was fresh:
due for a recomputation (a slot was written or wiped since the last one), never computed, or still the root of the used
slots. Then there is no integrity or rollback error, and the mounted container has the free list of the running one, the
next generation, and the same content of every data slot. Otherwise the flush has saved a stale root, without an error,
and the mount reports \<open>MerkleIntegrityFailure\<close>.\<close>

theorem flush_then_mount:
  assumes "libs_ok L" "store_inv c" "has_generation c" "vc_container_id c \<noteq> ZERO_ID"
    and "flush L c = (Ok (), c')" "hp_cipher meta = store_cipher c" "hp_container_id meta = vc_container_id c"
  shows "if root_fresh L c
    then \<exists>c2. mount_volume L path (master_key c) meta h (slot_start c) (slot_limit c) (alloc_slot c) (sys.truncate c') = Ok c2 \<and>
      free_list c2 = free_list c \<and> generation c2 = wrap64 (generation c + 1) \<and> vc_root_slot c2 = hp_root_slot meta \<and>
      (\<forall>j. in_volume c j \<longrightarrow> j \<noteq> alloc_slot c \<longrightarrow> fst (read_node L j c2) = fst (read_node L j c))
    else mount_volume L path (master_key c) meta h (slot_start c) (slot_limit c) (alloc_slot c) (sys.truncate c') =
      Err MerkleIntegrityFailure"
proof (cases "root_fresh L c")
  case False
  have "hp_container_id meta \<noteq> ZERO_ID" using assms(4,7) by simp
  from mount_after_stale_flush [OF libs_okD(1,2) [OF assms(1)] assms(2) False assms(3,5) truncate_fields(1) assms(6) this] False
  show ?thesis by simp
next
  case True
  note L = libs_okD [OF assms(1)]
  note ff = flush_fields [OF L(2) assms(2,3,5)]
  have id: "hp_container_id meta \<noteq> ZERO_ID" using assms(4,7) by simp
  obtain st where m: "mount_volume L path (master_key c) meta h (slot_start c) (slot_limit c) (alloc_slot c) (sys.truncate c') =
      and_then (rollback_check L (hp_container_id meta) (generation c') (rollback_load (sys.truncate c'))) (\<lambda>_.
        Ok (slot_store.extend st (vnm_container.fields (hp_root_slot meta) h (hp_cipher meta) (hp_outer_slots meta)
          (if h then slot_start c else hp_outer_slots meta) (label_from (hp_label meta)) (hp_created_at meta)
          (master_key c) path (hp_container_id meta))))"
    and st: "free_list st = free_list c" "generation st = generation c'" "master_key st = master_key c"
    "store_cipher st = store_cipher c" "slot_limit st = slot_limit c" "sys_file st = sys_file c'"
    "slot_start st = slot_start c" "alloc_slot st = alloc_slot c"
    by (rule mount_after_flush [OF L(1,2) assms(2) True assms(3,5) truncate_fields(1) assms(6) id]) (rule that, assumption+)
  from ff(11) [OF assms(4)] have "rollback_check L (hp_container_id meta) (generation c') (rollback_load (sys.truncate c')) = Ok ()"
    by (auto simp: rollback_check_Ok_iff rollback_load_def assms(7))
  with m obtain c2 where c2: "mount_volume L path (master_key c) meta h (slot_start c) (slot_limit c) (alloc_slot c)
      (sys.truncate c') = Ok c2"
    and ext: "c2 = slot_store.extend st (vnm_container.fields (hp_root_slot meta) h (hp_cipher meta) (hp_outer_slots meta)
          (if h then slot_start c else hp_outer_slots meta) (label_from (hp_label meta)) (hp_created_at meta)
          (master_key c) path (hp_container_id meta))"
    by simp
  have e: "free_list c2 = free_list c" "generation c2 = generation c'" "master_key c2 = master_key c"
    "store_cipher c2 = store_cipher c" "slot_limit c2 = slot_limit c" "sys_file c2 = sys_file c'"
    "vc_root_slot c2 = hp_root_slot meta"
    using st by (simp_all add: ext slot_store.defs vnm_container.defs)
  have "fst (read_node L j c2) = fst (read_node L j c)" if "in_volume c j" "j \<noteq> alloc_slot c" for j
  proof -
    have v: "volume_ok c" "j < slot_limit c" using assms(2) that by (simp_all add: store_inv_def in_volume_def)
    have "volume_ok c'" "j < slot_limit c'" using ff v by (simp_all add: store_inv_def)
    then have v2: "volume_ok c2" "j < slot_limit c2" using e st ff v
      by (simp_all add: volume_ok_def ext slot_store.defs vnm_container.defs)
    show ?thesis
      using ff(9) [OF v(2) that(2)] by (simp add: read_node_fst store_read_inside v v2 e)
  qed
  with c2 e ff(7) True show ?thesis by auto
qed

text \<open>C17: Once a container has been flushed at a later generation on this machine, a copy of its file flushed at an
earlier generation is refused with both generations named, although it is authentic.\<close>

theorem older_copy_refused:
  assumes "libs_ok L" "store_inv c" "root_fresh L c" "has_generation c" "flush L c = (Ok (), old)"
    and "store_inv d" "has_generation d" "flush L d = (Ok (), new)"
    and "vc_container_id d = vc_container_id c" "vc_container_id c \<noteq> ZERO_ID" "generation old < generation new"
    and "hp_cipher meta = store_cipher c" "hp_container_id meta = vc_container_id c"
  shows "mount_volume L path (master_key c) meta h (slot_start c) (slot_limit c) (alloc_slot c)
      ((sys.truncate old)\<lparr>sys_rollback := sys_rollback new\<rparr>) =
    Err (RollbackDetected (generation old) (generation new))"
proof -
  note L = libs_okD [OF assms(1)]
  have id: "hp_container_id meta \<noteq> ZERO_ID" and idd: "vc_container_id d \<noteq> ZERO_ID"
    using assms(9,10,13) by simp_all
  let ?s = "(sys.truncate old)\<lparr>sys_rollback := sys_rollback new\<rparr>"
  have same_file: "sys_file ?s = sys_file old" by simp
  from flush_fields(11) [OF L(2) assms(6,7,8) idd] obtain m where
    "sys_rollback new = Some (m(hex_encode L (vc_container_id c) \<mapsto> generation new))"
    by (auto simp: assms(9))
  then have "rollback_check L (hp_container_id meta) (generation old) (rollback_load ?s) =
      Err (RollbackDetected (generation old) (generation new))"
    using assms(11,13) by (intro rollback_check_refused) (simp_all add: rollback_load_def)
  then show ?thesis
    using mount_after_flush [OF L(1,2) assms(2,3,4,5) same_file assms(12) id, of path h] by fastforce
qed

text \<open>A freshly created container, flushed once and twice.\<close>

definition demo_cont :: vnm_container where
  "demo_cont = slot_store.extend demo_store
     (vnm_container.fields 1 False XChaCha20Poly1305 20 20 None 1700000000 demo_key ''c.vnm'' (replicate 16 5))"

definition demo_meta :: header_payload where
  "demo_meta = \<lparr>hp_cipher = XChaCha20Poly1305, hp_kdf_profile = 0, hp_num_password_slots = 1, hp_num_key_slots = 0,
     hp_outer_slots = 20, hp_hidden_start = 0, hp_root_slot = 1, hp_created_at = 1700000000,
     hp_label = replicate 64 0, hp_container_id = replicate 16 5\<rparr>"

lemma demo_cont_fields [simp]:
  "master_key demo_cont = demo_key" "store_cipher demo_cont = XChaCha20Poly1305" "slot_start demo_cont = 0"
  "slot_limit demo_cont = 20" "alloc_slot demo_cont = 0" "free_list demo_cont = free_list demo_store"
  "generation demo_cont = 0" "has_generation demo_cont" "cached_merkle_root demo_cont = ZERO_ROOT"
  "sys_file demo_cont = sys_file demo_store" "vc_container_id demo_cont = replicate 16 5"
  "merkle_dirty demo_cont = False" "vc_root_slot demo_cont = 1" "vc_cipher demo_cont = XChaCha20Poly1305"
  "vc_k_master demo_cont = demo_key"
  by (simp_all add: demo_cont_def slot_store.defs vnm_container.defs)
    (simp_all add: demo_store_def rebuild_free_list_def)

lemma demo_cont_inv: "store_inv demo_cont" "root_fresh demo_libs demo_cont" "vc_container_id demo_cont \<noteq> ZERO_ID"
  using demo_store_inv
  by (simp_all add: store_inv_def volume_ok_def free_ok_def root_fresh_def ZERO_ID_def)

lemma vc_container_id_more:
  "slot_store.more c' = slot_store.more c \<Longrightarrow> vc_container_id c' = vc_container_id (c :: vnm_container)"
  by (cases c; cases c') simp

lemma demo_flush:
  assumes "store_inv c" "slot_start c = 0" "slot_limit c = 20" "has_generation c" "store_cipher c = XChaCha20Poly1305"
  obtains c' where "flush demo_libs (c :: vnm_container) = (Ok (), c')"
proof -
  note rf = refreshed_Ok [OF demo_laws(2) assms(1)]
  obtain r d where f: "refreshed demo_libs c = c\<lparr>cached_merkle_root := r, merkle_dirty := d\<rparr>"
    by (rule refreshed_form)
  have "fst (save_free_list demo_libs (refreshed demo_libs c)) = Ok ()"
    using save_free_list_result [OF demo_laws(1,2) rf(1)] assms
    by (simp add: f SLOT_SIZE_def alloc_prefix_len_def)
  then obtain s1 where "save_free_list demo_libs (refreshed demo_libs c) = (Ok (), s1)" by (metis prod.collapse)
  with rf(7) have "\<exists>c'. flush demo_libs c = (Ok (), c')"
    by (cases "vc_container_id c = ZERO_ID") (auto simp: flush_def flush_file_def rollback_update_eq)
  then show thesis using that by blast
qed

theorem flush_then_mount_witness:
  "\<exists>c' c2. flush demo_libs demo_cont = (Ok (), c') \<and>
    mount_volume demo_libs ''c.vnm'' demo_key demo_meta False 0 20 0 (sys.truncate c') = Ok c2 \<and>
    free_list c2 = free_list demo_cont \<and> generation c2 = 1"
proof -
  obtain c' where c': "flush demo_libs demo_cont = (Ok (), c')"
    by (rule demo_flush [OF demo_cont_inv(1)]) simp_all
  have "hp_cipher demo_meta = store_cipher demo_cont" "hp_container_id demo_meta = vc_container_id demo_cont"
    by (simp_all add: demo_meta_def)
  from flush_then_mount [OF demo_libs_ok demo_cont_inv(1) _ demo_cont_inv(3) c' this, of "''c.vnm''" False] demo_cont_inv(2) c'
  show ?thesis by auto
qed

theorem older_copy_refused_witness:
  "\<exists>old new. flush demo_libs demo_cont = (Ok (), old) \<and> flush demo_libs old = (Ok (), new) \<and>
    mount_volume demo_libs ''c.vnm'' demo_key demo_meta False 0 20 0
      ((sys.truncate old)\<lparr>sys_rollback := sys_rollback new\<rparr>) = Err (RollbackDetected 1 2)"
proof -
  obtain old where o: "flush demo_libs demo_cont = (Ok (), old)"
    by (rule demo_flush [OF demo_cont_inv(1)]) simp_all
  note fo = flush_fields [OF demo_laws(2) demo_cont_inv(1) demo_cont_fields(8) o]
  obtain new where n: "flush demo_libs old = (Ok (), new)"
    by (rule demo_flush [OF fo(8)]) (simp_all add: fo)
  have hg: "has_generation old" by (simp add: fo)
  note fn = flush_fields [OF demo_laws(2) fo(8) hg n]
  have id: "vc_container_id old = vc_container_id demo_cont"
    by (rule vc_container_id_more [OF fo(10)])
  have gen: "generation old = 1" "generation new = 2" using fo(7) fn(7) by simp_all
  have "hp_cipher demo_meta = store_cipher demo_cont" "hp_container_id demo_meta = vc_container_id demo_cont"
    by (simp_all add: demo_meta_def)
  from older_copy_refused [OF demo_libs_ok demo_cont_inv(1,2) demo_cont_fields(8) o fo(8) hg n id demo_cont_inv(3) _ this,
      of "''c.vnm''" False] o n
  show ?thesis by (simp add: gen)
qed

end
