(* ===== verification/Key_File.thy ===== *)
theory Key_File
  imports Container_Create Kdf_Kem
begin

text \<open>
  Key files (crypto/key_file.rs): the layouts of an unprotected and of a passphrase-protected
  key file and of a public key file, their decoders, and reading and writing them by path.
  Key files live in a map from paths to contents beside the container file; writing one
  does not fail and setting its mode has no effect on its content.
\<close>

section \<open>Layout\<close>

definition KEY_MAGIC :: bytes where
  "KEY_MAGIC = str_bytes ''VKEY''"

definition PUB_MAGIC :: bytes where
  "PUB_MAGIC = str_bytes ''VPUB''"

definition FILE_VERSION :: nat where
  [simp]: "FILE_VERSION = 1"

definition KEY_CIPHER :: cipher_algorithm where
  [simp]: "KEY_CIPHER = XChaCha20Poly1305"

definition PROTECT_AAD :: bytes where
  "PROTECT_AAD = str_bytes ''vnm:key:protect:v1''"

definition OFF_X25519_PK :: nat where
  [simp]: "OFF_X25519_PK = 88"

definition OFF_MLKEM_EK :: nat where
  [simp]: "OFF_MLKEM_EK = 120"

definition OFF_PROTECTED :: nat where
  [simp]: "OFF_PROTECTED = 1688"

definition OFF_PRIV_START :: nat where
  [simp]: "OFF_PRIV_START = 1689"

definition ENC_PRIV_SIZE :: nat where
  [simp]: "ENC_PRIV_SIZE = 144"

definition KEY_FILE_SIZE :: nat where
  [simp]: "KEY_FILE_SIZE = OFF_PRIV_START + 32 + 64"

definition KEY_FILE_PROTECTED_SIZE :: nat where
  [simp]: "KEY_FILE_PROTECTED_SIZE = OFF_PRIV_START + 64 + 1 + ENC_PRIV_SIZE"

definition PUB_FILE_SIZE :: nat where
  [simp]: "PUB_FILE_SIZE = 88 + 32 + EK_SIZE"

definition label_bytes :: "bytes \<Rightarrow> bytes" where
  "label_bytes src = blit 0 (take (min (length src) 64) src) (replicate 64 0)"

text \<open>
  \<open>String::from_utf8_lossy\<close>: every maximal ill-formed part becomes the replacement
  character U+FFFD. A step takes the bytes of the next part and tells whether they
  are a character.
\<close>

definition utf8_step :: "byte \<Rightarrow> bytes \<Rightarrow> nat \<times> bool" where
  "utf8_step a rest =
     (let at = (\<lambda>i. if i < length rest then rest ! i else 0);
          second_ok = (if a = 0xE0 then 0xA0 \<le> at 0 \<and> at 0 \<le> 0xBF
                       else if a = 0xED then 0x80 \<le> at 0 \<and> at 0 \<le> 0x9F
                       else if a = 0xF0 then 0x90 \<le> at 0 \<and> at 0 \<le> 0xBF
                       else if a = 0xF4 then 0x80 \<le> at 0 \<and> at 0 \<le> 0x8F
                       else utf8_cont (at 0))
      in if a < 0x80 then (1, True)
         else if 0xC2 \<le> a \<and> a \<le> 0xDF then (if second_ok then (2, True) else (1, False))
         else if 0xE0 \<le> a \<and> a \<le> 0xEF then
           (if \<not> second_ok then (1, False) else if \<not> utf8_cont (at 1) then (2, False) else (3, True))
         else if 0xF0 \<le> a \<and> a \<le> 0xF4 then
           (if \<not> second_ok then (1, False) else if \<not> utf8_cont (at 1) then (2, False)
            else if \<not> utf8_cont (at 2) then (3, False) else (4, True))
         else (1, False))"

lemma utf8_step_pos [simp]: "0 < fst (utf8_step a rest)"
  by (simp add: utf8_step_def Let_def)

function utf8_lossy :: "bytes \<Rightarrow> bytes" where
  "utf8_lossy [] = []"
| "utf8_lossy (a # rest) =
     (let (n, ok) = utf8_step a rest
      in (if ok then take n (a # rest) else [0xEF, 0xBF, 0xBD]) @ utf8_lossy (drop n (a # rest)))"
  by pat_completeness auto

termination
proof (relation "measure length", goal_cases)
  case 1
  show ?case by simp
next
  case (2 a rest x n ok)
  have "0 < n" using utf8_step_pos [of a rest] 2 by (metis fst_conv)
  then show ?case by simp
qed

definition label_str :: "bytes \<Rightarrow> bytes" where
  "label_str raw = utf8_lossy (takeWhile (\<lambda>b. b \<noteq> 0) raw)"

definition write_public_header :: "libs \<Rightarrow> bytes \<Rightarrow> bytes \<Rightarrow> hybrid_public_key \<Rightarrow> bytes \<Rightarrow> nat \<Rightarrow> bytes" where
  "write_public_header L buf magic key label created_at =
     buf @ magic @ to_le 4 FILE_VERSION @ to_le 8 created_at @ label_bytes label @
     hybrid_fingerprint L key @ x25519_pk key @ mlkem_ek_bytes key"

section \<open>Encoding\<close>

definition encode_key_file :: "libs \<Rightarrow> hybrid_private_key \<Rightarrow> bytes \<Rightarrow> 'a sys_scheme \<Rightarrow> bytes" where
  "encode_key_file L key label s =
     write_public_header L [] KEY_MAGIC (hybrid_public key) label (sys_clock s) @
     [0] @ x25519_sk key @ mlkem_seed key"

definition encode_key_file_protected ::
    "libs \<Rightarrow> hybrid_private_key \<Rightarrow> bytes \<Rightarrow> bytes \<Rightarrow> byte \<Rightarrow> ('a sys_scheme, vnm_error, bytes) op" where
  "encode_key_file_protected L key label passphrase kdf_profile s =
     (let buf = write_public_header L [] KEY_MAGIC (hybrid_public key) label (sys_clock s) @ [1];
          (salt, s1) = fill_bytes L 64 s;
          buf = buf @ salt @ [kdf_profile]
      in then_op (return_op (derive_key L passphrase (salted_params L kdf_profile salt))) (\<lambda>derived.
           case as_array_32 derived of
             None \<Rightarrow> return_op (Panic ''called unwrap on a None value'')
           | Some enc_key \<Rightarrow>
               then_op (encrypt_block L enc_key KEY_CIPHER PROTECT_AAD (x25519_sk key @ mlkem_seed key))
                 (\<lambda>enc. return_op (Ok (buf @ enc)))) s1)"

definition encode_pub_file :: "libs \<Rightarrow> hybrid_public_key \<Rightarrow> bytes \<Rightarrow> nat \<Rightarrow> bytes" where
  "encode_pub_file L pub_key label created_at = write_public_header L [] PUB_MAGIC pub_key label created_at"

section \<open>Decoding\<close>

record key_file_data =
  kfd_label :: bytes
  kfd_created_at :: nat
  kfd_key :: hybrid_private_key
  kfd_is_protected :: bool

record key_public_data =
  kpd_label :: bytes
  kpd_created_at :: nat
  kpd_public :: hybrid_public_key
  kpd_is_protected :: bool

record pub_file_data =
  pfd_label :: bytes
  pfd_created_at :: nat
  pfd_public :: hybrid_public_key

definition read_public_from_key_bytes :: "bytes \<Rightarrow> key_public_data result" where
  "read_public_from_key_bytes data =
     (if length data < OFF_PRIV_START then Err (InvalidFormat ''key file too short'')
      else if subrange 0 4 data \<noteq> KEY_MAGIC then Err (InvalidFormat ''not a Venom .key file'')
      else Ok \<lparr>kpd_label = label_str (subrange 16 80 data), kpd_created_at = from_le (subrange 8 16 data),
        kpd_public = \<lparr>x25519_pk = subrange OFF_X25519_PK (OFF_X25519_PK + 32) data,
          mlkem_ek_bytes = subrange OFF_MLKEM_EK (OFF_MLKEM_EK + EK_SIZE) data\<rparr>,
        kpd_is_protected = (data ! OFF_PROTECTED \<noteq> 0)\<rparr>)"

definition decode_key_file :: "bytes \<Rightarrow> key_file_data result" where
  "decode_key_file data =
     and_then (read_public_from_key_bytes data) (\<lambda>pub_data.
       if kpd_is_protected pub_data then Err AuthenticationFailed
       else if length data < KEY_FILE_SIZE then Err (InvalidFormat ''.key file too short for unprotected'')
       else Ok \<lparr>kfd_label = kpd_label pub_data, kfd_created_at = kpd_created_at pub_data,
         kfd_key = \<lparr>x25519_sk = subrange OFF_PRIV_START (OFF_PRIV_START + 32) data,
           mlkem_seed = subrange (OFF_PRIV_START + 32) (OFF_PRIV_START + 96) data,
           hybrid_public = kpd_public pub_data\<rparr>,
         kfd_is_protected = False\<rparr>)"

definition decode_key_file_with_passphrase :: "libs \<Rightarrow> bytes \<Rightarrow> bytes \<Rightarrow> key_file_data result" where
  "decode_key_file_with_passphrase L data passphrase =
     and_then (read_public_from_key_bytes data) (\<lambda>pub_data.
       if \<not> kpd_is_protected pub_data then decode_key_file data
       else if length data < KEY_FILE_PROTECTED_SIZE
       then Err (InvalidFormat ''.key file too short for protected'')
       else
         (let salt = subrange OFF_PRIV_START (OFF_PRIV_START + 64) data;
              kdf_profile = data ! (OFF_PRIV_START + 64);
              enc = drop (OFF_PRIV_START + 65) data
          in and_then (derive_key L passphrase (salted_params L kdf_profile salt)) (\<lambda>derived.
               case as_array_32 derived of
                 None \<Rightarrow> Panic ''called unwrap on a None value''
               | Some enc_key \<Rightarrow>
                   and_then (map_err (\<lambda>_. AuthenticationFailed) (decrypt_block L enc_key KEY_CIPHER PROTECT_AAD enc))
                     (\<lambda>plain.
                       if length plain < 96 then Err (InvalidFormat ''decrypted private key too short'')
                       else Ok \<lparr>kfd_label = kpd_label pub_data, kfd_created_at = kpd_created_at pub_data,
                         kfd_key = \<lparr>x25519_sk = subrange 0 32 plain, mlkem_seed = subrange 32 96 plain,
                           hybrid_public = kpd_public pub_data\<rparr>,
                         kfd_is_protected = True\<rparr>))))"

definition decode_pub_file :: "bytes \<Rightarrow> pub_file_data result" where
  "decode_pub_file data =
     (if length data < PUB_FILE_SIZE then Err (InvalidFormat ''.pub file too short'')
      else if subrange 0 4 data \<noteq> PUB_MAGIC then Err (InvalidFormat ''not a Venom .pub file'')
      else Ok \<lparr>pfd_label = label_str (subrange 16 80 data), pfd_created_at = from_le (subrange 8 16 data),
        pfd_public = \<lparr>x25519_pk = subrange 88 120 data, mlkem_ek_bytes = subrange 120 (120 + EK_SIZE) data\<rparr>\<rparr>)"

section \<open>Files\<close>

record key_sys = sys +
  key_files :: "string \<rightharpoonup> bytes"

definition write_key_file :: "libs \<Rightarrow> string \<Rightarrow> hybrid_private_key \<Rightarrow> bytes \<Rightarrow> ('a key_sys_scheme, vnm_error, unit) op" where
  "write_key_file L path key label s =
     (Ok (), s\<lparr>key_files := (key_files s)(path \<mapsto> encode_key_file L key label s)\<rparr>)"

definition write_key_file_protected ::
    "libs \<Rightarrow> string \<Rightarrow> hybrid_private_key \<Rightarrow> bytes \<Rightarrow> bytes \<Rightarrow> byte \<Rightarrow> ('a key_sys_scheme, vnm_error, unit) op" where
  "write_key_file_protected L path key label passphrase kdf_profile s =
     then_op (encode_key_file_protected L key label passphrase kdf_profile)
       (\<lambda>data s. (Ok (), s\<lparr>key_files := (key_files s)(path \<mapsto> data)\<rparr>)) s"

definition write_pub_file :: "libs \<Rightarrow> string \<Rightarrow> hybrid_public_key \<Rightarrow> bytes \<Rightarrow> nat \<Rightarrow> ('a key_sys_scheme, vnm_error, unit) op" where
  "write_pub_file L path pub_key label created_at s =
     (Ok (), s\<lparr>key_files := (key_files s)(path \<mapsto> encode_pub_file L pub_key label created_at)\<rparr>)"

definition fs_read :: "string \<Rightarrow> 'a key_sys_scheme \<Rightarrow> bytes result" where
  "fs_read path s = ok_or (Io NotFound) (key_files s path)"

definition read_key_file :: "string \<Rightarrow> 'a key_sys_scheme \<Rightarrow> key_file_data result" where
  "read_key_file path s = and_then (fs_read path s) decode_key_file"

definition read_key_file_protected :: "libs \<Rightarrow> string \<Rightarrow> bytes \<Rightarrow> 'a key_sys_scheme \<Rightarrow> key_file_data result" where
  "read_key_file_protected L path passphrase s =
     and_then (fs_read path s) (\<lambda>data. decode_key_file_with_passphrase L data passphrase)"

definition read_key_public :: "string \<Rightarrow> 'a key_sys_scheme \<Rightarrow> key_public_data result" where
  "read_key_public path s = and_then (fs_read path s) read_public_from_key_bytes"

definition read_pub_file :: "string \<Rightarrow> 'a key_sys_scheme \<Rightarrow> pub_file_data result" where
  "read_pub_file path s = and_then (fs_read path s) decode_pub_file"

text \<open>Two lower-case hexadecimal digits per byte, separated by colons.\<close>

definition hex_digit :: "nat \<Rightarrow> char" where
  "hex_digit n = ''0123456789abcdef'' ! n"

definition hex_byte :: "byte \<Rightarrow> string" where
  "hex_byte b = [hex_digit (unat b div 16), hex_digit (unat b mod 16)]"

fun join_with :: "'x list \<Rightarrow> 'x list list \<Rightarrow> 'x list" where
  "join_with sep [] = []"
| "join_with sep [x] = x"
| "join_with sep (x # y # ys) = x @ sep @ join_with sep (y # ys)"

definition fp_display :: "bytes \<Rightarrow> string" where
  "fp_display fp = join_with '':'' (map hex_byte fp)"

section \<open>The layout, read back\<close>

definition public_ok :: "hybrid_public_key \<Rightarrow> bool" where
  "public_ok pk \<longleftrightarrow> length (x25519_pk pk) = 32 \<and> length (mlkem_ek_bytes pk) = 1568"

lemma keypair_public_ok: "kem_ok L \<Longrightarrow> keypair_ok L key \<Longrightarrow> public_ok (hybrid_public key)"
  by (simp add: public_ok_def keypair_ok_def kem_ok_def)

lemma length_label_bytes [simp]: "length (label_bytes l) = 64"
  by (simp add: label_bytes_def)

lemma length_fingerprint [simp]: "hash_ok L \<Longrightarrow> length (hybrid_fingerprint L pk) = 8"
  by (simp add: hybrid_fingerprint_def hash_ok_def)

lemma length_magic [simp]: "length KEY_MAGIC = 4" "length PUB_MAGIC = 4"
  by (simp_all add: KEY_MAGIC_def PUB_MAGIC_def lens)

lemma magic_neq [simp]: "KEY_MAGIC \<noteq> PUB_MAGIC" "PUB_MAGIC \<noteq> KEY_MAGIC"
  by (simp_all add: KEY_MAGIC_def PUB_MAGIC_def str_bytes_def)

lemma length_public_header:
  "hash_ok L \<Longrightarrow> public_ok pk \<Longrightarrow> length magic = 4 \<Longrightarrow>
     length (write_public_header L [] magic pk label t) = 1688"
  by (simp add: write_public_header_def public_ok_def)

lemma public_header_fields:
  assumes "hash_ok L" "public_ok pk" "length magic = 4" "t < 2 ^ 64"
  shows "subrange 0 4 (write_public_header L [] magic pk label t @ rest) = magic"
    "from_le (subrange 8 16 (write_public_header L [] magic pk label t @ rest)) = t"
    "subrange 16 80 (write_public_header L [] magic pk label t @ rest) = label_bytes label"
    "subrange 88 120 (write_public_header L [] magic pk label t @ rest) = x25519_pk pk"
    "subrange 120 1688 (write_public_header L [] magic pk label t @ rest) = mlkem_ek_bytes pk"
  using assms
  by (simp_all add: write_public_header_def public_ok_def subrange_append_left subrange_append_right del: to_le.simps)

text \<open>What reading the public part of any file with this header gives.\<close>

lemma read_public_header:
  assumes "hash_ok L" "public_ok pk" "t < 2 ^ 64"
  shows "read_public_from_key_bytes (write_public_header L [] KEY_MAGIC pk label t @ b # rest) =
    Ok \<lparr>kpd_label = label_str (label_bytes label), kpd_created_at = t, kpd_public = pk,
      kpd_is_protected = (b \<noteq> 0)\<rparr>"
proof -
  let ?d = "write_public_header L [] KEY_MAGIC pk label t @ b # rest"
  note len = length_public_header [OF assms(1,2) length_magic(1)]
  have "?d ! 1688 = b" by (simp add: nth_append len)
  then show ?thesis
    using public_header_fields [OF assms(1,2) length_magic(1) assms(3)]
    by (simp add: read_public_from_key_bytes_def len)
qed

lemma decode_key_file_plain:
  assumes "hash_ok L" "public_ok pk" "t < 2 ^ 64" "length sk = 32" "length seed = 64"
  shows "decode_key_file (write_public_header L [] KEY_MAGIC pk label t @ 0 # sk @ seed) =
    Ok \<lparr>kfd_label = label_str (label_bytes label), kfd_created_at = t,
      kfd_key = \<lparr>x25519_sk = sk, mlkem_seed = seed, hybrid_public = pk\<rparr>, kfd_is_protected = False\<rparr>"
proof -
  note len = length_public_header [OF assms(1,2) length_magic(1)]
  have "subrange 1689 1721 (write_public_header L [] KEY_MAGIC pk label t @ 0 # sk @ seed) = sk"
    "subrange 1721 1785 (write_public_header L [] KEY_MAGIC pk label t @ 0 # sk @ seed) = seed"
    using assms(4,5) len by (simp_all add: subrange_append_right) (simp_all add: subrange_def)
  then show ?thesis
    using assms(4,5) by (simp add: decode_key_file_def read_public_header [OF assms(1-3)] len)
qed

lemma decode_key_file_sealed:
  assumes "hash_ok L" "public_ok pk" "t < 2 ^ 64" "length salt = 64" "length enc = 144"
    and "derive_key L pw (salted_params L prof salt) = Ok k" "length k = 32"
    and "decrypt_block L k KEY_CIPHER PROTECT_AAD enc = Ok (sk @ seed)" "length sk = 32" "length seed = 64"
  shows "decode_key_file_with_passphrase L (write_public_header L [] KEY_MAGIC pk label t @ 1 # salt @ prof # enc) pw =
    Ok \<lparr>kfd_label = label_str (label_bytes label), kfd_created_at = t,
      kfd_key = \<lparr>x25519_sk = sk, mlkem_seed = seed, hybrid_public = pk\<rparr>, kfd_is_protected = True\<rparr>"
proof -
  note len = length_public_header [OF assms(1,2) length_magic(1)]
  let ?d = "write_public_header L [] KEY_MAGIC pk label t @ 1 # salt @ prof # enc"
  have "subrange 1689 1753 ?d = salt" "?d ! 1753 = prof" "drop 1754 ?d = enc"
    using assms(4,5) len by (simp_all add: subrange_append_right nth_append) (simp add: subrange_def)
  then show ?thesis
    using assms(4-10)
    by (simp add: decode_key_file_with_passphrase_def read_public_header [OF assms(1-3)] len Let_def
        subrange_append_left subrange_append_right)
qed

text \<open>Protecting a key pair always succeeds, and the block it ends with opens to the secrets.\<close>

lemma encode_protected_total:
  fixes s :: "'a sys_scheme"
  assumes "aead_ok L" "hash_ok L" "kdf_ok L" "keypair_ok L key" "length pw < 2 ^ 32"
  obtains k salt enc r where
    "encode_key_file_protected L key label pw prof s =
      (Ok (write_public_header L [] KEY_MAGIC (hybrid_public key) label (sys_clock s) @ 1 # salt @ prof # enc), s\<lparr>sys_rng := r\<rparr>)"
    "derive_key L pw (salted_params L prof salt) = Ok k" "length k = 32" "length salt = 64" "length enc = 144"
    "decrypt_block L k KEY_CIPHER PROTECT_AAD enc = Ok (x25519_sk key @ mlkem_seed key)"
proof -
  let ?salt = "fst (fill_bytes L 64 s)" and ?s1 = "snd (fill_bytes L 64 s)"
  let ?secret = "x25519_sk key @ mlkem_seed key"
  have sz: "length (x25519_sk key) = 32" "length (mlkem_seed key) = 64" using assms(4) by (simp_all add: keypair_ok_def)
  have salt: "length ?salt = 64" by simp
  obtain k where k: "derive_key L pw (salted_params L prof ?salt) = Ok k" "length k = 32"
    by (rule derive_key_total [OF assms(3) _ _ assms(5), of ?salt prof]) (simp_all add: salt)
  obtain enc where e: "encrypt_block L k KEY_CIPHER PROTECT_AAD ?secret ?s1 =
      (Ok enc, ?s1\<lparr>sys_rng := sys_rng ?s1 + nonce_section_len KEY_CIPHER\<rparr>)"
    by (rule encrypt_block_total [OF assms(1,2) k(2), of ?secret KEY_CIPHER PROTECT_AAD ?s1])
      (simp add: sz, rule that)
  have enc: "length enc = 144" "decrypt_block L k KEY_CIPHER PROTECT_AAD enc = Ok ?secret"
    using encrypt_block_length [OF assms(1) e] decrypt_encrypt_block [OF assms(1) e] sz by auto
  have "encode_key_file_protected L key label pw prof s =
      (Ok (write_public_header L [] KEY_MAGIC (hybrid_public key) label (sys_clock s) @ 1 # ?salt @ prof # enc),
       s\<lparr>sys_rng := sys_rng ?s1 + nonce_section_len KEY_CIPHER\<rparr>)"
    using k e by (simp add: encode_key_file_protected_def Let_def split_beta) (simp add: fill_bytes_def)
  then show thesis by (rule that) (rule k salt enc)+
qed

section \<open>Labels\<close>

lemma utf8_valid_cases:
  assumes "utf8_valid (a # rest)"
  obtains "a < 0x80" "utf8_valid rest"
  | b bs where "rest = b # bs" "\<not> a < 0x80" "0xC2 \<le> a \<and> a \<le> 0xDF" "utf8_cont b" "utf8_valid bs"
  | b c bs where "rest = b # c # bs" "\<not> a < 0x80" "\<not> (0xC2 \<le> a \<and> a \<le> 0xDF)" "0xE0 \<le> a \<and> a \<le> 0xEF"
      "utf8_cont b" "utf8_cont c" "a = 0xE0 \<longrightarrow> 0xA0 \<le> b" "a = 0xED \<longrightarrow> b \<le> 0x9F" "utf8_valid bs"
  | b c d bs where "rest = b # c # d # bs" "\<not> a < 0x80" "\<not> (0xC2 \<le> a \<and> a \<le> 0xDF)" "\<not> (0xE0 \<le> a \<and> a \<le> 0xEF)"
      "0xF0 \<le> a \<and> a \<le> 0xF4" "utf8_cont b" "utf8_cont c" "utf8_cont d"
      "a = 0xF0 \<longrightarrow> 0x90 \<le> b" "a = 0xF4 \<longrightarrow> b \<le> 0x8F" "utf8_valid bs"
proof -
  consider "a < 0x80" | "\<not> a < 0x80" "0xC2 \<le> a \<and> a \<le> 0xDF"
    | "\<not> a < 0x80" "\<not> (0xC2 \<le> a \<and> a \<le> 0xDF)" "0xE0 \<le> a \<and> a \<le> 0xEF"
    | "\<not> a < 0x80" "\<not> (0xC2 \<le> a \<and> a \<le> 0xDF)" "\<not> (0xE0 \<le> a \<and> a \<le> 0xEF)" "0xF0 \<le> a \<and> a \<le> 0xF4"
    | "\<not> a < 0x80" "\<not> (0xC2 \<le> a \<and> a \<le> 0xDF)" "\<not> (0xE0 \<le> a \<and> a \<le> 0xEF)" "\<not> (0xF0 \<le> a \<and> a \<le> 0xF4)"
    by blast
  then show thesis
  proof cases
    case 1 with assms that(1) show ?thesis by simp
  next
    case 2
    have "utf8_valid (a # rest) = (case rest of b # bs \<Rightarrow> utf8_cont b \<and> utf8_valid bs | [] \<Rightarrow> False)"
      by (simp only: utf8_valid.simps if_not_P [OF 2(1)] if_P [OF 2(2)])
    with assms that(2) 2 show ?thesis by (cases rest) auto
  next
    case 3
    have "utf8_valid (a # rest) = (case rest of b # c # bs \<Rightarrow> utf8_cont b \<and> utf8_cont c \<and>
        (a = 0xE0 \<longrightarrow> 0xA0 \<le> b) \<and> (a = 0xED \<longrightarrow> b \<le> 0x9F) \<and> utf8_valid bs | _ \<Rightarrow> False)"
      by (simp only: utf8_valid.simps if_not_P [OF 3(1)] if_not_P [OF 3(2)] if_P [OF 3(3)])
    with assms obtain b c bs where "rest = b # c # bs" "utf8_cont b" "utf8_cont c" "a = 0xE0 \<longrightarrow> 0xA0 \<le> b"
      "a = 0xED \<longrightarrow> b \<le> 0x9F" "utf8_valid bs"
      by (auto split: list.splits simp del: utf8_valid.simps)
    with that(3) 3 show ?thesis by blast
  next
    case 4
    have "utf8_valid (a # rest) = (case rest of b # c # d # bs \<Rightarrow> utf8_cont b \<and> utf8_cont c \<and> utf8_cont d \<and>
        (a = 0xF0 \<longrightarrow> 0x90 \<le> b) \<and> (a = 0xF4 \<longrightarrow> b \<le> 0x8F) \<and> utf8_valid bs | _ \<Rightarrow> False)"
      by (simp only: utf8_valid.simps if_not_P [OF 4(1)] if_not_P [OF 4(2)] if_not_P [OF 4(3)] if_P [OF 4(4)])
    with assms obtain b c d bs where "rest = b # c # d # bs" "utf8_cont b" "utf8_cont c" "utf8_cont d"
      "a = 0xF0 \<longrightarrow> 0x90 \<le> b" "a = 0xF4 \<longrightarrow> b \<le> 0x8F" "utf8_valid bs"
      by (auto split: list.splits simp del: utf8_valid.simps)
    with that(4) 4 show ?thesis by blast
  next
    case 5
    from assms 5 show ?thesis by (simp only: utf8_valid.simps if_not_P if_P) simp
  qed
qed

lemma utf8_step_valid:
  assumes "utf8_valid (a # rest)"
  shows "snd (utf8_step a rest) \<and> utf8_valid (drop (fst (utf8_step a rest)) (a # rest))"
  using assms
proof (cases rule: utf8_valid_cases)
  case 1
  then show ?thesis by (simp add: utf8_step_def Let_def)
next
  case (2 b bs)
  from 2(3) have "a \<noteq> 0xE0" "a \<noteq> 0xED" "a \<noteq> 0xF0" "a \<noteq> 0xF4" by auto
  with 2 show ?thesis by (simp add: utf8_step_def Let_def del: utf8_valid.simps)
next
  case (3 b c bs)
  from 3(4) have "a \<noteq> 0xF0" "a \<noteq> 0xF4" by auto
  with 3 show ?thesis
    by (auto simp add: utf8_step_def Let_def utf8_cont_def simp del: utf8_valid.simps)
next
  case (4 b c d bs)
  from 4(5) have "a \<noteq> 0xE0" "a \<noteq> 0xED" by auto
  with 4 show ?thesis
    by (auto simp add: utf8_step_def Let_def utf8_cont_def simp del: utf8_valid.simps)
qed

lemma utf8_lossy_valid: "utf8_valid bs \<Longrightarrow> utf8_lossy bs = bs"
proof (induction bs rule: utf8_lossy.induct)
  case (2 a rest)
  obtain n ok where n: "utf8_step a rest = (n, ok)" by fastforce
  with utf8_step_valid [OF 2(2)] have "ok" "utf8_valid (drop n (a # rest))" by simp_all
  with 2(1) [OF n [symmetric] refl] n show ?case by (simp del: utf8_valid.simps)
qed simp

text \<open>What the 64 bytes of the field keep of a label.\<close>

lemma label_str_bytes: "label_str (label_bytes l) = utf8_lossy (takeWhile (\<lambda>b. b \<noteq> 0) (take 64 l))"
proof -
  have pad: "takeWhile (\<lambda>b. b \<noteq> 0) (x @ replicate n 0) = takeWhile (\<lambda>b. b \<noteq> 0) x" for x :: bytes and n
    by (induction x) (auto simp: takeWhile_eq_Nil_iff)
  have "label_bytes l = take 64 l @ replicate (64 - length l) 0"
    by (cases "length l \<le> 64") (simp_all add: label_bytes_def blit_def min_def)
  then show ?thesis by (simp add: label_str_def pad)
qed

lemma label_roundtrip:
  assumes "length l \<le> 64" "0 \<notin> set l" "utf8_valid l"
  shows "label_str (label_bytes l) = l"
proof -
  have "takeWhile (\<lambda>b. b \<noteq> 0) (l @ replicate n 0) = l" for n
    using assms(2) by (induction l) (auto simp: takeWhile_eq_Nil_iff)
  then show ?thesis
    using assms(1,3) by (simp add: label_str_def label_bytes_def blit_def utf8_lossy_valid)
qed

section \<open>Decoding never panics\<close>

lemma read_public_no_panic: "read_public_from_key_bytes d \<noteq> Panic x"
  by (simp add: read_public_from_key_bytes_def)

lemma decode_key_file_no_panic: "decode_key_file d \<noteq> Panic x"
  unfolding decode_key_file_def by (rule and_then_no_panic) (simp_all add: read_public_no_panic)

lemma decode_sealed_no_panic:
  assumes "aead_ok L" "kdf_ok L"
  shows "decode_key_file_with_passphrase L d pw \<noteq> Panic x"
  unfolding decode_key_file_with_passphrase_def Let_def
  by (intro and_then_no_panic read_public_no_panic)
    (simp add: decode_key_file_no_panic, intro impI and_then_no_panic, simp add: derive_key_no_panic,
      simp add: derive_key_len [OF assms(2)], intro and_then_no_panic,
      simp_all add: decrypt_block_no_panic [OF assms(1)])

lemma decode_key_file_size: "decode_key_file d = Ok k \<Longrightarrow> \<not> kfd_is_protected k \<and> 1785 \<le> length d"
  by (auto simp: decode_key_file_def and_then_eq_Ok split: if_splits)

lemma decode_sealed_size:
  assumes "decode_key_file_with_passphrase L d pw = Ok k"
  shows "if kfd_is_protected k then 1898 \<le> length d else 1785 \<le> length d"
proof -
  from assms obtain p where p: "read_public_from_key_bytes d = Ok p"
    by (auto simp: decode_key_file_with_passphrase_def and_then_eq_Ok)
  show ?thesis
  proof (cases "kpd_is_protected p")
    case False
    with assms p decode_key_file_size show ?thesis by (auto simp: decode_key_file_with_passphrase_def)
  next
    case True
    with assms p show ?thesis
      by (auto simp: decode_key_file_with_passphrase_def and_then_eq_Ok Let_def split: if_splits option.splits)
  qed
qed

lemma decode_pub_file_no_panic: "decode_pub_file d \<noteq> Panic x"
  by (simp add: decode_pub_file_def)

end
