(* ===== verification/Key_Properties.thy ===== *)
theory Key_Properties
  imports Key_File Container_Properties
begin

text \<open>
  The properties of key files (crypto/key_file.rs): round trips of the three layouts, robustness
  of the decoders, and what the layout leaves unauthenticated.
\<close>

text \<open>C18: An unprotected key file reads back as the key pair and creation time it was written with, for every label. The
label read back is what 64 bytes keep of it: the first 64 bytes up to the first NUL, with ill-formed parts replaced; so
it is the label that was written when that has at most 64 bytes, no NUL and is valid UTF-8, and a longer one comes back
cut.\<close>

theorem key_file_roundtrip:
  assumes "libs_ok L" "keypair_ok L key" "sys_clock s < 2 ^ 64"
    and "write_key_file L path key label s = (Ok (), s')"
  shows "\<exists>shown. read_key_file path s' =
      Ok \<lparr>kfd_label = shown, kfd_created_at = sys_clock s, kfd_key = key, kfd_is_protected = False\<rparr> \<and>
    shown = utf8_lossy (takeWhile (\<lambda>b. b \<noteq> 0) (take 64 label)) \<and>
    (length label \<le> 64 \<longrightarrow> 0 \<notin> set label \<longrightarrow> utf8_valid label \<longrightarrow> shown = label)"
proof -
  note L = libs_okD [OF assms(1)]
  have sz: "length (x25519_sk key) = 32" "length (mlkem_seed key) = 64" using assms(2) by (simp_all add: keypair_ok_def)
  from decode_key_file_plain [OF L(2) keypair_public_ok [OF L(4) assms(2)] assms(3) sz]
  show ?thesis
    using assms(4) label_roundtrip [of label]
    by (auto simp: read_key_file_def fs_read_def write_key_file_def encode_key_file_def label_str_bytes)
qed

definition demo_keys :: key_sys where
  "demo_keys = \<lparr>sys_file = [], sys_exists = False, sys_rng = 0, sys_clock = 7, sys_rollback = None, key_files = Map.empty\<rparr>"

theorem key_file_roundtrip_witness:
  "\<exists>s'. write_key_file demo_libs ''k'' demo_keypair [65, 66] demo_keys = (Ok (), s') \<and>
    read_key_file ''k'' s' = Ok \<lparr>kfd_label = [65, 66], kfd_created_at = 7, kfd_key = demo_keypair, kfd_is_protected = False\<rparr>"
proof -
  obtain s' where w: "write_key_file demo_libs ''k'' demo_keypair [65, 66] demo_keys = (Ok (), s')"
    by (simp add: write_key_file_def)
  have "utf8_valid [65, 66]" by simp
  with w key_file_roundtrip [OF demo_libs_ok demo_keypair_ok _ w] show ?thesis
    by (auto simp: demo_keys_def)
qed

text \<open>C19: A key file protected with a passphrase is written for every profile, is refused without the passphrase,
shows its public key without it, and yields the key pair with it.\<close>

theorem protected_key_file_roundtrip:
  assumes "libs_ok L" "keypair_ok L key" "sys_clock s < 2 ^ 64" "length pw < 2 ^ 32"
    and "length label \<le> 64" "0 \<notin> set label" "utf8_valid label"
  shows "\<exists>s'. write_key_file_protected L path key label pw prof s = (Ok (), s') \<and>
    read_key_file_protected L path pw s' =
      Ok \<lparr>kfd_label = label, kfd_created_at = sys_clock s, kfd_key = key, kfd_is_protected = True\<rparr> \<and>
    read_key_file path s' = Err AuthenticationFailed \<and>
    read_key_public path s' =
      Ok \<lparr>kpd_label = label, kpd_created_at = sys_clock s, kpd_public = hybrid_public key, kpd_is_protected = True\<rparr>"
proof -
  note L = libs_okD [OF assms(1)]
  have sz: "length (x25519_sk key) = 32" "length (mlkem_seed key) = 64" using assms(2) by (simp_all add: keypair_ok_def)
  obtain k salt enc r where w: "encode_key_file_protected L key label pw prof s =
      (Ok (write_public_header L [] KEY_MAGIC (hybrid_public key) label (sys_clock s) @ 1 # salt @ prof # enc), s\<lparr>sys_rng := r\<rparr>)"
    and d: "derive_key L pw (salted_params L prof salt) = Ok k" "length k = 32" "length salt = 64" "length enc = 144"
    "decrypt_block L k KEY_CIPHER PROTECT_AAD enc = Ok (x25519_sk key @ mlkem_seed key)"
    by (rule encode_protected_total [OF L(1,2,3) assms(2,4)])
  let ?data = "write_public_header L [] KEY_MAGIC (hybrid_public key) label (sys_clock s) @ 1 # salt @ prof # enc"
  note pub = keypair_public_ok [OF L(4) assms(2)]
  note rp = read_public_header [OF L(2) pub assms(3), of label 1 "salt @ prof # enc"]
  have "decode_key_file ?data = Err AuthenticationFailed" by (simp add: decode_key_file_def rp)
  moreover have "decode_key_file_with_passphrase L ?data pw =
      Ok \<lparr>kfd_label = label, kfd_created_at = sys_clock s, kfd_key = key, kfd_is_protected = True\<rparr>"
    using decode_key_file_sealed [OF L(2) pub assms(3) d(3,4,1,2,5) sz]
    by (simp add: label_roundtrip assms(5-7))
  ultimately show ?thesis
    using w rp by (simp add: write_key_file_protected_def read_key_file_protected_def read_key_file_def read_key_public_def fs_read_def
        label_roundtrip assms(5-7))
qed

theorem protected_key_file_roundtrip_witness:
  "\<exists>s'. write_key_file_protected demo_libs ''k'' demo_keypair [65] [1, 2] 1 demo_keys = (Ok (), s') \<and>
    read_key_file_protected demo_libs ''k'' [1, 2] s' =
      Ok \<lparr>kfd_label = [65], kfd_created_at = 7, kfd_key = demo_keypair, kfd_is_protected = True\<rparr>"
  using protected_key_file_roundtrip [OF demo_libs_ok demo_keypair_ok, of demo_keys "[1, 2]" "[65]" "''k''" 1]
  by (auto simp: demo_keys_def)

text \<open>A public key file reads back as the key, label and creation time it was written with.\<close>

theorem pub_file_roundtrip:
  assumes "libs_ok L" "keypair_ok L key" "t < 2 ^ 64"
    and "length label \<le> 64" "0 \<notin> set label" "utf8_valid label"
  shows "decode_pub_file (encode_pub_file L (hybrid_public key) label t) =
    Ok \<lparr>pfd_label = label, pfd_created_at = t, pfd_public = hybrid_public key\<rparr>"
proof -
  note L = libs_okD [OF assms(1)]
  note pub = keypair_public_ok [OF L(4) assms(2)]
  show ?thesis
    using public_header_fields [OF L(2) pub length_magic(2) assms(3), of label "[]"]
    by (simp add: decode_pub_file_def encode_pub_file_def length_public_header [OF L(2) pub] label_roundtrip assms(4-6))
qed

theorem pub_file_roundtrip_witness:
  "decode_pub_file (encode_pub_file demo_libs (hybrid_public demo_keypair) [65] 7) =
    Ok \<lparr>pfd_label = [65], pfd_created_at = 7, pfd_public = hybrid_public demo_keypair\<rparr>"
  by (rule pub_file_roundtrip [OF demo_libs_ok demo_keypair_ok]) simp_all

text \<open>Decoding arbitrary bytes as a key file, with or without a passphrase, or as a public key file never panics,
and a file that is accepted has at least the size of its layout.\<close>

theorem key_files_never_panic:
  assumes "libs_ok L"
  shows "decode_key_file d \<noteq> Panic x \<and> decode_key_file_with_passphrase L d pw \<noteq> Panic x \<and> decode_pub_file d \<noteq> Panic x \<and>
    (\<forall>k. decode_key_file_with_passphrase L d pw = Ok k \<longrightarrow>
       (if kfd_is_protected k then 1898 \<le> length d else 1785 \<le> length d))"
  using decode_sealed_no_panic [OF libs_okD(1,3) [OF assms]] decode_key_file_no_panic decode_pub_file_no_panic
    decode_sealed_size by blast

theorem key_files_never_panic_witness:
  "decode_key_file [1] \<noteq> Panic ''x'' \<and> decode_key_file_with_passphrase demo_libs [1] [] \<noteq> Panic ''x'' \<and>
    decode_pub_file [1] \<noteq> Panic ''x''"
  using key_files_never_panic [of demo_libs "[1]" "''x''" "[]"] by simp

text \<open>The public half of a key file is not authenticated: with another public key of the right size, label and
time in place of its own, a protected key file still opens under its passphrase, with the secrets it
was written with and the foreign public key.\<close>

theorem key_file_public_unbound:
  assumes "libs_ok L" "keypair_ok L key" "sys_clock s < 2 ^ 64"
    and "encode_key_file_protected L key label pw prof s = (Ok d, s')"
    and "public_ok pk" "t < 2 ^ 64" "length pw < 2 ^ 32"
  shows "decode_key_file_with_passphrase L (write_public_header L [] KEY_MAGIC pk label' t @ drop 1688 d) pw =
    Ok \<lparr>kfd_label = label_str (label_bytes label'), kfd_created_at = t,
      kfd_key = key\<lparr>hybrid_public := pk\<rparr>, kfd_is_protected = True\<rparr>"
proof -
  note L = libs_okD [OF assms(1)]
  note pub = keypair_public_ok [OF L(4) assms(2)]
  have sz: "length (x25519_sk key) = 32" "length (mlkem_seed key) = 64" using assms(2) by (simp_all add: keypair_ok_def)
  obtain k salt enc where d: "d = write_public_header L [] KEY_MAGIC (hybrid_public key) label (sys_clock s) @ 1 # salt @ prof # enc"
    and k: "derive_key L pw (salted_params L prof salt) = Ok k" "length k = 32" "length salt = 64" "length enc = 144"
    "decrypt_block L k KEY_CIPHER PROTECT_AAD enc = Ok (x25519_sk key @ mlkem_seed key)"
    by (rule encode_protected_total [OF L(1,2,3) assms(2,7), of label prof s]) (use assms(4) in auto)
  have "drop 1688 d = 1 # salt @ prof # enc"
    using length_public_header [OF L(2) pub] by (simp add: d)
  moreover have "key\<lparr>hybrid_public := pk\<rparr> = \<lparr>x25519_sk = x25519_sk key, mlkem_seed = mlkem_seed key, hybrid_public = pk\<rparr>"
    by (cases key) simp
  ultimately show ?thesis
    using decode_key_file_sealed [OF L(2) assms(5,6) k(3,4,1,2,5) sz] by simp
qed

theorem key_file_public_unbound_witness:
  "\<exists>d s'. encode_key_file_protected demo_libs demo_keypair [65] [1, 2] 1 demo_keys = (Ok d, s') \<and>
    decode_key_file_with_passphrase demo_libs
      (write_public_header demo_libs [] KEY_MAGIC \<lparr>x25519_pk = replicate 32 9, mlkem_ek_bytes = replicate 1568 9\<rparr> [66] 8 @
       drop 1688 d) [1, 2] =
    Ok \<lparr>kfd_label = label_str (label_bytes [66]), kfd_created_at = 8,
      kfd_key = demo_keypair\<lparr>hybrid_public := \<lparr>x25519_pk = replicate 32 9, mlkem_ek_bytes = replicate 1568 9\<rparr>\<rparr>,
      kfd_is_protected = True\<rparr>"
proof -
  obtain d s' where "encode_key_file_protected demo_libs demo_keypair [65] [1, 2] 1 demo_keys = (Ok d, s')"
    by (rule encode_protected_total [OF demo_laws(1,2,3) demo_keypair_ok, of "[1, 2]" "[65]" 1 demo_keys]) (simp, assumption)
  with key_file_public_unbound [OF demo_libs_ok demo_keypair_ok _ this, of "\<lparr>x25519_pk = replicate 32 9, mlkem_ek_bytes = replicate 1568 9\<rparr>" 8 "[66]"]
  show ?thesis by (auto simp: demo_keys_def public_ok_def)
qed

end
