(* ===== verification/Fuse_Inodes.thy ===== *)
theory Fuse_Inodes
  imports Key_File
begin

text \<open>
  The table of inode numbers of the FUSE adapter (struct InodeMap of fs/fuse.rs): two hash
  maps, one the inverse of the other, and a counter. The interface \<open>id_table\<close> states what
  the operations of the file system rely on: live numbers name slots injectively,
  assigning a number never changes what another one names, and forgetting a slot removes
  exactly its number.
\<close>

section \<open>The table\<close>

record inode_map =
  slot_to_ino :: "nat \<rightharpoonup> nat"
  ino_to_slot :: "nat \<rightharpoonup> nat"
  next_ino :: nat

definition ROOT_INO :: nat where
  [simp]: "ROOT_INO = 1"

definition inode_map_new :: "nat \<Rightarrow> inode_map" where
  "inode_map_new root_slot =
     \<lparr>slot_to_ino = [root_slot \<mapsto> ROOT_INO], ino_to_slot = [ROOT_INO \<mapsto> root_slot], next_ino = 2\<rparr>"

definition get_or_alloc :: "nat \<Rightarrow> inode_map \<Rightarrow> nat \<times> inode_map" where
  "get_or_alloc slot m =
     (case slot_to_ino m slot of
        Some ino \<Rightarrow> (ino, m)
      | None \<Rightarrow>
          (let ino = next_ino m
           in (ino, \<lparr>slot_to_ino = (slot_to_ino m)(slot \<mapsto> ino), ino_to_slot = (ino_to_slot m)(ino \<mapsto> slot),
                next_ino = wrap64 (next_ino m + 1)\<rparr>)))"

definition slot_of :: "nat \<Rightarrow> inode_map \<Rightarrow> nat option" where
  "slot_of ino m = ino_to_slot m ino"

definition remove_slot :: "nat \<Rightarrow> inode_map \<Rightarrow> inode_map" where
  "remove_slot slot m =
     (case slot_to_ino m slot of
        None \<Rightarrow> m
      | Some ino \<Rightarrow> m\<lparr>slot_to_ino := (slot_to_ino m)(slot := None), ino_to_slot := (ino_to_slot m)(ino := None)\<rparr>)"

section \<open>The interface: a table of identifiers\<close>

primrec assign_all :: "(nat \<Rightarrow> 't \<Rightarrow> nat \<times> 't) \<Rightarrow> nat list \<Rightarrow> 't \<Rightarrow> nat list \<times> 't" where
  "assign_all asg [] t = ([], t)"
| "assign_all asg (x # xs) t =
     (let (i, t1) = asg x t; (is, t2) = assign_all asg xs t1 in (i # is, t2))"

locale id_table =
  fixes inv :: "'t \<Rightarrow> bool"
    and names :: "'t \<Rightarrow> nat \<Rightarrow> nat option"
    and unused :: "'t \<Rightarrow> nat"
    and asg :: "nat \<Rightarrow> 't \<Rightarrow> nat \<times> 't"
    and forget :: "nat \<Rightarrow> 't \<Rightarrow> 't"
  assumes names_inj: "inv t \<Longrightarrow> names t i = Some x \<Longrightarrow> names t j = Some x \<Longrightarrow> i = j"
    and asg_spec: "inv t \<Longrightarrow> 0 < unused t \<Longrightarrow> asg x t = (i, t') \<Longrightarrow>
      inv t' \<and> names t' = (names t)(i \<mapsto> x) \<and> (names t i = None \<or> names t i = Some x) \<and> unused t \<le> Suc (unused t')"
    and forget_spec: "inv t \<Longrightarrow> inv (forget x t) \<and> unused (forget x t) = unused t \<and>
      names (forget x t) = (\<lambda>i. if names t i = Some x then None else names t i)"
begin

text \<open>A run of assignments keeps every live number and names all its slots, one number each.\<close>

lemma assign_all_spec:
  assumes "inv t" "length xs \<le> unused t" "assign_all asg xs t = (is, t')"
  shows "inv t' \<and> length is = length xs \<and> names t \<subseteq>\<^sub>m names t' \<and> map (names t') is = map Some xs \<and>
    unused t \<le> unused t' + length xs"
  using assms
proof (induction xs arbitrary: t "is")
  case Nil
  then show ?case by simp
next
  case (Cons x xs)
  obtain i t1 where a: "asg x t = (i, t1)" by fastforce
  obtain js where b: "assign_all asg xs t1 = (js, t')" and "is": "is = i # js"
    using Cons.prems(3) a by (auto simp: split_beta prod_eq_iff)
  have "0 < unused t" using Cons.prems(2) by simp
  note s = asg_spec [OF Cons.prems(1) this a]
  have "length xs \<le> unused t1" using Cons.prems(2) s by auto
  from Cons.IH [OF conjunct1 [OF s] this b]
  have ih: "inv t'" "length js = length xs" "names t1 \<subseteq>\<^sub>m names t'" "map (names t') js = map Some xs"
    "unused t1 \<le> unused t' + length xs" by blast+
  have "names t1 i = Some x" using s by simp
  with ih(3) have "names t' i = Some x" by (auto simp: map_le_def dom_def)
  moreover have "names t \<subseteq>\<^sub>m names t1" using s by (auto simp: map_le_def)
  with ih(3) have "names t \<subseteq>\<^sub>m names t'" by (auto intro: map_le_trans)
  ultimately show ?case using ih s "is" by auto
qed

lemma assign_all_distinct:
  assumes "inv t" "length xs \<le> unused t" "assign_all asg xs t = (is, t')" "distinct xs"
  shows "distinct is"
proof -
  from assign_all_spec [OF assms(1-3)] have "map (names t') is = map Some xs" by simp
  then have "distinct (map (names t') is)" using assms(4) by (simp add: distinct_map)
  then show ?thesis by (simp add: distinct_map)
qed

lemma assign_again:
  assumes "inv t" "1 < unused t" "asg x t = (i, t1)" "asg x t1 = (j, t2)"
  shows "j = i"
proof -
  have "0 < unused t" using assms(2) by simp
  note s = asg_spec [OF assms(1) this assms(3)]
  then have "0 < unused t1" using assms(2) by auto
  with asg_spec [OF _ this assms(4)] s have "inv t2" "names t2 i = Some x" "names t2 j = Some x"
    by (auto split: if_splits)
  then show ?thesis using names_inj by blast
qed

text \<open>After forgetting a slot no number names it, and every other live number stays.\<close>

lemma forget_gone: "inv t \<Longrightarrow> names (forget x t) i \<noteq> Some x"
  using forget_spec [of t x] by auto

lemma forget_other: "inv t \<Longrightarrow> y \<noteq> x \<Longrightarrow> names (forget x t) i = Some y \<longleftrightarrow> names t i = Some y"
  using forget_spec [of t x] by auto

end

section \<open>The inode map provides it\<close>

definition inode_inv :: "inode_map \<Rightarrow> bool" where
  "inode_inv m \<longleftrightarrow> (\<forall>i x. ino_to_slot m i = Some x \<longleftrightarrow> slot_to_ino m x = Some i) \<and>
     (\<forall>i x. ino_to_slot m i = Some x \<longrightarrow> i < next_ino m) \<and> next_ino m < 2 ^ 64"

definition inodes_left :: "inode_map \<Rightarrow> nat" where
  "inodes_left m = 2 ^ 64 - 1 - next_ino m"

definition slot_table :: "inode_map \<Rightarrow> nat \<Rightarrow> nat option" where
  "slot_table m ino = slot_of ino m"

lemma inode_map_new_inv [simp]: "inode_inv (inode_map_new root)"
  by (simp add: inode_inv_def inode_map_new_def)

lemma inode_map_new_root [simp]: "slot_of ROOT_INO (inode_map_new root) = Some root"
  by (simp add: slot_of_def inode_map_new_def)

interpretation inodes: id_table inode_inv slot_table inodes_left get_or_alloc remove_slot
proof (unfold_locales, goal_cases)
  case (1 t i x j)
  then show ?case by (simp add: inode_inv_def slot_table_def slot_of_def)
next
  case (2 t x i t')
  show ?case
  proof (cases "slot_to_ino t x")
    case (Some k)
    with 2 show ?thesis
      by (auto simp: get_or_alloc_def inode_inv_def slot_table_def slot_of_def fun_eq_iff)
  next
    case None
    have n: "next_ino t + 1 < 2 ^ 64" using 2(2) by (simp add: inodes_left_def)
    have new: "ino_to_slot t (next_ino t) = None" using 2(1) by (metis inode_inv_def less_irrefl not_Some_eq)
    have i: "i = next_ino t" and t': "t' = \<lparr>slot_to_ino = (slot_to_ino t)(x \<mapsto> i), ino_to_slot = (ino_to_slot t)(i \<mapsto> x),
        next_ino = next_ino t + 1\<rparr>"
      using 2(3) None n by (auto simp: get_or_alloc_def Let_def)
    have iff: "ino_to_slot t j = Some y \<longleftrightarrow> slot_to_ino t y = Some j" for j y
      using 2(1) by (simp add: inode_inv_def)
    have low: "ino_to_slot t j = Some y \<Longrightarrow> j < next_ino t" for j y
      using 2(1) unfolding inode_inv_def by blast
    have "ino_to_slot t' j = Some y \<longleftrightarrow> slot_to_ino t' y = Some j" for j y
    proof (cases "j = i")
      case True
      then show ?thesis using iff [of j y] new by (simp add: t' i)
    next
      case False
      then show ?thesis using iff [of j y] None by (cases "y = x") (simp_all add: t')
    qed
    moreover have "ino_to_slot t' j = Some y \<Longrightarrow> j < next_ino t'" for j y
      using low [of j y] by (cases "j = i") (simp_all add: t' i)
    moreover have "next_ino t' < 2 ^ 64" using n by (simp add: t')
    ultimately have "inode_inv t'" unfolding inode_inv_def by blast
    moreover have "slot_table t' = (slot_table t)(i \<mapsto> x)"
      by (simp add: slot_table_def slot_of_def fun_eq_iff t')
    moreover have "slot_table t i = None" using new by (simp add: slot_table_def slot_of_def i)
    moreover have "inodes_left t \<le> Suc (inodes_left t')" by (simp add: inodes_left_def t')
    ultimately show ?thesis by simp
  qed
next
  case (3 t x)
  show ?case
  proof (cases "slot_to_ino t x")
    case None
    with 3 show ?thesis
      by (auto simp: remove_slot_def inode_inv_def slot_table_def slot_of_def fun_eq_iff)
  next
    case (Some k)
    with 3 have k: "ino_to_slot t j = Some x \<longleftrightarrow> j = k" for j
      by (auto simp: inode_inv_def)
    have t': "remove_slot x t = t\<lparr>slot_to_ino := (slot_to_ino t)(x := None), ino_to_slot := (ino_to_slot t)(k := None)\<rparr>"
      using Some by (simp add: remove_slot_def)
    have iff: "ino_to_slot t j = Some y \<longleftrightarrow> slot_to_ino t y = Some j" for j y
      using 3 by (simp add: inode_inv_def)
    have "ino_to_slot (remove_slot x t) j = Some y \<longleftrightarrow> slot_to_ino (remove_slot x t) y = Some j" for j y
      using iff [of j y] k [of j] Some by (cases "y = x"; cases "j = k") (simp_all add: t')
    moreover have "ino_to_slot (remove_slot x t) j = Some y \<Longrightarrow> j < next_ino (remove_slot x t)" for j y
      using 3 unfolding inode_inv_def by (cases "j = k") (simp add: t', simp add: t' iff, blast dest: iff [THEN iffD2])
    moreover have "next_ino (remove_slot x t) < 2 ^ 64" using 3 by (simp add: t' inode_inv_def)
    ultimately have "inode_inv (remove_slot x t)" unfolding inode_inv_def by blast
    moreover have "slot_table (remove_slot x t) i = (if slot_table t i = Some x then None else slot_table t i)" for i
      using k [of i] by (simp add: t' slot_table_def slot_of_def)
    ultimately show ?thesis by (simp add: fun_eq_iff inodes_left_def t')
  qed
qed

end
