(* ===== verification/Fuse.thy ===== *)
theory Fuse
  imports Fuse_Inodes
begin

text \<open>
  The FUSE adapter (fs/fuse.rs): open files with a chunk cache, directory operations, chunked
  file I/O, and the request handlers around them. The state extends the container it serves
  by the inode table, the open files and the next handle. Operations return an errno or a
  value and keep the state they reached when they fail. A loop over an index chain has
  fuel for as many steps as the container file has bytes; a chain that outlasts it visits
  a slot twice, and the value \<open>Panic ''does not return''\<close> stands for the endless loop.
\<close>

section \<open>State\<close>

datatype errno = EEXIST | EINVAL | EIO | EISDIR | ENOENT | ENOTEMPTY | ENOTDIR

definition MAX_CACHE_CHUNKS :: nat where
  [simp]: "MAX_CACHE_CHUNKS = 256"

definition WRITE_THROUGH_THRESHOLD :: nat where
  [simp]: "WRITE_THROUGH_THRESHOLD = MAX_CACHE_CHUNKS div 2"

record open_file =
  of_ino :: nat
  of_head_slot :: nat
  of_total_size :: nat
  of_index_chain :: "nat option"
  of_slot_map :: "nat option list"
  of_cache :: "nat \<rightharpoonup> bytes"
  of_dirty :: "nat set"
  of_meta_dirty :: bool

record venom_fuse = vnm_container +
  fu_inodes :: inode_map
  fu_open_files :: "nat \<rightharpoonup> open_file"
  fu_next_fh :: nat

definition venom_fuse_new :: "vnm_container \<Rightarrow> venom_fuse" where
  "venom_fuse_new c = vnm_container.extend c (venom_fuse.fields (inode_map_new (vc_root_slot c)) Map.empty 1)"

text \<open>\<open>wrapping_add(1).max(1)\<close>\<close>

definition alloc_fh :: "'a venom_fuse_scheme \<Rightarrow> nat \<times> 'a venom_fuse_scheme" where
  "alloc_fh s = (fu_next_fh s, s\<lparr>fu_next_fh := max (wrap64 (fu_next_fh s + 1)) 1\<rparr>)"

definition slot_of_ino :: "nat \<Rightarrow> ('a venom_fuse_scheme, errno, nat) op" where
  "slot_of_ino ino s = (ok_or ENOENT (slot_of ino (fu_inodes s)), s)"

text \<open>Container calls under \<open>map_err(|_| EIO)\<close>.\<close>

definition eio :: "('s, vnm_error, 'r) op \<Rightarrow> ('s, errno, 'r) op" where
  "eio m s = (map_err (\<lambda>_. EIO) (fst (m s)), snd (m s))"

definition fetch :: "libs \<Rightarrow> nat \<Rightarrow> 'a slot_store_scheme \<Rightarrow> (errno, vault_node) outcome" where
  "fetch L slot s = map_err (\<lambda>_. EIO) (fst (read_node L slot s))"

definition nth_opt :: "nat \<Rightarrow> 'x list \<Rightarrow> 'x option" where
  "nth_opt i xs = (if i < length xs then Some (xs ! i) else None)"

definition put_file :: "nat \<Rightarrow> open_file \<Rightarrow> 'a venom_fuse_scheme \<Rightarrow> 'a venom_fuse_scheme" where
  "put_file fh fo s = s\<lparr>fu_open_files := (fu_open_files s)(fh \<mapsto> fo)\<rparr>"

section \<open>Slot maps and index chains\<close>

definition chain_fuel :: "'a slot_store_scheme \<Rightarrow> nat" where
  "chain_fuel s = length (sys_file s)"

fun follow_index :: "libs \<Rightarrow> nat \<Rightarrow> nat option \<Rightarrow> 'a slot_store_scheme \<Rightarrow> (errno, nat list) outcome" where
  "follow_index L fuel None s = Ok []"
| "follow_index L 0 (Some idx_slot) s = Panic ''does not return''"
| "follow_index L (Suc fuel) (Some idx_slot) s =
     and_then (fetch L idx_slot s) (\<lambda>node. case node of
         FileIndex fi \<Rightarrow>
           and_then (follow_index L fuel (fi_next_index fi) s) (\<lambda>ids. Ok (fi_slot_ids fi @ ids))
       | _ \<Rightarrow> Err EIO)"

definition build_slot_map ::
    "libs \<Rightarrow> nat \<Rightarrow> 'a slot_store_scheme \<Rightarrow> (errno, nat \<times> nat option \<times> nat option list) outcome" where
  "build_slot_map L head_slot s =
     and_then (fetch L head_slot s) (\<lambda>node. case node of
         File fb \<Rightarrow>
           and_then (follow_index L (chain_fuel s) (fb_index_chain fb) s) (\<lambda>ids.
             Ok (fb_total_size fb, fb_index_chain fb, None # map Some (fb_data_slots fb @ ids)))
       | _ \<Rightarrow> Err EISDIR)"

fun free_chain :: "libs \<Rightarrow> nat \<Rightarrow> nat option \<Rightarrow> ('a slot_store_scheme, errno, unit) op" where
  "free_chain L fuel None s = (Ok (), s)"
| "free_chain L 0 (Some slot) s = (Panic ''does not return'', s)"
| "free_chain L (Suc fuel) (Some slot) s = (case fst (read_node L slot s) of
       Panic p \<Rightarrow> (Panic p, s)
     | Ok (FileIndex fi) \<Rightarrow> free_chain L fuel (fi_next_index fi) (free_node L slot s)
     | _ \<Rightarrow> (Ok (), free_node L slot s))"

definition free_index_chain :: "libs \<Rightarrow> nat option \<Rightarrow> ('a slot_store_scheme, errno, unit) op" where
  "free_index_chain L first s = free_chain L (chain_fuel s) first s"

text \<open>\<open>rchunks\<close>: pieces of \<open>n\<close> elements from the end, the last piece first.\<close>

function rchunks :: "nat \<Rightarrow> 'x list \<Rightarrow> 'x list list" where
  "rchunks n xs = (if xs = [] \<or> n = 0 then [] else drop (length xs - n) xs # rchunks n (take (length xs - n) xs))"
  by pat_completeness auto

termination
proof (relation "measure (\<lambda>(n, xs). length xs)", goal_cases)
  case (2 n xs)
  then have "0 < length xs" "0 < n" by simp_all
  then show ?case by simp
qed simp

declare rchunks.simps [simp del]

primrec write_chain :: "libs \<Rightarrow> nat list list \<Rightarrow> nat option \<Rightarrow> ('a slot_store_scheme, errno, nat option) op" where
  "write_chain L [] nxt s = (Ok nxt, s)"
| "write_chain L (chunk # chunks) nxt s =
     then_op (eio (write_node L (FileIndex \<lparr>fi_kind = KFileIndex, fi_slot_ids = chunk, fi_next_index = nxt\<rparr>)))
       (\<lambda>slot. write_chain L chunks (Some slot)) s"

definition write_index_chain :: "libs \<Rightarrow> nat list \<Rightarrow> ('a slot_store_scheme, errno, nat option) op" where
  "write_index_chain L ids = write_chain L (rchunks MAX_INDEX_SLOTS ids) None"

section \<open>The chunk cache\<close>

definition chunk_actual_size :: "nat \<Rightarrow> nat \<Rightarrow> nat option" where
  "chunk_actual_size ci total_size =
     (let start = wrap64 (ci * CHUNK_SIZE)
      in if total_size \<le> start then None else Some (min (total_size - start) CHUNK_SIZE))"

definition load_chunk :: "libs \<Rightarrow> open_file \<Rightarrow> nat \<Rightarrow> 'a slot_store_scheme \<Rightarrow> (errno, bytes) outcome" where
  "load_chunk L fo ci s = (case nth_opt ci (of_slot_map fo) of
       Some (Some slot_id) \<Rightarrow>
         and_then (fetch L slot_id s) (\<lambda>node. case node of
             File fb \<Rightarrow> if ci = 0 then Ok (fb_data fb) else Err EIO
           | FileData d \<Rightarrow> Ok (fd_data d)
           | _ \<Rightarrow> Err EIO)
     | Some None \<Rightarrow>
         if ci = 0 then
           and_then (fetch L (of_head_slot fo) s) (\<lambda>node. case node of File fb \<Rightarrow> Ok (fb_data fb) | _ \<Rightarrow> Err EIO)
         else Ok []
     | None \<Rightarrow> Err EIO)"

definition evict :: "libs \<Rightarrow> open_file \<Rightarrow> open_file" where
  "evict L fo =
     (if MAX_CACHE_CHUNKS \<le> card (dom (of_cache fo))
      then (case find (\<lambda>k. k \<notin> of_dirty fo) (hash_order L (dom (of_cache fo))) of
              None \<Rightarrow> fo
            | Some k \<Rightarrow> fo\<lparr>of_cache := (of_cache fo)(k := None)\<rparr>)
      else fo)"

definition cache_insert :: "nat \<Rightarrow> bytes \<Rightarrow> open_file \<Rightarrow> open_file" where
  "cache_insert ci data fo = fo\<lparr>of_cache := (of_cache fo)(ci \<mapsto> data)\<rparr>"

definition ensure_cached :: "libs \<Rightarrow> open_file \<Rightarrow> nat \<Rightarrow> 'a slot_store_scheme \<Rightarrow> (errno, open_file) outcome" where
  "ensure_cached L fo ci s =
     (if of_cache fo ci \<noteq> None then Ok fo
      else and_then (load_chunk L fo ci s) (\<lambda>data. Ok (cache_insert ci data (evict L fo))))"

section \<open>Directories\<close>

definition read_dir_block :: "libs \<Rightarrow> nat \<Rightarrow> ('a slot_store_scheme, errno, directory_block) op" where
  "read_dir_block L slot s = (case fst (read_node L slot s) of
       Ok (Directory d) \<Rightarrow> (Ok d, s)
     | Ok _ \<Rightarrow> (Err ENOTDIR, s)
     | Err _ \<Rightarrow> (Err EIO, s)
     | Panic p \<Rightarrow> (Panic p, s))"

definition find_entry :: "string \<Rightarrow> directory_block \<Rightarrow> dir_entry option" where
  "find_entry name d = find (\<lambda>e. de_name e = name) (db_entries d)"

text \<open>\<open>position\<close> and \<open>remove\<close> of the first entry with a name.\<close>

definition entry_position :: "string \<Rightarrow> directory_block \<Rightarrow> nat option" where
  "entry_position name d =
     (let i = length (takeWhile (\<lambda>e. de_name e \<noteq> name) (db_entries d))
      in if i < length (db_entries d) then Some i else None)"

definition vec_remove :: "nat \<Rightarrow> 'x list \<Rightarrow> 'x list" where
  "vec_remove i xs = take i xs @ drop (Suc i) xs"

definition dir_add_entry :: "libs \<Rightarrow> nat \<Rightarrow> dir_entry \<Rightarrow> ('a slot_store_scheme, errno, unit) op" where
  "dir_add_entry L parent_slot entry =
     then_op (read_dir_block L parent_slot) (\<lambda>dir.
       if \<exists>e \<in> set (db_entries dir). de_name e = de_name entry then return_op (Err EEXIST)
       else eio (update_node L parent_slot (Directory (dir\<lparr>db_entries := db_entries dir @ [entry]\<rparr>))))"

definition dir_remove_entry :: "libs \<Rightarrow> nat \<Rightarrow> string \<Rightarrow> ('a slot_store_scheme, errno, nat) op" where
  "dir_remove_entry L parent_slot name =
     then_op (read_dir_block L parent_slot) (\<lambda>dir.
     then_op (return_op (ok_or ENOENT (entry_position name dir))) (\<lambda>pos.
       let removed = de_slot (db_entries dir ! pos)
       in then_op (eio (update_node L parent_slot (Directory (dir\<lparr>db_entries := vec_remove pos (db_entries dir)\<rparr>))))
            (\<lambda>_. return_op (Ok removed))))"

definition assign_ino :: "nat \<Rightarrow> 'a venom_fuse_scheme \<Rightarrow> nat \<times> 'a venom_fuse_scheme" where
  "assign_ino slot s = (let (ino, m) = get_or_alloc slot (fu_inodes s) in (ino, s\<lparr>fu_inodes := m\<rparr>))"

definition forget_slot :: "nat \<Rightarrow> 'a venom_fuse_scheme \<Rightarrow> 'a venom_fuse_scheme" where
  "forget_slot slot s = s\<lparr>fu_inodes := remove_slot slot (fu_inodes s)\<rparr>"

definition op_lookup :: "libs \<Rightarrow> nat \<Rightarrow> string \<Rightarrow> ('a venom_fuse_scheme, errno, nat \<times> vault_node) op" where
  "op_lookup L parent name =
     then_op (slot_of_ino parent) (\<lambda>p_slot.
     then_op (read_dir_block L p_slot) (\<lambda>dir.
     then_op (return_op (ok_or ENOENT (find_entry name dir))) (\<lambda>entry.
     then_op (eio (read_node L (de_slot entry))) (\<lambda>node s.
       let (ino, s) = assign_ino (de_slot entry) s in (Ok (ino, node), s)))))"

text \<open>Entering a new node in its parent; the node is freed again when that fails.\<close>

definition enter_node :: "libs \<Rightarrow> nat \<Rightarrow> dir_entry \<Rightarrow> ('a slot_store_scheme, errno, unit) op" where
  "enter_node L p_slot entry s = (case dir_add_entry L p_slot entry s of
       (Ok _, s) \<Rightarrow> (Ok (), s)
     | (Err e, s) \<Rightarrow> (Err e, free_node L (de_slot entry) s)
     | (Panic p, s) \<Rightarrow> (Panic p, s))"

definition op_mkdir :: "libs \<Rightarrow> nat \<Rightarrow> string \<Rightarrow> ('a venom_fuse_scheme, errno, nat \<times> vault_node) op" where
  "op_mkdir L parent name =
     (let new_dir = Directory \<lparr>db_kind = KDirectory, db_entries = []\<rparr>
      in then_op (slot_of_ino parent) (\<lambda>p_slot.
         then_op (eio (write_node L new_dir)) (\<lambda>slot.
         then_op (enter_node L p_slot \<lparr>de_name = name, de_slot = slot, de_kind = KDirectory\<rparr>) (\<lambda>_ s.
           let (ino, s) = assign_ino slot s in (Ok (ino, new_dir), s)))))"

definition op_rmdir :: "libs \<Rightarrow> nat \<Rightarrow> string \<Rightarrow> ('a venom_fuse_scheme, errno, unit) op" where
  "op_rmdir L parent name =
     then_op (slot_of_ino parent) (\<lambda>p_slot.
     then_op (read_dir_block L p_slot) (\<lambda>dir.
     then_op (return_op (ok_or ENOENT (find_entry name dir))) (\<lambda>entry.
     then_op (read_dir_block L (de_slot entry)) (\<lambda>target.
       if db_entries target \<noteq> [] then return_op (Err ENOTEMPTY)
       else then_op (dir_remove_entry L p_slot name) (\<lambda>removed s.
         (Ok (), forget_slot removed (free_node L removed s)))))))"

definition new_open_file :: "nat \<Rightarrow> nat \<Rightarrow> open_file" where
  "new_open_file ino head =
     \<lparr>of_ino = ino, of_head_slot = head, of_total_size = 0, of_index_chain = None, of_slot_map = [None],
      of_cache = Map.empty, of_dirty = {}, of_meta_dirty = False\<rparr>"

definition op_create :: "libs \<Rightarrow> nat \<Rightarrow> string \<Rightarrow> ('a venom_fuse_scheme, errno, nat \<times> nat) op" where
  "op_create L parent name =
     then_op (slot_of_ino parent) (\<lambda>p_slot.
     then_op (eio (write_node L (File \<lparr>fb_kind = KFile, fb_total_size = 0, fb_data_slots = [],
         fb_index_chain = None, fb_data = []\<rparr>))) (\<lambda>head.
     then_op (enter_node L p_slot \<lparr>de_name = name, de_slot = head, de_kind = KFile\<rparr>) (\<lambda>_ s.
       let (ino, s) = assign_ino head s;
           (fh, s) = alloc_fh s
       in (Ok (ino, fh), put_file fh (new_open_file ino head) s))))"

text \<open>Freeing a list of slots, in order.\<close>

definition free_all :: "libs \<Rightarrow> nat list \<Rightarrow> 'a slot_store_scheme \<Rightarrow> 'a slot_store_scheme" where
  "free_all L slots s = fold (free_node L) slots s"

definition op_unlink :: "libs \<Rightarrow> nat \<Rightarrow> string \<Rightarrow> ('a venom_fuse_scheme, errno, unit) op" where
  "op_unlink L parent name =
     then_op (slot_of_ino parent) (\<lambda>p_slot.
     then_op (dir_remove_entry L p_slot name) (\<lambda>removed s.
       let s = s\<lparr>fu_open_files := (\<lambda>fh. case fu_open_files s fh of
             Some fo \<Rightarrow> if of_head_slot fo \<noteq> removed then Some fo else None | None \<Rightarrow> None)\<rparr>
       in then_op (\<lambda>s. case fst (read_node L removed s) of
              Ok (File fb) \<Rightarrow> free_index_chain L (fb_index_chain fb) (free_all L (fb_data_slots fb) s)
            | Panic p \<Rightarrow> (Panic p, s)
            | _ \<Rightarrow> (Ok (), s))
          (\<lambda>_ s. (Ok (), forget_slot removed (free_node L removed s))) s))"

definition op_rename :: "libs \<Rightarrow> nat \<Rightarrow> string \<Rightarrow> nat \<Rightarrow> string \<Rightarrow> ('a venom_fuse_scheme, errno, unit) op" where
  "op_rename L parent name newparent newname =
     then_op (slot_of_ino parent) (\<lambda>p_slot.
     then_op (slot_of_ino newparent) (\<lambda>np_slot.
     then_op (dir_remove_entry L p_slot name) (\<lambda>moved.
     then_op (eio (read_node L moved)) (\<lambda>node.
     let kind = (case node of Directory _ \<Rightarrow> KDirectory | _ \<Rightarrow> KFile)
     in then_op (read_dir_block L np_slot) (\<lambda>dest s.
       let (dest, s) = (case entry_position newname dest of
               Some pos \<Rightarrow>
                 (let old = de_slot (db_entries dest ! pos)
                  in (dest\<lparr>db_entries := vec_remove pos (db_entries dest)\<rparr>, forget_slot old (free_node L old s)))
             | None \<Rightarrow> (dest, s));
           dest = dest\<lparr>db_entries := db_entries dest @ [\<lparr>de_name = newname, de_slot = moved, de_kind = kind\<rparr>]\<rparr>
       in eio (update_node L np_slot (Directory dest)) s)))))"

section \<open>Flushing a file\<close>

definition data_node :: "bytes \<Rightarrow> vault_node" where
  "data_node data = FileData \<lparr>fd_kind = KFileData, fd_data = data\<rparr>"

text \<open>What writing chunk \<open>ci\<close> to a new slot changes, and dropping it once it is on disk.\<close>

definition set_slot :: "nat \<Rightarrow> nat \<Rightarrow> open_file \<Rightarrow> open_file" where
  "set_slot ci slot fo = fo\<lparr>of_slot_map := (of_slot_map fo)[ci := Some slot], of_meta_dirty := True\<rparr>"

definition drop_chunk :: "nat \<Rightarrow> open_file \<Rightarrow> open_file" where
  "drop_chunk ci fo = fo\<lparr>of_dirty := of_dirty fo - {ci}, of_cache := (of_cache fo)(ci := None)\<rparr>"

definition upd_file :: "nat \<Rightarrow> (open_file \<Rightarrow> open_file) \<Rightarrow> 'a venom_fuse_scheme \<Rightarrow> 'a venom_fuse_scheme" where
  "upd_file fh f s = (case fu_open_files s fh of None \<Rightarrow> s | Some fo \<Rightarrow> put_file fh (f fo) s)"

text \<open>
  The loops of \<open>write_through_flush\<close> and of the first step of \<open>flush_fh\<close>: \<open>after ci\<close>
  is what is done with a chunk once it is written (it is dropped, or kept).
\<close>

primrec write_chunks ::
    "libs \<Rightarrow> (nat \<Rightarrow> open_file \<Rightarrow> open_file) \<Rightarrow> nat \<Rightarrow> nat list \<Rightarrow> ('a venom_fuse_scheme, errno, unit) op" where
  "write_chunks L after fh [] s = (Ok (), s)"
| "write_chunks L after fh (ci # cis) s = (case fu_open_files s fh of
       None \<Rightarrow> (Ok (), s)
     | Some fo \<Rightarrow>
         (case of_cache fo ci of
            None \<Rightarrow> write_chunks L after fh cis s
          | Some data \<Rightarrow>
              (case nth_opt ci (of_slot_map fo) of
                 Some (Some slot_id) \<Rightarrow>
                   then_op (eio (update_node L slot_id (data_node data)))
                     (\<lambda>_ s. write_chunks L after fh cis (upd_file fh (after ci) s)) s
               | Some None \<Rightarrow>
                   then_op (eio (write_node L (data_node data)))
                     (\<lambda>new_slot s. write_chunks L after fh cis (upd_file fh (after ci) (upd_file fh (set_slot ci new_slot) s))) s
               | None \<Rightarrow> write_chunks L after fh cis s)))"

definition write_through_flush :: "libs \<Rightarrow> nat \<Rightarrow> nat \<Rightarrow> ('a venom_fuse_scheme, errno, unit) op" where
  "write_through_flush L fh n s = (case fu_open_files s fh of
       None \<Rightarrow> (Ok (), s)
     | Some fo \<Rightarrow>
         (let to_flush = take n (sort (filter (\<lambda>ci. 1 \<le> ci) (hash_order L (of_dirty fo))))
          in write_chunks L drop_chunk fh to_flush s))"

definition chunk_count :: "nat \<Rightarrow> nat" where
  "chunk_count total_size = (if total_size = 0 then 0 else wrap64 (total_size + CHUNK_SIZE - 1) div CHUNK_SIZE)"

text \<open>Step 2: slots beyond the last chunk are freed.\<close>

definition drop_excess :: "libs \<Rightarrow> nat \<Rightarrow> nat \<Rightarrow> 'a venom_fuse_scheme \<Rightarrow> 'a venom_fuse_scheme" where
  "drop_excess L fh n_chunks s = (case fu_open_files s fh of
       None \<Rightarrow> s
     | Some fo \<Rightarrow>
         if max n_chunks 1 < length (of_slot_map fo)
         then upd_file fh (\<lambda>fo. fo\<lparr>of_slot_map := take (max n_chunks 1) (of_slot_map fo), of_meta_dirty := True\<rparr>)
           (free_all L (List.map_filter id (drop (max n_chunks 1) (of_slot_map fo))) s)
         else s)"

text \<open>Step 3: the head node and its index chain.\<close>

definition head_data :: "libs \<Rightarrow> open_file \<Rightarrow> 'a slot_store_scheme \<Rightarrow> (errno, bytes) outcome" where
  "head_data L fo s = (case of_cache fo 0 of
       Some d \<Rightarrow> Ok (case chunk_actual_size 0 (of_total_size fo) of Some sz \<Rightarrow> take sz d | None \<Rightarrow> d)
     | None \<Rightarrow> and_then (fetch L (of_head_slot fo) s) (\<lambda>node. case node of File fb \<Rightarrow> Ok (fb_data fb) | _ \<Rightarrow> Err EIO))"

definition continuation_slots :: "nat \<Rightarrow> nat option list \<Rightarrow> (errno, nat list) outcome" where
  "continuation_slots n_chunks slot_map =
     (let stop = min (max n_chunks 1) (length slot_map)
      in if stop < 1 then Panic ''slice index starts at 1 but ends at 0''
         else Ok (List.map_filter id (subrange 1 stop slot_map)))"

definition write_head :: "libs \<Rightarrow> nat \<Rightarrow> nat \<Rightarrow> open_file \<Rightarrow> ('a venom_fuse_scheme, errno, unit) op" where
  "write_head L fh n_chunks fo s =
     then_op (return_op (head_data L fo s)) (\<lambda>chunk0.
     then_op (return_op (continuation_slots n_chunks (of_slot_map fo))) (\<lambda>all_cont.
     then_op (free_index_chain L (of_index_chain fo)) (\<lambda>_.
     then_op (if length all_cont \<le> MAX_DIRECT_SLOTS then return_op (Ok (all_cont, None))
              else then_op (write_index_chain L (drop MAX_DIRECT_SLOTS all_cont))
                (\<lambda>chain. return_op (Ok (take MAX_DIRECT_SLOTS all_cont, chain)))) (\<lambda>(data_slots, new_chain) s.
       eio (update_node L (of_head_slot fo) (File \<lparr>fb_kind = KFile, fb_total_size = of_total_size fo,
           fb_data_slots = data_slots, fb_index_chain = new_chain, fb_data = chunk0\<rparr>))
         (upd_file fh (\<lambda>fo. fo\<lparr>of_index_chain := new_chain\<rparr>) s))))) s"

definition flush_fh :: "libs \<Rightarrow> nat \<Rightarrow> ('a venom_fuse_scheme, errno, unit) op" where
  "flush_fh L fh s = (case fu_open_files s fh of
       None \<Rightarrow> (Ok (), s)
     | Some fo0 \<Rightarrow>
         if of_dirty fo0 = {} \<and> \<not> of_meta_dirty fo0 then (Ok (), s)
         else
           (let n_chunks = chunk_count (of_total_size fo0)
            in then_op (write_chunks L (\<lambda>_ fo. fo) fh (filter (\<lambda>ci. 1 \<le> ci) (hash_order L (of_dirty fo0)))) (\<lambda>_ s.
               let s = drop_excess L fh n_chunks s;
                   fo = the (fu_open_files s fh)
               in then_op (if of_meta_dirty fo \<or> 0 \<in> of_dirty fo then write_head L fh n_chunks fo else return_op (Ok ()))
                    (\<lambda>_ s. (Ok (), upd_file fh (\<lambda>fo. fo\<lparr>of_dirty := {}, of_meta_dirty := False\<rparr>) s)) s) s))"

text \<open>\<open>flush_all\<close>: errors are dropped, a panic is not.\<close>

primrec flush_each :: "libs \<Rightarrow> nat list \<Rightarrow> ('a venom_fuse_scheme, errno, unit) op" where
  "flush_each L [] s = (Ok (), s)"
| "flush_each L (fh # fhs) s = (case flush_fh L fh s of
       (Panic p, s) \<Rightarrow> (Panic p, s)
     | (_, s) \<Rightarrow> flush_each L fhs s)"

definition flush_all :: "libs \<Rightarrow> ('a venom_fuse_scheme, errno, unit) op" where
  "flush_all L s =
     then_op (flush_each L (hash_order L (dom (fu_open_files s)))) (\<lambda>_ s. case flush L s of
         (Panic p, s) \<Rightarrow> (Panic p, s)
       | (_, s) \<Rightarrow> (Ok (), s)) s"

section \<open>File operations\<close>

definition op_open :: "libs \<Rightarrow> nat \<Rightarrow> ('a venom_fuse_scheme, errno, nat) op" where
  "op_open L ino =
     then_op (slot_of_ino ino) (\<lambda>head_slot s.
     then_op (return_op (build_slot_map L head_slot s)) (\<lambda>(total_size, index_chain, slot_map).
     then_op (return_op (and_then (fetch L head_slot s) (\<lambda>node. case node of File fb \<Rightarrow> Ok (fb_data fb) | _ \<Rightarrow> Err EISDIR)))
       (\<lambda>chunk0 s.
         let cache = (if chunk0 = [] then Map.empty else [0 \<mapsto> chunk0]);
             slot_map = (if slot_map = [] then [None] else slot_map);
             (fh, s) = alloc_fh s
         in (Ok fh, put_file fh \<lparr>of_ino = ino, of_head_slot = head_slot, of_total_size = total_size,
              of_index_chain = index_chain, of_slot_map = slot_map, of_cache = cache, of_dirty = {},
              of_meta_dirty = False\<rparr> s))) s)"

definition op_flush :: "libs \<Rightarrow> nat \<Rightarrow> ('a venom_fuse_scheme, errno, unit) op" where
  "op_flush L fh = flush_fh L fh"

definition op_release :: "libs \<Rightarrow> nat \<Rightarrow> ('a venom_fuse_scheme, errno, unit) op" where
  "op_release L fh = then_op (flush_fh L fh) (\<lambda>_ s. (Ok (), s\<lparr>fu_open_files := (fu_open_files s)(fh := None)\<rparr>))"

text \<open>The loop of \<open>op_read\<close> from \<open>pos\<close> to \<open>stop\<close>.\<close>

function read_loop :: "libs \<Rightarrow> nat \<Rightarrow> nat \<Rightarrow> nat \<Rightarrow> bytes \<Rightarrow> ('a venom_fuse_scheme, errno, bytes) op" where
  "read_loop L fh stop pos result s =
     (if pos < stop then
        (case fu_open_files s fh of
           None \<Rightarrow> (Err ENOENT, s)
         | Some fo \<Rightarrow>
             (case ensure_cached L fo (pos div CHUNK_SIZE) s of
                Err e \<Rightarrow> (Err e, s)
              | Panic p \<Rightarrow> (Panic p, s)
              | Ok fo \<Rightarrow>
                  (case of_cache fo (pos div CHUNK_SIZE) of
                     None \<Rightarrow> (Err EIO, put_file fh fo s)
                   | Some data \<Rightarrow>
                       (let off = pos mod CHUNK_SIZE;
                            tk = min (length data - off) (stop - pos)
                        in if tk = 0 then (Ok result, put_file fh fo s)
                           else read_loop L fh stop (pos + tk) (result @ subrange off (off + tk) data) (put_file fh fo s)))))
      else (Ok result, s))"
  by pat_completeness auto

termination
  by (relation "measure (\<lambda>(L, fh, stop, pos, result, s). stop - pos)") auto

declare read_loop.simps [simp del]

definition op_read :: "libs \<Rightarrow> nat \<Rightarrow> nat \<Rightarrow> nat \<Rightarrow> ('a venom_fuse_scheme, errno, bytes) op" where
  "op_read L fh offset sz s = (case fu_open_files s fh of
       None \<Rightarrow> (Err ENOENT, s)
     | Some fo \<Rightarrow>
         (let total = of_total_size fo
          in if total \<le> offset then (Ok [], s)
             else
               (let stop = min (wrap64 (offset + sz)) total
                in if stop < offset then (Panic ''capacity overflow'', s)
                   else read_loop L fh stop offset [] s)))"

text \<open>One chunk of a write: the slot map grows to hold it, it is loaded or created, and patched.\<close>

definition grow_map :: "nat \<Rightarrow> open_file \<Rightarrow> open_file" where
  "grow_map ci fo =
     (if length (of_slot_map fo) \<le> ci
      then fo\<lparr>of_slot_map := of_slot_map fo @ replicate (Suc ci - length (of_slot_map fo)) None, of_meta_dirty := True\<rparr>
      else fo)"

definition chunk_for_write :: "libs \<Rightarrow> open_file \<Rightarrow> nat \<Rightarrow> 'a slot_store_scheme \<Rightarrow> (errno, open_file) outcome" where
  "chunk_for_write L fo ci s =
     (if of_cache fo ci = None then
        (if of_slot_map fo ! ci \<noteq> None \<or> ci = 0 then ensure_cached L fo ci s
         else Ok (cache_insert ci (replicate CHUNK_SIZE 0) fo))
      else Ok fo)"

definition patch_chunk :: "nat \<Rightarrow> nat \<Rightarrow> bytes \<Rightarrow> bytes \<Rightarrow> nat \<Rightarrow> open_file \<Rightarrow> open_file" where
  "patch_chunk ci coff piece chunk stop fo =
     (let write_end = coff + length piece;
          chunk = (if length chunk < write_end then chunk @ replicate (write_end - length chunk) 0 else chunk);
          fo = fo\<lparr>of_cache := (of_cache fo)(ci \<mapsto> blit coff piece chunk), of_dirty := insert ci (of_dirty fo)\<rparr>;
          new_total = max stop (of_total_size fo)
      in if new_total \<noteq> of_total_size fo then fo\<lparr>of_total_size := new_total, of_meta_dirty := True\<rparr> else fo)"

function write_loop :: "libs \<Rightarrow> nat \<Rightarrow> nat \<Rightarrow> bytes \<Rightarrow> nat \<Rightarrow> nat \<Rightarrow> ('a venom_fuse_scheme, errno, unit) op" where
  "write_loop L fh offset data stop pos s =
     (if pos < stop then
        (let ci = pos div CHUNK_SIZE;
             coff = pos mod CHUNK_SIZE;
             tk = min (CHUNK_SIZE - coff) (stop - pos)
         in case fu_open_files s fh of
              None \<Rightarrow> (Err ENOENT, s)
            | Some fo \<Rightarrow>
                (let fo = grow_map ci fo
                 in case chunk_for_write L fo ci s of
                      Err e \<Rightarrow> (Err e, put_file fh fo s)
                    | Panic p \<Rightarrow> (Panic p, put_file fh fo s)
                    | Ok fo \<Rightarrow>
                        (case of_cache fo ci of
                           None \<Rightarrow> (Err EIO, put_file fh fo s)
                         | Some chunk \<Rightarrow>
                             write_loop L fh offset data stop (pos + tk)
                               (put_file fh (patch_chunk ci coff (subrange (pos - offset) (pos - offset + tk) data)
                                  chunk stop fo) s))))
      else (Ok (), s))"
  by pat_completeness auto

termination
proof (relation "measure (\<lambda>(L, fh, offset, data, stop, pos, s). stop - pos)", goal_cases)
  case 1
  show ?case by simp
next
  case (2 L fh offset data stop pos s ci coff tk fo fo' fo'' chunk)
  have "pos mod CHUNK_SIZE < CHUNK_SIZE" by simp
  then have "0 < tk" using 2(1,3,4) by simp
  then show ?case using 2(1) by simp
qed

declare write_loop.simps [simp del]

definition dirty_continuations :: "'a venom_fuse_scheme \<Rightarrow> nat \<Rightarrow> nat" where
  "dirty_continuations s fh = (case fu_open_files s fh of None \<Rightarrow> 0 | Some fo \<Rightarrow> card {ci \<in> of_dirty fo. 1 \<le> ci})"

definition op_write :: "libs \<Rightarrow> nat \<Rightarrow> nat \<Rightarrow> bytes \<Rightarrow> ('a venom_fuse_scheme, errno, nat) op" where
  "op_write L fh offset data =
     then_op (write_loop L fh offset data (wrap64 (offset + length data)) offset) (\<lambda>_ s.
       let dirty_cont = dirty_continuations s fh
       in then_op (if WRITE_THROUGH_THRESHOLD < dirty_cont
                   then write_through_flush L fh (dirty_cont - WRITE_THROUGH_THRESHOLD div 2)
                   else return_op (Ok ()))
            (\<lambda>_. return_op (Ok (length data mod 2 ^ 32))) s)"

text \<open>Truncation and extension of an open file.\<close>

definition resize_open :: "nat \<Rightarrow> open_file \<Rightarrow> open_file" where
  "resize_open new_size fo =
     (let fo = (if new_size < of_total_size fo then
           (let last_ci = (if new_size = 0 then 0 else (new_size - 1) div CHUNK_SIZE);
                last_sz = (if new_size = 0 then 0
                           else case chunk_actual_size last_ci new_size of Some n \<Rightarrow> n | None \<Rightarrow> 0);
                cache = (of_cache fo) |` {k. k \<le> last_ci};
                cache = (case cache last_ci of Some v \<Rightarrow> cache(last_ci \<mapsto> take last_sz v) | None \<Rightarrow> cache);
                dirty = {k \<in> of_dirty fo. k \<le> last_ci}
            in fo\<lparr>of_cache := cache, of_dirty := (if 0 < new_size then insert last_ci dirty else dirty)\<rparr>)
         else fo)
      in fo\<lparr>of_total_size := new_size, of_meta_dirty := True\<rparr>)"

definition resize_closed :: "libs \<Rightarrow> nat \<Rightarrow> nat \<Rightarrow> ('a venom_fuse_scheme, errno, unit) op" where
  "resize_closed L head_slot new_size =
     then_op (eio (read_node L head_slot)) (\<lambda>node. case node of
         File fb \<Rightarrow>
           if new_size < fb_total_size fb then
             (let n_chunks = chunk_count new_size;
                  keep = n_chunks - 1
              in (\<lambda>s. then_op (free_index_chain L (fb_index_chain fb)) (\<lambda>_.
                   eio (update_node L head_slot (File \<lparr>fb_kind = KFile, fb_total_size = new_size,
                     fb_data_slots = take (min keep (length (fb_data_slots fb))) (fb_data_slots fb),
                     fb_index_chain = None,
                     fb_data = (if n_chunks = 0 then [] else take new_size (fb_data fb))\<rparr>)))
                 (if keep < length (fb_data_slots fb) then free_all L (drop keep (fb_data_slots fb)) s else s)))
           else eio (update_node L head_slot (File (fb\<lparr>fb_total_size := new_size\<rparr>)))
       | _ \<Rightarrow> return_op (Err EIO))"

definition handle_for :: "libs \<Rightarrow> nat \<Rightarrow> 'a venom_fuse_scheme \<Rightarrow> nat option" where
  "handle_for L ino s =
     find (\<lambda>fh. \<exists>fo. fu_open_files s fh = Some fo \<and> of_ino fo = ino) (hash_order L (dom (fu_open_files s)))"

definition op_setattr_size :: "libs \<Rightarrow> nat \<Rightarrow> nat option \<Rightarrow> nat \<Rightarrow> ('a venom_fuse_scheme, errno, unit) op" where
  "op_setattr_size L ino fh_hint new_size s =
     (case (case fh_hint of Some fh \<Rightarrow> Some fh | None \<Rightarrow> handle_for L ino s) of
        Some fh \<Rightarrow>
          (case fu_open_files s fh of
             None \<Rightarrow> (Err ENOENT, s)
           | Some fo \<Rightarrow> if new_size = of_total_size fo then (Ok (), s) else (Ok (), put_file fh (resize_open new_size fo) s))
      | None \<Rightarrow> then_op (slot_of_ino ino) (\<lambda>head_slot. resize_closed L head_slot new_size) s)"

end
