(* ===== verification/Fuse_Handlers.thy ===== *)
theory Fuse_Handlers
  imports Fuse
begin

text \<open>
  The request handlers of the FUSE adapter (impl Filesystem for VenomFuse in fs/fuse.rs):
  attributes, and for every request the reply the kernel gets. A name arrives as \<open>None\<close>
  when it is not valid UTF-8. The user and group of the process are parameters.
\<close>

section \<open>Attributes\<close>

datatype file_type = FtDirectory | FtRegularFile

record file_attr =
  fa_ino :: nat
  fa_size :: nat
  fa_blocks :: nat
  fa_kind :: file_type
  fa_perm :: nat
  fa_nlink :: nat
  fa_uid :: nat
  fa_gid :: nat
  fa_rdev :: nat
  fa_blksize :: nat
  fa_flags :: nat

definition blocks_of :: "nat \<Rightarrow> nat" where
  "blocks_of sz = wrap64 (sz + 511) div 512"

definition make_dir_attr :: "nat \<times> nat \<Rightarrow> nat \<Rightarrow> file_attr" where
  "make_dir_attr ids ino =
     \<lparr>fa_ino = ino, fa_size = 0, fa_blocks = 0, fa_kind = FtDirectory, fa_perm = 493, fa_nlink = 2,
      fa_uid = fst ids, fa_gid = snd ids, fa_rdev = 0, fa_blksize = 512, fa_flags = 0\<rparr>"

definition make_file_attr :: "nat \<times> nat \<Rightarrow> nat \<Rightarrow> nat \<Rightarrow> file_attr" where
  "make_file_attr ids ino sz =
     \<lparr>fa_ino = ino, fa_size = sz, fa_blocks = blocks_of sz, fa_kind = FtRegularFile, fa_perm = 420, fa_nlink = 1,
      fa_uid = fst ids, fa_gid = snd ids, fa_rdev = 0, fa_blksize = 4096, fa_flags = 0\<rparr>"

fun make_attr :: "nat \<times> nat \<Rightarrow> nat \<Rightarrow> vault_node \<Rightarrow> file_attr" where
  "make_attr ids ino (Directory d) = make_dir_attr ids ino"
| "make_attr ids ino (File f) = make_file_attr ids ino (fb_total_size f)"
| "make_attr ids ino node = make_file_attr ids ino 0"

definition cached_size_for_ino :: "libs \<Rightarrow> nat \<Rightarrow> 'a venom_fuse_scheme \<Rightarrow> nat option" where
  "cached_size_for_ino L ino s =
     (case handle_for L ino s of None \<Rightarrow> None | Some fh \<Rightarrow> map_option of_total_size (fu_open_files s fh))"

definition with_cached_size :: "libs \<Rightarrow> nat \<Rightarrow> file_attr \<Rightarrow> 'a venom_fuse_scheme \<Rightarrow> file_attr" where
  "with_cached_size L ino attr s = (case cached_size_for_ino L ino s of
       None \<Rightarrow> attr
     | Some sz \<Rightarrow> attr\<lparr>fa_size := sz, fa_blocks := blocks_of sz\<rparr>)"

definition is_file :: "vault_node \<Rightarrow> bool" where
  "is_file node = (case node of File f \<Rightarrow> True | _ \<Rightarrow> False)"

section \<open>Requests\<close>

definition fs_lookup :: "libs \<Rightarrow> nat \<times> nat \<Rightarrow> nat \<Rightarrow> string option \<Rightarrow> ('a venom_fuse_scheme, errno, file_attr) op" where
  "fs_lookup L ids parent name = (case name of
       None \<Rightarrow> return_op (Err ENOENT)
     | Some name \<Rightarrow> then_op (op_lookup L parent name) (\<lambda>(ino, node) s.
         let attr = make_attr ids ino node
         in (Ok (if is_file node then with_cached_size L ino attr s else attr), s)))"

definition fs_getattr :: "libs \<Rightarrow> nat \<times> nat \<Rightarrow> nat \<Rightarrow> ('a venom_fuse_scheme, errno, file_attr) op" where
  "fs_getattr L ids ino =
     then_op (slot_of_ino ino) (\<lambda>slot.
     then_op (eio (read_node L slot)) (\<lambda>node s. (Ok (with_cached_size L ino (make_attr ids ino node) s), s)))"

definition fs_setattr ::
    "libs \<Rightarrow> nat \<times> nat \<Rightarrow> nat \<Rightarrow> nat option \<Rightarrow> nat option \<Rightarrow> ('a venom_fuse_scheme, errno, file_attr) op" where
  "fs_setattr L ids ino sz fh =
     then_op (case sz of Some new_size \<Rightarrow> op_setattr_size L ino fh new_size | None \<Rightarrow> return_op (Ok ()))
       (\<lambda>_. fs_getattr L ids ino)"

text \<open>
  \<open>full listed e\<close>: the reply buffer that holds \<open>listed\<close> has no room for \<open>e\<close>. An entry is
  its inode, the offset that follows it, its type and its name.
\<close>

type_synonym listed_entry = "nat \<times> nat \<times> file_type \<times> string"

primrec fill_reply :: "(listed_entry list \<Rightarrow> listed_entry \<Rightarrow> bool) \<Rightarrow> listed_entry list \<Rightarrow> listed_entry list \<Rightarrow> listed_entry list" where
  "fill_reply full listed [] = listed"
| "fill_reply full listed (e # es) = (if full listed e then listed else fill_reply full (listed @ [e]) es)"

definition entry_type :: "dir_entry \<Rightarrow> file_type" where
  "entry_type e = (if de_kind e = KDirectory then FtDirectory else FtRegularFile)"

definition fs_readdir ::
    "libs \<Rightarrow> (listed_entry list \<Rightarrow> listed_entry \<Rightarrow> bool) \<Rightarrow> nat \<Rightarrow> nat \<Rightarrow> ('a venom_fuse_scheme, errno, listed_entry list) op" where
  "fs_readdir L full ino offset =
     then_op (slot_of_ino ino) (\<lambda>slot.
     then_op (read_dir_block L slot) (\<lambda>dir s.
       let (children, m) = assign_all get_or_alloc (map de_slot (db_entries dir)) (fu_inodes s);
           entries = (ino, FtDirectory, ''.'') # (ino, FtDirectory, ''..'') #
             map2 (\<lambda>i e. (i, entry_type e, de_name e)) children (db_entries dir);
           numbered = map2 (\<lambda>k (i, ft, name). (i, k + 1, ft, name)) [0..<length entries] entries
       in (Ok (fill_reply full [] (drop offset numbered)), s\<lparr>fu_inodes := m\<rparr>)))"

definition fs_mkdir :: "libs \<Rightarrow> nat \<times> nat \<Rightarrow> nat \<Rightarrow> string option \<Rightarrow> ('a venom_fuse_scheme, errno, file_attr) op" where
  "fs_mkdir L ids parent name = (case name of
       None \<Rightarrow> return_op (Err EINVAL)
     | Some name \<Rightarrow> then_op (op_mkdir L parent name) (\<lambda>(ino, node). return_op (Ok (make_attr ids ino node))))"

definition fs_rmdir :: "libs \<Rightarrow> nat \<Rightarrow> string option \<Rightarrow> ('a venom_fuse_scheme, errno, unit) op" where
  "fs_rmdir L parent name = (case name of None \<Rightarrow> return_op (Err EINVAL) | Some name \<Rightarrow> op_rmdir L parent name)"

definition fs_create :: "libs \<Rightarrow> nat \<times> nat \<Rightarrow> nat \<Rightarrow> string option \<Rightarrow> ('a venom_fuse_scheme, errno, file_attr \<times> nat) op" where
  "fs_create L ids parent name = (case name of
       None \<Rightarrow> return_op (Err EINVAL)
     | Some name \<Rightarrow> then_op (op_create L parent name) (\<lambda>(ino, fh). return_op (Ok (make_file_attr ids ino 0, fh))))"

definition fs_unlink :: "libs \<Rightarrow> nat \<Rightarrow> string option \<Rightarrow> ('a venom_fuse_scheme, errno, unit) op" where
  "fs_unlink L parent name = (case name of None \<Rightarrow> return_op (Err EINVAL) | Some name \<Rightarrow> op_unlink L parent name)"

definition fs_rename ::
    "libs \<Rightarrow> nat \<Rightarrow> string option \<Rightarrow> nat \<Rightarrow> string option \<Rightarrow> ('a venom_fuse_scheme, errno, unit) op" where
  "fs_rename L parent name newparent newname = (case (name, newname) of
       (Some name, Some newname) \<Rightarrow> op_rename L parent name newparent newname
     | _ \<Rightarrow> return_op (Err EINVAL))"

definition fs_open :: "libs \<Rightarrow> nat \<Rightarrow> ('a venom_fuse_scheme, errno, nat) op" where
  "fs_open L ino = op_open L ino"

text \<open>A release replies success also when its flush failed.\<close>

definition fs_release :: "libs \<Rightarrow> nat \<Rightarrow> ('a venom_fuse_scheme, errno, unit) op" where
  "fs_release L fh s = (case op_release L fh s of (Panic p, s) \<Rightarrow> (Panic p, s) | (_, s) \<Rightarrow> (Ok (), s))"

definition fs_flush :: "libs \<Rightarrow> nat \<Rightarrow> ('a venom_fuse_scheme, errno, unit) op" where
  "fs_flush L fh = op_flush L fh"

definition fs_fsync :: "libs \<Rightarrow> nat \<Rightarrow> ('a venom_fuse_scheme, errno, unit) op" where
  "fs_fsync L fh = op_flush L fh"

text \<open>An \<open>i64\<close> offset is used as an unsigned machine word.\<close>

definition as_usize :: "int \<Rightarrow> nat" where
  "as_usize i = nat (i mod 2 ^ 64)"

definition fs_read_file :: "libs \<Rightarrow> nat \<Rightarrow> int \<Rightarrow> nat \<Rightarrow> ('a venom_fuse_scheme, errno, bytes) op" where
  "fs_read_file L fh offset sz = op_read L fh (as_usize offset) sz"

definition fs_write_file :: "libs \<Rightarrow> nat \<Rightarrow> int \<Rightarrow> bytes \<Rightarrow> ('a venom_fuse_scheme, errno, nat) op" where
  "fs_write_file L fh offset data = op_write L fh (as_usize offset) data"

text \<open>Total blocks, free blocks (twice), files, free files, block size, name length, fragment size.\<close>

definition fs_statfs :: "'a venom_fuse_scheme \<Rightarrow> nat list" where
  "fs_statfs s = [vc_outer_limit s, length (free_list s), length (free_list s), 2 ^ 20, 2 ^ 20, 4096, 255, 4096]"

definition fs_drop :: "libs \<Rightarrow> ('a venom_fuse_scheme, errno, unit) op" where
  "fs_drop L = flush_all L"

end
