(* ===== verification/Fuse_Nodes.thy ===== *)
theory Fuse_Nodes
  imports Fuse_Handlers
begin

text \<open>
  The container as the file system uses it: a heap of nodes. The interface \<open>node_heap\<close>
  extends the device of nodes by allocation and release, and its notion of a frame says
  what an operation may touch: the slots it names and slots that were free. Frames
  compose, so each file system operation is described by the union of what its steps
  touch.
\<close>

section \<open>The interface: a heap of nodes\<close>

locale node_heap = slot_device inv valid payload rd wr
  for inv :: "'l \<Rightarrow> 's \<Rightarrow> bool" and valid :: "'s \<Rightarrow> nat \<Rightarrow> bool" and payload :: "'d \<Rightarrow> bool"
    and rd :: "'l \<Rightarrow> nat \<Rightarrow> ('s, 'e, 'd) op" and wr :: "'l \<Rightarrow> nat \<Rightarrow> 'd \<Rightarrow> ('s, 'e, unit) op" +
  fixes owned :: "'s \<Rightarrow> nat set"
    and avail :: "'s \<Rightarrow> nat set"
    and new :: "'l \<Rightarrow> 'd \<Rightarrow> ('s, 'e, nat) op"
    and del :: "'l \<Rightarrow> nat \<Rightarrow> 's \<Rightarrow> 's"
  assumes owned_valid: "i \<in> owned s \<Longrightarrow> valid s i"
    and avail_owned: "inv L s \<Longrightarrow> avail s \<subseteq> owned s"
    and wr_slots: "inv L s \<Longrightarrow> valid s i \<Longrightarrow> wr L i d s = (r, s') \<Longrightarrow> owned s' = owned s \<and> avail s' = avail s"
    and new_frame: "inv L s \<Longrightarrow> new L d s = (q, s') \<Longrightarrow> inv L s' \<and> valid s' = valid s \<and> owned s' = owned s \<and>
      avail s' \<subseteq> avail s \<and> (\<forall>j \<in> owned s - avail s. fst (rd L j s') = fst (rd L j s))"
    and new_Ok: "inv L s \<Longrightarrow> payload d \<Longrightarrow> new L d s = (Ok i, s') \<Longrightarrow>
      i \<in> avail s \<and> avail s' = avail s - {i} \<and> fst (rd L i s') = Ok d"
    and del_spec: "inv L s \<Longrightarrow> i \<in> owned s \<Longrightarrow> i \<notin> avail s \<Longrightarrow> inv L (del L i s) \<and> valid (del L i s) = valid s \<and>
      owned (del L i s) = owned s \<and> avail (del L i s) = insert i (avail s) \<and>
      (\<forall>j. valid s j \<longrightarrow> j \<noteq> i \<longrightarrow> fst (rd L j (del L i s)) = fst (rd L j s))"
begin

definition live :: "'s \<Rightarrow> nat set" where
  "live s = owned s - avail s"

definition frame :: "'l \<Rightarrow> nat set \<Rightarrow> 's \<Rightarrow> 's \<Rightarrow> bool" where
  "frame L X s s' \<longleftrightarrow> inv L s' \<and> valid s' = valid s \<and> owned s' = owned s \<and> avail s' \<subseteq> avail s \<union> X \<and>
     (\<forall>j \<in> live s - X. fst (rd L j s') = fst (rd L j s))"

lemma frame_refl: "inv L s \<Longrightarrow> frame L X s s"
  by (auto simp: frame_def)

lemma frame_trans:
  assumes "frame L X s s1" "frame L Y s1 s2"
  shows "frame L (X \<union> Y) s s2"
proof -
  have "fst (rd L j s2) = fst (rd L j s)" if "j \<in> live s - (X \<union> Y)" for j
  proof -
    have "j \<in> live s1 - Y" "j \<in> live s - X" using that assms(1) by (auto simp: frame_def live_def)
    then show ?thesis using assms by (simp add: frame_def)
  qed
  then show ?thesis using assms by (auto simp: frame_def)
qed

lemma frame_mono: "frame L X s s' \<Longrightarrow> X \<subseteq> Y \<Longrightarrow> frame L Y s s'"
  unfolding frame_def by blast

lemma frame_avail: "frame L X s s' \<Longrightarrow> X \<subseteq> Y \<union> avail s \<Longrightarrow> frame L Y s s'"
  by (auto simp: frame_def live_def)

lemma frame_same: "frame L X s s1 \<Longrightarrow> frame L X s1 s2 \<Longrightarrow> frame L X s s2"
  using frame_trans [of L X s s1 X s2] by simp

lemma frame_inv: "frame L X s s' \<Longrightarrow> inv L s'"
  by (simp add: frame_def)

lemma frame_live: "frame L X s s' \<Longrightarrow> i \<in> live s \<Longrightarrow> i \<notin> X \<Longrightarrow> i \<in> live s'"
  by (auto simp: frame_def live_def)

lemma frame_read: "frame L X s s' \<Longrightarrow> i \<in> live s \<Longrightarrow> i \<notin> X \<Longrightarrow> fst (rd L i s') = fst (rd L i s)"
  by (simp add: frame_def)

lemma live_valid: "i \<in> live s \<Longrightarrow> valid s i"
  by (simp add: live_def owned_valid)

lemma frame_wr:
  assumes "inv L s" "valid s i" "wr L i d s = (r, s')"
  shows "frame L {i} s s'" "live s' = live s"
proof -
  note w = write_inv [OF assms] wr_slots [OF assms]
  have "fst (rd L j s') = fst (rd L j s)" if "j \<in> live s" "j \<noteq> i" for j
    by (rule read_other [OF assms(1,2) live_valid [OF that(1)] that(2) assms(3)])
  then show "frame L {i} s s'" "live s' = live s" using w by (auto simp: frame_def live_def)
qed

lemma frame_new:
  assumes "inv L s" "new L d s = (r, s')"
  shows "frame L {} s s'"
  using new_frame [OF assms] by (auto simp: frame_def live_def)

lemma new_live:
  assumes "inv L s" "payload d" "new L d s = (Ok i, s')"
  shows "i \<in> live s'" "i \<notin> live s" "live s' = insert i (live s)"
  using new_Ok [OF assms] new_frame [OF assms(1,3)] avail_owned [OF assms(1)] by (auto simp: live_def)

lemma frame_del:
  assumes "inv L s" "i \<in> live s"
  shows "frame L {i} s (del L i s)" "live (del L i s) = live s - {i}"
proof -
  have "i \<in> owned s" "i \<notin> avail s" using assms(2) by (simp_all add: live_def)
  note d = del_spec [OF assms(1) this]
  then have "fst (rd L j (del L i s)) = fst (rd L j s)" if "j \<in> live s" "j \<noteq> i" for j
    using live_valid [OF that(1)] that(2) by blast
  with d show "frame L {i} s (del L i s)" "live (del L i s) = live s - {i}" by (auto simp: frame_def live_def)
qed

text \<open>Releasing distinct live slots one after the other.\<close>

lemma frame_del_all:
  assumes "inv L s" "set is \<subseteq> live s" "distinct is"
  shows "frame L (set is) s (fold (del L) is s) \<and> live (fold (del L) is s) = live s - set is"
  using assms
proof (induction "is" arbitrary: s)
  case Nil
  then show ?case by (simp add: frame_refl)
next
  case (Cons i "is")
  have "i \<in> live s" using Cons.prems by simp
  note d = frame_del [OF Cons.prems(1) this]
  have "set is \<subseteq> live (del L i s)" using Cons.prems d(2) by auto
  with Cons.IH [OF frame_inv [OF d(1)] this] Cons.prems
  have "frame L (set is) (del L i s) (fold (del L) is (del L i s))"
    "live (fold (del L) is (del L i s)) = live (del L i s) - set is" by simp_all
  with frame_trans [OF d(1) this(1)] d(2) show ?case by auto
qed

end

section \<open>The container provides it\<close>

text \<open>The states a \<open>write_node\<close> can end in, whatever its result.\<close>

lemma write_node_states:
  assumes "write_node L n s = (r, s')"
  obtains "s' = s" | i where "alloc s = (Ok i, s')"
    | i s1 data q where "alloc s = (Ok i, s1)" "store_write L i data s1 = (q, s')"
proof (cases "fst (alloc s)")
  case (Ok i)
  obtain s1 where a: "alloc s = (Ok i, s1)" using Ok by (metis prod.collapse)
  show thesis
  proof (cases "msgpack_enc L n")
    case None
    with assms a show thesis by (intro that(2) [of i]) (simp add: write_node_def)
  next
    case (Some data)
    obtain q s2 where w: "store_write L i data s1 = (q, s2)" by fastforce
    with assms a Some have "s2 = s'" by (cases q) (simp_all add: write_node_def)
    with a w show thesis by (intro that(3)) simp_all
  qed
next
  case (Err x)
  then have "alloc s = (Err x, s)" by (auto simp: alloc_def split: if_splits)
  with assms show thesis by (intro that(1)) (simp add: write_node_def)
next
  case (Panic p)
  then show thesis by (auto simp: alloc_def split: if_splits)
qed

lemma alloc_store_read:
  assumes "store_inv s" "alloc s = (Ok i, s1)" "in_volume s j"
  shows "fst (store_read L j s1) = fst (store_read L j s)"
proof -
  have s1: "s1 = s\<lparr>free_list := butlast (free_list s)\<rparr>"
    using assms(2) by (simp add: alloc_def split: if_splits)
  show ?thesis using assms(1,3) by (simp add: store_read_inside store_inv_def in_volume_def s1)
qed

lemma alloc_reads:
  assumes "node_inv L s" "alloc s = (Ok i, s1)"
  shows "node_inv L s1" "in_volume s1 = in_volume s" "pool_owned s1 = pool_owned s" "free_set s1 = free_set s - {i}"
    "i \<in> free_set s" "in_volume s1 i" "in_volume s j \<Longrightarrow> fst (read_node L j s1) = fst (read_node L j s)"
proof -
  have inv: "store_inv s" using assms(1) by (simp add: node_inv_def)
  note td = pool.take_D [OF inv assms(2)]
  have s1: "s1 = s\<lparr>free_list := butlast (free_list s)\<rparr>"
    using assms(2) by (simp add: alloc_def split: if_splits)
  show "node_inv L s1" "pool_owned s1 = pool_owned s" "free_set s1 = free_set s - {i}" "i \<in> free_set s"
    using assms(1) td by (simp_all add: node_inv_def)
  show "in_volume s1 = in_volume s" by (simp add: s1 in_volume_def fun_eq_iff)
  then show "in_volume s1 i" using td pool.avail_owned [OF inv] by (auto simp: pool_owned_def in_volume_def)
  show "fst (read_node L j s1) = fst (read_node L j s)" if "in_volume s j"
    by (simp add: read_node_fst alloc_store_read [OF inv assms(2) that])
qed

lemma store_write_node:
  assumes "node_inv L s" "in_volume s i" "store_write L i data s = (r, s')"
  shows "node_inv L s'" "in_volume s' = in_volume s" "pool_owned s' = pool_owned s" "free_set s' = free_set s"
    "in_volume s j \<Longrightarrow> j \<noteq> i \<Longrightarrow> fst (read_node L j s') = fst (read_node L j s)"
proof -
  have sv: "same_volume s s'"
    by (rule store_write_same_volume [OF _ _ assms(3)])
      (use assms in \<open>auto simp: node_inv_def store_inv_def in_volume_def\<close>)
  show "node_inv L s'" using assms(1) same_volume_inv [OF sv] by (simp add: node_inv_def)
  show "in_volume s' = in_volume s" "pool_owned s' = pool_owned s" "free_set s' = free_set s"
    using same_volume_fields [OF sv] by (simp_all add: in_volume_def pool_owned_def free_set_def fun_eq_iff)
  show "fst (read_node L j s') = fst (read_node L j s)" if "in_volume s j" "j \<noteq> i"
    using dev.read_other [OF node_inv_device [OF assms(1)] assms(2) that assms(3)] by (simp add: read_node_fst)
qed

lemma wipe_state:
  assumes "store_inv s" "in_volume s i"
  shows "same_volume s (snd (wipe L i s))"
    "j < slot_limit s \<Longrightarrow> j \<noteq> i \<Longrightarrow> slot_image j (sys_file (snd (wipe L i s))) = slot_image j (sys_file s)"
proof -
  have v: "volume_ok s" "i < slot_limit s" using assms by (simp_all add: store_inv_def in_volume_def)
  show "same_volume s (snd (wipe L i s))" by (rule wipe_same_volume [OF v])
  show "slot_image j (sys_file (snd (wipe L i s))) = slot_image j (sys_file s)" if "j < slot_limit s" "j \<noteq> i"
    using slot_image_write_other [OF v that] by (simp add: wipe_inside [OF v])
qed

lemma free_node_store_read:
  assumes "store_inv s" "i \<in> pool_owned s" "i \<notin> free_set s" "in_volume s j" "j \<noteq> i"
  shows "fst (store_read L j (free_node L i s)) = fst (store_read L j s)"
proof -
  have iv: "in_volume s i" using assms(2) by (auto simp: pool_owned_def in_volume_def)
  note f = free_slot_inv [OF assms(1-3)] and w = wipe_state [OF assms(1) iv]
  note sf = same_volume_fields [OF w(1)]
  have l: "volume_ok s" "j < slot_limit s" using assms(1,4) by (simp_all add: store_inv_def in_volume_def)
  have "volume_ok (free_node L i s)" "j < slot_limit (free_node L i s)"
    using f l(2) by (simp_all add: free_node_def store_inv_def) (simp add: free_slot_eq Let_def sf)
  then show ?thesis
    using l w(2) [OF l(2) assms(5)]
    by (simp add: store_read_inside) (simp add: free_node_def free_slot_eq Let_def sf)
qed

lemma free_node_reads:
  assumes "node_inv L s" "i \<in> pool_owned s" "i \<notin> free_set s"
  shows "node_inv L (free_node L i s)" "in_volume (free_node L i s) = in_volume s"
    "pool_owned (free_node L i s) = pool_owned s" "free_set (free_node L i s) = insert i (free_set s)"
    "in_volume s j \<Longrightarrow> j \<noteq> i \<Longrightarrow> fst (read_node L j (free_node L i s)) = fst (read_node L j s)"
proof -
  have inv: "store_inv s" and iv: "in_volume s i"
    using assms by (auto simp: node_inv_def pool_owned_def in_volume_def)
  note f = free_slot_inv [OF inv assms(2,3)] and w = wipe_state [OF inv iv]
  show "node_inv L (free_node L i s)" "pool_owned (free_node L i s) = pool_owned s"
    "free_set (free_node L i s) = insert i (free_set s)"
    using f assms(1) by (simp_all add: free_node_def node_inv_def)
  show "in_volume (free_node L i s) = in_volume s"
    by (simp add: free_node_def free_slot_eq Let_def in_volume_def fun_eq_iff same_volume_fields [OF w(1)])
  show "fst (read_node L j (free_node L i s)) = fst (read_node L j s)" if "in_volume s j" "j \<noteq> i"
    by (simp add: read_node_fst free_node_store_read [OF inv assms(2,3) that])
qed

interpretation heap: node_heap node_inv in_volume any_node read_node update_node pool_owned free_set write_node free_node
proof (unfold_locales, goal_cases)
  case (1 i s)
  then show ?case by (simp add: pool_owned_def in_volume_def)
next
  case (2 L s)
  then show ?case using pool.avail_owned by (auto simp: node_inv_def)
next
  case (3 L s i d r s')
  from 3(3) show ?case
    by (cases rule: update_node_cases) (use store_write_node [OF 3(1,2)] in auto)
next
  case (4 L s d q s')
  from 4(2) show ?case
  proof (cases rule: write_node_states)
    case 1
    with 4 show ?thesis by simp
  next
    case (2 i)
    from alloc_reads [OF 4(1) 2] show ?thesis by (auto simp: pool_owned_def in_volume_def)
  next
    case (3 i s1 data q2)
    note a = alloc_reads [OF 4(1) 3(1)] and w = store_write_node [OF alloc_reads(1,6) [OF 4(1) 3(1)] 3(2)]
    have "fst (read_node L j s') = fst (read_node L j s)" if "j \<in> pool_owned s - free_set s" for j
    proof -
      have "in_volume s j" "j \<noteq> i" using that a(5) by (auto simp: pool_owned_def in_volume_def)
      then show ?thesis using a w by simp
    qed
    with a w show ?thesis by auto
  qed
next
  case (5 L s d i s')
  from write_node_Ok [OF 5(1,3)] show ?case by blast
next
  case (6 L s i)
  from free_node_reads [OF this] show ?case by simp
qed

end
