(* ===== verification/Fuse_Dirs.thy ===== *)
theory Fuse_Dirs
  imports Fuse_Nodes
begin

text \<open>
  Directory operations of the FUSE adapter: a directory block is a finite map from names to
  nodes (interface \<open>name_map\<close>), and each operation is described by its result, the map it
  leaves, the slots it may touch and what it does to the inode table.
\<close>

section \<open>The interface: a map of names\<close>

locale name_map =
  fixes wf :: "'d \<Rightarrow> bool"
    and look :: "'n \<Rightarrow> 'd \<Rightarrow> 'e option"
    and name :: "'e \<Rightarrow> 'n"
    and push :: "'e \<Rightarrow> 'd \<Rightarrow> 'd"
    and cut :: "'n \<Rightarrow> 'd \<Rightarrow> 'd"
  assumes look_name: "look n d = Some e \<Longrightarrow> name e = n"
    and push_spec: "wf d \<Longrightarrow> look (name e) d = None \<Longrightarrow> wf (push e d) \<and> look n (push e d) = ((\<lambda>n. look n d)(name e \<mapsto> e)) n"
    and cut_spec: "wf d \<Longrightarrow> wf (cut n d) \<and> look m (cut n d) = ((\<lambda>m. look m d)(n := None)) m"
begin

text \<open>Moving an entry to a new name replaces what was there.\<close>

lemma move_spec:
  assumes "wf d" "name e = n'"
  shows "wf (push e (cut n' (cut n d))) \<and>
    look m (push e (cut n' (cut n d))) = (if m = n' then Some e else if m = n then None else look m d)"
proof -
  have 1: "wf (cut n' (cut n d))" "look n' (cut n' (cut n d)) = None"
    using cut_spec [OF assms(1), of n n'] cut_spec [of "cut n d" n' n'] by auto
  then show ?thesis
    using push_spec [OF 1(1), of e m] cut_spec [OF assms(1)] cut_spec [of "cut n d" n' m] assms(2)
    by auto
qed

end

definition dir_wf :: "directory_block \<Rightarrow> bool" where
  "dir_wf d \<longleftrightarrow> distinct (map de_name (db_entries d))"

definition push_entry :: "dir_entry \<Rightarrow> directory_block \<Rightarrow> directory_block" where
  "push_entry e d = d\<lparr>db_entries := db_entries d @ [e]\<rparr>"

definition cut_entry :: "string \<Rightarrow> directory_block \<Rightarrow> directory_block" where
  "cut_entry n d = d\<lparr>db_entries := filter (\<lambda>e. de_name e \<noteq> n) (db_entries d)\<rparr>"

lemma find_append: "find P (xs @ ys) = (case find P xs of None \<Rightarrow> find P ys | Some x \<Rightarrow> Some x)"
  by (induction xs) auto

lemma find_filter_names:
  "find (\<lambda>e. de_name e = m) (filter (\<lambda>e. de_name e \<noteq> n) es) =
     (if m = n then None else find (\<lambda>e. de_name e = m) es)"
  by (induction es) auto

interpretation dirs: name_map dir_wf find_entry de_name push_entry cut_entry
proof (unfold_locales, goal_cases)
  case (1 n d e)
  then show ?case by (auto simp: find_entry_def find_Some_iff)
next
  case (2 d e n)
  then have "\<forall>x \<in> set (db_entries d). de_name x \<noteq> de_name e"
    by (auto simp: find_entry_def find_None_iff)
  with 2 show ?case
    by (auto simp: dir_wf_def push_entry_def find_entry_def find_append split: option.splits)
next
  case (3 d n m)
  then show ?case
    by (simp add: dir_wf_def cut_entry_def find_entry_def find_filter_names distinct_map_filter)
qed

text \<open>The position found and removed is the entry the lookup finds.\<close>

lemma entry_position_Some:
  assumes "dir_wf d" "find_entry n d = Some e"
  obtains i where "entry_position n d = Some i" "db_entries d ! i = e"
    "d\<lparr>db_entries := vec_remove i (db_entries d)\<rparr> = cut_entry n d"
proof -
  let ?P = "\<lambda>e. de_name e \<noteq> n"
  have "\<exists>x \<in> set (db_entries d). \<not> ?P x" using assms(2) by (auto simp: find_entry_def find_Some_iff)
  then obtain ys x zs where split: "db_entries d = ys @ x # zs" "\<not> ?P x" "\<forall>y \<in> set ys. ?P y"
    using split_list_first_prop [of "db_entries d" "\<lambda>e. \<not> ?P e"] by blast
  have tw: "takeWhile ?P (db_entries d) = ys" using split by (simp add: takeWhile_append)
  have "find (\<lambda>e. de_name e = n) ys = None" using split(3) by (auto simp: find_None_iff)
  then have x: "x = e" using assms(2) split by (simp add: find_entry_def find_append)
  have "\<forall>z \<in> set zs. ?P z" using assms(1) split by (auto simp: dir_wf_def) (metis imageI)
  then have "vec_remove (length ys) (db_entries d) = filter ?P (db_entries d)"
    using split by (simp add: vec_remove_def filter_id_conv)
  then show thesis
    using split(2) tw
    by (intro that [of "length ys"]) (simp_all add: entry_position_def split(1) x cut_entry_def)
qed

lemma length_takeWhile_less: "length (takeWhile P xs) < length xs \<longleftrightarrow> (\<exists>x \<in> set xs. \<not> P x)"
  by (induction xs) auto

lemma entry_position_None: "entry_position n d = None \<longleftrightarrow> find_entry n d = None"
  by (auto simp: entry_position_def find_entry_def find_None_iff length_takeWhile_less Let_def)

section \<open>The file system state and the container below it\<close>

lemma read_node_cong:
  "sys_file t = sys_file s \<Longrightarrow> master_key t = master_key s \<Longrightarrow> store_cipher t = store_cipher s \<Longrightarrow>
     fst (read_node L i t) = fst (read_node L i s)"
proof -
  assume e: "sys_file t = sys_file s" "master_key t = master_key s" "store_cipher t = store_cipher s"
  have "fst (store_read L i t) = fst (store_read L i s)"
    by (simp add: store_read_def then_op_def pread_def e derive_slot_key_def Let_def split: prod.splits outcome.splits)
  then show ?thesis by (simp add: read_node_fst)
qed

lemma node_inv_cong:
  assumes "sys_file t = sys_file s" "master_key t = master_key s" "slot_start t = slot_start s"
    "slot_limit t = slot_limit s" "alloc_slot t = alloc_slot s" "free_list t = free_list s"
    "cached_merkle_root t = cached_merkle_root s" "generation t = generation s"
  shows "node_inv L t = node_inv L s"
  by (simp add: node_inv_def store_inv_def volume_ok_def free_ok_def assms)

text \<open>Changes of the adapter's own fields leave the heap alone.\<close>

definition same_heap :: "'a slot_store_scheme \<Rightarrow> 'a slot_store_scheme \<Rightarrow> bool" where
  "same_heap s t \<longleftrightarrow> slot_store.truncate t = slot_store.truncate s"

lemma same_heap_fields:
  assumes "same_heap s t"
  shows "sys_file t = sys_file s" "master_key t = master_key s" "slot_start t = slot_start s" "slot_limit t = slot_limit s"
    "alloc_slot t = alloc_slot s" "free_list t = free_list s" "cached_merkle_root t = cached_merkle_root s"
    "generation t = generation s" "store_cipher t = store_cipher s"
  using assms by (simp_all add: same_heap_def slot_store.truncate_def)

lemma same_heap_updates [simp]:
  fixes s :: "'a venom_fuse_scheme"
  shows "same_heap s (s\<lparr>fu_inodes := m\<rparr>)" "same_heap s (s\<lparr>fu_open_files := f\<rparr>)" "same_heap s (s\<lparr>fu_next_fh := n\<rparr>)"
    "same_heap s (put_file fh fo s)" "same_heap s (snd (alloc_fh s))" "same_heap s (snd (assign_ino i s))"
    "same_heap s (forget_slot i s)" "same_heap s (upd_file fh g s)"
  by (simp_all add: same_heap_def slot_store.truncate_def put_file_def alloc_fh_def assign_ino_def forget_slot_def
      upd_file_def Let_def split_beta split: option.splits)

lemma same_heap_heap:
  assumes "same_heap s t"
  shows "node_inv L t = node_inv L s" "in_volume t = in_volume s" "pool_owned t = pool_owned s"
    "free_set t = free_set s" "heap.live t = heap.live s" "fst (read_node L i t) = fst (read_node L i s)"
proof -
  note f = same_heap_fields [OF assms]
  show "node_inv L t = node_inv L s" by (rule node_inv_cong) (rule f)+
  show "in_volume t = in_volume s" "pool_owned t = pool_owned s" "free_set t = free_set s"
    by (simp_all add: in_volume_def pool_owned_def free_set_def f fun_eq_iff)
  then show "heap.live t = heap.live s" by (simp add: heap.live_def)
  show "fst (read_node L i t) = fst (read_node L i s)" by (rule read_node_cong) (rule f)+
qed

lemma same_heap_frame: "node_inv L s \<Longrightarrow> same_heap s t \<Longrightarrow> heap.frame L X s t"
  by (simp add: heap.frame_def same_heap_heap)

text \<open>Container calls leave the adapter's fields alone.\<close>

lemma more_fields:
  assumes "slot_store.more (t :: 'a venom_fuse_scheme) = slot_store.more s"
  shows "fu_inodes t = fu_inodes s" "fu_open_files t = fu_open_files s" "fu_next_fh t = fu_next_fh s"
  using assms by (cases s; cases t; simp)+

lemma update_node_more:
  assumes "node_inv L s" "in_volume s i" "update_node L i n s = (r, s')"
  shows "slot_store.more s' = slot_store.more s"
  using update_node_same_volume [OF _ assms(2,3)] assms(1)
  by (simp add: same_volume_fields node_inv_def store_inv_def)

lemma alloc_more: "alloc s = (r, s') \<Longrightarrow> slot_store.more s' = slot_store.more s"
  by (auto simp: alloc_def split: if_splits)

lemma write_node_more:
  assumes "node_inv L s" "write_node L n s = (r, s')"
  shows "slot_store.more s' = slot_store.more s"
  using assms(2)
proof (cases rule: write_node_states)
  case (3 i s1 data q)
  note a = alloc_reads [OF assms(1) 3(1)]
  have "same_volume s1 s'"
    by (rule store_write_same_volume [OF _ _ 3(2)]) (use a(1,6) in \<open>simp_all add: node_inv_def store_inv_def in_volume_def\<close>)
  with alloc_more [OF 3(1)] show ?thesis by (simp add: same_volume_fields)
qed (auto dest: alloc_more)

lemma free_node_more:
  assumes "node_inv L s" "i \<in> heap.live s"
  shows "slot_store.more (free_node L i s) = slot_store.more s"
proof -
  have "store_inv s" "in_volume s i" using assms heap.live_valid by (auto simp: node_inv_def)
  from wipe_state(1) [OF this, of L] show ?thesis
    by (simp add: free_node_def free_slot_eq Let_def same_volume_fields)
qed

text \<open>A failed update leaves the file as it was.\<close>

lemma update_node_failed:
  assumes "node_inv L s" "in_volume s i" "update_node L i n s = (r, s')" "r \<noteq> Ok ()"
  shows "heap.frame L {} s s'" "heap.live s' = heap.live s"
proof -
  have v: "volume_ok s" "i < slot_limit s" using assms(1,2) by (simp_all add: node_inv_def store_inv_def in_volume_def)
  note w = heap.frame_wr [OF assms(1,2,3)]
  show "heap.live s' = heap.live s" by (rule w(2))
  have "sys_file s' = sys_file s \<and> master_key s' = master_key s \<and> store_cipher s' = store_cipher s"
    using assms(3)
  proof (cases rule: update_node_cases)
    case (2 data)
    obtain q s1 where e: "encrypt_block L (derive_slot_key L i s) (store_cipher s) (to_le 8 i) data s = (q, s1)" by fastforce
    from encrypt_block_state [OF e] 2(2) assms(4) e show ?thesis
      by (cases q) (auto simp: store_write_inside [OF v] split: if_splits)
  qed simp
  then have "fst (read_node L j s') = fst (read_node L j s)" for j by (intro read_node_cong) simp_all
  with w(1) show "heap.frame L {} s s'"
    using heap.wr_slots [OF assms(1,2,3)] by (simp add: heap.frame_def)
qed

lemma eio_Ok [simp]: "eio m s = (Ok x, s') \<longleftrightarrow> m s = (Ok x, s')"
  by (cases "m s") (auto simp: eio_def)

lemma eio_cases:
  assumes "eio m s = (r, s')"
  obtains x where "m s = (Ok x, s')" "r = Ok x" | e where "m s = (Err e, s')" "r = Err EIO"
    | p where "m s = (Panic p, s')" "r = Panic p"
  using assms by (cases "m s"; cases "fst (m s)") (auto simp: eio_def)

lemma read_dir_Ok: "fst (read_node L p s) = Ok (Directory d) \<Longrightarrow> read_dir_block L p s = (Ok d, s)"
  by (simp add: read_dir_block_def)

section \<open>Entering and removing entries\<close>

lemma dir_add_entry_eq:
  assumes "fst (read_node L p s) = Ok (Directory d)"
  shows "dir_add_entry L p e s = (if find_entry (de_name e) d \<noteq> None then (Err EEXIST, s)
      else eio (update_node L p (Directory (push_entry e d))) s)"
proof -
  have "(\<exists>x \<in> set (db_entries d). de_name x = de_name e) \<longleftrightarrow> find_entry (de_name e) d \<noteq> None"
    by (auto simp: find_entry_def find_None_iff)
  then show ?thesis by (simp add: dir_add_entry_def read_dir_Ok [OF assms] push_entry_def)
qed

lemma dir_add_entry_spec:
  assumes "node_inv L s" "p \<in> heap.live s" "fst (read_node L p s) = Ok (Directory d)" "dir_wf d"
    and "dir_add_entry L p e s = (r, s')"
  shows "slot_store.more s' = slot_store.more s" "heap.live s' = heap.live s"
    "r = Ok () \<Longrightarrow> find_entry (de_name e) d = None \<and> heap.frame L {p} s s' \<and>
       fst (read_node L p s') = Ok (Directory (push_entry e d))"
    "r \<noteq> Ok () \<Longrightarrow> heap.frame L {} s s'"
    "find_entry (de_name e) d \<noteq> None \<Longrightarrow> r = Err EEXIST"
proof -
  have iv: "in_volume s p" by (rule heap.live_valid [OF assms(2)])
  note eq = dir_add_entry_eq [OF assms(3)]
  obtain q s1 where u: "update_node L p (Directory (push_entry e d)) s = (q, s1)" by fastforce
  have *: "slot_store.more s' = slot_store.more s \<and> heap.live s' = heap.live s \<and>
    (r = Ok () \<longrightarrow> find_entry (de_name e) d = None \<and> heap.frame L {p} s s' \<and>
       fst (read_node L p s') = Ok (Directory (push_entry e d))) \<and> (r \<noteq> Ok () \<longrightarrow> heap.frame L {} s s') \<and>
    (find_entry (de_name e) d \<noteq> None \<longrightarrow> r = Err EEXIST)"
  proof (cases "find_entry (de_name e) d = None")
    case True
    with assms(5) u have s1: "s1 = s'" and r: "r = map_err (\<lambda>_. EIO) q" by (simp_all add: eq eio_def)
    note m = update_node_more [OF assms(1) iv u] heap.frame_wr [OF assms(1) iv u]
    show ?thesis
    proof (cases "q = Ok ()")
      case True
      with nodes.read_same [OF assms(1) iv _ u [unfolded True]] m s1 r \<open>find_entry (de_name e) d = None\<close>
      show ?thesis by (simp add: any_node_def)
    next
      case False
      with update_node_failed [OF assms(1) iv u] m s1 r \<open>find_entry (de_name e) d = None\<close>
      show ?thesis by (cases q) simp_all
    qed
  next
    case False
    with assms(1,5) show ?thesis by (auto simp: eq heap.frame_refl)
  qed
  then show "slot_store.more s' = slot_store.more s" "heap.live s' = heap.live s"
    "r = Ok () \<Longrightarrow> find_entry (de_name e) d = None \<and> heap.frame L {p} s s' \<and>
       fst (read_node L p s') = Ok (Directory (push_entry e d))"
    "r \<noteq> Ok () \<Longrightarrow> heap.frame L {} s s'"
    "find_entry (de_name e) d \<noteq> None \<Longrightarrow> r = Err EEXIST" by simp_all
qed

lemma dir_remove_entry_spec:
  assumes "node_inv L s" "p \<in> heap.live s" "fst (read_node L p s) = Ok (Directory d)" "dir_wf d"
    and "dir_remove_entry L p n s = (r, s')"
  shows "slot_store.more s' = slot_store.more s" "heap.live s' = heap.live s"
    "r = Ok i \<Longrightarrow> \<exists>e. find_entry n d = Some e \<and> i = de_slot e \<and> heap.frame L {p} s s' \<and>
       fst (read_node L p s') = Ok (Directory (cut_entry n d))"
    "(\<And>i. r \<noteq> Ok i) \<Longrightarrow> heap.frame L {} s s'"
    "find_entry n d = None \<Longrightarrow> r = Err ENOENT \<and> s' = s"
proof -
  have iv: "in_volume s p" by (rule heap.live_valid [OF assms(2)])
  have *: "slot_store.more s' = slot_store.more s \<and> heap.live s' = heap.live s \<and>
    (\<forall>i. r = Ok i \<longrightarrow> (\<exists>e. find_entry n d = Some e \<and> i = de_slot e \<and> heap.frame L {p} s s' \<and>
       fst (read_node L p s') = Ok (Directory (cut_entry n d)))) \<and>
    ((\<forall>i. r \<noteq> Ok i) \<longrightarrow> heap.frame L {} s s') \<and> (find_entry n d = None \<longrightarrow> r = Err ENOENT \<and> s' = s)"
  proof (cases "find_entry n d")
    case None
    then have "entry_position n d = None" by (simp add: entry_position_None)
    with assms(5) have "r = Err ENOENT" "s' = s"
      by (simp_all add: dir_remove_entry_def read_dir_Ok [OF assms(3)] then_op_def)
    with assms(1) None show ?thesis by (simp add: heap.frame_refl)
  next
    case (Some e)
    obtain i where i: "entry_position n d = Some i" "db_entries d ! i = e"
      "d\<lparr>db_entries := vec_remove i (db_entries d)\<rparr> = cut_entry n d"
      by (rule entry_position_Some [OF assms(4) Some])
    obtain q s1 where u: "update_node L p (Directory (cut_entry n d)) s = (q, s1)" by fastforce
    have "dir_remove_entry L p n s = (and_then (map_err (\<lambda>_. EIO) q) (\<lambda>_. Ok (de_slot e)), s1)"
      using u i by (cases q) (simp_all add: dir_remove_entry_def read_dir_Ok [OF assms(3)]
          then_op_def eio_def Let_def)
    with assms(5) have r: "r = and_then (map_err (\<lambda>_. EIO) q) (\<lambda>_. Ok (de_slot e))" and s1: "s1 = s'" by simp_all
    note m = update_node_more [OF assms(1) iv u] heap.frame_wr [OF assms(1) iv u]
    show ?thesis
    proof (cases "q = Ok ()")
      case True
      with nodes.read_same [OF assms(1) iv _ u [unfolded True]] m s1 r Some
      show ?thesis by (simp add: any_node_def)
    next
      case False
      with update_node_failed [OF assms(1) iv u] m s1 r Some show ?thesis by (cases q) simp_all
    qed
  qed
  then show "slot_store.more s' = slot_store.more s" "heap.live s' = heap.live s"
    "r = Ok i \<Longrightarrow> \<exists>e. find_entry n d = Some e \<and> i = de_slot e \<and> heap.frame L {p} s s' \<and>
       fst (read_node L p s') = Ok (Directory (cut_entry n d))"
    "(\<And>i. r \<noteq> Ok i) \<Longrightarrow> heap.frame L {} s s'"
    "find_entry n d = None \<Longrightarrow> r = Err ENOENT \<and> s' = s" by simp_all
qed

text \<open>A new node and its entry: both are there, or nothing that was live has changed.\<close>

lemma enter_new_spec:
  assumes "node_inv L s" "p \<in> heap.live s" "fst (read_node L p s) = Ok (Directory d)" "dir_wf d"
    and "write_node L n s = (Ok slot, s1)" "enter_node L p e s1 = (r, s2)" "de_slot e = slot"
  shows "slot_store.more s2 = slot_store.more s" "slot \<notin> heap.live s"
    "r = Ok () \<Longrightarrow> find_entry (de_name e) d = None \<and> heap.frame L {p} s s2 \<and> heap.live s2 = insert slot (heap.live s) \<and>
       fst (read_node L p s2) = Ok (Directory (push_entry e d)) \<and> fst (read_node L slot s2) = Ok n"
    "r \<noteq> Ok () \<Longrightarrow> heap.frame L {} s s2"
    "r = Err x \<Longrightarrow> heap.live s2 = heap.live s"
    "find_entry (de_name e) d \<noteq> None \<Longrightarrow> r = Err EEXIST"
proof -
  have any: "any_node n" by (simp add: any_node_def)
  note fr = heap.frame_new [OF assms(1,5)] and nl = heap.new_live [OF assms(1) any assms(5)]
  have p1: "p \<in> heap.live s1" using assms(2) nl by simp
  have rd1: "fst (read_node L p s1) = Ok (Directory d)" using heap.frame_read [OF fr assms(2)] assms(3) by simp
  obtain q s' where a: "dir_add_entry L p e s1 = (q, s')" by fastforce
  note inv1 = heap.frame_inv [OF fr]
  note sp = dir_add_entry_spec [OF inv1 p1 rd1 assms(4) a]
  have m: "slot_store.more s1 = slot_store.more s" by (rule write_node_more [OF assms(1,5)])
  have sl: "slot \<in> heap.live s'" using sp(2) nl(1) by simp
  have sl_p: "slot \<noteq> p" using assms(2) nl(2) by blast
  show "slot \<notin> heap.live s" by (rule nl(2))
  have *: "slot_store.more s2 = slot_store.more s \<and>
    (r = Ok () \<longrightarrow> find_entry (de_name e) d = None \<and> heap.frame L {p} s s2 \<and> heap.live s2 = insert slot (heap.live s) \<and>
       fst (read_node L p s2) = Ok (Directory (push_entry e d)) \<and> fst (read_node L slot s2) = Ok n) \<and>
    (r \<noteq> Ok () \<longrightarrow> heap.frame L {} s s2) \<and> (r = Err x \<longrightarrow> heap.live s2 = heap.live s) \<and>
    (find_entry (de_name e) d \<noteq> None \<longrightarrow> r = Err EEXIST)"
  proof (cases q)
    case (Ok u)
    with a assms(6) have e: "r = Ok ()" "s2 = s'" by (simp_all add: enter_node_def)
    from sp(3) Ok have ok: "find_entry (de_name e) d = None" "heap.frame L {p} s1 s'"
      "fst (read_node L p s') = Ok (Directory (push_entry e d))" by simp_all
    have "fst (read_node L slot s') = Ok n"
      using heap.frame_read [OF ok(2) nl(1)] sl_p heap.new_Ok [OF assms(1) any assms(5)] by simp
    with ok e heap.frame_trans [OF fr ok(2)] sp(1,2) nl(3) m show ?thesis by simp
  next
    case (Err y)
    then have f1: "heap.frame L {} s1 s'" using sp(4) by simp
    note inv' = heap.frame_inv [OF f1]
    from a assms(6,7) Err have e: "r = Err y" "s2 = free_node L slot s'" by (simp_all add: enter_node_def)
    note d = heap.frame_del [OF inv' sl]
    have f2: "heap.frame L {slot} s s2"
      using heap.frame_trans [OF heap.frame_same [OF fr f1] d(1)] e by simp
    have l2: "heap.live s2 = heap.live s" using d(2) sp(2) nl(2,3) e by simp
    from f2 nl(2) have "heap.frame L {} s s2"
      using l2 heap.avail_owned [OF assms(1)] heap.avail_owned [OF heap.frame_inv [OF f2]]
      by (auto simp: heap.frame_def heap.live_def)
    moreover have "slot_store.more s2 = slot_store.more s"
      using free_node_more [OF inv' sl] sp(1) m e by simp
    moreover have "find_entry (de_name e) d \<noteq> None \<longrightarrow> r = Err EEXIST" using sp(5) Err e by auto
    ultimately show ?thesis using e l2 by simp
  next
    case (Panic y)
    with a assms(6) have e: "r = Panic y" "s2 = s'" by (simp_all add: enter_node_def)
    have "heap.frame L {} s1 s'" using sp(4) Panic by simp
    moreover have "find_entry (de_name e) d = None"
    proof (rule ccontr)
      assume "find_entry (de_name e) d \<noteq> None"
      from sp(5) [OF this] Panic show False by simp
    qed
    ultimately show ?thesis using e Panic sp(1) m heap.frame_same [OF fr] by simp
  qed
  then show "slot_store.more s2 = slot_store.more s"
    "r = Ok () \<Longrightarrow> find_entry (de_name e) d = None \<and> heap.frame L {p} s s2 \<and> heap.live s2 = insert slot (heap.live s) \<and>
       fst (read_node L p s2) = Ok (Directory (push_entry e d)) \<and> fst (read_node L slot s2) = Ok n"
    "r \<noteq> Ok () \<Longrightarrow> heap.frame L {} s s2"
    "r = Err x \<Longrightarrow> heap.live s2 = heap.live s"
    "find_entry (de_name e) d \<noteq> None \<Longrightarrow> r = Err EEXIST" by simp_all
qed

section \<open>The operations\<close>

definition fuse_ok :: "libs \<Rightarrow> 'a venom_fuse_scheme \<Rightarrow> bool" where
  "fuse_ok L s \<longleftrightarrow> node_inv L s \<and> inode_inv (fu_inodes s) \<and> 0 < inodes_left (fu_inodes s)"

text \<open>Inode \<open>ino\<close> names the directory \<open>d\<close> in slot \<open>p\<close>.\<close>

definition dir_at :: "libs \<Rightarrow> 'a venom_fuse_scheme \<Rightarrow> nat \<Rightarrow> nat \<Rightarrow> directory_block \<Rightarrow> bool" where
  "dir_at L s ino p d \<longleftrightarrow> slot_of ino (fu_inodes s) = Some p \<and> p \<in> heap.live s \<and>
     fst (read_node L p s) = Ok (Directory d) \<and> dir_wf d"

lemma slot_of_ino_Some: "slot_of ino (fu_inodes s) = Some p \<Longrightarrow> slot_of_ino ino s = (Ok p, s)"
  by (simp add: slot_of_ino_def)

lemma assign_ino_spec:
  assumes "inode_inv (fu_inodes s)" "0 < inodes_left (fu_inodes s)" "assign_ino slot s = (ino, s')"
  shows "same_heap s s'" "inode_inv (fu_inodes s')" "slot_of ino (fu_inodes s') = Some slot"
    "slot_of i (fu_inodes s) = Some x \<Longrightarrow> slot_of i (fu_inodes s') = Some x"
    "fu_open_files s' = fu_open_files s" "fu_next_fh s' = fu_next_fh s"
proof -
  obtain m where g: "get_or_alloc slot (fu_inodes s) = (ino, m)" and s': "s' = s\<lparr>fu_inodes := m\<rparr>"
    using assms(3) by (auto simp: assign_ino_def Let_def split: prod.splits)
  from inodes.asg_spec [OF assms(1,2) g]
  have m: "inode_inv m" "slot_table m = (slot_table (fu_inodes s))(ino \<mapsto> slot)"
    "slot_table (fu_inodes s) ino = None \<or> slot_table (fu_inodes s) ino = Some slot" by blast+
  show "same_heap s s'" "inode_inv (fu_inodes s')" "fu_open_files s' = fu_open_files s" "fu_next_fh s' = fu_next_fh s"
    using m(1) by (simp_all add: s')
  have st: "slot_of i (fu_inodes s') = ((slot_table (fu_inodes s))(ino \<mapsto> slot)) i" for i
    using fun_cong [OF m(2), of i] by (simp add: s' slot_table_def)
  then show "slot_of ino (fu_inodes s') = Some slot" by simp
  show "slot_of i (fu_inodes s') = Some x" if "slot_of i (fu_inodes s) = Some x"
    using that m(3) by (auto simp: st slot_table_def)
qed

lemma assign_ino_known:
  assumes "inode_inv (fu_inodes s)" "slot_of ino (fu_inodes s) = Some slot"
  shows "assign_ino slot s = (ino, s)"
  using assms by (simp add: assign_ino_def get_or_alloc_def inode_inv_def slot_of_def)

text \<open>Looking up an entry whose node is live.\<close>

lemma op_lookup_missing:
  "dir_at L s parent p d \<Longrightarrow> find_entry n d = None \<Longrightarrow> op_lookup L parent n s = (Err ENOENT, s)"
  by (simp add: op_lookup_def dir_at_def slot_of_ino_Some read_dir_Ok then_op_def)

lemma op_lookup_found:
  assumes "dir_at L s parent p d" "find_entry n d = Some e" "fst (read_node L (de_slot e) s) = Ok node"
    and "inode_inv (fu_inodes s)" "slot_of ino (fu_inodes s) = Some (de_slot e)"
  shows "op_lookup L parent n s = (Ok (ino, node), s)"
proof -
  have "eio (read_node L (de_slot e)) s = (Ok node, s)"
    using assms(3) by (simp add: eio_def)
  then show ?thesis
    using assms by (simp add: op_lookup_def dir_at_def slot_of_ino_Some read_dir_Ok assign_ino_known [OF assms(4,5)])
qed

definition empty_file :: vault_node where
  "empty_file = File \<lparr>fb_kind = KFile, fb_total_size = 0, fb_data_slots = [], fb_index_chain = None, fb_data = []\<rparr>"

text \<open>
  What \<open>op_mkdir\<close> and \<open>op_create\<close> share: \<open>entered\<close> is the state in which the new node
  has its entry and its inode.
\<close>

definition entered :: "libs \<Rightarrow> 'a venom_fuse_scheme \<Rightarrow> nat \<Rightarrow> nat \<Rightarrow> directory_block \<Rightarrow> dir_entry \<Rightarrow> vault_node \<Rightarrow> nat \<Rightarrow>
    'a venom_fuse_scheme \<Rightarrow> bool" where
  "entered L s parent p d e n ino s' \<longleftrightarrow> find_entry (de_name e) d = None \<and> heap.frame L {p} s s' \<and>
     heap.live s' = insert (de_slot e) (heap.live s) \<and> de_slot e \<notin> heap.live s \<and> dir_at L s' parent p (push_entry e d) \<and>
     fst (read_node L (de_slot e) s') = Ok n \<and> inode_inv (fu_inodes s') \<and>
     slot_of ino (fu_inodes s') = Some (de_slot e) \<and>
     (\<forall>i x. slot_of i (fu_inodes s) = Some x \<longrightarrow> slot_of i (fu_inodes s') = Some x)"

lemma enter_step:
  assumes ok: "fuse_ok L s" and dir: "dir_at L s parent p d"
    and run: "then_op (slot_of_ino parent) (\<lambda>p_slot.
      then_op (eio (write_node L n)) (\<lambda>slot.
      then_op (enter_node L p_slot \<lparr>de_name = name, de_slot = slot, de_kind = k\<rparr>) (\<lambda>_ s.
        let (ino, s) = assign_ino slot s in cont slot ino s))) s = (r, s')"
  obtains slot ino s2 where "entered L s parent p d \<lparr>de_name = name, de_slot = slot, de_kind = k\<rparr> n ino s2"
      "fu_open_files s2 = fu_open_files s" "fu_next_fh s2 = fu_next_fh s" "cont slot ino s2 = (r, s')"
  | "\<And>x. r \<noteq> Ok x" "heap.frame L {} s s'" "fu_inodes s' = fu_inodes s" "fu_open_files s' = fu_open_files s"
      "find_entry name d \<noteq> None \<Longrightarrow> r = Err EEXIST \<or> r = Err EIO \<or> (\<exists>x. r = Panic x)"
proof -
  have inv: "node_inv L s" "inode_inv (fu_inodes s)" "0 < inodes_left (fu_inodes s)" using ok by (simp_all add: fuse_ok_def)
  have d: "slot_of parent (fu_inodes s) = Some p" "p \<in> heap.live s" "fst (read_node L p s) = Ok (Directory d)" "dir_wf d"
    using dir by (simp_all add: dir_at_def)
  let ?e = "\<lambda>slot. \<lparr>de_name = name, de_slot = slot, de_kind = k\<rparr>"
  obtain q s1 where w: "write_node L n s = (q, s1)" by fastforce
  note fr = heap.frame_new [OF inv(1) w] and m1 = write_node_more [OF inv(1) w]
  show thesis
  proof (cases q)
    case (Ok slot)
    obtain q2 s2 where en: "enter_node L p (?e slot) s1 = (q2, s2)" by fastforce
    note es = enter_new_spec [OF inv(1) d(2,3,4) w [unfolded Ok] en]
    note mf = more_fields [OF es(1)]
    show thesis
    proof (cases q2)
      case (Ok u)
      obtain ino s3 where a: "assign_ino slot s2 = (ino, s3)" by fastforce
      have i2: "inode_inv (fu_inodes s2)" "0 < inodes_left (fu_inodes s2)" using inv mf by simp_all
      note as = assign_ino_spec [OF i2 a]
      note sh = same_heap_heap [OF as(1)]
      from es(3) Ok have e: "find_entry name d = None" "heap.frame L {p} s s2" "heap.live s2 = insert slot (heap.live s)"
        "fst (read_node L p s2) = Ok (Directory (push_entry (?e slot) d))" "fst (read_node L slot s2) = Ok n" by simp_all
      have "heap.frame L {p} s s3"
        by (rule heap.frame_same [OF e(2) same_heap_frame [OF heap.frame_inv [OF e(2)] as(1)]])
      moreover have "dir_wf (push_entry (?e slot) d)" using dirs.push_spec [OF d(4), of "?e slot"] e(1) by simp
      moreover have "slot_of i (fu_inodes s3) = Some x" if "slot_of i (fu_inodes s) = Some x" for i x
        using as(4) [of i x] that mf by simp
      ultimately have "entered L s parent p d (?e slot) n ino s3"
        using e d es(2) as sh by (simp add: entered_def dir_at_def)
      moreover have "cont slot ino s3 = (r, s')"
        using run w \<open>q = Ok slot\<close> en Ok a by (simp add: slot_of_ino_Some [OF d(1)] eio_def then_op_def)
      ultimately show thesis using that(1) as(5,6) mf by simp
    next
      case (Err x)
      with run w \<open>q = Ok slot\<close> en have "r = Err x" "s' = s2"
        by (simp_all add: slot_of_ino_Some [OF d(1)] eio_def then_op_def)
      with es(4,6) Err mf show thesis by (intro that(2)) auto
    next
      case (Panic x)
      with run w \<open>q = Ok slot\<close> en have "r = Panic x" "s' = s2"
        by (simp_all add: slot_of_ino_Some [OF d(1)] eio_def then_op_def)
      with es(4,6) Panic mf show thesis by (intro that(2)) auto
    qed
  next
    case (Err x)
    with run w have "r = Err EIO" "s' = s1"
      by (simp_all add: slot_of_ino_Some [OF d(1)] eio_def then_op_def)
    with fr more_fields [OF m1] show thesis by (intro that(2)) auto
  next
    case (Panic x)
    with run w have "r = Panic x" "s' = s1"
      by (simp_all add: slot_of_ino_Some [OF d(1)] eio_def then_op_def)
    with fr more_fields [OF m1] show thesis by (intro that(2)) auto
  qed
qed

text \<open>After an entry is made, its name leads to the new node and every other name where it led before.\<close>

lemma entered_lookup:
  assumes "entered L s parent p d e n ino s'"
  shows "op_lookup L parent (de_name e) s' = (Ok (ino, n), s')"
    "m \<noteq> de_name e \<Longrightarrow> find_entry m (push_entry e d) = find_entry m d"
proof -
  have e: "find_entry (de_name e) d = None" "dir_at L s' parent p (push_entry e d)" "fst (read_node L (de_slot e) s') = Ok n"
    "inode_inv (fu_inodes s')" "slot_of ino (fu_inodes s') = Some (de_slot e)"
    using assms by (simp_all add: entered_def)
  have f: "find_entry m (push_entry e d) = ((\<lambda>n. find_entry n d)(de_name e \<mapsto> e)) m" for m
    using e(1,2) by (simp add: push_entry_def find_entry_def find_append split: option.splits)
  show "op_lookup L parent (de_name e) s' = (Ok (ino, n), s')"
    by (rule op_lookup_found [OF e(2) _ e(3,4,5)]) (simp add: f)
  show "m \<noteq> de_name e \<Longrightarrow> find_entry m (push_entry e d) = find_entry m d" by (simp add: f)
qed

text \<open>A file that is created gets the lowest free slot and is opened under the next handle.\<close>

lemma op_create_Ok:
  assumes "fuse_ok L s" "dir_at L s parent p d" "op_create L parent name s = (Ok (ino, fh), s')"
  obtains slot where "find_entry name d = None" "slot = Min (free_set s)" "slot \<notin> heap.live s"
    "heap.live s' = insert slot (heap.live s)" "heap.frame L {p} s s'"
    "dir_at L s' parent p (push_entry \<lparr>de_name = name, de_slot = slot, de_kind = KFile\<rparr> d)"
    "fst (read_node L slot s') = Ok empty_file" "inode_inv (fu_inodes s')" "slot_of ino (fu_inodes s') = Some slot"
    "fh = fu_next_fh s" "fu_open_files s' = (fu_open_files s)(fh \<mapsto> new_open_file ino slot)"
    "op_lookup L parent name s' = (Ok (ino, empty_file), s')"
proof -
  have run: "then_op (slot_of_ino parent) (\<lambda>p_slot. then_op (eio (write_node L empty_file)) (\<lambda>slot.
      then_op (enter_node L p_slot \<lparr>de_name = name, de_slot = slot, de_kind = KFile\<rparr>) (\<lambda>_ s.
        let (ino, s) = assign_ino slot s in
          (Ok (ino, fst (alloc_fh s)), put_file (fst (alloc_fh s)) (new_open_file ino slot) (snd (alloc_fh s)))))) s = (Ok (ino, fh), s')"
    using assms(3) by (simp add: op_create_def empty_file_def Let_def split_beta)
  show thesis
  proof (rule enter_step [OF assms(1,2) run], goal_cases)
    case (1 slot ino' s2)
    let ?e = "\<lparr>de_name = name, de_slot = slot, de_kind = KFile\<rparr>"
    from 1(4) have r: "ino' = ino" "fh = fu_next_fh s" "s' = put_file fh (new_open_file ino slot) (snd (alloc_fh s2))"
      using 1(3) by (auto simp: alloc_fh_def)
    note e = 1(1) [unfolded r(1)]
    have inv: "node_inv L s2" using e heap.frame_inv by (auto simp: entered_def)
    have sh: "same_heap s2 s'" by (simp add: r(3) same_heap_def slot_store.truncate_def put_file_def alloc_fh_def)
    have f: "fu_inodes s' = fu_inodes s2" "fu_open_files s' = (fu_open_files s)(fh \<mapsto> new_open_file ino slot)"
      using 1(2) by (simp_all add: r(3) alloc_fh_def put_file_def)
    have d: "dir_at L s' parent p (push_entry ?e d)"
      using e by (auto simp: entered_def dir_at_def f(1) same_heap_heap [OF sh])
    have look: "op_lookup L parent name s' = (Ok (ino, empty_file), s')"
    proof (rule op_lookup_found [OF d])
      show "find_entry name (push_entry ?e d) = Some ?e"
        using e dirs.push_spec [of d ?e name] assms(2) by (simp add: entered_def dir_at_def)
    qed (use e in \<open>simp_all add: entered_def f(1) same_heap_heap [OF sh]\<close>)
    have new: "fu_open_files s' fh = Some (new_open_file ino slot)" using f(2) by simp
    have "slot = Min (free_set s)"
    proof -
      have p: "slot_of_ino parent s = (Ok p, s)" using assms(2) by (simp add: dir_at_def slot_of_ino_Some)
      from run obtain i s1 s3 where w: "write_node L empty_file s = (Ok i, s1)"
        and r3: "(let (ino, s) = assign_ino i s3 in
          (Ok (ino, fst (alloc_fh s)), put_file (fst (alloc_fh s)) (new_open_file ino i) (snd (alloc_fh s)))) = (Ok (ino, fh) :: (errno, nat \<times> nat) outcome, s')"
        by (auto simp only: then_op_eq_Ok p eio_Ok prod.inject outcome.inject)
      have h: "fu_open_files s' fh = Some (new_open_file ino i)"
        using r3 by (cases "assign_ino i s3") (auto simp: put_file_def)
      from h new have "i = slot" by (simp add: new_open_file_def)
      with write_node_Ok [OF _ w] assms(1) show ?thesis by (simp add: fuse_ok_def)
    qed
    moreover have "heap.frame L {p} s s'"
      by (rule heap.frame_same [OF _ same_heap_frame [OF inv sh]]) (use e in \<open>simp add: entered_def\<close>)
    ultimately show ?case
      using e f d look r(2) by (intro that [of slot]) (simp_all add: entered_def same_heap_heap [OF sh])
  next
    case 2
    then show ?case by blast
  qed
qed

end
