(* ===== verification/Fuse_Removal.thy ===== *)
theory Fuse_Removal
  imports Fuse_Dirs
begin

text \<open>
  Index chains as lists of slots, and the operations of the FUSE adapter that take entries out
  of directories: removing a directory, unlinking a file with all its slots, renaming.
\<close>

section \<open>Index chains\<close>

text \<open>The pointer leads through the index nodes in \<open>is\<close>, which hold \<open>ids\<close>.\<close>

fun chain_at :: "libs \<Rightarrow> 'a slot_store_scheme \<Rightarrow> nat option \<Rightarrow> nat list \<Rightarrow> nat list \<Rightarrow> bool" where
  "chain_at L s ptr [] ids \<longleftrightarrow> ptr = None \<and> ids = []"
| "chain_at L s ptr (i # is) ids \<longleftrightarrow> ptr = Some i \<and>
     (case fst (read_node L i s) of
        Ok (FileIndex fi) \<Rightarrow> (\<exists>rest. ids = fi_slot_ids fi @ rest \<and> chain_at L s (fi_next_index fi) is rest)
      | _ \<Rightarrow> False)"

lemma chain_at_cong:
  "\<forall>i \<in> set is. fst (read_node L i t) = fst (read_node L i s) \<Longrightarrow> chain_at L t ptr is ids = chain_at L s ptr is ids"
  by (induction L s ptr "is" ids arbitrary: ids rule: chain_at.induct) (auto split: outcome.splits vault_node.splits)

lemma follow_index_chain:
  "chain_at L s ptr is ids \<Longrightarrow> length is \<le> fuel \<Longrightarrow> follow_index L fuel ptr s = Ok ids"
proof (induction L s ptr "is" ids arbitrary: fuel rule: chain_at.induct)
  case (2 L s ptr i "is" ids)
  then obtain fi rest n where fi: "ptr = Some i" "fst (read_node L i s) = Ok (FileIndex fi)" "ids = fi_slot_ids fi @ rest"
    "chain_at L s (fi_next_index fi) is rest" and n: "fuel = Suc n" "length is \<le> n"
    by (cases fuel) (auto split: outcome.splits vault_node.splits)
  from 2(1) [OF fi(2) refl fi(4) n(2)] fi n show ?case by (simp add: fetch_def)
qed simp

lemma live_fuel:
  assumes "node_inv L s" "set is \<subseteq> heap.live s" "distinct is"
  shows "length is \<le> chain_fuel s"
proof -
  have v: "volume_ok s" using assms(1) by (simp add: node_inv_def store_inv_def)
  have "set is \<subseteq> {..<slot_limit s}" using assms(2) by (auto simp: heap.live_def pool_owned_def)
  from card_mono [OF _ this] have "length is \<le> slot_limit s" using assms(3) by (simp add: distinct_card)
  moreover have "slot_limit s \<le> slot_limit s * SLOT_SIZE" by (simp add: SLOT_SIZE_def)
  ultimately show ?thesis using volume_okD(3) [OF v] unfolding chain_fuel_def by linarith
qed

lemma free_chain_spec:
  assumes "node_inv L s" "chain_at L s ptr is ids" "set is \<subseteq> heap.live s" "distinct is" "length is \<le> fuel"
  shows "free_chain L fuel ptr s = (Ok (), fold (free_node L) is s)"
  using assms
proof (induction "is" arbitrary: s ptr ids fuel)
  case Nil
  then show ?case by simp
next
  case (Cons i "is")
  then obtain fi rest n where fi: "ptr = Some i" "fst (read_node L i s) = Ok (FileIndex fi)"
    "chain_at L s (fi_next_index fi) is rest" and n: "fuel = Suc n" "length is \<le> n"
    by (cases fuel) (auto split: outcome.splits vault_node.splits)
  have il: "i \<in> heap.live s" using Cons.prems(3) by simp
  note d = heap.frame_del [OF Cons.prems(1) il]
  have sub: "set is \<subseteq> heap.live (free_node L i s)" using Cons.prems(3,4) d(2) by auto
  have "\<forall>j \<in> set is. fst (read_node L j (free_node L i s)) = fst (read_node L j s)"
  proof
    fix j assume "j \<in> set is"
    with Cons.prems(3,4) have "j \<in> heap.live s" "j \<notin> {i}" by auto
    then show "fst (read_node L j (free_node L i s)) = fst (read_node L j s)" by (rule heap.frame_read [OF d(1)])
  qed
  from chain_at_cong [OF this] fi(3) have "chain_at L (free_node L i s) (fi_next_index fi) is rest" by blast
  from Cons.IH [OF heap.frame_inv [OF d(1)] this sub _ n(2)] Cons.prems(4) fi n show ?case by simp
qed

lemma free_index_chain_spec:
  assumes "node_inv L s" "chain_at L s ptr is ids" "set is \<subseteq> heap.live s" "distinct is"
  shows "free_index_chain L ptr s = (Ok (), fold (free_node L) is s)"
  unfolding free_index_chain_def by (rule free_chain_spec [OF assms live_fuel [OF assms(1,3,4)]])

text \<open>Pieces from the end: put together in reverse they are the list.\<close>

lemma concat_rev_rchunks: "0 < n \<Longrightarrow> concat (rev (rchunks n xs)) = xs"
proof (induction n xs rule: rchunks.induct)
  case (1 n xs)
  show ?case
  proof (cases "xs = []")
    case True
    then show ?thesis by (simp add: rchunks.simps [of n "[]"])
  next
    case False
    then have "concat (rev (rchunks n (take (length xs - n) xs))) = take (length xs - n) xs" using 1 by simp
    then show ?thesis using False 1(2) by (subst rchunks.simps) simp
  qed
qed

lemma write_chain_spec:
  assumes "node_inv L s" "chain_at L s ptr is ids" "set is \<subseteq> heap.live s" "distinct is"
    and "write_chain L chunks ptr s = (Ok ptr', s')"
  shows "\<exists>news. chain_at L s' ptr' (news @ is) (concat (rev chunks) @ ids) \<and> distinct (news @ is) \<and>
    set news \<inter> heap.live s = {} \<and> heap.live s' = heap.live s \<union> set news \<and> heap.frame L {} s s' \<and>
    slot_store.more s' = slot_store.more s"
  using assms
proof (induction chunks arbitrary: s ptr "is" ids)
  case Nil
  then show ?case by (intro exI [of _ "[]"]) (simp add: heap.frame_refl)
next
  case (Cons c chunks)
  let ?n = "FileIndex \<lparr>fi_kind = KFileIndex, fi_slot_ids = c, fi_next_index = ptr\<rparr>"
  from Cons.prems(5) obtain i s1 where w: "write_node L ?n s = (Ok i, s1)"
    and rest: "write_chain L chunks (Some i) s1 = (Ok ptr', s')"
    by (auto simp: then_op_eq_Ok)
  have any: "any_node ?n" by (simp add: any_node_def)
  note fr = heap.frame_new [OF Cons.prems(1) w] and nl = heap.new_live [OF Cons.prems(1) any w]
  have "\<forall>j \<in> set is. fst (read_node L j s1) = fst (read_node L j s)"
    using heap.frame_read [OF fr] Cons.prems(3) by blast
  from chain_at_cong [OF this] Cons.prems(2) have "chain_at L s1 ptr is ids" by blast
  then have c1: "chain_at L s1 (Some i) (i # is) (c @ ids)" using heap.new_Ok [OF Cons.prems(1) any w] by simp
  have d1: "set (i # is) \<subseteq> heap.live s1" "distinct (i # is)" using nl Cons.prems(3,4) by auto
  from Cons.IH [OF heap.frame_inv [OF fr] c1 d1 rest] obtain news where
    ih: "chain_at L s' ptr' (news @ i # is) (concat (rev chunks) @ c @ ids)" "distinct (news @ i # is)"
    "set news \<inter> heap.live s1 = {}" "heap.live s' = heap.live s1 \<union> set news" "heap.frame L {} s1 s'"
    "slot_store.more s' = slot_store.more s1"
    by blast
  show ?case
  proof (intro exI conjI)
    show "chain_at L s' ptr' ((news @ [i]) @ is) (concat (rev (c # chunks)) @ ids)" using ih(1) by simp
    show "distinct ((news @ [i]) @ is)" using ih(2) by simp
    show "set (news @ [i]) \<inter> heap.live s = {}" "heap.live s' = heap.live s \<union> set (news @ [i])"
      using ih(3,4) nl by auto
    show "heap.frame L {} s s'" by (rule heap.frame_same [OF fr ih(5)])
    show "slot_store.more s' = slot_store.more s" using ih(6) write_node_more [OF Cons.prems(1) w] by simp
  qed
qed

text \<open>Writing the overflow of a slot map and following it back.\<close>

lemma write_index_chain_spec:
  assumes "node_inv L s" "write_index_chain L ids s = (Ok ptr, s')"
  shows "\<exists>is. chain_at L s' ptr is ids \<and> distinct is \<and> set is \<inter> heap.live s = {} \<and>
    heap.live s' = heap.live s \<union> set is \<and> heap.frame L {} s s' \<and> slot_store.more s' = slot_store.more s"
proof -
  have "chain_at L s None [] []" by simp
  from write_chain_spec [OF assms(1) this _ _ assms(2) [unfolded write_index_chain_def]]
  show ?thesis by (simp add: concat_rev_rchunks)
qed

section \<open>Releasing what an entry led to\<close>

lemma dir_at_kept:
  assumes "dir_at L s ino p d" "heap.frame L X s s'" "p \<notin> X" "fu_inodes s' = fu_inodes s"
  shows "dir_at L s' ino p d"
  using assms heap.frame_read [OF assms(2)] heap.frame_live [OF assms(2)] by (simp add: dir_at_def)

lemma slot_of_forget:
  assumes "inode_inv (fu_inodes s)"
  shows "slot_of i (fu_inodes (forget_slot x s)) = (if slot_of i (fu_inodes s) = Some x then None else slot_of i (fu_inodes s))"
    "inode_inv (fu_inodes (forget_slot x s))" "inodes_left (fu_inodes (forget_slot x s)) = inodes_left (fu_inodes s)"
  using inodes.forget_spec [OF assms, of x] by (simp_all add: forget_slot_def slot_table_def fun_eq_iff)

lemma fold_free_more:
  assumes "node_inv L s" "set slots \<subseteq> heap.live s" "distinct slots"
  shows "slot_store.more (fold (free_node L) slots s) = slot_store.more s"
  using assms
proof (induction slots arbitrary: s)
  case (Cons i "is")
  then have il: "i \<in> heap.live s" by simp
  note d = heap.frame_del [OF Cons.prems(1) il]
  have "set is \<subseteq> heap.live (free_node L i s)" using Cons.prems d(2) by auto
  with Cons.IH [OF heap.frame_inv [OF d(1)] this] Cons.prems free_node_more [OF Cons.prems(1) il] show ?case by simp
qed simp

text \<open>The last steps of a removal: the slots of the node are released and its inode forgotten.\<close>

lemma release_spec:
  assumes "node_inv L s" "inode_inv (fu_inodes s)" "set slots \<subseteq> heap.live s" "distinct slots" "dir_at L s ino p d"
    and "p \<notin> set slots" "x \<in> set slots" "s' = forget_slot x (fold (free_node L) slots s)"
  shows "heap.frame L (set slots) s s'" "heap.live s' = heap.live s - set slots" "dir_at L s' ino p d"
    "slot_of i (fu_inodes s') = (if slot_of i (fu_inodes s) = Some x then None else slot_of i (fu_inodes s))"
    "inode_inv (fu_inodes s')" "fu_open_files s' = fu_open_files s"
    "inodes_left (fu_inodes s') = inodes_left (fu_inodes s)"
proof -
  let ?t = "fold (free_node L) slots s"
  note f = heap.frame_del_all [OF assms(1,3,4)]
  note m = fold_free_more [OF assms(1,3,4)]
  note mf = more_fields [OF m]
  have sh: "same_heap ?t s'" by (simp add: assms(8))
  have inv: "node_inv L ?t" using f heap.frame_inv by blast
  show fr: "heap.frame L (set slots) s s'"
    using heap.frame_same [OF conjunct1 [OF f] same_heap_frame [OF inv sh]] .
  show "heap.live s' = heap.live s - set slots" using f same_heap_heap(5) [OF sh] by simp
  have i: "inode_inv (fu_inodes ?t)" using assms(2) mf by simp
  note sf = slot_of_forget [OF i, where x = x, folded assms(8)]
  show "slot_of i (fu_inodes s') = (if slot_of i (fu_inodes s) = Some x then None else slot_of i (fu_inodes s))" for i
    using sf(1) mf by simp
  show "inode_inv (fu_inodes s')" by (rule sf(2))
  show "inodes_left (fu_inodes s') = inodes_left (fu_inodes s)" using sf(3) mf by simp
  show "fu_open_files s' = fu_open_files s" using mf by (simp add: assms(8) forget_slot_def)
  have "slot_of ino (fu_inodes s') = Some p"
    using sf(1) [of ino] mf assms(5,6,7) by (auto simp: dir_at_def)
  then show "dir_at L s' ino p d"
    using assms(5,6) heap.frame_read [OF fr] heap.frame_live [OF fr] by (simp add: dir_at_def)
qed

text \<open>Removing an entry from its directory, in the state of the adapter.\<close>

lemma remove_entry_spec:
  assumes "fuse_ok L s" "dir_at L s parent p d" "dir_remove_entry L p name s = (r, s1)"
  shows "fu_inodes s1 = fu_inodes s" "fu_open_files s1 = fu_open_files s" "heap.live s1 = heap.live s" "node_inv L s1"
    "r = Ok i \<Longrightarrow> \<exists>e. find_entry name d = Some e \<and> i = de_slot e \<and> heap.frame L {p} s s1 \<and> dir_at L s1 parent p (cut_entry name d)"
    "(\<And>i. r \<noteq> Ok i) \<Longrightarrow> heap.frame L {} s s1"
    "find_entry name d = None \<Longrightarrow> r = Err ENOENT \<and> s1 = s"
proof -
  have inv: "node_inv L s" using assms(1) by (simp add: fuse_ok_def)
  have d: "slot_of parent (fu_inodes s) = Some p" "p \<in> heap.live s" "fst (read_node L p s) = Ok (Directory d)" "dir_wf d"
    using assms(2) by (simp_all add: dir_at_def)
  note sp = dir_remove_entry_spec [OF inv d(2,3,4) assms(3)]
  note mf = more_fields [OF sp(1)]
  show "fu_inodes s1 = fu_inodes s" "fu_open_files s1 = fu_open_files s" "heap.live s1 = heap.live s" using mf sp(2) by simp_all
  show "\<exists>e. find_entry name d = Some e \<and> i = de_slot e \<and> heap.frame L {p} s s1 \<and> dir_at L s1 parent p (cut_entry name d)"
    if "r = Ok i"
    using sp(3) [OF that] mf sp(2) d dirs.cut_spec [OF d(4), of name name] by (auto simp: dir_at_def)
  show "(\<And>i. r \<noteq> Ok i) \<Longrightarrow> heap.frame L {} s s1" by (rule sp(4))
  show "find_entry name d = None \<Longrightarrow> r = Err ENOENT \<and> s1 = s" by (rule sp(5))
  show "node_inv L s1"
  proof (cases "\<exists>i. r = Ok i")
    case True
    with sp(3) show ?thesis using heap.frame_inv by blast
  next
    case False
    with sp(4) show ?thesis using heap.frame_inv by blast
  qed
qed

section \<open>rmdir\<close>

lemma op_rmdir_refused:
  assumes "dir_at L s parent p d"
  shows "find_entry name d = None \<Longrightarrow> op_rmdir L parent name s = (Err ENOENT, s)"
    "find_entry name d = Some e \<Longrightarrow> fst (read_node L (de_slot e) s) = Ok n \<Longrightarrow> (\<And>t. n \<noteq> Directory t) \<Longrightarrow>
       op_rmdir L parent name s = (Err ENOTDIR, s)"
    "find_entry name d = Some e \<Longrightarrow> fst (read_node L (de_slot e) s) = Ok (Directory t) \<Longrightarrow> db_entries t \<noteq> [] \<Longrightarrow>
       op_rmdir L parent name s = (Err ENOTEMPTY, s)"
proof -
  have p: "slot_of_ino parent s = (Ok p, s)" "read_dir_block L p s = (Ok d, s)"
    using assms by (simp_all add: dir_at_def slot_of_ino_def read_dir_block_def)
  show "find_entry name d = None \<Longrightarrow> op_rmdir L parent name s = (Err ENOENT, s)"
    using p by (simp add: op_rmdir_def then_op_def)
  show "op_rmdir L parent name s = (Err ENOTDIR, s)"
    if "find_entry name d = Some e" "fst (read_node L (de_slot e) s) = Ok n" "\<And>t. n \<noteq> Directory t"
  proof -
    have "read_dir_block L (de_slot e) s = (Err ENOTDIR, s)"
      using that by (cases n) (auto simp: read_dir_block_def)
    with p that(1) show ?thesis by (simp add: op_rmdir_def)
  qed
  show "op_rmdir L parent name s = (Err ENOTEMPTY, s)"
    if "find_entry name d = Some e" "fst (read_node L (de_slot e) s) = Ok (Directory t)" "db_entries t \<noteq> []"
    using p that by (simp add: op_rmdir_def read_dir_Ok)
qed

lemma op_rmdir_Ok:
  assumes "fuse_ok L s" "dir_at L s parent p d" "find_entry name d = Some e" "de_slot e \<in> heap.live s - {p}"
    and "op_rmdir L parent name s = (Ok (), s')"
  shows "fst (read_node L (de_slot e) s) = Ok (Directory t) \<Longrightarrow> db_entries t = []"
    "heap.frame L {p, de_slot e} s s'" "heap.live s' = heap.live s - {de_slot e}"
    "dir_at L s' parent p (cut_entry name d)" "inode_inv (fu_inodes s')"
    "slot_of i (fu_inodes s') = (if slot_of i (fu_inodes s) = Some (de_slot e) then None else slot_of i (fu_inodes s))"
proof -
  have p: "slot_of_ino parent s = (Ok p, s)" "read_dir_block L p s = (Ok d, s)"
    using assms(2) by (simp_all add: dir_at_def slot_of_ino_def read_dir_block_def)
  from assms(5) p assms(3) obtain u sa where u: "read_dir_block L (de_slot e) s = (Ok u, sa)" "db_entries u = []"
    and rest: "then_op (dir_remove_entry L p name) (\<lambda>removed s. (Ok (), forget_slot removed (free_node L removed s))) sa = (Ok (), s')"
    by (auto simp: op_rmdir_def then_op_eq_Ok split: if_splits)
  have sa: "sa = s" using u(1) by (auto simp: read_dir_block_def split: outcome.splits vault_node.splits)
  show "db_entries t = []" if "fst (read_node L (de_slot e) s) = Ok (Directory t)"
    using u that by (simp add: read_dir_block_def)
  from rest sa obtain i s1 where r: "dir_remove_entry L p name s = (Ok i, s1)"
    and s': "s' = forget_slot i (free_node L i s1)"
    by (auto simp: then_op_eq_Ok)
  note sp = remove_entry_spec [OF assms(1,2) r]
  from sp(5) assms(3) have i: "i = de_slot e" and f1: "heap.frame L {p} s s1" and d1: "dir_at L s1 parent p (cut_entry name d)"
    by auto
  have il: "set [de_slot e] \<subseteq> heap.live s1" "p \<notin> set [de_slot e]" using assms(4) sp(3) by auto
  have ii: "inode_inv (fu_inodes s1)" using assms(1) sp(1) by (simp add: fuse_ok_def)
  note re = release_spec [OF sp(4) ii il(1) _ d1 il(2), of "de_slot e" s']
  have s'': "s' = forget_slot (de_slot e) (fold (free_node L) [de_slot e] s1)" by (simp add: s' i)
  have f2: "heap.frame L {de_slot e} s1 s'" using re(1) s'' by simp
  from heap.frame_trans [OF f1 f2] show "heap.frame L {p, de_slot e} s s'" by (simp add: insert_commute)
  show "heap.live s' = heap.live s - {de_slot e}" "dir_at L s' parent p (cut_entry name d)" "inode_inv (fu_inodes s')"
    "slot_of i (fu_inodes s') = (if slot_of i (fu_inodes s) = Some (de_slot e) then None else slot_of i (fu_inodes s))" for i
    using re(2-5) s'' sp(1,3) by simp_all
qed

section \<open>unlink\<close>

text \<open>All slots of a file: its head, its data slots and its index chain.\<close>

definition file_slots :: "nat \<Rightarrow> file_block \<Rightarrow> nat list \<Rightarrow> nat list" where
  "file_slots head fb is = fb_data_slots fb @ is @ [head]"

lemma fold_free_append: "fold (free_node L) (xs @ ys) s = fold (free_node L) ys (fold (free_node L) xs s)"
  by simp

lemma op_unlink_Ok:
  assumes "fuse_ok L s" "dir_at L s parent p d" "find_entry name d = Some e"
    and "fst (read_node L (de_slot e) s) = Ok (File fb)" "chain_at L s (fb_index_chain fb) is ids"
    and "set (file_slots (de_slot e) fb is) \<subseteq> heap.live s - {p}" "distinct (file_slots (de_slot e) fb is)"
    and "op_unlink L parent name s = (Ok (), s')"
  shows "heap.frame L (insert p (set (file_slots (de_slot e) fb is))) s s'"
    "heap.live s' = heap.live s - set (file_slots (de_slot e) fb is)"
    "dir_at L s' parent p (cut_entry name d)" "inode_inv (fu_inodes s')"
    "slot_of i (fu_inodes s') = (if slot_of i (fu_inodes s) = Some (de_slot e) then None else slot_of i (fu_inodes s))"
    "fu_open_files s' fh = (case fu_open_files s fh of Some fo \<Rightarrow> if of_head_slot fo = de_slot e then None else Some fo | None \<Rightarrow> None)"
proof -
  let ?slots = "file_slots (de_slot e) fb is"
  have p: "slot_of_ino parent s = (Ok p, s)" using assms(2) by (simp add: dir_at_def slot_of_ino_def)
  from assms(8) p obtain i s1 where r: "dir_remove_entry L p name s = (Ok i, s1)"
    by (auto simp: op_unlink_def then_op_eq_Ok)
  note sp = remove_entry_spec [OF assms(1,2) r]
  from sp(5) assms(3) have i: "i = de_slot e" and f1: "heap.frame L {p} s s1" and d1: "dir_at L s1 parent p (cut_entry name d)"
    by auto
  let ?open = "\<lambda>fh. case fu_open_files s1 fh of Some fo \<Rightarrow> if of_head_slot fo \<noteq> de_slot e then Some fo else None | None \<Rightarrow> None"
  define s2 where "s2 = s1\<lparr>fu_open_files := ?open\<rparr>"
  have sh: "same_heap s1 s2" by (simp add: s2_def)
  note h2 = same_heap_heap [OF sh]
  have inv2: "node_inv L s2" using sp(4) h2(1) by simp
  have keep: "fst (read_node L j s2) = fst (read_node L j s)" if "j \<in> heap.live s - {p}" for j
    using heap.frame_read [OF f1, of j] that h2(6) by simp
  have head: "fst (read_node L (de_slot e) s2) = Ok (File fb)"
    using keep assms(4,6) by (simp add: file_slots_def)
  have sub: "set ?slots \<subseteq> heap.live s2" using assms(6) sp(3) h2(5) by auto
  have ds: "set (fb_data_slots fb) \<subseteq> heap.live s2" "distinct (fb_data_slots fb)"
    using sub assms(7) by (auto simp: file_slots_def)
  note f3 = heap.frame_del_all [OF inv2 ds]
  let ?s3 = "fold (free_node L) (fb_data_slots fb) s2"
  have chain3: "chain_at L ?s3 (fb_index_chain fb) is ids"
  proof -
    have "fst (read_node L j ?s3) = fst (read_node L j s)" if "j \<in> set is" for j
    proof -
      have "j \<in> heap.live s2" "j \<notin> set (fb_data_slots fb)" using that sub assms(7) by (auto simp: file_slots_def)
      from heap.frame_read [OF conjunct1 [OF f3] this] keep [of j] that assms(6) show ?thesis by (auto simp: file_slots_def)
    qed
    then show ?thesis using chain_at_cong [of "is" L ?s3 s] assms(5) by blast
  qed
  have is3: "set is \<subseteq> heap.live ?s3" "distinct is" using f3 sub assms(7) by (auto simp: file_slots_def)
  have inv3: "node_inv L ?s3" using f3 heap.frame_inv by blast
  note fc = free_index_chain_spec [OF inv3 chain3 is3]
  have s': "s' = forget_slot (de_slot e) (fold (free_node L) ?slots s2)"
    using assms(8) p r i head fc
    by (simp add: op_unlink_def then_op_def Let_def s2_def [symmetric] free_all_def file_slots_def)
  have d2: "dir_at L s2 parent p (cut_entry name d)"
    using d1 h2(5,6) by (simp add: dir_at_def s2_def)
  have ii: "inode_inv (fu_inodes s2)" using assms(1) sp(1) by (simp add: fuse_ok_def s2_def)
  have mem: "p \<notin> set ?slots" "de_slot e \<in> set ?slots" using assms(6) by (auto simp: file_slots_def)
  note re = release_spec [OF inv2 ii sub assms(7) d2 mem s']
  have "heap.frame L {p} s s2" by (rule heap.frame_same [OF f1 same_heap_frame [OF sp(4) sh]])
  from heap.frame_trans [OF this re(1)] show "heap.frame L (insert p (set ?slots)) s s'" by simp
  show "heap.live s' = heap.live s - set ?slots" using re(2) h2(5) sp(3) by simp
  show "dir_at L s' parent p (cut_entry name d)" "inode_inv (fu_inodes s')" using re(3,5) by simp_all
  show "slot_of i (fu_inodes s') = (if slot_of i (fu_inodes s) = Some (de_slot e) then None else slot_of i (fu_inodes s))" for i
    using re(4) [of i] sp(1) by (simp add: s2_def)
  show "fu_open_files s' fh = (case fu_open_files s fh of Some fo \<Rightarrow> if of_head_slot fo = de_slot e then None else Some fo | None \<Rightarrow> None)"
    using re(6) sp(2) by (simp add: s2_def split: option.splits)
qed

section \<open>rename\<close>

definition moved_entry :: "vault_node \<Rightarrow> string \<Rightarrow> nat \<Rightarrow> dir_entry" where
  "moved_entry node newname slot =
     \<lparr>de_name = newname, de_slot = slot, de_kind = (case node of Directory _ \<Rightarrow> KDirectory | _ \<Rightarrow> KFile)\<rparr>"

text \<open>Replacing the entry of a name in a directory, and releasing the slot it led to.\<close>

lemma replace_entry_spec:
  assumes "node_inv L s" "inode_inv (fu_inodes s)" "dir_at L s ino p d" "de_name x = n"
    and "\<And>old. find_entry n d = Some old \<Longrightarrow> de_slot old \<in> heap.live s - {p}"
    and "(let (dest, s) = (case entry_position n d of
               Some pos \<Rightarrow>
                 (let old = de_slot (db_entries d ! pos)
                  in (d\<lparr>db_entries := vec_remove pos (db_entries d)\<rparr>, forget_slot old (free_node L old s)))
             | None \<Rightarrow> (d, s));
           dest = dest\<lparr>db_entries := db_entries dest @ [x]\<rparr>
       in eio (update_node L p (Directory dest)) s) = (Ok (), s')"
  defines "old_slots \<equiv> (case find_entry n d of None \<Rightarrow> {} | Some old \<Rightarrow> {de_slot old})"
  shows "dir_at L s' ino p (push_entry x (cut_entry n d))" "heap.frame L (insert p old_slots) s s'"
    "heap.live s' = heap.live s - old_slots" "inode_inv (fu_inodes s')"
    "slot_of i (fu_inodes s') = (case slot_of i (fu_inodes s) of Some y \<Rightarrow> if y \<in> old_slots then None else Some y | None \<Rightarrow> None)"
    "inodes_left (fu_inodes s') = inodes_left (fu_inodes s)"
proof -
  have d: "slot_of ino (fu_inodes s) = Some p" "p \<in> heap.live s" "fst (read_node L p s) = Ok (Directory d)" "dir_wf d"
    using assms(3) by (simp_all add: dir_at_def)
  obtain s1 where s1: "heap.frame L old_slots s s1" "heap.live s1 = heap.live s - old_slots" "dir_at L s1 ino p d"
    "inode_inv (fu_inodes s1)"
    "\<And>i. slot_of i (fu_inodes s1) = (case slot_of i (fu_inodes s) of Some y \<Rightarrow> if y \<in> old_slots then None else Some y | None \<Rightarrow> None)"
    "inodes_left (fu_inodes s1) = inodes_left (fu_inodes s)"
    and u: "update_node L p (Directory (push_entry x (cut_entry n d))) s1 = (Ok (), s')"
  proof (cases "find_entry n d")
    case None
    then have "entry_position n d = None" by (simp add: entry_position_None)
    moreover have "cut_entry n d = d" using None by (auto simp: cut_entry_def find_entry_def find_None_iff filter_id_conv)
    ultimately have "update_node L p (Directory (push_entry x (cut_entry n d))) s = (Ok (), s')"
      using assms(6) by (simp add: push_entry_def)
    with that [of s] None assms(1-3) show thesis
      by (simp add: old_slots_def heap.frame_refl split: option.splits)
  next
    case (Some old)
    obtain k where k: "entry_position n d = Some k" "db_entries d ! k = old"
      "d\<lparr>db_entries := vec_remove k (db_entries d)\<rparr> = cut_entry n d"
      by (rule entry_position_Some [OF d(4) Some])
    define t where "t = forget_slot (de_slot old) (free_node L (de_slot old) s)"
    have u: "update_node L p (Directory (push_entry x (cut_entry n d))) t = (Ok (), s')"
      using assms(6) k by (simp add: push_entry_def t_def Let_def)
    have ol: "set [de_slot old] \<subseteq> heap.live s" "p \<notin> set [de_slot old]" using assms(5) [OF Some] by auto
    have t: "t = forget_slot (de_slot old) (fold (free_node L) [de_slot old] s)" by (simp add: t_def)
    note re = release_spec [OF assms(1,2) ol(1) _ assms(3) ol(2) _ t]
    show thesis
    proof (rule that [OF _ _ _ _ _ _ u])
      show "inodes_left (fu_inodes t) = inodes_left (fu_inodes s)" using re(7) by simp
      show "heap.frame L old_slots s t" "heap.live t = heap.live s - old_slots" "dir_at L t ino p d" "inode_inv (fu_inodes t)"
        using re(1,2,3,5) Some by (simp_all add: old_slots_def)
      show "slot_of i (fu_inodes t) = (case slot_of i (fu_inodes s) of Some y \<Rightarrow> if y \<in> old_slots then None else Some y | None \<Rightarrow> None)" for i
        using re(4) [of i] Some by (auto simp: old_slots_def split: option.splits)
    qed
  qed
  note inv1 = heap.frame_inv [OF s1(1)]
  have p1: "p \<in> heap.live s1" using s1(3) by (simp add: dir_at_def)
  note w = heap.frame_wr [OF inv1 heap.live_valid [OF p1] u]
  note mf = more_fields [OF update_node_more [OF inv1 heap.live_valid [OF p1] u]]
  have "find_entry n (cut_entry n d) = None" "dir_wf (cut_entry n d)" using dirs.cut_spec [OF d(4), of n n] by simp_all
  then have "dir_wf (push_entry x (cut_entry n d))" using dirs.push_spec [of "cut_entry n d" x] assms(4) by simp
  moreover have "fst (read_node L p s') = Ok (Directory (push_entry x (cut_entry n d)))"
    by (rule nodes.read_same [OF inv1 heap.live_valid [OF p1] _ u]) (simp add: any_node_def)
  ultimately show "dir_at L s' ino p (push_entry x (cut_entry n d))"
    using s1(3) w(2) mf by (simp add: dir_at_def)
  from heap.frame_trans [OF s1(1) w(1)] show "heap.frame L (insert p old_slots) s s'" by simp
  show "heap.live s' = heap.live s - old_slots" using s1(2) w(2) by simp
  show "inode_inv (fu_inodes s')" using s1(4) mf by simp
  show "inodes_left (fu_inodes s') = inodes_left (fu_inodes s)" using s1(6) mf by simp
  show "slot_of i (fu_inodes s') = (case slot_of i (fu_inodes s) of Some y \<Rightarrow> if y \<in> old_slots then None else Some y | None \<Rightarrow> None)" for i
    using s1(5) [of i] mf by simp
qed

lemma op_rename_Ok:
  assumes ok: "fuse_ok L s" and d: "dir_at L s parent p d" and e: "find_entry name d = Some e"
    and el: "de_slot e \<in> heap.live s - {p, np}"
    and d2: "dir_at L s newparent np d2" and same: "np = p \<Longrightarrow> d2 = d"
    and run: "op_rename L parent name newparent newname s = (Ok (), s')"
  defines "dest \<equiv> (if np = p then cut_entry name d else d2)"
  assumes old: "\<And>old. find_entry newname dest = Some old \<Longrightarrow> de_slot old \<in> heap.live s - {p, np, de_slot e}"
  defines "old_slots \<equiv> (case find_entry newname dest of None \<Rightarrow> {} | Some old \<Rightarrow> {de_slot old})"
  shows "\<exists>node. fst (read_node L (de_slot e) s) = Ok node \<and>
      dir_at L s' newparent np (push_entry (moved_entry node newname (de_slot e)) (cut_entry newname dest))"
    "np \<noteq> p \<Longrightarrow> dir_at L s' parent p (cut_entry name d)"
    "heap.frame L (insert p (insert np old_slots)) s s'" "heap.live s' = heap.live s - old_slots" "inode_inv (fu_inodes s')"
    "slot_of i (fu_inodes s') = (case slot_of i (fu_inodes s) of Some y \<Rightarrow> if y \<in> old_slots then None else Some y | None \<Rightarrow> None)"
    "fuse_ok L s'"
proof -
  have ps: "slot_of_ino parent s = (Ok p, s)" "slot_of_ino newparent s = (Ok np, s)"
    using d d2 by (simp_all add: dir_at_def slot_of_ino_def)
  from run ps obtain i s1 where r: "dir_remove_entry L p name s = (Ok i, s1)"
    by (auto simp: op_rename_def then_op_eq_Ok)
  note sp = remove_entry_spec [OF ok d r]
  from sp(5) e have i: "i = de_slot e" and f1: "heap.frame L {p} s s1" and d1: "dir_at L s1 parent p (cut_entry name d)"
    by auto
  have ii: "inode_inv (fu_inodes s1)" using ok sp(1) by (simp add: fuse_ok_def)
  have dn: "dir_at L s1 newparent np dest"
  proof (cases "np = p")
    case True
    with d1 d2 sp(1) show ?thesis by (simp add: dest_def dir_at_def)
  next
    case False
    with dir_at_kept [OF d2 f1 _ sp(1)] show ?thesis by (simp add: dest_def)
  qed
  have rd: "fst (read_node L (de_slot e) s1) = fst (read_node L (de_slot e) s)"
    using heap.frame_read [OF f1] el by simp
  have nd: "read_dir_block L np s1 = (Ok dest, s1)" using dn by (simp add: dir_at_def read_dir_Ok)
  from run ps r i obtain node where node: "fst (read_node L (de_slot e) s1) = Ok node"
    by (auto simp: op_rename_def then_op_eq_Ok)
  then have rn: "eio (read_node L (de_slot e)) s1 = (Ok node, s1)" by (simp add: eio_def)
  have fin: "(let (dest, s) = (case entry_position newname dest of
               Some pos \<Rightarrow>
                 (let old = de_slot (db_entries dest ! pos)
                  in (dest\<lparr>db_entries := vec_remove pos (db_entries dest)\<rparr>, forget_slot old (free_node L old s1)))
             | None \<Rightarrow> (dest, s1));
           dest = dest\<lparr>db_entries := db_entries dest @ [moved_entry node newname (de_slot e)]\<rparr>
       in eio (update_node L np (Directory dest)) s) = (Ok (), s')"
    using run unfolding op_rename_def moved_entry_def
    by (simp only: then_op_simps ps r i rn nd Let_def)
  have ol: "de_slot old \<in> heap.live s1 - {np}" if "find_entry newname dest = Some old" for old
    using assms(9) [OF that] sp(3) by simp
  have nm: "de_name (moved_entry node newname (de_slot e)) = newname" by (simp add: moved_entry_def)
  note re = replace_entry_spec [OF sp(4) ii dn nm ol fin, folded old_slots_def]
  show "\<exists>node. fst (read_node L (de_slot e) s) = Ok node \<and>
      dir_at L s' newparent np (push_entry (moved_entry node newname (de_slot e)) (cut_entry newname dest))"
    using re(1) node rd by auto
  show fr: "heap.frame L (insert p (insert np old_slots)) s s'"
    using heap.frame_trans [OF f1 re(2)] by (simp add: insert_commute)
  show "heap.live s' = heap.live s - old_slots" "inode_inv (fu_inodes s')" using re(3,4) sp(3) by simp_all
  show "fuse_ok L s'" using ok re(4,6) sp(1) heap.frame_inv [OF fr] by (simp add: fuse_ok_def)
  show st: "slot_of i (fu_inodes s') = (case slot_of i (fu_inodes s) of Some y \<Rightarrow> if y \<in> old_slots then None else Some y | None \<Rightarrow> None)" for i
    using re(5) [of i] sp(1) by simp
  show "dir_at L s' parent p (cut_entry name d)" if "np \<noteq> p"
  proof -
    have po: "p \<notin> old_slots" using old by (auto simp: old_slots_def split: option.splits)
    have "p \<in> heap.live s1" using d1 by (simp add: dir_at_def)
    with heap.frame_read [OF re(2)] heap.frame_live [OF re(2)] that po d1 re(5) [of parent]
    show ?thesis by (simp add: dir_at_def)
  qed
qed

end
