(* ===== verification/Fuse_Cache.thy ===== *)
theory Fuse_Cache
  imports Fuse_Removal
begin

declare CHUNK_SIZE_def [simp del]

text \<open>
  Open files of the FUSE adapter: the chunk cache over the slots of a file. A chunk is what
  the cache holds or, when it is not cached, what its slot holds; the content of a file is
  the sequence of the bytes of its chunks. Reading returns a segment of the content and
  writing replaces one, whatever is cached, evicted or written through.
\<close>

section \<open>Chunks\<close>

lemma CHUNK_pos [simp]: "0 < CHUNK_SIZE"
  by (simp add: CHUNK_SIZE_def)

definition view :: "libs \<Rightarrow> 'a slot_store_scheme \<Rightarrow> open_file \<Rightarrow> nat \<Rightarrow> (errno, bytes) outcome" where
  "view L s fo ci = (case of_cache fo ci of Some d \<Rightarrow> Ok d | None \<Rightarrow> load_chunk L fo ci s)"

definition byte_at :: "libs \<Rightarrow> 'a slot_store_scheme \<Rightarrow> open_file \<Rightarrow> nat \<Rightarrow> byte" where
  "byte_at L s fo p = (case view L s fo (p div CHUNK_SIZE) of Ok d \<Rightarrow> d ! (p mod CHUNK_SIZE) | _ \<Rightarrow> 0)"

definition content :: "libs \<Rightarrow> 'a slot_store_scheme \<Rightarrow> open_file \<Rightarrow> nat \<Rightarrow> bytes" where
  "content L s fo t = map (byte_at L s fo) [0..<t]"

text \<open>
  The chunks of a file of \<open>t\<close> bytes: clean cached chunks agree with their slots, every chunk of
  the file is there and long enough, and the inline chunk has exactly its length.
\<close>

definition chunks_ok :: "libs \<Rightarrow> 'a slot_store_scheme \<Rightarrow> open_file \<Rightarrow> nat \<Rightarrow> bool" where
  "chunks_ok L s fo t \<longleftrightarrow>
     nth_opt 0 (of_slot_map fo) = Some None \<and> finite (dom (of_cache fo)) \<and> of_dirty fo \<subseteq> dom (of_cache fo) \<and>
     (\<forall>ci d. of_cache fo ci = Some d \<longrightarrow> ci < length (of_slot_map fo) \<and> length d \<le> CHUNK_SIZE) \<and>
     (\<forall>ci d. of_cache fo ci = Some d \<longrightarrow> ci \<notin> of_dirty fo \<longrightarrow> load_chunk L fo ci s = Ok d) \<and>
     (\<forall>ci < length (of_slot_map fo). \<exists>d. load_chunk L fo ci s = Ok d \<and> length d \<le> CHUNK_SIZE) \<and>
     (\<forall>ci. ci * CHUNK_SIZE < t \<longrightarrow> ci < length (of_slot_map fo) \<and>
        (\<exists>d. view L s fo ci = Ok d \<and> min CHUNK_SIZE (t - ci * CHUNK_SIZE) \<le> length d)) \<and>
     (\<exists>d. view L s fo 0 = Ok d \<and> length d = min CHUNK_SIZE t)"

definition cached_inside :: "open_file \<Rightarrow> nat \<Rightarrow> bool" where
  "cached_inside fo t \<longleftrightarrow> (\<forall>ci. of_cache fo ci \<noteq> None \<longrightarrow> ci = 0 \<or> ci * CHUNK_SIZE < t)"

lemma chunks_okD:
  assumes "chunks_ok L s fo t"
  shows "nth_opt 0 (of_slot_map fo) = Some None" "0 < length (of_slot_map fo)" "of_slot_map fo ! 0 = None"
    "finite (dom (of_cache fo))" "of_dirty fo \<subseteq> dom (of_cache fo)"
    "of_cache fo ci = Some d \<Longrightarrow> ci < length (of_slot_map fo)" "of_cache fo ci = Some d \<Longrightarrow> length d \<le> CHUNK_SIZE"
    "of_cache fo ci = Some d \<Longrightarrow> ci \<notin> of_dirty fo \<Longrightarrow> load_chunk L fo ci s = Ok d"
    "ci < length (of_slot_map fo) \<Longrightarrow> \<exists>d. load_chunk L fo ci s = Ok d \<and> length d \<le> CHUNK_SIZE"
    "ci * CHUNK_SIZE < t \<Longrightarrow> ci < length (of_slot_map fo)"
    "ci * CHUNK_SIZE < t \<Longrightarrow> \<exists>d. view L s fo ci = Ok d \<and> min CHUNK_SIZE (t - ci * CHUNK_SIZE) \<le> length d"
    "\<exists>d. view L s fo 0 = Ok d \<and> length d = min CHUNK_SIZE t"
  using assms unfolding chunks_ok_def by (auto simp: nth_opt_def split: if_splits)

lemma view_bound:
  assumes "chunks_ok L s fo t" "view L s fo ci = Ok d" "ci < length (of_slot_map fo)"
  shows "length d \<le> CHUNK_SIZE"
  using assms(2) chunks_okD(7) [OF assms(1), of ci] chunks_okD(9) [OF assms(1,3)]
  by (auto simp: view_def split: option.splits)

text \<open>Loading depends on the slot map and the head only.\<close>

lemma load_chunk_cong:
  "of_slot_map fo' = of_slot_map fo \<Longrightarrow> of_head_slot fo' = of_head_slot fo \<Longrightarrow> load_chunk L fo' ci s = load_chunk L fo ci s"
  by (simp add: load_chunk_def split: option.splits)

lemma load_chunk_reads:
  assumes "\<And>i. i \<in> insert (of_head_slot fo) {i. Some i \<in> set (of_slot_map fo)} \<Longrightarrow> fst (read_node L i t) = fst (read_node L i s)"
  shows "load_chunk L fo ci t = load_chunk L fo ci s"
proof -
  have "fetch L (of_head_slot fo) t = fetch L (of_head_slot fo) s" using assms by (simp add: fetch_def)
  moreover have "fetch L i t = fetch L i s" if "nth_opt ci (of_slot_map fo) = Some (Some i)" for i
  proof -
    have "Some i \<in> set (of_slot_map fo)" using that by (metis nth_mem nth_opt_def option.distinct(1) option.inject)
    then show ?thesis using assms by (simp add: fetch_def)
  qed
  ultimately show ?thesis by (simp add: load_chunk_def split: option.splits)
qed

lemma load_chunk_grown:
  assumes "0 < length (of_slot_map fo)" "of_slot_map fo' = of_slot_map fo @ replicate k None" "of_head_slot fo' = of_head_slot fo"
  shows "load_chunk L fo' ci s = (if ci < length (of_slot_map fo) then load_chunk L fo ci s
    else if ci < length (of_slot_map fo') then Ok [] else Err EIO)"
  using assms by (auto simp: load_chunk_def nth_opt_def nth_append split: option.splits)

section \<open>Eviction and loading\<close>

text \<open>Dropping clean chunks, or adding a chunk as its slot holds it, changes nothing that is seen.\<close>

lemma chunks_ok_cache:
  assumes "chunks_ok L s fo t" "finite (dom c)" "of_dirty fo \<subseteq> dom c"
    and "\<And>ci. c ci = of_cache fo ci \<or> (c ci = None \<and> ci \<notin> of_dirty fo) \<or>
      (of_cache fo ci = None \<and> ci < length (of_slot_map fo) \<and> (\<exists>d. c ci = Some d \<and> load_chunk L fo ci s = Ok d))"
  shows "chunks_ok L s (fo\<lparr>of_cache := c\<rparr>) t" "view L s (fo\<lparr>of_cache := c\<rparr>) ci = view L s fo ci"
proof -
  note D = chunks_okD [OF assms(1)]
  have ld: "load_chunk L (fo\<lparr>of_cache := c\<rparr>) ci s = load_chunk L fo ci s" for ci by (rule load_chunk_cong) simp_all
  have v: "view L s (fo\<lparr>of_cache := c\<rparr>) ci = view L s fo ci" for ci
  proof (cases "of_cache fo ci")
    case None
    with assms(4) [of ci] show ?thesis by (auto simp: view_def ld)
  next
    case (Some d)
    with assms(4) [of ci] D(8) [OF Some] show ?thesis by (auto simp: view_def ld)
  qed
  show "view L s (fo\<lparr>of_cache := c\<rparr>) ci = view L s fo ci" by (rule v)
  have in_map: "ci < length (of_slot_map fo) \<and> length d \<le> CHUNK_SIZE" if "c ci = Some d" for ci d
    using assms(4) [of ci] that D(6,7) [of ci d] D(9) [of ci] by auto
  have clean: "load_chunk L fo ci s = Ok d" if "c ci = Some d" "ci \<notin> of_dirty fo" for ci d
    using assms(4) [of ci] that D(8) [of ci d] by auto
  show "chunks_ok L s (fo\<lparr>of_cache := c\<rparr>) t"
    unfolding chunks_ok_def v ld
    using assms(1-3) in_map clean by (simp add: chunks_ok_def)
qed

lemma evict_eq:
  assumes "order_ok L" "finite (dom (of_cache fo))"
  obtains c where "evict L fo = fo\<lparr>of_cache := c\<rparr>" "c = of_cache fo \<or> (\<exists>k. k \<notin> of_dirty fo \<and> c = (of_cache fo)(k := None))"
proof (cases "MAX_CACHE_CHUNKS \<le> card (dom (of_cache fo)) \<and>
    find (\<lambda>k. k \<notin> of_dirty fo) (hash_order L (dom (of_cache fo))) \<noteq> None")
  case True
  then obtain k where k: "find (\<lambda>k. k \<notin> of_dirty fo) (hash_order L (dom (of_cache fo))) = Some k" by blast
  then have "k \<notin> of_dirty fo" by (auto simp: find_Some_iff)
  with True k show thesis by (intro that) (auto simp: evict_def)
next
  case False
  then have "evict L fo = fo" by (auto simp: evict_def)
  then show thesis by (intro that [of "of_cache fo"]) simp_all
qed

text \<open>
  What \<open>ensure_cached\<close> does to a file: only its cache changes, what is seen does not, and the
  chunk is in the cache.
\<close>

lemma ensure_cached_spec:
  assumes "order_ok L" "chunks_ok L s fo t" "ci < length (of_slot_map fo)"
  obtains c d where "ensure_cached L fo ci s = Ok (fo\<lparr>of_cache := c\<rparr>)" "chunks_ok L s (fo\<lparr>of_cache := c\<rparr>) t"
    "\<And>cj. view L s (fo\<lparr>of_cache := c\<rparr>) cj = view L s fo cj" "c ci = Some d" "view L s fo ci = Ok d"
    "\<And>cj. c cj \<noteq> None \<Longrightarrow> cj = ci \<or> of_cache fo cj \<noteq> None"
proof (cases "of_cache fo ci")
  case (Some d)
  then show thesis using assms(2) by (intro that [of "of_cache fo" d]) (simp_all add: ensure_cached_def view_def)
next
  case None
  note D = chunks_okD [OF assms(2)]
  obtain d where d: "load_chunk L fo ci s = Ok d" using D(9) [OF assms(3)] by blast
  obtain c0 where e: "evict L fo = fo\<lparr>of_cache := c0\<rparr>"
    and c0: "c0 = of_cache fo \<or> (\<exists>k. k \<notin> of_dirty fo \<and> c0 = (of_cache fo)(k := None))"
    by (rule evict_eq [OF assms(1) D(4)])
  let ?c = "c0(ci \<mapsto> d)"
  have 1: "finite (dom ?c)" using c0 D(4) by auto
  have 2: "of_dirty fo \<subseteq> dom ?c" using c0 D(5) by auto
  have 3: "?c cj = of_cache fo cj \<or> (?c cj = None \<and> cj \<notin> of_dirty fo) \<or>
      (of_cache fo cj = None \<and> cj < length (of_slot_map fo) \<and> (\<exists>d. ?c cj = Some d \<and> load_chunk L fo cj s = Ok d))" for cj
    using c0 d None assms(3) by (auto split: if_splits)
  note r = chunks_ok_cache [OF assms(2) 1 2 3]
  show thesis
  proof (rule that [of ?c d])
    show "ensure_cached L fo ci s = Ok (fo\<lparr>of_cache := ?c\<rparr>)" using None d e by (simp add: ensure_cached_def cache_insert_def)
    show "chunks_ok L s (fo\<lparr>of_cache := ?c\<rparr>) t" by (rule r(1))
    show "view L s (fo\<lparr>of_cache := ?c\<rparr>) cj = view L s fo cj" for cj by (rule r(2))
    show "?c ci = Some d" "view L s fo ci = Ok d" using None d by (simp_all add: view_def)
    show "?c cj \<noteq> None \<Longrightarrow> cj = ci \<or> of_cache fo cj \<noteq> None" for cj using c0 by (auto split: if_splits)
  qed
qed

text \<open>Changes of the adapter's own fields are not seen.\<close>

lemma load_chunk_same_heap: "same_heap s t \<Longrightarrow> load_chunk L fo ci t = load_chunk L fo ci s"
  by (rule load_chunk_reads) (rule same_heap_heap(6))

lemma view_same_heap:
  assumes "same_heap s t"
  shows "view L t fo = view L s fo"
  by (rule ext) (simp add: view_def load_chunk_same_heap [OF assms] split: option.splits)

lemma chunks_ok_same_heap:
  assumes "same_heap s t"
  shows "chunks_ok L t fo n = chunks_ok L s fo n"
  by (simp add: chunks_ok_def load_chunk_same_heap [OF assms] view_same_heap [OF assms])

lemma content_view: "(\<And>ci. view L s fo' ci = view L s fo ci) \<Longrightarrow> content L s fo' = content L s fo"
  by (simp add: content_def byte_at_def fun_eq_iff)

lemma content_same_heap:
  assumes "same_heap s t"
  shows "content L t fo = content L s fo"
  by (rule ext) (simp add: content_def byte_at_def view_same_heap [OF assms])

lemma put_file_simps [simp]:
  "fu_open_files (put_file fh fo s) fh = Some fo" "put_file fh fo' (put_file fh fo s) = put_file fh fo' s"
  "fu_inodes (put_file fh fo s) = fu_inodes s" "fu_next_fh (put_file fh fo s) = fu_next_fh s"
  by (simp_all add: put_file_def)

lemma put_file_id: "fu_open_files s fh = Some fo \<Longrightarrow> put_file fh fo s = s"
  by (simp add: put_file_def fun_upd_idem)

lemma chunk_split:
  "x < CHUNK_SIZE \<Longrightarrow> (k * CHUNK_SIZE + x) div CHUNK_SIZE = k \<and> (k * CHUNK_SIZE + x) mod CHUNK_SIZE = x"
  by simp

lemma content_segment:
  assumes "view L s fo (pos div CHUNK_SIZE) = Ok d" "pos mod CHUNK_SIZE + n \<le> length d" "length d \<le> CHUNK_SIZE" "pos + n \<le> t"
  shows "subrange (pos mod CHUNK_SIZE) (pos mod CHUNK_SIZE + n) d = subrange pos (pos + n) (content L s fo t)"
proof (rule nth_equalityI)
  fix i assume "i < length (subrange (pos mod CHUNK_SIZE) (pos mod CHUNK_SIZE + n) d)"
  then have i: "i < n" using assms(2) by simp
  have lt: "pos mod CHUNK_SIZE + i < CHUNK_SIZE" using i assms(2,3) by linarith
  then have "(pos + i) div CHUNK_SIZE = pos div CHUNK_SIZE" "(pos + i) mod CHUNK_SIZE = pos mod CHUNK_SIZE + i"
    using chunk_split [of "pos mod CHUNK_SIZE + i" "pos div CHUNK_SIZE"] div_mult_mod_eq [of pos CHUNK_SIZE]
    by (simp_all add: add.assoc [symmetric])
  then show "subrange (pos mod CHUNK_SIZE) (pos mod CHUNK_SIZE + n) d ! i = subrange pos (pos + n) (content L s fo t) ! i"
    using i assms by (simp add: content_def byte_at_def)
qed (use assms(2,4) in \<open>simp add: content_def\<close>)

section \<open>Reading\<close>

lemma chunk_len:
  assumes "chunks_ok L s fo t" "view L s fo (pos div CHUNK_SIZE) = Ok d" "pos < t"
  shows "min CHUNK_SIZE (t - pos div CHUNK_SIZE * CHUNK_SIZE) \<le> length d" "length d \<le> CHUNK_SIZE"
    "pos mod CHUNK_SIZE < length d" "pos div CHUNK_SIZE * CHUNK_SIZE < t"
proof -
  have q: "pos div CHUNK_SIZE * CHUNK_SIZE + pos mod CHUNK_SIZE = pos" by (rule div_mult_mod_eq)
  then show lt: "pos div CHUNK_SIZE * CHUNK_SIZE < t" using assms(3) by linarith
  note D = chunks_okD [OF assms(1)]
  show l: "min CHUNK_SIZE (t - pos div CHUNK_SIZE * CHUNK_SIZE) \<le> length d" using D(11) [OF lt] assms(2) by auto
  show "length d \<le> CHUNK_SIZE" by (rule view_bound [OF assms(1,2) D(10) [OF lt]])
  have "pos mod CHUNK_SIZE < CHUNK_SIZE" by simp
  moreover have "pos mod CHUNK_SIZE < t - pos div CHUNK_SIZE * CHUNK_SIZE" using q assms(3) by linarith
  ultimately show "pos mod CHUNK_SIZE < length d" using l by linarith
qed

lemma subrange_step: "a \<le> b \<Longrightarrow> b \<le> c \<Longrightarrow> c \<le> length xs \<Longrightarrow> subrange a b xs @ subrange b c xs = subrange a c xs"
  by (rule nth_equalityI) (auto simp: nth_append add.commute)

lemma subrange_empty [simp]: "subrange a a xs = []"
  by (simp add: subrange_def)

lemma length_content [simp]: "length (content L s fo t) = t"
  by (simp add: content_def)

lemma read_loop_spec:
  assumes "order_ok L" "fu_open_files s fh = Some fo" "chunks_ok L s fo t" "cached_inside fo t" "stop \<le> t" "pos \<le> stop"
  obtains c where
    "read_loop L fh stop pos res s = (Ok (res @ subrange pos stop (content L s fo t)), put_file fh (fo\<lparr>of_cache := c\<rparr>) s)"
    "chunks_ok L s (fo\<lparr>of_cache := c\<rparr>) t" "\<And>ci. view L s (fo\<lparr>of_cache := c\<rparr>) ci = view L s fo ci"
    "cached_inside (fo\<lparr>of_cache := c\<rparr>) t"
  using assms
proof (induction "stop - pos" arbitrary: pos res s fo thesis rule: less_induct)
  case less
  note prems = less.prems(2-)
  show ?case
  proof (cases "pos < stop")
    case False
    with prems(5,6) show thesis
      by (intro less.prems(1) [of "of_cache fo"]) (simp_all add: prems(3,4) read_loop.simps put_file_id prems(2))
  next
    case True
    let ?ci = "pos div CHUNK_SIZE" and ?off = "pos mod CHUNK_SIZE"
    have pt: "pos < t" using True prems(5) by simp
    have "?ci * CHUNK_SIZE < t" using pt div_mult_mod_eq [of pos CHUNK_SIZE] by linarith
    then have len: "?ci < length (of_slot_map fo)" by (rule chunks_okD(10) [OF prems(3)])
    obtain c d where e: "ensure_cached L fo ?ci s = Ok (fo\<lparr>of_cache := c\<rparr>)" "chunks_ok L s (fo\<lparr>of_cache := c\<rparr>) t"
      "\<And>cj. view L s (fo\<lparr>of_cache := c\<rparr>) cj = view L s fo cj" "c ?ci = Some d" "view L s fo ?ci = Ok d"
      "\<And>cj. c cj \<noteq> None \<Longrightarrow> cj = ?ci \<or> of_cache fo cj \<noteq> None"
      by (rule ensure_cached_spec [OF prems(1,3) len]) (rule that)
    note cl = chunk_len [OF prems(3) e(5) pt]
    let ?tk = "min (length d - ?off) (stop - pos)"
    have tk: "0 < ?tk" "?off + ?tk \<le> length d" "pos + ?tk \<le> stop" using cl(3) True by auto
    let ?fo = "fo\<lparr>of_cache := c\<rparr>" and ?s = "put_file fh (fo\<lparr>of_cache := c\<rparr>) s"
    have sh: "same_heap s ?s" by simp
    have seg: "subrange ?off (?off + ?tk) d = subrange pos (pos + ?tk) (content L s fo t)"
      by (rule content_segment [OF e(5) tk(2) cl(2)]) (use tk(3) prems(5) in linarith)
    have ins: "cached_inside ?fo t"
      unfolding cached_inside_def
    proof (intro allI impI)
      fix ci assume "of_cache ?fo ci \<noteq> None"
      with e(6) [of ci] prems(4) cl(4) show "ci = 0 \<or> ci * CHUNK_SIZE < t"
        by (cases "ci = ?ci") (simp_all add: cached_inside_def)
    qed
    have same: "content L ?s ?fo t = content L s fo t"
      using content_same_heap [OF sh, of L ?fo] content_view [OF e(3)] by simp
    have lt: "stop - (pos + ?tk) < stop - pos" using tk by linarith
    have opn: "fu_open_files ?s fh = Some ?fo" by simp
    have ch: "chunks_ok L ?s ?fo t" using e(2) by (simp add: chunks_ok_same_heap [OF sh])
    obtain c' where c': "read_loop L fh stop (pos + ?tk) (res @ subrange ?off (?off + ?tk) d) ?s =
        (Ok ((res @ subrange ?off (?off + ?tk) d) @ subrange (pos + ?tk) stop (content L ?s ?fo t)),
         put_file fh (?fo\<lparr>of_cache := c'\<rparr>) ?s)"
      "chunks_ok L ?s (?fo\<lparr>of_cache := c'\<rparr>) t" "\<And>ci. view L ?s (?fo\<lparr>of_cache := c'\<rparr>) ci = view L ?s ?fo ci"
      "cached_inside (?fo\<lparr>of_cache := c'\<rparr>) t"
      by (rule less.hyps [where res = "res @ subrange ?off (?off + ?tk) d", OF lt _ prems(1) opn ch ins prems(5) tk(3)])
        (rule that)
    have cat: "subrange pos (pos + ?tk) (content L s fo t) @ subrange (pos + ?tk) stop (content L s fo t) =
        subrange pos stop (content L s fo t)"
      by (rule subrange_step) (use tk(3) prems(5) in simp_all)
    have nz: "(?tk = 0) = False" using tk(1) by (simp only: less_not_refl2)
    have step: "read_loop L fh stop pos res s = read_loop L fh stop (pos + ?tk) (res @ subrange ?off (?off + ?tk) d) ?s"
      using True prems(2) e(1,4) by (subst read_loop.simps) (simp add: Let_def nz)
    show thesis
    proof (rule less.prems(1))
      show "read_loop L fh stop pos res s =
          (Ok (res @ subrange pos stop (content L s fo t)), put_file fh (fo\<lparr>of_cache := c'\<rparr>) s)"
        using c'(1) unfolding step same seg by (simp add: cat)
      show "chunks_ok L s (fo\<lparr>of_cache := c'\<rparr>) t" using c'(2) by (simp add: chunks_ok_same_heap [OF sh])
      show "view L s (fo\<lparr>of_cache := c'\<rparr>) ci = view L s fo ci" for ci
        using c'(3) [of ci] e(3) by (simp add: view_same_heap [OF sh])
      show "cached_inside (fo\<lparr>of_cache := c'\<rparr>) t" using c'(4) by simp
    qed
  qed
qed

end
