(* ===== verification/Fuse_Write.thy ===== *)
theory Fuse_Write
  imports Fuse_Cache
begin

text \<open>
  Writing to an open file of the FUSE adapter: each step patches one chunk in the cache, and
  the loop replaces a segment of the content.
\<close>

section \<open>One chunk\<close>

lemma grow_map_eq:
  "grow_map ci fo = fo\<lparr>of_slot_map := of_slot_map fo @ replicate (Suc ci - length (of_slot_map fo)) None,
     of_meta_dirty := of_meta_dirty fo \<or> length (of_slot_map fo) \<le> ci\<rparr>"
  by (cases fo) (auto simp: grow_map_def)

lemma grow_map_ok:
  assumes "chunks_ok L s fo t"
  shows "chunks_ok L s (grow_map ci fo) t" "content L s (grow_map ci fo) t = content L s fo t"
    "ci < length (of_slot_map (grow_map ci fo))" "of_cache (grow_map ci fo) = of_cache fo"
proof -
  note D = chunks_okD [OF assms]
  let ?g = "grow_map ci fo"
  have c: "of_cache ?g = of_cache fo" "of_dirty ?g = of_dirty fo" by (simp_all add: grow_map_eq)
  then show "of_cache ?g = of_cache fo" by simp
  have len: "length (of_slot_map ?g) = max (length (of_slot_map fo)) (Suc ci)" by (simp add: grow_map_eq)
  then show "ci < length (of_slot_map ?g)" by simp
  have "of_slot_map ?g = of_slot_map fo @ replicate (Suc ci - length (of_slot_map fo)) None" "of_head_slot ?g = of_head_slot fo"
    by (simp_all add: grow_map_eq)
  note ld = load_chunk_grown [OF D(2) this, of L _ s]
  have v: "view L s ?g cj = view L s fo cj" if "cj < length (of_slot_map fo)" for cj
    using that by (simp add: view_def c ld split: option.splits)
  have t0: "nth_opt 0 (of_slot_map ?g) = Some None"
    using D(2,3) len by (simp add: nth_opt_def) (simp add: grow_map_eq nth_append)
  have all: "\<exists>d. load_chunk L ?g cj s = Ok d \<and> length d \<le> CHUNK_SIZE" if "cj < length (of_slot_map ?g)" for cj
    using that D(9) [of cj] by (cases "cj < length (of_slot_map fo)") (auto simp: ld)
  have inside: "cj < length (of_slot_map ?g) \<and> (\<exists>d. view L s ?g cj = Ok d \<and> min CHUNK_SIZE (t - cj * CHUNK_SIZE) \<le> length d)"
    if "cj * CHUNK_SIZE < t" for cj
    using D(10,11) [OF that] v len by simp
  have cached: "cj < length (of_slot_map ?g) \<and> length d \<le> CHUNK_SIZE" if "of_cache fo cj = Some d" for cj d
    using D(6,7) [OF that] len by simp
  have clean: "load_chunk L ?g cj s = Ok d" if "of_cache fo cj = Some d" "cj \<notin> of_dirty fo" for cj d
    using D(6,8) [OF that(1)] that(2) by (simp add: ld)
  show "chunks_ok L s ?g t"
    unfolding chunks_ok_def c using t0 D(4,5,12) cached clean all inside v [OF D(2)] by auto
  have "byte_at L s ?g p = byte_at L s fo p" if "p < t" for p
  proof -
    have "p div CHUNK_SIZE * CHUNK_SIZE < t" using that div_mult_mod_eq [of p CHUNK_SIZE] by linarith
    then show ?thesis using v D(10) by (simp add: byte_at_def)
  qed
  then show "content L s ?g t = content L s fo t" by (simp add: content_def)
qed

text \<open>The chunk a write starts from: as it is seen, or zeros when it is a new one.\<close>

lemma chunk_for_write_spec:
  assumes "order_ok L" "chunks_ok L s fo t" "ci < length (of_slot_map fo)"
  obtains c d where "chunk_for_write L fo ci s = Ok (fo\<lparr>of_cache := c(ci \<mapsto> d)\<rparr>)" "chunks_ok L s (fo\<lparr>of_cache := c\<rparr>) t"
    "\<And>cj. view L s (fo\<lparr>of_cache := c\<rparr>) cj = view L s fo cj" "\<And>cj. c cj \<noteq> None \<Longrightarrow> cj = ci \<or> of_cache fo cj \<noteq> None"
    "view L s fo ci = Ok d \<or> \<not> ci * CHUNK_SIZE < t \<and> ci \<noteq> 0 \<and> length d = CHUNK_SIZE"
proof (cases "of_cache fo ci = None \<and> of_slot_map fo ! ci = None \<and> ci \<noteq> 0")
  case True
  have "view L s fo ci = Ok []" using True assms(3) by (simp add: view_def load_chunk_def nth_opt_def)
  then have "ci * CHUNK_SIZE < t \<Longrightarrow> min CHUNK_SIZE (t - ci * CHUNK_SIZE) \<le> 0"
    using chunks_okD(11) [OF assms(2), of ci] by auto
  moreover have "0 < CHUNK_SIZE" by simp
  ultimately have "\<not> ci * CHUNK_SIZE < t" by linarith
  with True assms(2) show thesis
    by (intro that [of "of_cache fo" "replicate CHUNK_SIZE 0"]) (simp_all add: chunk_for_write_def cache_insert_def)
next
  case False
  obtain c d where e: "ensure_cached L fo ci s = Ok (fo\<lparr>of_cache := c\<rparr>)" "chunks_ok L s (fo\<lparr>of_cache := c\<rparr>) t"
    "\<And>cj. view L s (fo\<lparr>of_cache := c\<rparr>) cj = view L s fo cj" "c ci = Some d" "view L s fo ci = Ok d"
    "\<And>cj. c cj \<noteq> None \<Longrightarrow> cj = ci \<or> of_cache fo cj \<noteq> None"
    by (rule ensure_cached_spec [OF assms]) (rule that)
  have "chunk_for_write L fo ci s = Ok (fo\<lparr>of_cache := c\<rparr>)"
  proof (cases "of_cache fo ci")
    case None
    with False e(1) show ?thesis by (auto simp: chunk_for_write_def)
  next
    case (Some x)
    with e(1) show ?thesis by (simp add: chunk_for_write_def ensure_cached_def)
  qed
  moreover have "c(ci \<mapsto> d) = c" using e(4) by (simp add: fun_upd_idem)
  ultimately show thesis using e by (intro that [of c d]) simp_all
qed

definition padded :: "nat \<Rightarrow> bytes \<Rightarrow> bytes" where
  "padded n d = (if length d < n then d @ replicate (n - length d) 0 else d)"

lemma length_padded [simp]: "length (padded n d) = max n (length d)"
  by (simp add: padded_def)

lemma nth_padded: "i < length d \<Longrightarrow> padded n d ! i = d ! i"
  by (simp add: padded_def nth_append)

lemma byte_at_patched:
  assumes "\<And>cj. cj \<noteq> ci \<Longrightarrow> view L s fo' cj = view L s fo cj"
    and "view L s fo' ci = Ok (blit (pos mod CHUNK_SIZE) piece (padded (pos mod CHUNK_SIZE + length piece) d))"
    and "ci = pos div CHUNK_SIZE" "pos mod CHUNK_SIZE + length piece \<le> CHUNK_SIZE" "pos mod CHUNK_SIZE \<le> length d"
    and "p < t \<Longrightarrow> p div CHUNK_SIZE = ci \<Longrightarrow> view L s fo ci = Ok d \<and> p mod CHUNK_SIZE < length d"
    and "p < max t (pos + length piece)" "pos \<le> t"
  shows "byte_at L s fo' p = (if pos \<le> p \<and> p < pos + length piece then piece ! (p - pos) else byte_at L s fo p)"
proof -
  have q: "pos = ci * CHUNK_SIZE + pos mod CHUNK_SIZE" using assms(3) by simp
  have qp: "p = p div CHUNK_SIZE * CHUNK_SIZE + p mod CHUNK_SIZE" by simp
  show ?thesis
  proof (cases "p div CHUNK_SIZE = ci")
    case False
    have "\<not> (pos \<le> p \<and> p < pos + length piece)"
    proof
      assume a: "pos \<le> p \<and> p < pos + length piece"
      then have "p - ci * CHUNK_SIZE < CHUNK_SIZE" "ci * CHUNK_SIZE \<le> p" using q assms(4) by linarith+
      then have "p div CHUNK_SIZE = ci" using chunk_split [of "p - ci * CHUNK_SIZE" ci] by simp
      with False show False ..
    qed
    with assms(1) [OF False] show ?thesis by (simp only: byte_at_def if_False)
  next
    case True
    let ?o = "pos mod CHUNK_SIZE" and ?r = "p mod CHUNK_SIZE"
    have pr: "p = ci * CHUNK_SIZE + ?r" using qp True by simp
    have len: "?o + length piece \<le> length (padded (?o + length piece) d)" by simp
    show ?thesis
    proof (cases "pos \<le> p \<and> p < pos + length piece")
      case True
      then have r: "?o \<le> ?r" "?r < ?o + length piece" "?r - ?o = p - pos" using pr q by linarith+
      have "?r < length (padded (?o + length piece) d)" using r(2) by simp
      from nth_blit [OF len this] r True show ?thesis
        by (simp add: byte_at_def \<open>p div CHUNK_SIZE = ci\<close> assms(2))
    next
      case out: False
      have rt: "p < t \<or> (?o \<le> ?r \<and> ?r < ?o + length piece) \<or> ?r < ?o" using assms(7) pr q by linarith
      have no: "\<not> (?o \<le> ?r \<and> ?r < ?o + length piece)" using out pr q by linarith
      show ?thesis
      proof (cases "p < t")
        case True
        from assms(6) [OF True \<open>p div CHUNK_SIZE = ci\<close>] have v: "view L s fo ci = Ok d" "?r < length d" by simp_all
        then have "?r < length (padded (?o + length piece) d)" by simp
        from nth_blit [OF len this] no v show ?thesis
          by (simp only: byte_at_def \<open>p div CHUNK_SIZE = ci\<close> assms(2) outcome.case nth_padded out if_False)
      next
        case False
        with rt no have "p < pos" "\<not> p < t" using pr q by linarith+
        with assms(8) False have False by linarith
        then show ?thesis ..
      qed
    qed
  qed
qed

text \<open>Patching a chunk of a file that is in order.\<close>

lemma patched_ok:
  assumes ok: "chunks_ok L s fo t" and len: "ci < length (of_slot_map fo)" and pos: "pos \<le> t" "ci = pos div CHUNK_SIZE"
    and base: "view L s fo ci = Ok d \<or> \<not> ci * CHUNK_SIZE < t \<and> ci \<noteq> 0 \<and> length d = CHUNK_SIZE"
    and piece: "piece \<noteq> []" "pos mod CHUNK_SIZE + length piece \<le> CHUNK_SIZE"
    and d': "d' = blit (pos mod CHUNK_SIZE) piece (padded (pos mod CHUNK_SIZE + length piece) d)"
    and fo': "of_cache fo' = (of_cache fo)(ci \<mapsto> d')" "of_dirty fo' = insert ci (of_dirty fo)"
      "of_slot_map fo' = of_slot_map fo" "of_head_slot fo' = of_head_slot fo"
  defines "t' \<equiv> max t (pos + length piece)"
  shows "chunks_ok L s fo' t'"
    "content L s fo' t' = take pos (content L s fo t) @ piece @ drop (pos + length piece) (content L s fo t)"
proof -
  note D = chunks_okD [OF ok]
  let ?o = "pos mod CHUNK_SIZE" and ?n = "length piece"
  have q: "pos = ci * CHUNK_SIZE + ?o" using pos(2) by simp
  have n0: "0 < ?n" using piece(1) by simp
  have ld: "load_chunk L fo' cj s = load_chunk L fo cj s" for cj by (rule load_chunk_cong) (simp_all add: fo')
  have v_other: "view L s fo' cj = view L s fo cj" if "cj \<noteq> ci" for cj using that by (simp add: view_def fo'(1) ld split: option.splits)
  have v_ci: "view L s fo' ci = Ok d'" by (simp add: view_def fo'(1))
  have dlen: "length d \<le> CHUNK_SIZE" using base view_bound [OF ok _ len] by auto
  have old: "view L s fo ci = Ok d \<and> min CHUNK_SIZE (t - ci * CHUNK_SIZE) \<le> length d" if "ci * CHUNK_SIZE < t"
    using base D(11) [OF that] that by auto
  have ole: "?o \<le> length d"
  proof (cases "ci * CHUNK_SIZE < t")
    case True
    have "?o < CHUNK_SIZE" "?o \<le> t - ci * CHUNK_SIZE" using q pos(1) by (simp, linarith)
    then have "?o \<le> min CHUNK_SIZE (t - ci * CHUNK_SIZE)" by simp
    also have "\<dots> \<le> length d" using old [OF True] by blast
    finally show ?thesis .
  next
    case False
    with q pos(1) show ?thesis by simp
  qed
  have d'len: "length d' = max (?o + ?n) (length d)" by (simp add: d')
  have d'le: "length d' \<le> CHUNK_SIZE" using d'len dlen piece(2) by simp
  have cached: "cj < length (of_slot_map fo) \<and> length x \<le> CHUNK_SIZE" if "of_cache fo' cj = Some x" for cj x
    using that D(6,7) [of cj x] len d'le by (auto simp: fo'(1) split: if_splits)
  have clean: "load_chunk L fo cj s = Ok x" if "of_cache fo' cj = Some x" "cj \<notin> of_dirty fo'" for cj x
    using that D(8) [of cj x] by (auto simp: fo'(1,2) split: if_splits)
  have inside: "cj < length (of_slot_map fo) \<and> (\<exists>x. view L s fo' cj = Ok x \<and> min CHUNK_SIZE (t' - cj * CHUNK_SIZE) \<le> length x)"
    if c: "cj * CHUNK_SIZE < t'" for cj
  proof (cases "cj = ci")
    case True
    have "min CHUNK_SIZE (t' - ci * CHUNK_SIZE) \<le> length d'"
    proof (cases "t' = t")
      case True
      then have "ci * CHUNK_SIZE < t" using c \<open>cj = ci\<close> by simp
      from conjunct2 [OF old [OF this]] d'len True show ?thesis by linarith
    next
      case False
      then have "t' - ci * CHUNK_SIZE = ?o + ?n" using q by (simp add: t'_def)
      with d'len show ?thesis by simp
    qed
    with True len v_ci show ?thesis by simp
  next
    case False
    have ct: "cj * CHUNK_SIZE < t \<and> min CHUNK_SIZE (t' - cj * CHUNK_SIZE) \<le> min CHUNK_SIZE (t - cj * CHUNK_SIZE)"
    proof (cases "t' = t")
      case False
      then have "t' = pos + ?n" by (simp add: t'_def)
      then have "cj * CHUNK_SIZE < ci * CHUNK_SIZE + CHUNK_SIZE" using c q piece(2) by linarith
      then have "cj < Suc ci" by (metis add.commute mult_Suc mult_less_cancel2)
      then have "Suc cj \<le> ci" using \<open>cj \<noteq> ci\<close> by simp
      then have "Suc cj * CHUNK_SIZE \<le> ci * CHUNK_SIZE" by (rule mult_le_mono1)
      then have "cj * CHUNK_SIZE + CHUNK_SIZE \<le> t" using q pos(1) by simp
      then have "cj * CHUNK_SIZE < t" "CHUNK_SIZE \<le> t - cj * CHUNK_SIZE" using CHUNK_pos by linarith+
      then show ?thesis by simp
    qed (use c in simp)
    with D(10,11) v_other [OF False] show ?thesis by (metis le_trans)
  qed
  have first: "\<exists>x. view L s fo' 0 = Ok x \<and> length x = min CHUNK_SIZE t'"
  proof (cases "ci = 0")
    case True
    then obtain x where x: "view L s fo 0 = Ok x" "length x = min CHUNK_SIZE t" using D(12) by blast
    with base True have "length d = min CHUNK_SIZE t" by auto
    then have "length d' = min CHUNK_SIZE t'" using d'len q True piece(2) by (simp add: t'_def)
    with v_ci True show ?thesis by auto
  next
    case False
    then have "1 * CHUNK_SIZE \<le> ci * CHUNK_SIZE" by (intro mult_le_mono1) simp
    then have "CHUNK_SIZE \<le> t" using q pos(1) by linarith
    then have "min CHUNK_SIZE t' = min CHUNK_SIZE t" by (simp add: t'_def)
    with D(12) v_other [of 0] False show ?thesis by auto
  qed
  show "chunks_ok L s fo' t'"
    unfolding chunks_ok_def ld fo'(3)
    using D(1,4,5,9) cached clean inside first by (auto simp: fo'(1,2))
  show "content L s fo' t' = take pos (content L s fo t) @ piece @ drop (pos + ?n) (content L s fo t)"
  proof (rule nth_equalityI)
    show "length (content L s fo' t') = length (take pos (content L s fo t) @ piece @ drop (pos + ?n) (content L s fo t))"
      using pos(1) by (simp add: t'_def)
    fix p assume "p < length (content L s fo' t')"
    then have p: "p < t'" by simp
    have old_p: "view L s fo ci = Ok d \<and> p mod CHUNK_SIZE < length d" if "p < t" "p div CHUNK_SIZE = ci"
    proof -
      have "ci * CHUNK_SIZE < t" using that div_mult_mod_eq [of p CHUNK_SIZE] by (metis le_add1 le_less_trans)
      with old have "view L s fo ci = Ok d" by simp
      with chunk_len(3) [OF ok _ that(1), of d] that(2) show ?thesis by simp
    qed
    have "byte_at L s fo' p = (if pos \<le> p \<and> p < pos + ?n then piece ! (p - pos) else byte_at L s fo p)"
      by (rule byte_at_patched [OF v_other v_ci [unfolded d'] pos(2) piece(2) ole old_p p [unfolded t'_def] pos(1)])
    then show "content L s fo' t' ! p = (take pos (content L s fo t) @ piece @ drop (pos + ?n) (content L s fo t)) ! p"
      using p pos(1) by (auto simp: content_def nth_append t'_def)
  qed
qed

section \<open>The loop\<close>

text \<open>Growth of the slot map and of the size is recorded in the metadata flag.\<close>

definition grown :: "open_file \<Rightarrow> open_file \<Rightarrow> bool" where
  "grown fo fo' \<longleftrightarrow> of_ino fo' = of_ino fo \<and> of_head_slot fo' = of_head_slot fo \<and> of_index_chain fo' = of_index_chain fo \<and>
     (\<exists>k. of_slot_map fo' = of_slot_map fo @ replicate k None) \<and>
     (of_meta_dirty fo' \<or>
        \<not> of_meta_dirty fo \<and> of_slot_map fo' = of_slot_map fo \<and> of_total_size fo' = of_total_size fo)"

lemma grown_refl: "grown fo fo"
  by (auto simp: grown_def)

lemma grown_trans: "grown fo f1 \<Longrightarrow> grown f1 f2 \<Longrightarrow> grown fo f2"
  unfolding grown_def by (auto simp: replicate_add [symmetric])

lemma grown_patch:
  "grown fo (patch_chunk ci coff piece chunk stop ((grow_map ci fo)\<lparr>of_cache := c\<rparr>))"
  by (auto simp: grown_def patch_chunk_def grow_map_eq Let_def)

lemma patch_chunk_fields:
  "of_cache (patch_chunk ci coff piece chunk stop fo) = (of_cache fo)(ci \<mapsto> blit coff piece (padded (coff + length piece) chunk))"
  "of_dirty (patch_chunk ci coff piece chunk stop fo) = insert ci (of_dirty fo)"
  "of_slot_map (patch_chunk ci coff piece chunk stop fo) = of_slot_map fo"
  "of_head_slot (patch_chunk ci coff piece chunk stop fo) = of_head_slot fo"
  "of_total_size (patch_chunk ci coff piece chunk stop fo) = max stop (of_total_size fo)"
  by (auto simp: patch_chunk_def padded_def Let_def)

lemma write_loop_spec:
  assumes "order_ok L" "fu_open_files s fh = Some fo" "chunks_ok L s fo t" "cached_inside fo t"
    and "offset \<le> pos" "pos \<le> stop" "pos \<le> t" "stop = offset + length data"
  obtains fo' where "write_loop L fh offset data stop pos s = (Ok (), put_file fh fo' s)"
    "chunks_ok L s fo' (max t stop)" "cached_inside fo' (max t stop)" "grown fo fo'"
    "content L s fo' (max t stop) = take pos (content L s fo t) @ drop (pos - offset) data @ drop stop (content L s fo t)"
    "of_total_size fo' = (if pos < stop then max stop (of_total_size fo) else of_total_size fo)"
  using assms
proof (induction "stop - pos" arbitrary: pos s fo t thesis rule: less_induct)
  case less
  note prems = less.prems(2-)
  show ?case
  proof (cases "pos < stop")
    case False
    then have "pos = stop" "drop (pos - offset) data = []" using prems(6,8) by simp_all
    with prems show thesis
      by (intro less.prems(1) [of fo]) (simp_all add: write_loop.simps put_file_id grown_refl max_absorb1)
  next
    case True
    let ?ci = "pos div CHUNK_SIZE" and ?o = "pos mod CHUNK_SIZE"
    let ?tk = "min (CHUNK_SIZE - ?o) (stop - pos)"
    let ?piece = "subrange (pos - offset) (pos - offset + ?tk) data"
    have "?o < CHUNK_SIZE" by simp
    then have tk: "0 < ?tk" "?o + ?tk \<le> CHUNK_SIZE" "pos + ?tk \<le> stop" using True by linarith+
    have plen: "length ?piece = ?tk" using tk(3) prems(5,8) by simp
    then have piece: "?piece \<noteq> []" using tk(1) by (metis length_0_conv less_not_refl)
    let ?g = "grow_map ?ci fo"
    note g = grow_map_ok [OF prems(3), of ?ci]
    obtain c d where w: "chunk_for_write L ?g ?ci s = Ok (?g\<lparr>of_cache := c(?ci \<mapsto> d)\<rparr>)" "chunks_ok L s (?g\<lparr>of_cache := c\<rparr>) t"
      "\<And>cj. view L s (?g\<lparr>of_cache := c\<rparr>) cj = view L s ?g cj" "\<And>cj. c cj \<noteq> None \<Longrightarrow> cj = ?ci \<or> of_cache ?g cj \<noteq> None"
      "view L s ?g ?ci = Ok d \<or> \<not> ?ci * CHUNK_SIZE < t \<and> ?ci \<noteq> 0 \<and> length d = CHUNK_SIZE"
      by (rule chunk_for_write_spec [OF prems(1) g(1,3)]) (rule that)
    let ?p = "patch_chunk ?ci ?o ?piece d stop (?g\<lparr>of_cache := c(?ci \<mapsto> d)\<rparr>)" and ?t = "max t (pos + ?tk)"
    have clen: "?ci < length (of_slot_map (?g\<lparr>of_cache := c\<rparr>))" using g(3) by simp
    have base: "view L s (?g\<lparr>of_cache := c\<rparr>) ?ci = Ok d \<or> \<not> ?ci * CHUNK_SIZE < t \<and> ?ci \<noteq> 0 \<and> length d = CHUNK_SIZE"
      using w(5) w(3) [of ?ci] by simp
    have po: "?o + length ?piece \<le> CHUNK_SIZE" using tk(2) plen by simp
    have fld: "of_cache ?p = (of_cache (?g\<lparr>of_cache := c\<rparr>))(?ci \<mapsto> blit ?o ?piece (padded (?o + length ?piece) d))"
      "of_dirty ?p = insert ?ci (of_dirty (?g\<lparr>of_cache := c\<rparr>))" "of_slot_map ?p = of_slot_map (?g\<lparr>of_cache := c\<rparr>)"
      "of_head_slot ?p = of_head_slot (?g\<lparr>of_cache := c\<rparr>)"
      by (simp_all add: patch_chunk_fields)
    note pk = patched_ok [OF w(2) clen prems(7) refl base piece po refl fld, unfolded plen]
    have cont: "content L s (?g\<lparr>of_cache := c\<rparr>) t = content L s fo t"
      using content_view [OF w(3)] g(2) by simp
    let ?s = "put_file fh ?p s"
    have sh: "same_heap s ?s" by simp
    have ins: "cached_inside ?p ?t"
      unfolding cached_inside_def
    proof (intro allI impI)
      fix cj assume cj: "of_cache ?p cj \<noteq> None"
      show "cj = 0 \<or> cj * CHUNK_SIZE < ?t"
      proof (cases "cj = ?ci")
        case True
        have "?ci * CHUNK_SIZE \<le> pos" using div_mult_mod_eq [of pos CHUNK_SIZE] by linarith
        with tk(1) have "?ci * CHUNK_SIZE < ?t" by linarith
        then show ?thesis unfolding True by blast
      next
        case False
        with cj w(4) [of cj] prems(4) g(4) show ?thesis by (auto simp: patch_chunk_fields cached_inside_def less_max_iff_disj)
      qed
    qed
    have opn: "fu_open_files ?s fh = Some ?p" by simp
    have ch: "chunks_ok L ?s ?p ?t" using pk(1) by (simp only: chunks_ok_same_heap [OF sh])
    have lt: "stop - (pos + ?tk) < stop - pos" using tk by linarith
    have le: "offset \<le> pos + ?tk" "pos + ?tk \<le> ?t" using prems(5) by simp_all
    obtain fo' where ih: "write_loop L fh offset data stop (pos + ?tk) ?s = (Ok (), put_file fh fo' ?s)"
      "chunks_ok L ?s fo' (max ?t stop)" "cached_inside fo' (max ?t stop)" "grown ?p fo'"
      "content L ?s fo' (max ?t stop) = take (pos + ?tk) (content L ?s ?p ?t) @ drop (pos + ?tk - offset) data @
         drop stop (content L ?s ?p ?t)"
      "of_total_size fo' = (if pos + ?tk < stop then max stop (of_total_size ?p) else of_total_size ?p)"
      by (rule less.hyps [OF lt _ prems(1) opn ch ins le(1) tk(3) le(2) prems(8)]) (rule that)
    have mx: "max ?t stop = max t stop" using tk(3) by simp
    have step: "write_loop L fh offset data stop pos s = write_loop L fh offset data stop (pos + ?tk) ?s"
      using True prems(2) w(1) by (subst write_loop.simps) (simp add: Let_def)
    show thesis
    proof (rule less.prems(1))
      show "write_loop L fh offset data stop pos s = (Ok (), put_file fh fo' s)"
        unfolding step ih(1) by simp
      show "chunks_ok L s fo' (max t stop)" "cached_inside fo' (max t stop)"
        using ih(2,3) unfolding mx chunks_ok_same_heap [OF sh] .
      have "grown fo ?p" using grown_patch [of fo ?ci ?o ?piece d stop "c(?ci \<mapsto> d)"] .
      then show "grown fo fo'" by (rule grown_trans) (rule ih(4))
      show "of_total_size fo' = (if pos < stop then max stop (of_total_size fo) else of_total_size fo)"
        using ih(6) True by (simp add: patch_chunk_fields grow_map_eq)
      have cp: "content L ?s ?p ?t = take pos (content L s fo t) @ ?piece @ drop (pos + ?tk) (content L s fo t)"
        using pk(2) cont content_same_heap [OF sh, of L ?p] by simp
      have "take (pos + ?tk) (content L ?s ?p ?t) = take pos (content L s fo t) @ ?piece"
        using prems(7) plen by (simp add: cp)
      moreover have "drop stop (content L ?s ?p ?t) = drop stop (content L s fo t)"
        using prems(7) plen tk(3) by (simp add: cp)
      moreover have "?piece @ drop (pos + ?tk - offset) data = drop (pos - offset) data"
        using prems(5) tk(3) prems(8) by (simp add: subrange_def) (metis add.commute append_take_drop_id diff_add_assoc2 drop_drop)
      ultimately show "content L s fo' (max t stop) =
          take pos (content L s fo t) @ drop (pos - offset) data @ drop stop (content L s fo t)"
        using ih(5) unfolding mx content_same_heap [OF sh, of L fo'] by simp
    qed
  qed
qed

end
