(* ===== verification/Fuse_Flush.thy ===== *)
theory Fuse_Flush
  imports Fuse_Write
begin

text \<open>
  Bringing an open file to disk: chunks written to their slots, the head node, and the file as
  the next \<open>op_open\<close> finds it.
\<close>

section \<open>Files in order\<close>

definition used_slots_of :: "open_file \<Rightarrow> nat list" where
  "used_slots_of fo = List.map_filter id (of_slot_map fo)"

definition slots_ok :: "libs \<Rightarrow> 'a slot_store_scheme \<Rightarrow> open_file \<Rightarrow> bool" where
  "slots_ok L s fo \<longleftrightarrow> node_inv L s \<and> of_head_slot fo \<in> heap.live s \<and> set (used_slots_of fo) \<subseteq> heap.live s \<and>
     distinct (of_head_slot fo # used_slots_of fo) \<and> of_index_chain fo = None"

text \<open>The head node on disk describes the file, unless the metadata flag says it does not.\<close>

definition head_saved :: "libs \<Rightarrow> 'a slot_store_scheme \<Rightarrow> open_file \<Rightarrow> bool" where
  "head_saved L s fo \<longleftrightarrow> (\<exists>fb. fst (read_node L (of_head_slot fo) s) = Ok (File fb) \<and>
     fb_total_size fb = of_total_size fo \<and> fb_index_chain fb = None \<and> of_slot_map fo = None # map Some (fb_data_slots fb))"

text \<open>
  An open file in order. This is an invariant of the proofs, not of the code: a write beyond the end leaves holes in
  the slot map, and a growth by \<open>op_truncate\<close> leaves chunks shorter than the size says; neither file is in order.
\<close>

definition file_ok :: "libs \<Rightarrow> 'a slot_store_scheme \<Rightarrow> open_file \<Rightarrow> bool" where
  "file_ok L s fo \<longleftrightarrow> chunks_ok L s fo (of_total_size fo) \<and> cached_inside fo (of_total_size fo) \<and> slots_ok L s fo \<and>
     (of_meta_dirty fo \<or> head_saved L s fo) \<and> of_total_size fo < 2 ^ 63"

lemma map_filter_append: "List.map_filter f (xs @ ys) = List.map_filter f xs @ List.map_filter f ys"
  by (simp add: List.map_filter_def)

lemma map_filter_None [simp]: "List.map_filter id (replicate k None) = []"
  by (simp add: List.map_filter_def)

lemma map_filter_Some [simp]: "List.map_filter id (map Some xs) = xs"
  by (induction xs) (simp_all add: List.map_filter_simps)

lemma set_map_filter: "set (List.map_filter id xs) = {x. Some x \<in> set xs}"
  by (induction xs) (auto simp: List.map_filter_simps split: option.splits)

lemmas set_map_filter_id = set_map_filter [unfolded id_def]

lemma used_slots_mem: "i \<in> set (used_slots_of fo) \<longleftrightarrow> Some i \<in> set (of_slot_map fo)"
  by (simp add: used_slots_of_def set_map_filter)

text \<open>The slot of a chunk is its alone.\<close>

lemma map_filter_unique:
  "distinct (List.map_filter id xs) \<Longrightarrow> i < length xs \<Longrightarrow> j < length xs \<Longrightarrow> xs ! i = Some x \<Longrightarrow> xs ! j = Some x \<Longrightarrow> i = j"
proof (induction xs arbitrary: i j)
  case (Cons y ys)
  have mem: "Some x \<in> set ys" if "k < length ys" "ys ! k = Some x" for k using that by (metis nth_mem)
  from Cons show ?case
    by (cases i; cases j) (auto simp: List.map_filter_simps set_map_filter_id mem split: option.splits)
qed simp

lemma map_filter_update:
  "i < length xs \<Longrightarrow> xs ! i = None \<Longrightarrow> x \<notin> set (List.map_filter id xs) \<Longrightarrow> distinct (List.map_filter id xs) \<Longrightarrow>
     set (List.map_filter id (xs[i := Some x])) = insert x (set (List.map_filter id xs)) \<and>
     distinct (List.map_filter id (xs[i := Some x]))"
proof (induction xs arbitrary: i)
  case (Cons y ys)
  show ?case
  proof (cases i)
    case 0
    with Cons show ?thesis by (simp add: List.map_filter_simps)
  next
    case (Suc k)
    with Cons.IH [of k] Cons.prems show ?thesis
      by (cases y) (auto simp: List.map_filter_simps)
  qed
qed simp

lemma slots_okD:
  assumes "slots_ok L s fo"
  shows "node_inv L s" "of_head_slot fo \<in> heap.live s" "set (used_slots_of fo) \<subseteq> heap.live s"
    "of_head_slot fo \<notin> set (used_slots_of fo)" "distinct (used_slots_of fo)" "of_index_chain fo = None"
  using assms by (simp_all add: slots_ok_def)

lemma slot_of_chunk:
  assumes "slots_ok L s fo" "nth_opt ci (of_slot_map fo) = Some (Some i)"
  shows "i \<in> set (used_slots_of fo)" "i \<in> heap.live s" "i \<noteq> of_head_slot fo"
    "nth_opt cj (of_slot_map fo) = Some (Some i) \<Longrightarrow> cj = ci"
proof -
  from assms(2) have "ci < length (of_slot_map fo)" "of_slot_map fo ! ci = Some i" by (auto simp: nth_opt_def split: if_splits)
  then have "Some i \<in> set (of_slot_map fo)" by (metis nth_mem)
  then show m: "i \<in> set (used_slots_of fo)" by (simp add: used_slots_mem)
  with slots_okD [OF assms(1)] show "i \<in> heap.live s" "i \<noteq> of_head_slot fo" by auto
  show "cj = ci" if "nth_opt cj (of_slot_map fo) = Some (Some i)"
    using map_filter_unique [OF slots_okD(5) [OF assms(1), unfolded used_slots_of_def], of cj ci i] that assms(2)
    by (auto simp: nth_opt_def split: if_splits)
qed

text \<open>Growing and caching do not touch slots.\<close>

lemma grown_slots:
  assumes "slots_ok L s fo" "grown fo fo'"
  shows "slots_ok L s fo'" "used_slots_of fo' = used_slots_of fo"
proof -
  from assms(2) show u: "used_slots_of fo' = used_slots_of fo"
    by (auto simp: used_slots_of_def grown_def map_filter_append)
  then show "slots_ok L s fo'" using assms by (simp add: slots_ok_def grown_def)
qed

lemma grown_head:
  assumes "of_meta_dirty fo \<or> head_saved L s fo" "grown fo fo'"
  shows "of_meta_dirty fo' \<or> head_saved L s fo'"
  using assms by (auto simp: grown_def head_saved_def)

lemma slots_ok_same_heap: "same_heap s t \<Longrightarrow> slots_ok L t fo = slots_ok L s fo"
  by (simp add: slots_ok_def same_heap_heap)

lemma head_saved_same_heap: "same_heap s t \<Longrightarrow> head_saved L t fo = head_saved L s fo"
  by (simp add: head_saved_def same_heap_heap)

lemma file_ok_same_heap: "same_heap s t \<Longrightarrow> file_ok L t fo = file_ok L s fo"
  by (simp add: file_ok_def slots_ok_same_heap head_saved_same_heap chunks_ok_same_heap)

section \<open>Writing one chunk to its slot\<close>

text \<open>
  What a file sees when chunk \<open>ci\<close>, cached as \<open>d\<close>, has been written: its slot now holds \<open>d\<close>
  and nothing else has changed.
\<close>

lemma chunk_stored_ok:
  assumes "chunks_ok L s fo t" "of_cache fo ci = Some d" "0 < ci"
    and "of_cache fo' = of_cache fo" "of_dirty fo' = of_dirty fo" "length (of_slot_map fo') = length (of_slot_map fo)"
    and "of_slot_map fo' ! 0 = None"
    and "\<And>cj. load_chunk L fo' cj s' = (if cj = ci then Ok d else load_chunk L fo cj s)"
  shows "chunks_ok L s' fo' t" "view L s' fo' cj = view L s fo cj"
    "chunks_ok L s' (drop_chunk ci fo') t" "view L s' (drop_chunk ci fo') cj = view L s fo cj"
proof -
  note D = chunks_okD [OF assms(1)]
  have v: "view L s' fo' cj = view L s fo cj" for cj
    using assms(2) by (auto simp: view_def assms(4,8) split: option.splits)
  then show "view L s' fo' cj = view L s fo cj" .
  have n0: "nth_opt 0 (of_slot_map fo') = Some None" using D(2) assms(6,7) by (simp add: nth_opt_def)
  have ci: "ci < length (of_slot_map fo)" "length d \<le> CHUNK_SIZE" using D(6,7) [OF assms(2)] .
  have all: "\<exists>x. load_chunk L fo' cj s' = Ok x \<and> length x \<le> CHUNK_SIZE" if "cj < length (of_slot_map fo)" for cj
    using D(9) [OF that] ci by (auto simp: assms(8))
  have clean: "load_chunk L fo' cj s' = Ok x" if "of_cache fo cj = Some x" "cj \<notin> of_dirty fo \<or> cj = ci" for cj x
    using D(8) [OF that(1)] that assms(2) by (auto simp: assms(8))
  show "chunks_ok L s' fo' t"
    unfolding chunks_ok_def v assms(4,5,6)
    using n0 D(4,5,12) all clean D(6,7) D(10,11) by blast
  have ld: "load_chunk L (drop_chunk ci fo') cj s' = load_chunk L fo' cj s'" for cj
    by (rule load_chunk_cong) (simp_all add: drop_chunk_def)
  have c2: "of_cache (drop_chunk ci fo') = (of_cache fo)(ci := None)" "of_dirty (drop_chunk ci fo') = of_dirty fo - {ci}"
    "of_slot_map (drop_chunk ci fo') = of_slot_map fo'"
    by (simp_all add: drop_chunk_def assms(4,5))
  have v2: "view L s' (drop_chunk ci fo') cj = view L s fo cj" for cj
    using v [of cj] clean [of ci d] assms(2)
    by (cases "cj = ci") (simp_all add: view_def ld c2(1) assms(4) split: option.splits)
  then show "view L s' (drop_chunk ci fo') cj = view L s fo cj" .
  have dom: "of_dirty fo - {ci} \<subseteq> dom ((of_cache fo)(ci := None))" using D(5) by auto
  have fin: "finite (dom ((of_cache fo)(ci := None)))" using D(4) by simp
  have clean2: "load_chunk L fo' cj s' = Ok x" if "((of_cache fo)(ci := None)) cj = Some x" "cj \<notin> of_dirty fo - {ci}" for cj x
    using that clean [of cj x] by (auto split: if_splits)
  have in2: "cj < length (of_slot_map fo) \<and> length x \<le> CHUNK_SIZE" if "((of_cache fo)(ci := None)) cj = Some x" for cj x
    using that D(6,7) [of cj x] by (auto split: if_splits)
  show "chunks_ok L s' (drop_chunk ci fo') t"
    unfolding chunks_ok_def v2 ld c2 assms(6)
    using n0 fin dom D(12) all clean2 in2 D(10,11) by blast
qed

text \<open>
  What bringing chunks to disk does: \<open>settled\<close> says the file is seen as before, only its own
  slots and free ones are touched, and a change of the slot map is recorded.
\<close>

definition settled :: "libs \<Rightarrow> 'a slot_store_scheme \<Rightarrow> open_file \<Rightarrow> 'a slot_store_scheme \<Rightarrow> open_file \<Rightarrow> bool" where
  "settled L s fo s' fo' \<longleftrightarrow> heap.frame L (set (used_slots_of fo)) s s' \<and>
     set (used_slots_of fo') \<subseteq> set (used_slots_of fo) \<union> free_set s \<and> (\<forall>cj. view L s' fo' cj = view L s fo cj) \<and>
     of_ino fo' = of_ino fo \<and> of_head_slot fo' = of_head_slot fo \<and> of_index_chain fo' = of_index_chain fo \<and>
     of_total_size fo' = of_total_size fo \<and> length (of_slot_map fo') = length (of_slot_map fo) \<and>
     of_cache fo' \<subseteq>\<^sub>m of_cache fo \<and> of_dirty fo' \<subseteq> of_dirty fo \<and>
     (of_meta_dirty fo' \<or> of_slot_map fo' = of_slot_map fo \<and> \<not> of_meta_dirty fo)"

lemma settled_refl: "node_inv L s \<Longrightarrow> settled L s fo s fo"
  by (auto simp: settled_def heap.frame_refl)

lemma settled_trans:
  assumes "settled L s fo s1 f1" "settled L s1 f1 s2 f2"
  shows "settled L s fo s2 f2"
proof -
  have 1: "heap.frame L (set (used_slots_of fo)) s s1" "heap.frame L (set (used_slots_of f1)) s1 s2"
    "set (used_slots_of f1) \<subseteq> set (used_slots_of fo) \<union> free_set s" "set (used_slots_of f2) \<subseteq> set (used_slots_of f1) \<union> free_set s1"
    using assms by (simp_all add: settled_def)
  have fr: "heap.frame L (set (used_slots_of fo)) s s2"
    by (rule heap.frame_avail [OF heap.frame_trans [OF 1(1,2)]]) (use 1(3) in auto)
  have "free_set s1 \<subseteq> free_set s \<union> set (used_slots_of fo)" using 1(1) by (simp add: heap.frame_def)
  then have us: "set (used_slots_of f2) \<subseteq> set (used_slots_of fo) \<union> free_set s" using 1(3,4) by blast
  show ?thesis using assms fr us unfolding settled_def by (auto dest: map_le_trans)
qed

lemma settled_head:
  assumes "settled L s fo s' fo'" "slots_ok L s fo" "of_meta_dirty fo \<or> head_saved L s fo"
  shows "of_meta_dirty fo' \<or> head_saved L s' fo'"
proof -
  have "fst (read_node L (of_head_slot fo) s') = fst (read_node L (of_head_slot fo) s)"
    by (rule heap.frame_read [of L "set (used_slots_of fo)"]) (use assms(1) slots_okD [OF assms(2)] in \<open>simp_all add: settled_def\<close>)
  then show ?thesis using assms(1,3) by (auto simp: settled_def head_saved_def)
qed

text \<open>The slots of a file after chunk \<open>ci\<close> got its first one.\<close>

lemma set_slot_slots:
  assumes "slots_ok L s fo" "nth_opt ci (of_slot_map fo) = Some None" "i \<notin> heap.live s"
    and "node_inv L s'" "heap.live s' = insert i (heap.live s)"
  shows "set (used_slots_of (set_slot ci i fo)) = insert i (set (used_slots_of fo))" "slots_ok L s' (set_slot ci i fo)"
proof -
  note S = slots_okD [OF assms(1)]
  have ci: "ci < length (of_slot_map fo)" "of_slot_map fo ! ci = None" using assms(2) by (simp_all add: nth_opt_def split: if_splits)
  have "i \<notin> set (List.map_filter id (of_slot_map fo))" using S(3) assms(3) by (auto simp: used_slots_of_def)
  note mf = map_filter_update [OF ci this S(5) [unfolded used_slots_of_def]]
  then show u: "set (used_slots_of (set_slot ci i fo)) = insert i (set (used_slots_of fo))"
    by (simp add: used_slots_of_def set_slot_def)
  have hd: "of_head_slot fo \<noteq> i" using S(2) assms(3) by blast
  have f: "of_head_slot (set_slot ci i fo) = of_head_slot fo" "of_index_chain (set_slot ci i fo) = of_index_chain fo"
    by (simp_all add: set_slot_def)
  have "distinct (used_slots_of (set_slot ci i fo))" using mf by (simp add: used_slots_of_def set_slot_def)
  then show "slots_ok L s' (set_slot ci i fo)"
    unfolding slots_ok_def f u using S hd assms(4,5) u by (auto simp: f)
qed

text \<open>Chunk \<open>ci\<close> in its slot, old or new.\<close>

lemma chunk_to_slot:
  assumes "chunks_ok L s fo t" "slots_ok L s fo" "0 < ci" "nth_opt ci (of_slot_map fo) = Some (Some i)"
    and "update_node L i (data_node d) s = (Ok (), s')"
  shows "load_chunk L fo cj s' = (if cj = ci then Ok d else load_chunk L fo cj s)" "slots_ok L s' fo"
    "heap.frame L (set (used_slots_of fo)) s s'"
proof -
  note S = slots_okD [OF assms(2)] and so = slot_of_chunk [OF assms(2,4)]
  note v = heap.live_valid [OF so(2)]
  note w = heap.frame_wr [OF S(1) v assms(5)]
  have rd: "fst (read_node L i s') = Ok (data_node d)"
    by (rule nodes.read_same [OF S(1) v _ assms(5)]) (simp add: any_node_def)
  have hd: "fetch L (of_head_slot fo) s' = fetch L (of_head_slot fo) s"
    using heap.frame_read [OF w(1) S(2)] so(3) by (simp add: fetch_def)
  have other: "fetch L k s' = fetch L k s" if "nth_opt cj (of_slot_map fo) = Some (Some k)" "cj \<noteq> ci" for k
  proof -
    have "k \<noteq> i" using so(4) [of cj] that by blast
    with heap.frame_read [OF w(1) slot_of_chunk(2) [OF assms(2) that(1)]] show ?thesis by (simp add: fetch_def)
  qed
  show "load_chunk L fo cj s' = (if cj = ci then Ok d else load_chunk L fo cj s)"
  proof (cases "cj = ci")
    case True
    then show ?thesis using assms(3,4) rd by (simp add: load_chunk_def fetch_def data_node_def)
  next
    case False
    then show ?thesis using hd other by (simp add: load_chunk_def split: option.splits)
  qed
  show "slots_ok L s' fo" using assms(2) w heap.frame_inv [OF w(1)] by (simp add: slots_ok_def)
  show "heap.frame L (set (used_slots_of fo)) s s'" by (rule heap.frame_mono [OF w(1)]) (use so(1) in simp)
qed

lemma chunk_to_new_slot:
  assumes "chunks_ok L s fo t" "slots_ok L s fo" "0 < ci" "nth_opt ci (of_slot_map fo) = Some None"
    and "write_node L (data_node d) s = (Ok i, s')"
  shows "load_chunk L (set_slot ci i fo) cj s' = (if cj = ci then Ok d else load_chunk L fo cj s)" "slots_ok L s' (set_slot ci i fo)"
    "heap.frame L (set (used_slots_of fo)) s s'" "set (used_slots_of (set_slot ci i fo)) \<subseteq> set (used_slots_of fo) \<union> free_set s"
proof -
  note S = slots_okD [OF assms(2)]
  have any: "any_node (data_node d)" by (simp add: any_node_def)
  note fr = heap.frame_new [OF S(1) assms(5)] and nl = heap.new_live [OF S(1) any assms(5)] and no = heap.new_Ok [OF S(1) any assms(5)]
  have ci: "ci < length (of_slot_map fo)" using assms(4) by (simp add: nth_opt_def split: if_splits)
  let ?f = "set_slot ci i fo"
  have m: "nth_opt cj (of_slot_map ?f) = (if cj = ci then Some (Some i) else nth_opt cj (of_slot_map fo))" for cj
    using ci by (auto simp: nth_opt_def set_slot_def)
  have hd: "of_head_slot ?f = of_head_slot fo" by (simp add: set_slot_def)
  have rd: "fst (read_node L k s') = fst (read_node L k s)" if "k \<in> heap.live s" for k
    using heap.frame_read [OF fr that] by simp
  have other: "fetch L k s' = fetch L k s" if "nth_opt cj (of_slot_map fo) = Some (Some k)" for k
    using rd [OF slot_of_chunk(2) [OF assms(2) that]] by (simp add: fetch_def)
  show "load_chunk L ?f cj s' = (if cj = ci then Ok d else load_chunk L fo cj s)"
  proof (cases "cj = ci")
    case True
    then show ?thesis using assms(3) no m [of ci] by (simp add: load_chunk_def fetch_def data_node_def)
  next
    case False
    moreover have "fetch L (of_head_slot fo) s' = fetch L (of_head_slot fo) s" using rd [OF S(2)] by (simp add: fetch_def)
    ultimately show ?thesis using other m [of cj] by (simp add: load_chunk_def hd split: option.splits)
  qed
  note ss = set_slot_slots [OF assms(2,4) nl(2) heap.frame_inv [OF fr] nl(3)]
  show "slots_ok L s' ?f" by (rule ss(2))
  show "heap.frame L (set (used_slots_of fo)) s s'" by (rule heap.frame_mono [OF fr]) simp
  show "set (used_slots_of ?f) \<subseteq> set (used_slots_of fo) \<union> free_set s" using ss(1) no by auto
qed

section \<open>Writing chunks\<close>

definition saved :: "nat set \<Rightarrow> libs \<Rightarrow> open_file \<Rightarrow> 'a slot_store_scheme \<Rightarrow> 'a slot_store_scheme \<Rightarrow> open_file \<Rightarrow> bool" where
  "saved C L fo s s' fo' \<longleftrightarrow>
     (\<forall>cj d. of_cache fo cj = Some d \<longrightarrow> cj \<in> C \<longrightarrow>
        load_chunk L fo' cj s' = Ok d \<and> (\<exists>i. nth_opt cj (of_slot_map fo') = Some (Some i))) \<and>
     (\<forall>cj. of_cache fo cj = None \<or> cj \<notin> C \<longrightarrow>
        load_chunk L fo' cj s' = load_chunk L fo cj s \<and> nth_opt cj (of_slot_map fo') = nth_opt cj (of_slot_map fo))"

text \<open>One chunk written, whether it is kept in the cache or dropped from it.\<close>

definition keep_or_drop :: "(nat \<Rightarrow> open_file \<Rightarrow> open_file) \<Rightarrow> bool" where
  "keep_or_drop after \<longleftrightarrow> after = (\<lambda>_ fo. fo) \<or> after = drop_chunk"

lemma keep_or_drop_simps:
  assumes "keep_or_drop after"
  shows "of_slot_map (after ci fo) = of_slot_map fo" "of_head_slot (after ci fo) = of_head_slot fo"
    "of_ino (after ci fo) = of_ino fo" "of_index_chain (after ci fo) = of_index_chain fo"
    "of_total_size (after ci fo) = of_total_size fo" "of_meta_dirty (after ci fo) = of_meta_dirty fo"
    "of_cache (after ci fo) \<subseteq>\<^sub>m of_cache fo" "of_dirty (after ci fo) \<subseteq> of_dirty fo"
    "cj \<noteq> ci \<Longrightarrow> of_cache (after ci fo) cj = of_cache fo cj"
  using assms by (auto simp: keep_or_drop_def drop_chunk_def map_le_def split: if_splits)

lemma chunk_written:
  assumes "chunks_ok L s fo t" "slots_ok L s fo" "of_cache fo ci = Some d" "0 < ci" "keep_or_drop after"
    and "f1 = fo \<and> slots_ok L s' fo \<or> of_meta_dirty f1 \<and> slots_ok L s' f1"
    and f1: "of_ino f1 = of_ino fo" "of_head_slot f1 = of_head_slot fo" "of_index_chain f1 = of_index_chain fo"
      "of_total_size f1 = of_total_size fo" "of_cache f1 = of_cache fo" "of_dirty f1 = of_dirty fo"
      "length (of_slot_map f1) = length (of_slot_map fo)"
    and m: "\<And>cj. nth_opt cj (of_slot_map f1) = (if cj = ci then Some (Some i) else nth_opt cj (of_slot_map fo))"
    and ld: "\<And>cj. load_chunk L f1 cj s' = (if cj = ci then Ok d else load_chunk L fo cj s)"
    and "heap.frame L (set (used_slots_of fo)) s s'" "set (used_slots_of f1) \<subseteq> set (used_slots_of fo) \<union> free_set s"
  shows "chunks_ok L s' (after ci f1) t" "slots_ok L s' (after ci f1)" "settled L s fo s' (after ci f1)"
    "saved {ci} L fo s s' (after ci f1)"
proof -
  note k = keep_or_drop_simps [OF assms(5)]
  have "nth_opt 0 (of_slot_map f1) = Some None" using m [of 0] assms(4) chunks_okD(1) [OF assms(1)] by simp
  then have m0: "of_slot_map f1 ! 0 = None" by (simp add: nth_opt_def split: if_splits)
  note cs = chunk_stored_ok [OF assms(1,3,4) f1(5,6,7) m0 ld]
  show "chunks_ok L s' (after ci f1) t" using cs(1,3) assms(5) by (auto simp: keep_or_drop_def)
  have v: "view L s' (after ci f1) cj = view L s fo cj" for cj using cs(2,4) assms(5) by (auto simp: keep_or_drop_def)
  have u: "used_slots_of (after ci f1) = used_slots_of f1" by (simp add: used_slots_of_def k)
  show "slots_ok L s' (after ci f1)" using assms(6) by (auto simp: slots_ok_def u k)
  show "settled L s fo s' (after ci f1)"
    using assms(6,16,17) v k(7,8) [of ci f1] by (auto simp: settled_def u k f1)
  have "load_chunk L (after ci f1) cj s' = load_chunk L f1 cj s'" for cj by (rule load_chunk_cong) (simp_all add: k)
  with ld m assms(3) show "saved {ci} L fo s s' (after ci f1)" by (simp add: saved_def k)
qed

lemma saved_step:
  assumes "saved {ci} L fo s s1 f1" "saved C L f1 s1 s2 f2" "\<And>cj. cj \<noteq> ci \<Longrightarrow> of_cache f1 cj = of_cache fo cj"
    and "of_cache f1 \<subseteq>\<^sub>m of_cache fo" "of_cache fo ci \<noteq> None"
  shows "saved (insert ci C) L fo s s2 f2"
proof -
  have 1: "load_chunk L f2 cj s2 = Ok d \<and> (\<exists>i. nth_opt cj (of_slot_map f2) = Some (Some i))"
    if c: "of_cache fo cj = Some d" "cj \<in> insert ci C" for cj d
  proof (cases "cj = ci")
    case True
    have l: "load_chunk L f1 cj s1 = Ok d" "\<exists>i. nth_opt cj (of_slot_map f1) = Some (Some i)"
      using assms(1) c True by (auto simp: saved_def)
    have "of_cache f1 cj = None \<or> of_cache f1 cj = Some d"
      using assms(4) c(1) by (cases "of_cache f1 cj") (auto simp: map_le_def dom_def)
    with l assms(2) show ?thesis by (cases "cj \<in> C") (auto simp: saved_def)
  next
    case False
    with assms(3) c have "of_cache f1 cj = Some d" "cj \<in> C" by simp_all
    with assms(2) show ?thesis by (simp add: saved_def)
  qed
  have 2: "load_chunk L f2 cj s2 = load_chunk L fo cj s \<and> nth_opt cj (of_slot_map f2) = nth_opt cj (of_slot_map fo)"
    if c: "of_cache fo cj = None \<or> cj \<notin> insert ci C" for cj
  proof -
    have n: "cj \<noteq> ci" using c assms(5) by auto
    with c assms(3) [OF n] have "of_cache f1 cj = None \<or> cj \<notin> C" by auto
    with assms(2) have "load_chunk L f2 cj s2 = load_chunk L f1 cj s1 \<and> nth_opt cj (of_slot_map f2) = nth_opt cj (of_slot_map f1)"
      unfolding saved_def by blast
    moreover have "load_chunk L f1 cj s1 = load_chunk L fo cj s \<and> nth_opt cj (of_slot_map f1) = nth_opt cj (of_slot_map fo)"
      using assms(1) n unfolding saved_def by blast
    ultimately show ?thesis by simp
  qed
  from 1 2 show ?thesis by (simp add: saved_def)
qed

lemma saved_nil: "saved {} L fo s s fo"
  by (simp add: saved_def)

lemma settled_same_heap: "same_heap s' t \<Longrightarrow> node_inv L s' \<Longrightarrow> settled L s fo s' fo' \<Longrightarrow> settled L s fo t fo'"
  using heap.frame_same [OF _ same_heap_frame [of L s' t]] by (auto simp: settled_def view_same_heap)

lemma saved_same_heap: "same_heap s' t \<Longrightarrow> saved C L fo s s' fo' \<Longrightarrow> saved C L fo s t fo'"
  by (simp add: saved_def load_chunk_same_heap)

lemma upd_put: "fu_open_files s fh = Some fo \<Longrightarrow> upd_file fh f s = put_file fh (f fo) s"
  by (simp add: upd_file_def)

lemma write_chunk_step:
  assumes "keep_or_drop after" "fu_open_files s fh = Some fo" "chunks_ok L s fo t" "slots_ok L s fo" "0 < ci"
    and "of_cache fo ci = Some d" "write_chunks L after fh (ci # cis) s = (Ok (), s')"
  obtains s1 f1 where "write_chunks L after fh cis s1 = (Ok (), s')"
    "fu_open_files s1 = (fu_open_files s)(fh \<mapsto> after ci f1)" "fu_inodes s1 = fu_inodes s" "fu_next_fh s1 = fu_next_fh s"
    "of_cache f1 = of_cache fo" "of_dirty f1 = of_dirty fo" "chunks_ok L s1 (after ci f1) t" "slots_ok L s1 (after ci f1)"
    "settled L s fo s1 (after ci f1)" "saved {ci} L fo s s1 (after ci f1)"
proof -
  note len = chunks_okD(6) [OF assms(3,6)] and S = slots_okD [OF assms(4)] and goal = that
  have put: thesis if "write_chunks L after fh cis (put_file fh (after ci f1) sa) = (Ok (), s')"
      "slot_store.more sa = slot_store.more s" "of_cache f1 = of_cache fo" "of_dirty f1 = of_dirty fo"
      and w: "chunks_ok L sa (after ci f1) t" "slots_ok L sa (after ci f1)"
      "settled L s fo sa (after ci f1)" "saved {ci} L fo s sa (after ci f1)" for sa f1
  proof (rule goal [OF that(1)])
    let ?s = "put_file fh (after ci f1) sa"
    note mf = more_fields [OF that(2)]
    show "fu_open_files ?s = (fu_open_files s)(fh \<mapsto> after ci f1)" "fu_inodes ?s = fu_inodes s" "fu_next_fh ?s = fu_next_fh s"
      "of_cache f1 = of_cache fo" "of_dirty f1 = of_dirty fo"
      using mf that(3,4) by (simp_all add: put_file_def)
    have sh: "same_heap sa ?s" by simp
    show "chunks_ok L ?s (after ci f1) t" "slots_ok L ?s (after ci f1)"
      using w(1,2) by (simp_all only: chunks_ok_same_heap [OF sh] slots_ok_same_heap [OF sh])
    show "settled L s fo ?s (after ci f1)" by (rule settled_same_heap [OF sh slots_okD(1) [OF w(2)] w(3)])
    show "saved {ci} L fo s ?s (after ci f1)" by (rule saved_same_heap [OF sh w(4)])
  qed
  show thesis
  proof (cases "of_slot_map fo ! ci")
    case (Some i)
    with len have n: "nth_opt ci (of_slot_map fo) = Some (Some i)" by (simp add: nth_opt_def)
    from assms(2,6,7) n obtain sa where u: "update_node L i (data_node d) s = (Ok (), sa)"
      and run: "write_chunks L after fh cis (upd_file fh (after ci) sa) = (Ok (), s')"
      by (auto simp: then_op_eq_Ok)
    have m: "slot_store.more sa = slot_store.more s"
      by (rule update_node_more [OF S(1) heap.live_valid [OF slot_of_chunk(2) [OF assms(4) n]] u])
    have run': "write_chunks L after fh cis (put_file fh (after ci fo) sa) = (Ok (), s')"
      using run upd_put [of sa fh fo] more_fields [OF m] assms(2) by simp
    note c = chunk_to_slot [OF assms(3,4,5) n u]
    have nn: "nth_opt cj (of_slot_map fo) = (if cj = ci then Some (Some i) else nth_opt cj (of_slot_map fo))" for cj
      using n by simp
    show thesis
      by (rule put [OF run' m refl refl]; rule chunk_written [OF assms(3,4,6,5,1) _ refl refl refl refl refl refl refl nn c(1,3)])
        (use c(2) in simp_all)
  next
    case None
    with len have n: "nth_opt ci (of_slot_map fo) = Some None" by (simp add: nth_opt_def)
    from assms(2,6,7) n obtain sa i where u: "write_node L (data_node d) s = (Ok i, sa)"
      and run: "write_chunks L after fh cis (upd_file fh (after ci) (upd_file fh (set_slot ci i) sa)) = (Ok (), s')"
      by (auto simp: then_op_eq_Ok)
    have m: "slot_store.more sa = slot_store.more s" by (rule write_node_more [OF S(1) u])
    let ?f = "set_slot ci i fo"
    have run': "write_chunks L after fh cis (put_file fh (after ci ?f) sa) = (Ok (), s')"
      using run more_fields [OF m] assms(2) by (simp add: upd_put)
    note c = chunk_to_new_slot [OF assms(3,4,5) n u]
    have f: "of_ino ?f = of_ino fo" "of_head_slot ?f = of_head_slot fo" "of_index_chain ?f = of_index_chain fo"
      "of_total_size ?f = of_total_size fo" "of_cache ?f = of_cache fo" "of_dirty ?f = of_dirty fo"
      "length (of_slot_map ?f) = length (of_slot_map fo)" "of_meta_dirty ?f"
      by (simp_all add: set_slot_def)
    have nn: "nth_opt cj (of_slot_map ?f) = (if cj = ci then Some (Some i) else nth_opt cj (of_slot_map fo))" for cj
      using len by (auto simp: nth_opt_def set_slot_def)
    show thesis
      by (rule put [OF run' m f(5,6)]; rule chunk_written [OF assms(3,4,6,5,1) _ f(1-7) nn c(1,3,4)])
        (use c(2) f(8) in simp_all)
  qed
qed

lemma write_chunks_spec:
  assumes "keep_or_drop after" "fu_open_files s fh = Some fo" "chunks_ok L s fo t" "slots_ok L s fo" "\<forall>ci \<in> set cis. 0 < ci"
    and "write_chunks L after fh cis s = (Ok (), s')"
  obtains fo' where "fu_open_files s' = (fu_open_files s)(fh \<mapsto> fo')" "fu_inodes s' = fu_inodes s" "fu_next_fh s' = fu_next_fh s"
    "chunks_ok L s' fo' t" "slots_ok L s' fo'" "settled L s fo s' fo'" "saved (set cis) L fo s s' fo'"
    "after = (\<lambda>_ fo. fo) \<Longrightarrow> of_cache fo' = of_cache fo \<and> of_dirty fo' = of_dirty fo"
  using assms
proof (induction cis arbitrary: s fo thesis)
  case Nil
  from Nil.prems(7) have "s' = s" by simp
  with Nil.prems slots_okD(1) [OF Nil.prems(5)] show thesis
    by (intro Nil.prems(1) [of fo]) (simp_all add: fun_upd_idem settled_refl saved_nil)
next
  case (Cons ci cis)
  note prems = Cons.prems(2-)
  note k = keep_or_drop_simps [OF prems(1)]
  have ci0: "0 < ci" "\<forall>ci \<in> set cis. 0 < ci" using prems(5) by simp_all
  show thesis
  proof (cases "of_cache fo ci")
    case None
    with prems have run: "write_chunks L after fh cis s = (Ok (), s')" by simp
    show thesis
    proof (rule Cons.IH [OF _ prems(1-4) ci0(2) run], goal_cases)
      case (1 fo')
      have "saved (set (ci # cis)) L fo s s' fo'" using 1(7) None by (auto simp: saved_def)
      with 1 show thesis by (intro Cons.prems(1))
    qed
  next
    case (Some d)
    obtain s1 f1 where r: "write_chunks L after fh cis s1 = (Ok (), s')"
      "fu_open_files s1 = (fu_open_files s)(fh \<mapsto> after ci f1)" "fu_inodes s1 = fu_inodes s" "fu_next_fh s1 = fu_next_fh s"
      "of_cache f1 = of_cache fo" "of_dirty f1 = of_dirty fo" "chunks_ok L s1 (after ci f1) t" "slots_ok L s1 (after ci f1)"
      "settled L s fo s1 (after ci f1)" "saved {ci} L fo s s1 (after ci f1)"
      by (rule write_chunk_step [OF prems(1-4) ci0(1) Some prems(6)])
    have opn: "fu_open_files s1 fh = Some (after ci f1)" using r(2) by simp
    show thesis
    proof (rule Cons.IH [OF _ prems(1) opn r(7,8) ci0(2) r(1)], goal_cases)
      case (1 fo')
      have "saved (set (ci # cis)) L fo s s' fo'"
        using saved_step [OF r(10) 1(7)] k(7) [of ci f1] k(9) [of _ ci f1] r(5) Some by simp
      moreover have "fu_open_files s' = (fu_open_files s)(fh \<mapsto> fo')" using 1(1) r(2) by (auto simp: fun_eq_iff)
      ultimately show thesis using 1 r(3-6) settled_trans [OF r(9) 1(6)] by (intro Cons.prems(1)) simp_all
    qed
  qed
qed

end
