(* ===== verification/Fuse_Files.thy ===== *)
theory Fuse_Files
  imports Fuse_Flush
begin

text \<open>
  Reading and writing an open file of the FUSE adapter as operations on its content, a byte
  sequence.
\<close>

section \<open>Files stay in order\<close>

lemma file_okD:
  assumes "file_ok L s fo"
  shows "chunks_ok L s fo (of_total_size fo)" "cached_inside fo (of_total_size fo)" "slots_ok L s fo"
    "of_meta_dirty fo \<or> head_saved L s fo" "of_total_size fo < 2 ^ 63"
  using assms by (simp_all add: file_ok_def)

abbreviation file_content :: "libs \<Rightarrow> 'a slot_store_scheme \<Rightarrow> open_file \<Rightarrow> bytes" where
  "file_content L s fo \<equiv> content L s fo (of_total_size fo)"

lemma settled_ok:
  assumes "file_ok L s fo" "settled L s fo s' fo'" "chunks_ok L s' fo' (of_total_size fo)" "slots_ok L s' fo'"
  shows "file_ok L s' fo'" "of_total_size fo' = of_total_size fo" "file_content L s' fo' = file_content L s fo"
proof -
  note F = file_okD [OF assms(1)]
  show t: "of_total_size fo' = of_total_size fo" using assms(2) by (simp add: settled_def)
  have "of_cache fo' \<subseteq>\<^sub>m of_cache fo" using assms(2) by (simp add: settled_def)
  then have "of_cache fo' ci \<noteq> None \<Longrightarrow> of_cache fo ci \<noteq> None" for ci by (force simp: map_le_def dom_def)
  then have "cached_inside fo' (of_total_size fo)" using F(2) by (simp add: cached_inside_def)
  with assms(3,4) t F(5) settled_head [OF assms(2) F(3,4)] show "file_ok L s' fo'" by (simp add: file_ok_def)
  have "view L s' fo' ci = view L s fo ci" for ci using assms(2) by (simp add: settled_def)
  from content_view [where L = L and s = s and fo = fo, unfolded fun_eq_iff] this
  show "file_content L s' fo' = file_content L s fo" by (simp add: t content_def byte_at_def)
qed

section \<open>Reading\<close>

lemma cache_only_ok:
  assumes "file_ok L s fo" "chunks_ok L s (fo\<lparr>of_cache := c\<rparr>) (of_total_size fo)"
    "cached_inside (fo\<lparr>of_cache := c\<rparr>) (of_total_size fo)" "same_heap s t"
  shows "file_ok L t (fo\<lparr>of_cache := c\<rparr>)"
proof -
  have "slots_ok L s (fo\<lparr>of_cache := c\<rparr>) = slots_ok L s fo" "head_saved L s (fo\<lparr>of_cache := c\<rparr>) = head_saved L s fo"
    by (simp_all add: slots_ok_def used_slots_of_def head_saved_def)
  then have "file_ok L s (fo\<lparr>of_cache := c\<rparr>)" using assms(1-3) by (simp add: file_ok_def)
  then show ?thesis by (simp add: file_ok_same_heap [OF assms(4)])
qed

lemma op_read_spec:
  assumes "order_ok L" "fu_open_files s fh = Some fo" "file_ok L s fo" "offset + sz < 2 ^ 64"
  obtains c where "op_read L fh offset sz s = (Ok (take sz (drop offset (file_content L s fo))), put_file fh (fo\<lparr>of_cache := c\<rparr>) s)"
    "file_ok L (put_file fh (fo\<lparr>of_cache := c\<rparr>) s) (fo\<lparr>of_cache := c\<rparr>)"
    "content L (put_file fh (fo\<lparr>of_cache := c\<rparr>) s) (fo\<lparr>of_cache := c\<rparr>) = content L s fo"
proof (cases "of_total_size fo \<le> offset")
  case True
  have "fo\<lparr>of_cache := of_cache fo\<rparr> = fo" by simp
  with True assms show thesis by (intro that [of "of_cache fo"]) (simp_all add: op_read_def put_file_id)
next
  case False
  note F = file_okD [OF assms(3)]
  let ?t = "of_total_size fo" and ?stop = "min (offset + sz) (of_total_size fo)"
  have st: "?stop \<le> ?t" "offset \<le> ?stop" using False by simp_all
  obtain c where c: "read_loop L fh ?stop offset [] s =
      (Ok ([] @ subrange offset ?stop (content L s fo ?t)), put_file fh (fo\<lparr>of_cache := c\<rparr>) s)"
    "chunks_ok L s (fo\<lparr>of_cache := c\<rparr>) ?t" "\<And>ci. view L s (fo\<lparr>of_cache := c\<rparr>) ci = view L s fo ci"
    "cached_inside (fo\<lparr>of_cache := c\<rparr>) ?t"
    by (rule read_loop_spec [OF assms(1,2) F(1,2) st]) (rule that)
  have sh: "same_heap s (put_file fh (fo\<lparr>of_cache := c\<rparr>) s)" by simp
  have "subrange offset ?stop (content L s fo ?t) = take sz (drop offset (content L s fo ?t))"
    using False by (simp add: subrange_def min_def)
  then have "op_read L fh offset sz s = (Ok (take sz (drop offset (content L s fo ?t))), put_file fh (fo\<lparr>of_cache := c\<rparr>) s)"
    using assms(2,4) False st c(1) by (simp add: op_read_def Let_def)
  then show thesis
    by (rule that) (rule cache_only_ok [OF assms(3) c(2,4) sh],
      simp only: content_same_heap [OF sh] content_view [where s = s, OF c(3)])
qed

section \<open>Writing\<close>

lemma write_loop_ok:
  assumes "order_ok L" "fu_open_files s fh = Some fo" "file_ok L s fo" "offset \<le> of_total_size fo" "data \<noteq> []"
    and "offset + length data < 2 ^ 63"
  obtains fo' where "write_loop L fh offset data (wrap64 (offset + length data)) offset s = (Ok (), put_file fh fo' s)"
    "file_ok L (put_file fh fo' s) fo'" "of_total_size fo' = max (of_total_size fo) (offset + length data)"
    "file_content L (put_file fh fo' s) fo' =
       take offset (file_content L s fo) @ data @ drop (offset + length data) (file_content L s fo)"
proof -
  note F = file_okD [OF assms(3)]
  let ?stop = "offset + length data"
  have w: "wrap64 ?stop = ?stop" using assms(6) by simp
  have le: "offset \<le> ?stop" by simp
  obtain fo' where l: "write_loop L fh offset data ?stop offset s = (Ok (), put_file fh fo' s)"
    "chunks_ok L s fo' (max (of_total_size fo) ?stop)" "cached_inside fo' (max (of_total_size fo) ?stop)" "grown fo fo'"
    "content L s fo' (max (of_total_size fo) ?stop) =
       take offset (file_content L s fo) @ drop (offset - offset) data @ drop ?stop (file_content L s fo)"
    "of_total_size fo' = (if offset < ?stop then max ?stop (of_total_size fo) else of_total_size fo)"
    by (rule write_loop_spec [OF assms(1,2) F(1,2) order_refl le assms(4) refl]) (rule that)
  have t: "of_total_size fo' = max (of_total_size fo) ?stop" using l(6) assms(5) by (auto simp: max.commute)
  have sh: "same_heap s (put_file fh fo' s)" by simp
  have "file_ok L s fo'"
    using l(2,3) grown_slots [OF F(3) l(4)] grown_head [OF F(4) l(4)] F(5) assms(6) by (simp add: file_ok_def t)
  with l(1,5) show thesis
    by (intro that [of fo']) (simp_all add: w t content_same_heap [OF sh] file_ok_same_heap [OF sh])
qed

text \<open>Flushing chunks early, when there are many dirty ones.\<close>

lemma write_through_spec:
  assumes "fu_open_files s fh = Some fo" "file_ok L s fo" "write_through_flush L fh n s = (Ok (), s')"
  obtains fo' where "fu_open_files s' = (fu_open_files s)(fh \<mapsto> fo')" "fu_inodes s' = fu_inodes s" "fu_next_fh s' = fu_next_fh s"
    "file_ok L s' fo'" "of_total_size fo' = of_total_size fo" "file_content L s' fo' = file_content L s fo"
    "heap.frame L (set (used_slots_of fo)) s s'" "of_head_slot fo' = of_head_slot fo" "of_ino fo' = of_ino fo"
proof -
  note F = file_okD [OF assms(2)]
  let ?cis = "take n (sort (filter (\<lambda>ci. 1 \<le> ci) (hash_order L (of_dirty fo))))"
  have run: "write_chunks L drop_chunk fh ?cis s = (Ok (), s')" using assms(1,3) by (simp add: write_through_flush_def)
  have pos: "\<forall>ci \<in> set ?cis. 0 < ci" by (auto dest!: in_set_takeD)
  have kd: "keep_or_drop drop_chunk" by (simp add: keep_or_drop_def)
  show thesis
  proof (rule write_chunks_spec [OF kd assms(1) F(1,3) pos run], goal_cases)
    case (1 fo')
    with settled_ok [OF assms(2) 1(6,4,5)] show thesis by (intro that [of fo']) (simp_all add: settled_def)
  qed
qed

lemma few_dirty:
  assumes "file_ok L s fo" "of_total_size fo \<le> 129 * CHUNK_SIZE" "fu_open_files s fh = Some fo"
  shows "dirty_continuations s fh \<le> 128"
proof -
  note F = file_okD [OF assms(1)]
  have "ci \<in> {1..128}" if c: "ci \<in> of_dirty fo" "1 \<le> ci" for ci
  proof -
    have "of_cache fo ci \<noteq> None" using c(1) chunks_okD(5) [OF F(1)] by auto
    with F(2) c(2) have "ci * CHUNK_SIZE < of_total_size fo" by (auto simp: cached_inside_def)
    with assms(2) have "ci * CHUNK_SIZE < 129 * CHUNK_SIZE" by linarith
    then have "ci < 129" by simp
    with c(2) show ?thesis by simp
  qed
  then have "{ci \<in> of_dirty fo. 1 \<le> ci} \<subseteq> {1..128}" by blast
  from card_mono [OF _ this] assms(3) show ?thesis by (simp add: dirty_continuations_def)
qed

lemma op_write_spec:
  assumes "order_ok L" "fu_open_files s fh = Some fo" "file_ok L s fo" "offset \<le> of_total_size fo" "data \<noteq> []"
    and "offset + length data < 2 ^ 63" "op_write L fh offset data s = (Ok n, s')"
  obtains fo' where "fu_open_files s' = (fu_open_files s)(fh \<mapsto> fo')" "fu_inodes s' = fu_inodes s" "fu_next_fh s' = fu_next_fh s"
    "file_ok L s' fo'" "of_total_size fo' = max (of_total_size fo) (offset + length data)" "n = length data mod 2 ^ 32"
    "file_content L s' fo' = take offset (file_content L s fo) @ data @ drop (offset + length data) (file_content L s fo)"
proof -
  obtain f1 where w: "write_loop L fh offset data (wrap64 (offset + length data)) offset s = (Ok (), put_file fh f1 s)"
    "file_ok L (put_file fh f1 s) f1" "of_total_size f1 = max (of_total_size fo) (offset + length data)"
    "file_content L (put_file fh f1 s) f1 =
       take offset (file_content L s fo) @ data @ drop (offset + length data) (file_content L s fo)"
    by (rule write_loop_ok [OF assms(1-6)]) (rule that)
  let ?s = "put_file fh f1 s" and ?n = "dirty_continuations (put_file fh f1 s) fh"
  have fields: "fu_open_files ?s = (fu_open_files s)(fh \<mapsto> f1)" "fu_open_files ?s fh = Some f1" by (simp_all add: put_file_def)
  show thesis
  proof (cases "WRITE_THROUGH_THRESHOLD < ?n")
    case False
    with assms(7) w(1) have "s' = ?s" "n = length data mod 2 ^ 32" by (simp_all add: op_write_def then_op_def)
    with w fields show thesis by (intro that [of f1]) simp_all
  next
    case True
    with assms(7) w(1) have run: "write_through_flush L fh (?n - WRITE_THROUGH_THRESHOLD div 2) ?s = (Ok (), s')"
      and n: "n = length data mod 2 ^ 32"
      by (auto simp: op_write_def then_op_eq_Ok Let_def)
    show thesis
    proof (rule write_through_spec [OF fields(2) w(2) run], goal_cases)
      case (1 fo')
      with w n fields show thesis by (intro that [of fo']) simp_all
    qed
  qed
qed

lemma op_write_small:
  assumes "order_ok L" "fu_open_files s fh = Some fo" "file_ok L s fo" "offset \<le> of_total_size fo" "data \<noteq> []"
    and "max (of_total_size fo) (offset + length data) \<le> 129 * CHUNK_SIZE"
  shows "\<exists>fo'. op_write L fh offset data s = (Ok (length data mod 2 ^ 32), put_file fh fo' s)"
proof -
  have "offset + length data < 2 ^ 63" using assms(6) by (simp add: CHUNK_SIZE_def)
  note b = this
  obtain f1 where w: "write_loop L fh offset data (wrap64 (offset + length data)) offset s = (Ok (), put_file fh f1 s)"
    "file_ok L (put_file fh f1 s) f1" "of_total_size f1 = max (of_total_size fo) (offset + length data)"
    by (rule write_loop_ok [OF assms(1-5) b]) (rule that)
  have "fu_open_files (put_file fh f1 s) fh = Some f1" by simp
  from few_dirty [OF w(2) _ this] w(3) assms(6) have "dirty_continuations (put_file fh f1 s) fh \<le> 128" by simp
  then show ?thesis using w(1) by (auto simp: op_write_def then_op_def)
qed

end
