(* ===== verification/Fuse_Sync.thy ===== *)
theory Fuse_Sync
  imports Fuse_Files
begin

text \<open>
  From an open file to disk and back: \<open>flush_fh\<close> leaves a file whose head node and slots hold
  its content, and \<open>op_open\<close> finds that content again.
\<close>

definition file_clean :: "libs \<Rightarrow> 'a slot_store_scheme \<Rightarrow> open_file \<Rightarrow> bool" where
  "file_clean L s fo \<longleftrightarrow> file_ok L s fo \<and> of_dirty fo = {} \<and> \<not> of_meta_dirty fo"

section \<open>Opening\<close>

text \<open>A clean file opened again: the same slots under an empty cache.\<close>

definition reopened :: "nat \<Rightarrow> bytes \<Rightarrow> open_file \<Rightarrow> open_file" where
  "reopened ino d fo = fo\<lparr>of_ino := ino, of_cache := (if d = [] then Map.empty else [0 \<mapsto> d])\<rparr>"

lemma clean_view:
  assumes "file_clean L s fo"
  shows "view L s fo ci = load_chunk L fo ci s"
  using assms chunks_okD(8) [of L s fo "of_total_size fo" ci]
  by (auto simp: file_clean_def file_ok_def view_def split: option.splits)

lemma reopened_ok:
  assumes clean: "file_clean L s fo" and hd: "fst (read_node L (of_head_slot fo) s) = Ok (File fb)"
  shows "file_ok L s (reopened ino (fb_data fb) fo)" "file_content L s (reopened ino (fb_data fb) fo) = file_content L s fo"
proof -
  let ?r = "reopened ino (fb_data fb) fo"
  have F: "chunks_ok L s fo (of_total_size fo)" "slots_ok L s fo" "head_saved L s fo" "of_total_size fo < 2 ^ 63"
    "of_dirty fo = {}" "\<not> of_meta_dirty fo"
    using clean by (auto simp: file_clean_def file_ok_def)
  note D = chunks_okD [OF F(1)]
  have sm: "of_slot_map ?r = of_slot_map fo" "of_head_slot ?r = of_head_slot fo" "of_total_size ?r = of_total_size fo"
    "of_dirty ?r = {}" "\<not> of_meta_dirty ?r" "of_index_chain ?r = of_index_chain fo"
    "of_cache ?r = (if fb_data fb = [] then Map.empty else [0 \<mapsto> fb_data fb])"
    using F(5,6) by (simp_all add: reopened_def)
  have ld: "load_chunk L ?r ci s = load_chunk L fo ci s" for ci by (rule load_chunk_cong) (rule sm)+
  have l0: "load_chunk L fo 0 s = Ok (fb_data fb)" using D(1) hd by (simp add: load_chunk_def fetch_def)
  have len: "length (fb_data fb) \<le> CHUNK_SIZE" using D(9) [OF D(2)] l0 by auto
  have c: "ci = 0 \<and> d = fb_data fb" if "of_cache ?r ci = Some d" for ci d
    using that by (auto simp: sm(7) split: if_splits)
  have v: "view L s ?r ci = view L s fo ci" for ci
  proof (cases "of_cache ?r ci")
    case None
    then show ?thesis by (simp only: view_def [of L s ?r] option.case ld clean_view [OF clean])
  next
    case (Some d)
    with c [OF Some] l0 show ?thesis by (simp add: view_def [of L s ?r] clean_view [OF clean])
  qed
  have "chunks_ok L s ?r (of_total_size fo)"
    unfolding chunks_ok_def v ld sm(1)
  proof (intro conjI)
    show "finite (dom (of_cache ?r))" "of_dirty ?r \<subseteq> dom (of_cache ?r)" by (simp_all add: sm(4,7))
    show "\<forall>ci d. of_cache ?r ci = Some d \<longrightarrow> ci < length (of_slot_map fo) \<and> length d \<le> CHUNK_SIZE"
      using c len D(2) by blast
    show "\<forall>ci d. of_cache ?r ci = Some d \<longrightarrow> ci \<notin> of_dirty ?r \<longrightarrow> load_chunk L fo ci s = Ok d" using c l0 by blast
    show "\<forall>ci. ci * CHUNK_SIZE < of_total_size fo \<longrightarrow> ci < length (of_slot_map fo) \<and>
        (\<exists>d. view L s fo ci = Ok d \<and> min CHUNK_SIZE (of_total_size fo - ci * CHUNK_SIZE) \<le> length d)"
      using D(10,11) by blast
  qed (use D(1,9,12) in auto)
  moreover have "cached_inside ?r (of_total_size fo)" using c by (fastforce simp: cached_inside_def)
  moreover have "slots_ok L s ?r" using F(2) by (simp add: slots_ok_def used_slots_of_def sm)
  moreover have "head_saved L s ?r" using F(3) by (simp add: head_saved_def sm)
  ultimately show "file_ok L s ?r" using F(4) by (simp add: file_ok_def sm)
  show "file_content L s ?r = file_content L s fo"
    using content_view [OF v] by (simp add: sm)
qed

lemma op_open_clean:
  assumes "file_clean L s fo" "slot_of ino (fu_inodes s) = Some (of_head_slot fo)"
  obtains fo' where "op_open L ino s = (Ok (fu_next_fh s), put_file (fu_next_fh s) fo' (snd (alloc_fh s)))"
    "file_ok L (put_file (fu_next_fh s) fo' (snd (alloc_fh s))) fo'"
    "file_content L (put_file (fu_next_fh s) fo' (snd (alloc_fh s))) fo' = file_content L s fo"
    "of_total_size fo' = of_total_size fo" "of_head_slot fo' = of_head_slot fo" "of_ino fo' = ino"
proof -
  from assms(1) obtain fb where fb: "fst (read_node L (of_head_slot fo) s) = Ok (File fb)"
    "fb_total_size fb = of_total_size fo" "fb_index_chain fb = None" "of_slot_map fo = None # map Some (fb_data_slots fb)"
    and ic: "of_index_chain fo = None" and c: "of_dirty fo = {}" "\<not> of_meta_dirty fo"
    by (auto simp: file_clean_def file_ok_def head_saved_def slots_ok_def)
  let ?r = "reopened ino (fb_data fb) fo" and ?s = "snd (alloc_fh s)"
  have bm: "build_slot_map L (of_head_slot fo) s = Ok (of_total_size fo, None, of_slot_map fo)"
    using fb by (simp add: build_slot_map_def fetch_def chain_fuel_def)
  have r: "?r = \<lparr>of_ino = ino, of_head_slot = of_head_slot fo, of_total_size = of_total_size fo,
      of_index_chain = None, of_slot_map = of_slot_map fo, of_cache = (if fb_data fb = [] then Map.empty else [0 \<mapsto> fb_data fb]),
      of_dirty = {}, of_meta_dirty = False\<rparr>"
    using ic c by (cases fo) (simp add: reopened_def)
  have op: "op_open L ino s = (Ok (fu_next_fh s), put_file (fu_next_fh s) ?r ?s)"
    using assms(2) bm fb(1,4) unfolding r by (simp add: op_open_def slot_of_ino_def fetch_def alloc_fh_def then_op_def)
  note ro = reopened_ok [OF assms(1) fb(1), of ino]
  have sh: "same_heap s (put_file (fu_next_fh s) ?r ?s)" by (simp add: same_heap_def slot_store.truncate_def put_file_def alloc_fh_def)
  show thesis
    by (rule that [OF op]; (simp only: file_ok_same_heap [OF sh] content_same_heap [OF sh] ro)?) (simp_all add: reopened_def)
qed

section \<open>A new file\<close>

lemma new_file_ok:
  assumes "node_inv L s" "head \<in> heap.live s" "fst (read_node L head s) = Ok empty_file"
  shows "file_clean L s (new_open_file ino head)" "file_content L s (new_open_file ino head) = []"
proof -
  let ?f = "new_open_file ino head"
  have l0: "load_chunk L ?f 0 s = Ok []"
    using assms(3) by (simp add: load_chunk_def fetch_def new_open_file_def nth_opt_def empty_file_def)
  have "chunks_ok L s ?f 0"
    using l0 by (auto simp: chunks_ok_def new_open_file_def nth_opt_def view_def)
  moreover have "slots_ok L s ?f" using assms(1,2) by (simp add: slots_ok_def new_open_file_def used_slots_of_def List.map_filter_simps)
  moreover have "head_saved L s ?f" using assms(3) by (simp add: head_saved_def new_open_file_def empty_file_def)
  ultimately show "file_clean L s ?f" by (simp add: file_clean_def file_ok_def new_open_file_def cached_inside_def)
  show "file_content L s ?f = []" by (simp add: new_open_file_def content_def)
qed

section \<open>Flushing\<close>

lemma chunk_count_spec:
  assumes "t < 2 ^ 63"
  shows "ci < chunk_count t \<longleftrightarrow> ci * CHUNK_SIZE < t"
proof (cases "t = 0")
  case False
  have "t + CHUNK_SIZE - 1 < 2 ^ 64" using assms by (simp add: CHUNK_SIZE_def)
  then have e: "chunk_count t = (t + CHUNK_SIZE - 1) div CHUNK_SIZE" using False by (simp add: chunk_count_def)
  have "ci < (t + CHUNK_SIZE - 1) div CHUNK_SIZE \<longleftrightarrow> Suc ci * CHUNK_SIZE \<le> t + CHUNK_SIZE - 1"
    by (simp only: Suc_le_eq [symmetric] less_eq_div_iff_mult_less_eq [OF CHUNK_pos])
  also have "\<dots> \<longleftrightarrow> ci * CHUNK_SIZE < t" using False CHUNK_pos by (simp; linarith)
  finally show ?thesis by (simp only: e)
qed (simp add: chunk_count_def)

text \<open>Step 2 takes slots the content does not need.\<close>

definition shortened :: "nat \<Rightarrow> open_file \<Rightarrow> open_file" where
  "shortened n fo =
     (if max n 1 < length (of_slot_map fo) then fo\<lparr>of_slot_map := take (max n 1) (of_slot_map fo), of_meta_dirty := True\<rparr> else fo)"

lemma map_filter_take_drop:
  "List.map_filter id xs = List.map_filter id (take n xs) @ List.map_filter id (drop n xs)"
  by (metis append_take_drop_id map_filter_append)

lemma shortened_load:
  assumes "chunks_ok L s fo t" "ci < max n 1"
  shows "load_chunk L (shortened n fo) ci s = load_chunk L fo ci s"
    "nth_opt ci (of_slot_map (shortened n fo)) = nth_opt ci (of_slot_map fo)"
proof -
  have h: "of_head_slot (shortened n fo) = of_head_slot fo" by (simp add: shortened_def)
  show m: "nth_opt ci (of_slot_map (shortened n fo)) = nth_opt ci (of_slot_map fo)"
    using assms(2) by (auto simp: shortened_def nth_opt_def)
  show "load_chunk L (shortened n fo) ci s = load_chunk L fo ci s" by (simp add: load_chunk_def m h split: option.splits)
qed

lemma shortened_chunks:
  assumes "chunks_ok L s fo t" "cached_inside fo t" "\<And>ci. ci * CHUNK_SIZE < t \<Longrightarrow> ci < n"
    and reads: "\<And>i. i \<in> insert (of_head_slot fo) (set (used_slots_of (shortened n fo))) \<Longrightarrow> fst (read_node L i s') = fst (read_node L i s)"
  shows "chunks_ok L s' (shortened n fo) t" "cached_inside (shortened n fo) t"
    "ci < max n 1 \<Longrightarrow> view L s' (shortened n fo) ci = view L s fo ci"
    "ci < max n 1 \<Longrightarrow> load_chunk L (shortened n fo) ci s' = load_chunk L fo ci s"
proof -
  note D = chunks_okD [OF assms(1)]
  let ?f = "shortened n fo"
  have f: "of_cache ?f = of_cache fo" "of_dirty ?f = of_dirty fo" "of_head_slot ?f = of_head_slot fo"
    by (simp_all add: shortened_def)
  then show "cached_inside ?f t" using assms(2) by (simp add: cached_inside_def)
  have len: "length (of_slot_map ?f) = min (length (of_slot_map fo)) (max n 1)"
    by (auto simp: shortened_def min_def max_def)
  have "load_chunk L ?f ci s' = load_chunk L ?f ci s" for ci
    by (rule load_chunk_reads) (use reads in \<open>simp add: used_slots_mem f\<close>)
  then have ld: "load_chunk L ?f ci s' = load_chunk L fo ci s" if "ci < max n 1" for ci
    using shortened_load(1) [OF assms(1) that] by simp
  then show "ci < max n 1 \<Longrightarrow> load_chunk L ?f ci s' = load_chunk L fo ci s" by simp
  have v: "view L s' ?f ci = view L s fo ci" if "ci < max n 1" for ci
    using ld [OF that] by (simp add: view_def f split: option.splits)
  then show "ci < max n 1 \<Longrightarrow> view L s' ?f ci = view L s fo ci" by simp
  have cached: "ci < max n 1 \<and> ci < length (of_slot_map ?f)" if "of_cache fo ci = Some d" for ci d
  proof -
    have "ci = 0 \<or> ci * CHUNK_SIZE < t" using assms(2) that by (simp add: cached_inside_def)
    then have "ci < max n 1" using assms(3) [of ci] by auto
    with D(6) [OF that] show ?thesis by (simp add: len)
  qed
  have inside: "ci < max n 1 \<and> ci < length (of_slot_map ?f)" if "ci * CHUNK_SIZE < t" for ci
    using assms(3) [OF that] D(10) [OF that] by (simp add: len)
  show "chunks_ok L s' ?f t"
    unfolding chunks_ok_def f
  proof (intro conjI)
    show "nth_opt 0 (of_slot_map ?f) = Some None" using shortened_load(2) [OF assms(1), of 0 n] D(1) by simp
    show "\<forall>ci d. of_cache fo ci = Some d \<longrightarrow> ci < length (of_slot_map ?f) \<and> length d \<le> CHUNK_SIZE"
      using cached D(7) by blast
    show "\<forall>ci d. of_cache fo ci = Some d \<longrightarrow> ci \<notin> of_dirty fo \<longrightarrow> load_chunk L ?f ci s' = Ok d"
      using cached ld D(8) by metis
    show "\<forall>ci < length (of_slot_map ?f). \<exists>d. load_chunk L ?f ci s' = Ok d \<and> length d \<le> CHUNK_SIZE"
      using ld D(9) by (simp add: len)
    show "\<forall>ci. ci * CHUNK_SIZE < t \<longrightarrow> ci < length (of_slot_map ?f) \<and>
        (\<exists>d. view L s' ?f ci = Ok d \<and> min CHUNK_SIZE (t - ci * CHUNK_SIZE) \<le> length d)"
      using inside v D(11) by metis
    show "\<exists>d. view L s' ?f 0 = Ok d \<and> length d = min CHUNK_SIZE t" using v [of 0] D(12) by simp
  qed (rule D(4,5))+
qed

lemma free_all_more:
  assumes "node_inv L s" "set slots \<subseteq> heap.live s" "distinct slots"
  shows "slot_store.more (free_all L slots s) = slot_store.more s"
  using assms unfolding free_all_def
proof (induction slots arbitrary: s)
  case (Cons i "is")
  then have il: "i \<in> heap.live s" by simp
  note d = heap.frame_del [OF Cons.prems(1) il]
  have "set is \<subseteq> heap.live (free_node L i s)" using Cons.prems d(2) by auto
  with Cons.IH [OF heap.frame_inv [OF d(1)] this] Cons.prems free_node_more [OF Cons.prems(1) il] show ?case by simp
qed simp

lemma drop_excess_spec:
  assumes "file_ok L s fo" "fu_open_files s fh = Some fo" "n = chunk_count (of_total_size fo)" "drop_excess L fh n s = s'"
  shows "fu_open_files s' = (fu_open_files s)(fh \<mapsto> shortened n fo)" "fu_inodes s' = fu_inodes s" "fu_next_fh s' = fu_next_fh s"
    "file_ok L s' (shortened n fo)" "file_content L s' (shortened n fo) = file_content L s fo"
    "heap.frame L (set (used_slots_of fo)) s s'"
    "ci < max n 1 \<Longrightarrow> load_chunk L (shortened n fo) ci s' = load_chunk L fo ci s"
proof -
  note F = file_okD [OF assms(1)]
  note S = slots_okD [OF F(3)]
  let ?f = "shortened n fo" and ?m = "max n 1"
  let ?gone = "List.map_filter id (drop ?m (of_slot_map fo))"
  have n: "ci * CHUNK_SIZE < of_total_size fo \<Longrightarrow> ci < n" for ci using chunk_count_spec [OF F(5)] assms(3) by simp
  have split: "used_slots_of fo = List.map_filter id (take ?m (of_slot_map fo)) @ ?gone"
    unfolding used_slots_of_def by (rule map_filter_take_drop)
  have kept: "used_slots_of ?f = List.map_filter id (take ?m (of_slot_map fo))"
    by (auto simp: used_slots_of_def shortened_def max_def)
  have gone: "set ?gone \<subseteq> heap.live s" "distinct ?gone" "set ?gone \<inter> set (used_slots_of ?f) = {}" "of_head_slot fo \<notin> set ?gone"
    using S(3,4,5) unfolding split kept by auto
  note fd = heap.frame_del_all [OF S(1) gone(1,2)]
  define s1 where "s1 = (if ?m < length (of_slot_map fo) then free_all L ?gone s else s)"
  have fr: "heap.frame L (set ?gone) s s1" "heap.live s1 = heap.live s - set ?gone" "slot_store.more s1 = slot_store.more s"
  proof -
    have "heap.frame L (set ?gone) s s1 \<and> heap.live s1 = heap.live s - set ?gone \<and> slot_store.more s1 = slot_store.more s"
    proof (cases "?m < length (of_slot_map fo)")
      case True
      with fd free_all_more [OF S(1) gone(1,2)] show ?thesis by (simp only: s1_def free_all_def if_True)
    next
      case False
      then have "drop ?m (of_slot_map fo) = []" by (simp only: drop_eq_Nil not_less)
      with False show ?thesis by (simp only: s1_def if_False List.map_filter_simps) (simp add: heap.frame_refl [OF S(1)])
    qed
    then show "heap.frame L (set ?gone) s s1" "heap.live s1 = heap.live s - set ?gone" "slot_store.more s1 = slot_store.more s"
      by blast+
  qed
  note mf = more_fields [OF fr(3)]
  have s': "s' = put_file fh ?f s1"
  proof (cases "?m < length (of_slot_map fo)")
    case True
    then have "s' = upd_file fh (\<lambda>fo. fo\<lparr>of_slot_map := take ?m (of_slot_map fo), of_meta_dirty := True\<rparr>) s1"
      using assms(2,4) by (simp only: drop_excess_def s1_def option.case if_True)
    moreover have "fu_open_files s1 fh = Some fo" using assms(2) mf(2) by simp
    ultimately show ?thesis using True by (simp only: shortened_def if_True upd_put)
  next
    case False
    then have "s' = s" "s1 = s" "?f = fo" using assms(2,4) by (simp_all only: drop_excess_def s1_def shortened_def option.case if_False)
    then show ?thesis using put_file_id [OF assms(2)] by simp
  qed
  have sh: "same_heap s1 s'" by (simp add: s')
  show "fu_open_files s' = (fu_open_files s)(fh \<mapsto> ?f)" "fu_inodes s' = fu_inodes s" "fu_next_fh s' = fu_next_fh s"
    using mf by (simp_all add: s' put_file_def)
  have reads: "fst (read_node L i s') = fst (read_node L i s)" if "i \<in> insert (of_head_slot fo) (set (used_slots_of ?f))" for i
  proof -
    have "i \<in> heap.live s" "i \<notin> set ?gone" using that S(2,3) gone(3,4) unfolding split kept by auto
    from heap.frame_read [OF fr(1) this] show ?thesis by (simp add: same_heap_heap(6) [OF sh])
  qed
  have sc: "chunks_ok L s' ?f (of_total_size fo)" "cached_inside ?f (of_total_size fo)"
    "ci < ?m \<Longrightarrow> view L s' ?f ci = view L s fo ci" "ci < ?m \<Longrightarrow> load_chunk L ?f ci s' = load_chunk L fo ci s" for ci
    by (rule shortened_chunks [OF F(1,2)]; (assumption | erule n reads))+
  show "ci < max n 1 \<Longrightarrow> load_chunk L ?f ci s' = load_chunk L fo ci s" for ci by (rule sc(4))
  have f: "of_total_size ?f = of_total_size fo" "of_head_slot ?f = of_head_slot fo" "of_index_chain ?f = of_index_chain fo"
    by (simp_all add: shortened_def)
  have inv1: "node_inv L s1" using fr(1) by (rule heap.frame_inv)
  have "slots_ok L s' ?f"
    unfolding slots_ok_def same_heap_heap(1,5) [OF sh] f fr(2)
    using inv1 S(2-6) gone(3,4) unfolding split kept by auto
  moreover have "of_meta_dirty ?f \<or> head_saved L s' ?f"
    using F(4) reads [of "of_head_slot fo"] by (auto simp: shortened_def head_saved_def)
  ultimately show "file_ok L s' ?f" using sc(1,2) F(5) by (simp add: file_ok_def f)
  have "byte_at L s' ?f p = byte_at L s fo p" if "p < of_total_size fo" for p
  proof -
    have "p div CHUNK_SIZE * CHUNK_SIZE < of_total_size fo" using that div_mult_mod_eq [of p CHUNK_SIZE] by linarith
    from n [OF this] have "p div CHUNK_SIZE < ?m" by simp
    from sc(3) [OF this] show ?thesis by (simp add: byte_at_def)
  qed
  then show "file_content L s' ?f = file_content L s fo" by (simp add: content_def f)
  have "heap.frame L (set (used_slots_of fo)) s s1" by (rule heap.frame_mono [OF fr(1)]) (simp add: split)
  from heap.frame_same [OF this same_heap_frame [OF inv1 sh]] show "heap.frame L (set (used_slots_of fo)) s s'" .
qed

text \<open>Step 3: the head node. All chunks of the file have slots by then.\<close>

definition all_stored :: "libs \<Rightarrow> 'a slot_store_scheme \<Rightarrow> open_file \<Rightarrow> bool" where
  "all_stored L s fo \<longleftrightarrow> (\<forall>ci d. of_cache fo ci = Some d \<longrightarrow> 0 < ci \<longrightarrow> load_chunk L fo ci s = Ok d) \<and>
     (\<forall>ci. 0 < ci \<longrightarrow> ci * CHUNK_SIZE < of_total_size fo \<longrightarrow> (\<exists>i. nth_opt ci (of_slot_map fo) = Some (Some i)))"

lemma no_hole:
  assumes "chunks_ok L s fo t" "0 < ci" "ci * CHUNK_SIZE < t" "of_cache fo ci = None \<or> load_chunk L fo ci s = view L s fo ci"
  shows "\<exists>i. nth_opt ci (of_slot_map fo) = Some (Some i)"
proof (rule ccontr)
  assume "\<not> ?thesis"
  with chunks_okD(10) [OF assms(1,3)] have "nth_opt ci (of_slot_map fo) = Some None" by (auto simp: nth_opt_def)
  then have l: "load_chunk L fo ci s = Ok []" using assms(2) by (simp add: load_chunk_def)
  with assms(4) have "view L s fo ci = Ok []" by (auto simp: view_def)
  with chunks_okD(11) [OF assms(1,3)] have "min CHUNK_SIZE (t - ci * CHUNK_SIZE) = 0" by auto
  with assms(3) CHUNK_pos show False by linarith
qed

lemma head_data_ok:
  assumes "chunks_ok L s fo (of_total_size fo)"
  shows "\<exists>d. head_data L fo s = Ok d \<and> view L s fo 0 = Ok d \<and> length d = min CHUNK_SIZE (of_total_size fo)"
proof -
  obtain d where d: "view L s fo 0 = Ok d" "length d = min CHUNK_SIZE (of_total_size fo)" using chunks_okD(12) [OF assms] by blast
  show ?thesis
  proof (cases "of_cache fo 0")
    case None
    with d chunks_okD(1) [OF assms] show ?thesis by (simp add: head_data_def view_def load_chunk_def)
  next
    case (Some x)
    with d show ?thesis by (simp add: head_data_def view_def chunk_actual_size_def min.commute)
  qed
qed

lemma cleaned_ok:
  assumes "chunks_ok L s fo t" "\<And>ci d. of_cache fo ci = Some d \<Longrightarrow> load_chunk L fo ci s' = Ok d"
    and "\<And>ci. of_cache fo ci = None \<Longrightarrow> load_chunk L fo ci s' = load_chunk L fo ci s"
    and "slots_ok L s' fo" "head_saved L s' fo" "cached_inside fo t" "t = of_total_size fo" "t < 2 ^ 63"
  shows "file_clean L s' (fo\<lparr>of_dirty := {}, of_meta_dirty := False\<rparr>)"
    "content L s' (fo\<lparr>of_dirty := {}, of_meta_dirty := False\<rparr>) = content L s fo"
proof -
  note D = chunks_okD [OF assms(1)]
  let ?f = "fo\<lparr>of_dirty := {}, of_meta_dirty := False\<rparr>"
  have ld: "load_chunk L ?f ci s' = load_chunk L fo ci s'" for ci by (rule load_chunk_cong) simp_all
  have v: "view L s' ?f ci = view L s fo ci" for ci
    using assms(3) [of ci] by (simp add: view_def ld split: option.splits)
  have l: "\<exists>d. load_chunk L fo ci s' = Ok d \<and> length d \<le> CHUNK_SIZE" if "ci < length (of_slot_map fo)" for ci
    using assms(2,3) [of ci] D(7) [of ci] D(9) [OF that] by (cases "of_cache fo ci") auto
  have "chunks_ok L s' ?f t"
    unfolding chunks_ok_def v ld using D(1,4,6,7,10,11,12) assms(2) l by auto
  moreover have "slots_ok L s' ?f" using assms(4) by (simp add: slots_ok_def used_slots_of_def)
  moreover have "head_saved L s' ?f" using assms(5) by (simp add: head_saved_def)
  ultimately show "file_clean L s' ?f" using assms(6-8) by (simp add: file_clean_def file_ok_def cached_inside_def)
  show "content L s' ?f = content L s fo" using v by (simp add: content_def byte_at_def fun_eq_iff)
qed

lemma full_slot_map:
  assumes "chunks_ok L s fo (of_total_size fo)" "of_total_size fo < 2 ^ 63" "all_stored L s fo"
    and "length (of_slot_map fo) = max (chunk_count (of_total_size fo)) 1"
  obtains ids where "of_slot_map fo = None # map Some ids"
proof -
  have "\<forall>x \<in> set (tl (of_slot_map fo)). \<exists>i. x = Some i"
  proof
    fix x assume "x \<in> set (tl (of_slot_map fo))"
    then obtain k where k: "k < length (tl (of_slot_map fo))" "x = tl (of_slot_map fo) ! k" by (auto simp: in_set_conv_nth)
    then have "Suc k < chunk_count (of_total_size fo)" "x = of_slot_map fo ! Suc k" using assms(4) by (simp_all add: nth_tl)
    with assms(3,4) chunk_count_spec [OF assms(2), of "Suc k"] show "\<exists>i. x = Some i" by (auto simp: all_stored_def nth_opt_def)
  qed
  then have "\<exists>ids. tl (of_slot_map fo) = map Some ids" by (simp only: ex_map_conv)
  then obtain ids where "tl (of_slot_map fo) = map Some ids" by blast
  with chunks_okD(2,3) [OF assms(1)] have "of_slot_map fo = None # map Some ids" by (cases "of_slot_map fo") simp_all
  then show thesis by (rule that)
qed

lemma write_head_spec:
  assumes ok: "file_ok L s fo" and stored: "all_stored L s fo" and opn: "fu_open_files s fh = Some fo"
    and n: "n = chunk_count (of_total_size fo)" "length (of_slot_map fo) = max n 1" and small: "of_total_size fo \<le> 4001 * CHUNK_SIZE"
    and run: "write_head L fh n fo s = (Ok (), s')"
  shows "file_clean L s' (fo\<lparr>of_dirty := {}, of_meta_dirty := False\<rparr>)"
    "content L s' (fo\<lparr>of_dirty := {}, of_meta_dirty := False\<rparr>) = content L s fo"
    "heap.frame L {of_head_slot fo} s s'" "slot_store.more s' = slot_store.more s"
proof -
  note F = file_okD [OF ok]
  note D = chunks_okD [OF F(1)] and S = slots_okD [OF F(3)]
  have cc: "ci < n \<longleftrightarrow> ci * CHUNK_SIZE < of_total_size fo" for ci using chunk_count_spec [OF F(5)] n(1) by simp
  obtain d where d: "head_data L fo s = Ok d" "view L s fo 0 = Ok d" using head_data_ok [OF F(1)] by blast
  obtain ids where ids: "of_slot_map fo = None # map Some ids" by (rule full_slot_map [OF F(1,5) stored n(2) [unfolded n(1)]])
  have "\<not> 4001 < n" using cc [of 4001] small by simp
  then have few: "length ids \<le> MAX_DIRECT_SLOTS" using n(2) ids by (cases n) (auto simp: max_def split: if_splits)
  have cs: "continuation_slots n (of_slot_map fo) = Ok ids"
    using n(2) ids by (simp add: continuation_slots_def subrange_def)
  have same: "upd_file fh (\<lambda>fo. fo\<lparr>of_index_chain := None\<rparr>) s = s"
  proof -
    have "fo\<lparr>of_index_chain := None\<rparr> = fo" using S(6) by simp
    then show ?thesis by (simp only: upd_put [OF opn] put_file_id [OF opn])
  qed
  let ?fb = "\<lparr>fb_kind = KFile, fb_total_size = of_total_size fo, fb_data_slots = ids, fb_index_chain = None, fb_data = d\<rparr>"
  have u: "update_node L (of_head_slot fo) (File ?fb) s = (Ok (), s')"
  proof -
    have "write_head L fh n fo s = eio (update_node L (of_head_slot fo) (File ?fb)) (upd_file fh (\<lambda>fo. fo\<lparr>of_index_chain := None\<rparr>) s)"
      using few d(1) cs S(6) by (simp add: write_head_def free_index_chain_def chain_fuel_def)
    with run show ?thesis unfolding same by simp
  qed
  note v = heap.live_valid [OF S(2)]
  note w = heap.frame_wr [OF S(1) v u]
  show "heap.frame L {of_head_slot fo} s s'" by (rule w(1))
  show "slot_store.more s' = slot_store.more s" by (rule update_node_more [OF S(1) v u])
  have rd: "fst (read_node L (of_head_slot fo) s') = Ok (File ?fb)"
    by (rule nodes.read_same [OF S(1) v _ u]) (simp add: any_node_def)
  have l0: "load_chunk L fo 0 s' = Ok d" using rd D(1) by (simp add: load_chunk_def fetch_def)
  have other: "load_chunk L fo ci s' = load_chunk L fo ci s" if "0 < ci" for ci
  proof -
    have "fetch L i s' = fetch L i s" if "nth_opt ci (of_slot_map fo) = Some (Some i)" for i
      using heap.frame_read [OF w(1) slot_of_chunk(2) [OF F(3) that]] slot_of_chunk(3) [OF F(3) that] by (simp add: fetch_def)
    then show ?thesis using that by (simp add: load_chunk_def split: option.splits)
  qed
  have cached: "load_chunk L fo ci s' = Ok x" if "of_cache fo ci = Some x" for ci x
    using that d(2) l0 other [of ci] stored by (cases "ci = 0") (auto simp: view_def all_stored_def)
  have uncached: "load_chunk L fo ci s' = load_chunk L fo ci s" if "of_cache fo ci = None" for ci
    using that d(2) l0 other [of ci] by (cases "ci = 0") (auto simp: view_def)
  have so: "slots_ok L s' fo" using F(3) w(2) heap.frame_inv [OF w(1)] by (simp add: slots_ok_def)
  have hs: "head_saved L s' fo" using rd ids by (simp add: head_saved_def)
  show "file_clean L s' (fo\<lparr>of_dirty := {}, of_meta_dirty := False\<rparr>)"
    "content L s' (fo\<lparr>of_dirty := {}, of_meta_dirty := False\<rparr>) = content L s fo"
    by (rule cleaned_ok [OF F(1) _ _ so hs F(2) refl F(5)]; (rule cached | rule uncached); assumption)+
qed

text \<open>
  All three steps: after a flush that reports success, the file is clean, its content is the
  same, and only its own slots and free ones were touched.
\<close>

definition small_file :: "open_file \<Rightarrow> bool" where
  "small_file fo \<longleftrightarrow> of_total_size fo \<le> 4001 * CHUNK_SIZE"

lemma stored_after_write:
  assumes "file_ok L s fo" "settled L s fo s1 f1" "saved (set cis) L fo s s1 f1" "chunks_ok L s1 f1 (of_total_size fo)"
    and "set cis = {ci \<in> of_dirty fo. 1 \<le> ci}" "of_cache f1 = of_cache fo"
  shows "all_stored L s1 f1"
proof -
  note D = chunks_okD [OF file_okD(1) [OF assms(1)]]
  have load: "load_chunk L f1 ci s1 = Ok d" if c: "of_cache fo ci = Some d" "0 < ci" for ci d
  proof (cases "ci \<in> of_dirty fo")
    case True
    with c assms(3,5) show ?thesis by (auto simp: saved_def)
  next
    case False
    with D(8) [OF c(1)] assms(3,5) c show ?thesis by (auto simp: saved_def)
  qed
  have "\<exists>i. nth_opt ci (of_slot_map f1) = Some (Some i)" if c: "0 < ci" "ci * CHUNK_SIZE < of_total_size fo" for ci
  proof (rule no_hole [OF assms(4) c])
    show "of_cache f1 ci = None \<or> load_chunk L f1 ci s1 = view L s1 f1 ci"
      using load [of ci] c(1) by (cases "of_cache fo ci") (simp_all add: view_def assms(6))
  qed
  with load assms(2,6) show ?thesis by (simp add: all_stored_def settled_def)
qed

lemma all_stored_shortened:
  assumes "all_stored L s fo" "file_ok L s fo" "n = chunk_count (of_total_size fo)"
    and "\<And>ci. ci < max n 1 \<Longrightarrow> load_chunk L (shortened n fo) ci s' = load_chunk L fo ci s"
  shows "all_stored L s' (shortened n fo)"
proof -
  note F = file_okD [OF assms(2)]
  have n: "ci * CHUNK_SIZE < of_total_size fo \<Longrightarrow> ci < max n 1" for ci
    using chunk_count_spec [OF F(5)] assms(3) by (simp add: less_max_iff_disj)
  have f: "of_cache (shortened n fo) = of_cache fo" "of_total_size (shortened n fo) = of_total_size fo"
    by (simp_all add: shortened_def)
  have "ci < max n 1" if "of_cache fo ci = Some d" "0 < ci" for ci d
    using F(2) n [of ci] that by (auto simp: cached_inside_def)
  with assms(1,4) n shortened_load(2) [OF F(1)] show ?thesis by (simp add: all_stored_def f)
qed

text \<open>
  The state in which step 3 starts: the open file \<open>f2\<close> has all its chunks in slots, and
  its slot map ends with its content.
\<close>

definition staged :: "libs \<Rightarrow> 'a venom_fuse_scheme \<Rightarrow> nat \<Rightarrow> open_file \<Rightarrow> 'a venom_fuse_scheme \<Rightarrow> open_file \<Rightarrow> bool" where
  "staged L s fh fo s2 f2 \<longleftrightarrow> fu_open_files s2 = (fu_open_files s)(fh \<mapsto> f2) \<and> fu_inodes s2 = fu_inodes s \<and>
     fu_next_fh s2 = fu_next_fh s \<and> file_ok L s2 f2 \<and> all_stored L s2 f2 \<and> file_content L s2 f2 = file_content L s fo \<and>
     of_total_size f2 = of_total_size fo \<and> of_head_slot f2 = of_head_slot fo \<and>
     length (of_slot_map f2) = max (chunk_count (of_total_size fo)) 1 \<and> (of_meta_dirty fo \<longrightarrow> of_meta_dirty f2) \<and>
     heap.frame L (insert (of_head_slot fo) (set (used_slots_of fo))) s s2"

lemma shortened_length:
  assumes "file_ok L s fo" "n = chunk_count (of_total_size fo)"
  shows "length (of_slot_map (shortened n fo)) = max n 1"
proof -
  note F = file_okD [OF assms(1)]
  have "n \<le> length (of_slot_map fo)"
  proof (cases n)
    case (Suc k)
    then have "k < chunk_count (of_total_size fo)" using assms(2) by simp
    with chunk_count_spec [OF F(5)] have "k * CHUNK_SIZE < of_total_size fo" by blast
    from chunks_okD(10) [OF F(1) this] Suc show ?thesis by simp
  qed simp
  moreover have "0 < length (of_slot_map fo)" by (rule chunks_okD(2) [OF F(1)])
  ultimately show ?thesis
    by (auto simp: shortened_def max_def length_greater_0_conv [symmetric] simp del: length_greater_0_conv)
qed

lemma staged_steps:
  assumes "order_ok L" "fu_open_files s fh = Some fo" "file_ok L s fo"
    and w: "write_chunks L (\<lambda>_ fo. fo) fh (filter (\<lambda>ci. 1 \<le> ci) (hash_order L (of_dirty fo))) s = (Ok (), s1)"
  shows "\<exists>f2. staged L s fh fo (drop_excess L fh (chunk_count (of_total_size fo)) s1) f2"
proof -
  note F = file_okD [OF assms(3)]
  let ?cis = "filter (\<lambda>ci. 1 \<le> ci) (hash_order L (of_dirty fo))"
  have fin: "finite (of_dirty fo)" using chunks_okD(4,5) [OF F(1)] by (meson finite_subset)
  then have cis: "set ?cis = {ci \<in> of_dirty fo. 1 \<le> ci}" using assms(1) by (auto simp: order_ok_def)
  have kd: "keep_or_drop (\<lambda>_ fo. fo)" and pos: "\<forall>ci \<in> set ?cis. 0 < ci" by (auto simp: keep_or_drop_def)
  obtain f1 where f1: "fu_open_files s1 = (fu_open_files s)(fh \<mapsto> f1)" "fu_inodes s1 = fu_inodes s" "fu_next_fh s1 = fu_next_fh s"
    "chunks_ok L s1 f1 (of_total_size fo)" "slots_ok L s1 f1" "settled L s fo s1 f1" "saved (set ?cis) L fo s s1 f1"
    "of_cache f1 = of_cache fo \<and> of_dirty f1 = of_dirty fo"
    by (rule write_chunks_spec [OF kd assms(2) F(1,3) pos w]) (rule that, assumption+, simp)
  note ok1 = settled_ok [OF assms(3) f1(6,4,5)]
  have st1: "all_stored L s1 f1" by (rule stored_after_write [OF assms(3) f1(6,7,4) cis]) (simp add: f1(8))
  have opn1: "fu_open_files s1 fh = Some f1" using f1(1) by simp
  define n where "n = chunk_count (of_total_size fo)"
  have n1: "n = chunk_count (of_total_size f1)" using ok1(2) by (simp add: n_def)
  let ?s2 = "drop_excess L fh n s1" and ?f2 = "shortened n f1"
  note dx = drop_excess_spec [OF ok1(1) opn1 n1 refl]
  have st2: "all_stored L ?s2 ?f2" by (rule all_stored_shortened [OF st1 ok1(1) n1 dx(7)])
  have f2: "of_total_size ?f2 = of_total_size fo" "of_head_slot ?f2 = of_head_slot fo" "of_meta_dirty fo \<Longrightarrow> of_meta_dirty ?f2"
    using ok1(2) f1(6) by (auto simp: shortened_def settled_def)
  have a: "heap.frame L (set (used_slots_of fo)) s s1" "set (used_slots_of f1) \<subseteq> set (used_slots_of fo) \<union> free_set s"
    using f1(6) by (simp_all add: settled_def)
  have fr: "heap.frame L (insert (of_head_slot fo) (set (used_slots_of fo))) s ?s2"
    by (rule heap.frame_avail [OF heap.frame_trans [OF a(1) dx(6)]]) (use a(2) in auto)
  have "staged L s fh fo ?s2 ?f2"
    unfolding staged_def n_def [symmetric]
    using dx(1-5) f1(1-3) st2 f2 fr shortened_length [OF ok1(1) n1] ok1(2,3) by (auto simp: fun_eq_iff)
  then show ?thesis unfolding n_def by blast
qed

lemma flush_staged:
  assumes "order_ok L" "fu_open_files s fh = Some fo" "file_ok L s fo" "flush_fh L fh s = (Ok (), s')"
  obtains "of_dirty fo = {}" "\<not> of_meta_dirty fo" "s' = s"
  | s2 f2 s3 where "staged L s fh fo s2 f2" "s' = upd_file fh (\<lambda>fo. fo\<lparr>of_dirty := {}, of_meta_dirty := False\<rparr>) s3"
    "(if of_meta_dirty f2 \<or> 0 \<in> of_dirty f2 then write_head L fh (chunk_count (of_total_size fo)) f2 else return_op (Ok ())) s2 = (Ok (), s3)"
proof (cases "of_dirty fo = {} \<and> \<not> of_meta_dirty fo")
  case True
  with assms have "s' = s" by (simp add: flush_fh_def)
  with True show thesis using that(1) by blast
next
  case False
  let ?cis = "filter (\<lambda>ci. 1 \<le> ci) (hash_order L (of_dirty fo))" and ?n = "chunk_count (of_total_size fo)"
  let ?rest = "\<lambda>s. let s = drop_excess L fh ?n s; fo = the (fu_open_files s fh)
    in then_op (if of_meta_dirty fo \<or> 0 \<in> of_dirty fo then write_head L fh ?n fo else return_op (Ok ()))
         (\<lambda>_ s. (Ok (), upd_file fh (\<lambda>fo. fo\<lparr>of_dirty := {}, of_meta_dirty := False\<rparr>) s)) s"
  have "flush_fh L fh s = then_op (write_chunks L (\<lambda>_ fo. fo) fh ?cis) (\<lambda>_. ?rest) s"
    by (simp only: flush_fh_def assms(2) option.case False if_False Let_def)
  with assms(4) have "then_op (write_chunks L (\<lambda>_ fo. fo) fh ?cis) (\<lambda>_. ?rest) s = (Ok (), s')" by (simp only:)
  then obtain u s1 where wu: "write_chunks L (\<lambda>_ fo. fo) fh ?cis s = (Ok u, s1)" and rest: "?rest s1 = (Ok (), s')"
    by (simp only: then_op_eq_Ok) blast
  then obtain f2 where st: "staged L s fh fo (drop_excess L fh ?n s1) f2" using staged_steps [OF assms(1-3)] by auto
  then have "fu_open_files (drop_excess L fh ?n s1) fh = Some f2" by (simp add: staged_def)
  with rest have "then_op (if of_meta_dirty f2 \<or> 0 \<in> of_dirty f2 then write_head L fh ?n f2 else return_op (Ok ()))
      (\<lambda>_ s. (Ok (), upd_file fh (\<lambda>fo. fo\<lparr>of_dirty := {}, of_meta_dirty := False\<rparr>) s)) (drop_excess L fh ?n s1) = (Ok (), s')"
    by (simp only: Let_def option.sel)
  then obtain u s3 where h: "(if of_meta_dirty f2 \<or> 0 \<in> of_dirty f2 then write_head L fh ?n f2 else return_op (Ok ()))
      (drop_excess L fh ?n s1) = (Ok u, s3)" and s': "s' = upd_file fh (\<lambda>fo. fo\<lparr>of_dirty := {}, of_meta_dirty := False\<rparr>) s3"
    by (simp only: then_op_eq_Ok prod.inject) blast
  from h show thesis by (intro that(2) [OF st s']) simp
qed

lemma head_written:
  assumes st: "staged L s fh fo s2 f2" and small: "small_file fo"
    and run: "(if of_meta_dirty f2 \<or> 0 \<in> of_dirty f2 then write_head L fh (chunk_count (of_total_size fo)) f2
      else return_op (Ok ())) s2 = (Ok (), s3)"
  shows "file_clean L s3 (f2\<lparr>of_dirty := {}, of_meta_dirty := False\<rparr>)"
    "content L s3 (f2\<lparr>of_dirty := {}, of_meta_dirty := False\<rparr>) = content L s2 f2"
    "heap.frame L {of_head_slot fo} s2 s3" "slot_store.more s3 = slot_store.more s2"
proof -
  let ?clean = "f2\<lparr>of_dirty := {}, of_meta_dirty := False\<rparr>"
  have S: "file_ok L s2 f2" "all_stored L s2 f2" "of_total_size f2 = of_total_size fo" "of_head_slot f2 = of_head_slot fo"
    "length (of_slot_map f2) = max (chunk_count (of_total_size fo)) 1" "fu_open_files s2 fh = Some f2"
    using st by (simp_all add: staged_def)
  note F = file_okD [OF S(1)]
  have *: "file_clean L s3 ?clean \<and> content L s3 ?clean = content L s2 f2 \<and> heap.frame L {of_head_slot fo} s2 s3 \<and>
    slot_store.more s3 = slot_store.more s2"
  proof (cases "of_meta_dirty f2 \<or> 0 \<in> of_dirty f2")
    case True
    with run have h: "write_head L fh (chunk_count (of_total_size fo)) f2 s2 = (Ok (), s3)" by simp
    have sm: "of_total_size f2 \<le> 4001 * CHUNK_SIZE" using small by (simp add: S(3) small_file_def)
    from write_head_spec [OF S(1,2,6) arg_cong [OF S(3) [symmetric], of chunk_count] S(5) sm h] show ?thesis by (simp add: S(4))
  next
    case False
    with run have s3: "s3 = s2" by simp
    have l: "load_chunk L f2 ci s2 = Ok d" if "of_cache f2 ci = Some d" for ci d
    proof (cases "ci = 0")
      case True
      with chunks_okD(8) [OF F(1) that] False show ?thesis by simp
    next
      case False
      with S(2) that show ?thesis by (simp add: all_stored_def)
    qed
    have hs: "head_saved L s2 f2" using F(4) False by blast
    have "file_clean L s2 ?clean" "content L s2 ?clean = content L s2 f2"
      by (rule cleaned_ok [OF F(1) _ _ F(3) hs F(2) refl F(5)]; (erule l | rule refl))+
    with s3 heap.frame_refl [OF slots_okD(1) [OF F(3)]] show ?thesis by blast
  qed
  then show "file_clean L s3 ?clean" "content L s3 ?clean = content L s2 f2" "heap.frame L {of_head_slot fo} s2 s3"
    "slot_store.more s3 = slot_store.more s2"
    by blast+
qed

lemma flush_spec:
  assumes "order_ok L" "fu_open_files s fh = Some fo" "file_ok L s fo" "small_file fo" "flush_fh L fh s = (Ok (), s')"
  obtains fo' where "fu_open_files s' = (fu_open_files s)(fh \<mapsto> fo')" "fu_inodes s' = fu_inodes s" "fu_next_fh s' = fu_next_fh s"
    "file_clean L s' fo'" "file_content L s' fo' = file_content L s fo" "of_total_size fo' = of_total_size fo"
    "of_head_slot fo' = of_head_slot fo" "heap.frame L (insert (of_head_slot fo) (set (used_slots_of fo))) s s'"
  using assms(1-3,5)
proof (cases rule: flush_staged)
  case 1
  with assms have "s' = s" "file_clean L s fo" by (simp_all add: file_clean_def)
  with assms(2) slots_okD(1) [OF file_okD(3) [OF assms(3)]] show thesis
    by (intro that [of fo]) (simp_all add: fun_upd_idem heap.frame_refl)
next
  case (2 s2 f2 s3)
  let ?f = "f2\<lparr>of_dirty := {}, of_meta_dirty := False\<rparr>"
  note hw = head_written [OF 2(1) assms(4) 2(3)]
  have S: "fu_open_files s2 = (fu_open_files s)(fh \<mapsto> f2)" "fu_inodes s2 = fu_inodes s" "fu_next_fh s2 = fu_next_fh s"
    "file_content L s2 f2 = file_content L s fo" "of_total_size f2 = of_total_size fo" "of_head_slot f2 = of_head_slot fo"
    "heap.frame L (insert (of_head_slot fo) (set (used_slots_of fo))) s s2"
    using 2(1) unfolding staged_def by blast+
  note mf = more_fields [OF hw(4)]
  have s': "s' = put_file fh ?f s3" using 2(2) S(1) mf by (simp add: upd_put)
  have sh: "same_heap s3 s'" by (simp add: s')
  have fr: "heap.frame L {of_head_slot fo} s2 s'"
    by (rule heap.frame_same [OF hw(3) same_heap_frame [OF heap.frame_inv [OF hw(3)] sh]])
  show thesis
  proof (rule that)
    show "fu_open_files s' = (fu_open_files s)(fh \<mapsto> ?f)" "fu_inodes s' = fu_inodes s" "fu_next_fh s' = fu_next_fh s"
      using mf S(1-3) by (auto simp: s' put_file_def fun_eq_iff)
    show "file_clean L s' ?f" using hw(1) by (simp add: file_clean_def file_ok_same_heap [OF sh])
    show "file_content L s' ?f = file_content L s fo" using hw(2) S(4,5) by (simp add: content_same_heap [OF sh])
    show "of_total_size ?f = of_total_size fo" "of_head_slot ?f = of_head_slot fo" using S by simp_all
    show "heap.frame L (insert (of_head_slot fo) (set (used_slots_of fo))) s s'"
      using heap.frame_trans [OF S(7) fr] by (simp add: insert_absorb)
  qed
qed

section \<open>Files too large for their head node\<close>

text \<open>
  What MessagePack documents: the bytes of a node are in its encoding, and every slot number
  takes at least one byte.
\<close>

definition msgpack_dense :: "libs \<Rightarrow> bool" where
  "msgpack_dense L \<longleftrightarrow> (\<forall>fb b. msgpack_enc L (File fb) = Some b \<longrightarrow> length (fb_data fb) + length (fb_data_slots fb) \<le> length b)"

lemma update_node_too_large:
  assumes "node_inv L s" "in_volume s i" "msgpack_dense L" "SLOT_SIZE \<le> length (fb_data fb) + length (fb_data_slots fb)"
  shows "update_node L i (File fb) s \<noteq> (Ok (), s')"
proof
  assume u: "update_node L i (File fb) s = (Ok (), s')"
  from u show False
  proof (cases rule: update_node_cases)
    case (2 b)
    have v: "volume_ok s" "i < slot_limit s" using assms(1,2) by (simp_all add: node_inv_def store_inv_def in_volume_def)
    have "length (fb_data fb) + length (fb_data_slots fb) \<le> length b" using assms(3) 2 by (auto simp: msgpack_dense_def)
    with assms(4) have big: "SLOT_SIZE \<le> length b" by simp
    obtain enc where e: "encrypt_block L (derive_slot_key L i s) (store_cipher s) (to_le 8 i) b s =
        (Ok enc, s\<lparr>sys_rng := sys_rng s + nonce_section_len (store_cipher s)\<rparr>)" "length enc + 4 \<le> SLOT_SIZE"
      by (rule store_write_Ok [OF v 2(2)])
    from encrypt_block_length [OF _ e(1)] assms(1) have "length enc = vnmb_overhead (store_cipher s) + length b"
      by (simp add: node_inv_def)
    with big e(2) show False by simp
  qed simp_all
qed

lemma write_head_too_large:
  assumes "staged L s fh fo s2 f2" "msgpack_dense L" "2769 * CHUNK_SIZE \<le> of_total_size fo"
  shows "write_head L fh (chunk_count (of_total_size fo)) f2 s2 \<noteq> (Ok (), s3)"
proof
  assume run: "write_head L fh (chunk_count (of_total_size fo)) f2 s2 = (Ok (), s3)"
  have S: "file_ok L s2 f2" "all_stored L s2 f2" "of_total_size f2 = of_total_size fo"
    "length (of_slot_map f2) = max (chunk_count (of_total_size f2)) 1"
    using assms(1) by (simp_all add: staged_def)
  note F = file_okD [OF S(1)]
  note SO = slots_okD [OF F(3)]
  obtain ids where ids: "of_slot_map f2 = None # map Some ids" by (rule full_slot_map [OF F(1,5) S(2,4)])
  have "2768 * CHUNK_SIZE < of_total_size f2" using assms(3) by (simp add: S(3) CHUNK_SIZE_def)
  then have n: "2768 < chunk_count (of_total_size f2)" using chunk_count_spec [OF F(5)] by blast
  then have len: "2768 \<le> length ids" using S(4) ids by simp
  obtain d where d: "head_data L f2 s2 = Ok d" "length d = min CHUNK_SIZE (of_total_size f2)" using head_data_ok [OF F(1)] by blast
  then have dl: "length d = CHUNK_SIZE" using assms(3) S(3) by simp
  have cs: "continuation_slots (chunk_count (of_total_size fo)) (of_slot_map f2) = Ok ids"
    using S(3,4) ids n by (simp add: continuation_slots_def subrange_def)
  let ?fb = "\<lambda>slots chain. \<lparr>fb_kind = KFile, fb_total_size = of_total_size f2, fb_data_slots = slots, fb_index_chain = chain, fb_data = d\<rparr>"
  let ?put = "\<lambda>chain. upd_file fh (\<lambda>fo. fo\<lparr>of_index_chain := chain\<rparr>)"
  have no: False
    if "update_node L (of_head_slot f2) (File (?fb slots chain)) (?put chain s4) = (Ok (), s3)"
      "heap.frame L {} s2 s4" "2768 \<le> length slots" for slots chain s4
  proof -
    have sh: "same_heap s4 (?put chain s4)" by simp
    have "of_head_slot f2 \<in> heap.live s4" using heap.frame_live [OF that(2) SO(2)] by simp
    then have "in_volume (?put chain s4) (of_head_slot f2)" by (simp add: same_heap_heap(2) [OF sh] heap.live_valid)
    moreover have "node_inv L (?put chain s4)" using heap.frame_inv [OF that(2)] by (simp add: same_heap_heap(1) [OF sh])
    moreover have "SLOT_SIZE \<le> length d + length slots" using dl that(3) by (simp add: SLOT_SIZE_def CHUNK_SIZE_def)
    ultimately show False using update_node_too_large [of L "?put chain s4" "of_head_slot f2" "?fb slots chain" s3] assms(2) that(1) by simp
  qed
  show False
  proof (cases "length ids \<le> MAX_DIRECT_SLOTS")
    case True
    with run d(1) cs SO(6) have "update_node L (of_head_slot f2) (File (?fb ids None)) (?put None s2) = (Ok (), s3)"
      by (simp add: write_head_def free_index_chain_def chain_fuel_def)
    from no [OF this heap.frame_refl [OF SO(1)] len] show False .
  next
    case False
    with run d(1) cs SO(6) obtain chain s4 where w: "write_index_chain L (drop MAX_DIRECT_SLOTS ids) s2 = (Ok chain, s4)"
      and u: "update_node L (of_head_slot f2) (File (?fb (take MAX_DIRECT_SLOTS ids) chain)) (?put chain s4) = (Ok (), s3)"
      by (auto simp: write_head_def free_index_chain_def chain_fuel_def then_op_eq_Ok)
    have "heap.frame L {} s2 s4" using write_index_chain_spec [OF SO(1) w] by blast
    from no [OF u this] len False show False by simp
  qed
qed

lemma flush_too_large:
  assumes "order_ok L" "fu_open_files s fh = Some fo" "file_ok L s fo" "of_meta_dirty fo" "msgpack_dense L"
    and "2769 * CHUNK_SIZE \<le> of_total_size fo"
  shows "flush_fh L fh s \<noteq> (Ok (), s')"
proof
  assume "flush_fh L fh s = (Ok (), s')"
  with assms(1-3) show False
  proof (cases rule: flush_staged)
    case 1
    with assms(4) show False by simp
  next
    case (2 s2 f2 s3)
    then have "write_head L fh (chunk_count (of_total_size fo)) f2 s2 = (Ok (), s3)" using assms(4) by (simp add: staged_def)
    with write_head_too_large [OF 2(1) assms(5,6), of s3] show False by simp
  qed
qed

end
