(* ===== verification/Fuse_Demo.thy ===== *)
theory Fuse_Demo
  imports Fuse_Sync Container_Properties
begin

text \<open>
  A file system to run the operations of the FUSE adapter on: the twenty-slot container with a
  root directory, a directory in it, and an open file.
\<close>

section \<open>Node writes that succeed\<close>

lemma demo_store_small:
  assumes "node_inv demo_libs s" "in_volume s i" "length (put_node n) \<le> 1000"
  shows "\<exists>s'. store_write demo_libs i (put_node n) s = (Ok (), s')"
proof -
  have "volume_ok s" "i < slot_limit s" using assms(1,2) by (simp_all add: node_inv_def store_inv_def in_volume_def)
  then have "fst (store_write demo_libs i (put_node n) s) = Ok ()"
    using store_write_result [OF demo_laws(1,2), of s i "put_node n"] assms(3) vnmb_overhead_bounds(2) [of "store_cipher s"]
    by (simp add: SLOT_SIZE_def)
  then show ?thesis by (metis prod.collapse)
qed

lemma demo_enc [simp]: "msgpack_enc demo_libs n = Some (put_node n)"
  by (simp add: demo_libs_def)

lemma demo_update:
  assumes "node_inv demo_libs s" "in_volume s i" "length (put_node n) \<le> 1000"
  shows "\<exists>s'. update_node demo_libs i n s = (Ok (), s')"
  using demo_store_small [OF assms] by (simp add: update_node_def)

lemma demo_new:
  assumes "node_inv demo_libs s" "free_set s \<noteq> {}" "length (put_node n) \<le> 1000"
  shows "\<exists>s'. write_node demo_libs n s = (Ok (Min (free_set s)), s')"
proof -
  have "store_inv s" using assms(1) by (simp add: node_inv_def)
  from pool.take_Ok [OF this assms(2)] obtain s1 where a: "alloc s = (Ok (Min (free_set s)), s1)" by blast
  from demo_store_small [OF alloc_reads(1,6) [OF assms(1) a] assms(3)] a show ?thesis by (auto simp: write_node_def)
qed

section \<open>The root directory\<close>

definition no_entries :: directory_block where
  "no_entries = \<lparr>db_kind = KDirectory, db_entries = []\<rparr>"

lemma venom_fuse_new_heap:
  "node_inv L (venom_fuse_new c) = node_inv L c" "free_set (venom_fuse_new c) = free_set c"
  "pool_owned (venom_fuse_new c) = pool_owned c" "fst (read_node L i (venom_fuse_new c)) = fst (read_node L i c)"
proof -
  have f: "sys_file (venom_fuse_new c) = sys_file c" "master_key (venom_fuse_new c) = master_key c"
    "slot_start (venom_fuse_new c) = slot_start c" "slot_limit (venom_fuse_new c) = slot_limit c"
    "alloc_slot (venom_fuse_new c) = alloc_slot c" "free_list (venom_fuse_new c) = free_list c"
    "cached_merkle_root (venom_fuse_new c) = cached_merkle_root c" "generation (venom_fuse_new c) = generation c"
    "store_cipher (venom_fuse_new c) = store_cipher c"
    by (simp_all add: venom_fuse_new_def vnm_container.defs)
  show "node_inv L (venom_fuse_new c) = node_inv L c" by (rule node_inv_cong) (rule f)+
  show "free_set (venom_fuse_new c) = free_set c" "pool_owned (venom_fuse_new c) = pool_owned c"
    by (simp_all add: free_set_def pool_owned_def f)
  show "fst (read_node L i (venom_fuse_new c)) = fst (read_node L i c)" by (rule read_node_cong) (rule f)+
qed

lemma vc_root_slot_more:
  "slot_store.more c' = slot_store.more c \<Longrightarrow> vc_root_slot c' = vc_root_slot (c :: vnm_container)"
  by (cases c; cases c') simp

lemma demo_mounted:
  obtains c where "fuse_ok demo_libs (venom_fuse_new c)" "dir_at demo_libs (venom_fuse_new c) 1 1 no_entries"
    "heap.live (venom_fuse_new c) = {1}" "free_set (venom_fuse_new c) = {2..<20}"
    "fu_open_files (venom_fuse_new c) = Map.empty" "fu_inodes (venom_fuse_new c) = inode_map_new 1"
proof -
  have inv: "node_inv demo_libs demo_cont" using demo_cont_inv by (simp add: node_inv_def)
  have fs: "free_set demo_cont = {1..<20}" using demo_free_set by (simp add: free_set_def)
  have mn: "Min {1..<20::nat} = 1" by (rule Min_eqI) auto
  have "length (put_node empty_dir) \<le> 1000" using demo_small_empty_dir by (auto simp: small_empty_dir_def)
  from demo_new [OF inv _ this] fs mn obtain c where w: "write_node demo_libs empty_dir demo_cont = (Ok 1, c)" by auto
  note wo = write_node_Ok [OF inv w] and m = write_node_more [OF inv w]
  have root: "vc_root_slot c = 1" using vc_root_slot_more [OF m] by simp
  let ?s = "venom_fuse_new c"
  have ino: "fu_inodes ?s = inode_map_new 1" "fu_open_files ?s = Map.empty"
    by (simp_all add: venom_fuse_new_def vnm_container.defs venom_fuse.defs root)
  have fr: "free_set ?s = {2..<20}" using wo fs by (simp add: venom_fuse_new_heap) auto
  have ow: "pool_owned ?s = {1..<20}" using wo by (simp add: venom_fuse_new_heap) (auto simp: pool_owned_def)
  have live: "heap.live ?s = {1}" using fr ow by (auto simp: heap.live_def)
  have ok: "fuse_ok demo_libs ?s" using wo by (simp add: fuse_ok_def venom_fuse_new_heap ino inodes_left_def) (simp add: inode_map_new_def)
  have rd: "fst (read_node demo_libs 1 c) = Ok empty_dir" using wo by blast
  have "dir_at demo_libs ?s 1 1 no_entries"
    using rd live by (simp add: dir_at_def ino venom_fuse_new_heap inode_map_new_def slot_of_def empty_dir_def no_entries_def dir_wf_def)
  with ok live fr ino show thesis by (intro that [of c]) simp_all
qed

lemma demo_fuse:
  obtains s :: venom_fuse where "fuse_ok demo_libs s" "dir_at demo_libs s 1 1 no_entries" "heap.live s = {1}"
    "free_set s = {2..<20}" "fu_open_files s = Map.empty" "fu_inodes s = inode_map_new 1"
  by (rule demo_mounted)

section \<open>Entering and removing\<close>

lemma demo_enter:
  assumes "fuse_ok demo_libs s" "dir_at demo_libs s parent p d" "free_set s \<noteq> {}" "find_entry name d = None"
    and "length (put_node n) \<le> 1000" "e = \<lparr>de_name = name, de_slot = Min (free_set s), de_kind = k\<rparr>"
    and "length (put_node (Directory (push_entry e d))) \<le> 1000"
  obtains s1 s2 where "write_node demo_libs n s = (Ok (Min (free_set s)), s1)" "enter_node demo_libs p e s1 = (Ok (), s2)"
proof -
  have inv: "node_inv demo_libs s" using assms(1) by (simp add: fuse_ok_def)
  have d: "p \<in> heap.live s" "fst (read_node demo_libs p s) = Ok (Directory d)" "dir_wf d" using assms(2) by (simp_all add: dir_at_def)
  obtain s1 where w: "write_node demo_libs n s = (Ok (Min (free_set s)), s1)" using demo_new [OF inv assms(3,5)] by blast
  note fr = heap.frame_new [OF inv w]
  have p1: "p \<in> heap.live s1" using heap.frame_live [OF fr d(1)] by simp
  have rd: "fst (read_node demo_libs p s1) = Ok (Directory d)" using heap.frame_read [OF fr d(1)] d(2) by simp
  obtain s2 where u: "update_node demo_libs p (Directory (push_entry e d)) s1 = (Ok (), s2)"
    using demo_update [OF heap.frame_inv [OF fr] heap.live_valid [OF p1] assms(7)] by blast
  have "\<not> (\<exists>x \<in> set (db_entries d). de_name x = de_name e)"
    using assms(4,6) by (auto simp: find_entry_def find_None_iff)
  with u have "dir_add_entry demo_libs p e s1 = (Ok (), s2)"
    by (simp add: dir_add_entry_def read_dir_Ok [OF rd] push_entry_def)
  then have "enter_node demo_libs p e s1 = (Ok (), s2)" by (simp add: enter_node_def)
  with w show thesis by (rule that)
qed

lemma demo_remove:
  assumes "fuse_ok demo_libs s" "dir_at demo_libs s parent p d" "find_entry name d = Some e"
    and "length (put_node (Directory (cut_entry name d))) \<le> 1000"
  obtains s1 where "dir_remove_entry demo_libs p name s = (Ok (de_slot e), s1)"
proof -
  have inv: "node_inv demo_libs s" using assms(1) by (simp add: fuse_ok_def)
  have d: "p \<in> heap.live s" "fst (read_node demo_libs p s) = Ok (Directory d)" "dir_wf d" using assms(2) by (simp_all add: dir_at_def)
  obtain i where i: "entry_position name d = Some i" "db_entries d ! i = e"
    "d\<lparr>db_entries := vec_remove i (db_entries d)\<rparr> = cut_entry name d"
    by (rule entry_position_Some [OF d(3) assms(3)])
  obtain s1 where "update_node demo_libs p (Directory (cut_entry name d)) s = (Ok (), s1)"
    using demo_update [OF inv heap.live_valid [OF d(1)] assms(4)] by blast
  with i have "dir_remove_entry demo_libs p name s = (Ok (de_slot e), s1)"
    by (simp add: dir_remove_entry_def read_dir_Ok [OF d(2)] Let_def)
  then show thesis by (rule that)
qed

text \<open>The root directory with one entry: a directory, or a file that is open.\<close>

definition demo_entry :: "node_kind \<Rightarrow> dir_entry" where
  "demo_entry k = \<lparr>de_name = ''x'', de_slot = 2, de_kind = k\<rparr>"

lemma demo_entry_fields [simp]: "de_name (demo_entry k) = ''x''" "de_slot (demo_entry k) = 2"
  by (simp_all add: demo_entry_def)

lemma demo_sizes:
  "length (put_node empty_dir) \<le> 1000" "length (put_node empty_file) \<le> 1000" "length (put_node (Directory no_entries)) \<le> 1000"
  "length (put_node (Directory (push_entry (demo_entry k) no_entries))) \<le> 1000"
  by (cases k; simp add: empty_dir_def empty_file_def put_list_def put_nat.simps put_option_def put_bytes_def push_entry_def
      Demo_Libs.put_entry_def put_name_def no_entries_def demo_entry_def)+

lemma demo_made:
  assumes "n = empty_dir \<and> k = KDirectory \<or> n = empty_file \<and> k = KFile"
  obtains s s1 s2 s3 :: venom_fuse and ino where "fuse_ok demo_libs s" "dir_at demo_libs s 1 1 no_entries"
    "write_node demo_libs n s = (Ok 2, s1)" "enter_node demo_libs 1 (demo_entry k) s1 = (Ok (), s2)"
    "assign_ino 2 s2 = (ino, s3)" "entered demo_libs s 1 1 no_entries (demo_entry k) n ino s3" "heap.live s = {1}"
    "fuse_ok demo_libs s3" "fu_open_files s3 = Map.empty"
proof -
  obtain s :: venom_fuse where s: "fuse_ok demo_libs s" "dir_at demo_libs s 1 1 no_entries" "heap.live s = {1}"
    "free_set s = {2..<20}" "fu_open_files s = Map.empty" "fu_inodes s = inode_map_new 1"
    by (rule demo_fuse)
  have mn: "Min {2..<20::nat} = 2" by (rule Min_eqI) auto
  have ne: "free_set s \<noteq> {}" by (simp add: s(4))
  have fe: "find_entry ''x'' no_entries = None" by (simp add: find_entry_def no_entries_def)
  have nl: "length (put_node n) \<le> 1000" using assms demo_sizes(1,2) by auto
  have e: "demo_entry k = \<lparr>de_name = ''x'', de_slot = Min (free_set s), de_kind = k\<rparr>" by (simp add: demo_entry_def s(4) mn)
  obtain s1 s2 where w: "write_node demo_libs n s = (Ok (Min (free_set s)), s1)" "enter_node demo_libs 1 (demo_entry k) s1 = (Ok (), s2)"
    by (rule demo_enter [OF s(1,2) ne fe nl e demo_sizes(4)])
  obtain ino s3 where a: "assign_ino 2 s2 = (ino, s3)" by fastforce
  let ?run = "\<lambda>s. then_op (slot_of_ino 1) (\<lambda>p_slot. then_op (eio (write_node demo_libs n)) (\<lambda>slot.
      then_op (enter_node demo_libs p_slot \<lparr>de_name = ''x'', de_slot = slot, de_kind = k\<rparr>) (\<lambda>_ s.
        let (ino, s) = assign_ino slot s in (Ok (slot, ino), s)))) s"
  have w': "write_node demo_libs n s = (Ok 2, s1)" using w(1) by (simp add: s(4) mn)
  have p1: "slot_of_ino 1 s = (Ok 1, s)" using s(2) by (simp add: dir_at_def slot_of_ino_def)
  have run: "?run s = (Ok (2, ino), s3)"
    using w(2) a p1 w' unfolding demo_entry_def by simp
  from run have "entered demo_libs s 1 1 no_entries (demo_entry k) n ino s3 \<and> fu_open_files s3 = fu_open_files s"
    by (rule enter_step [OF s(1,2)]) (auto simp: demo_entry_def)
  moreover have "fuse_ok demo_libs s3"
  proof -
    have inv: "node_inv demo_libs s" using s(1) by (simp add: fuse_ok_def)
    have d: "1 \<in> heap.live s" "fst (read_node demo_libs 1 s) = Ok (Directory no_entries)" "dir_wf no_entries"
      using s(2) by (simp_all add: dir_at_def)
    have de: "de_slot (demo_entry k) = 2" by simp
    from more_fields [OF enter_new_spec(1) [OF inv d w' w(2) de]] have "fu_inodes s2 = inode_map_new 1" by (simp add: s(6))
    with a have "0 < inodes_left (fu_inodes s3)"
      by (auto simp: assign_ino_def get_or_alloc_def inode_map_new_def inodes_left_def)
    with calculation show ?thesis using heap.frame_inv by (auto simp: fuse_ok_def entered_def)
  qed
  ultimately show thesis using s w' w(2) a by (intro that [of s s1 s2 ino s3]) simp_all
qed

text \<open>An open file of no bytes, and what it is after three bytes were written to it.\<close>

lemma demo_open_file:
  obtains s :: venom_fuse and fh ino where "fuse_ok demo_libs s" "slot_of ino (fu_inodes s) = Some 2"
    "fu_open_files s = [fh \<mapsto> new_open_file ino 2]" "file_clean demo_libs s (new_open_file ino 2)"
proof -
  have "empty_file = empty_dir \<and> KFile = KDirectory \<or> empty_file = empty_file \<and> KFile = KFile" by simp
  then obtain s0 s1 s2 s3 :: venom_fuse and ino where m: "fuse_ok demo_libs s0" "dir_at demo_libs s0 1 1 no_entries"
    "write_node demo_libs empty_file s0 = (Ok 2, s1)" "enter_node demo_libs 1 (demo_entry KFile) s1 = (Ok (), s2)"
    "assign_ino 2 s2 = (ino, s3)" "entered demo_libs s0 1 1 no_entries (demo_entry KFile) empty_file ino s3" "heap.live s0 = {1}"
    "fuse_ok demo_libs s3" "fu_open_files s3 = Map.empty"
    by (rule demo_made)
  let ?f = "new_open_file ino 2" and ?fh = "fu_next_fh s3"
  let ?s = "put_file ?fh ?f (snd (alloc_fh s3))"
  have e: "slot_of ino (fu_inodes s3) = Some 2" "fst (read_node demo_libs 2 s3) = Ok empty_file" "2 \<in> heap.live s3"
    using m(6) by (simp_all add: entered_def)
  have inv: "node_inv demo_libs s3" using m(8) by (simp add: fuse_ok_def)
  have sh: "same_heap s3 ?s" by (simp add: same_heap_def slot_store.truncate_def put_file_def alloc_fh_def)
  have f: "fu_inodes ?s = fu_inodes s3" "fu_open_files ?s = [?fh \<mapsto> ?f]" using m(9) by (simp_all add: alloc_fh_def put_file_def)
  have "fuse_ok demo_libs ?s" using m(8) by (simp only: fuse_ok_def f same_heap_heap(1) [OF sh])
  moreover have "file_clean demo_libs ?s ?f"
    using new_file_ok(1) [OF inv e(3,2)] by (simp add: file_clean_def file_ok_same_heap [OF sh])
  ultimately show thesis using e(1) f by (intro that [of ?s ino ?fh]) simp_all
qed

definition demo_written :: "nat \<Rightarrow> open_file" where
  "demo_written ino = (new_open_file ino 2)\<lparr>of_total_size := 3, of_cache := [0 \<mapsto> [1, 2, 3]], of_dirty := {0}, of_meta_dirty := True\<rparr>"

lemma demo_write_bytes:
  assumes "fu_open_files s fh = Some (new_open_file ino 2)" "file_clean demo_libs s (new_open_file ino 2)"
  shows "write_loop demo_libs fh 0 [1, 2, 3] 3 0 s = (Ok (), put_file fh (demo_written ino) s)"
proof -
  have "load_chunk demo_libs (new_open_file ino 2) 0 s = Ok []"
    using clean_view [OF assms(2), of 0] chunks_okD(12) [of demo_libs s "new_open_file ino 2" 0] assms(2)
    by (auto simp: file_clean_def file_ok_def new_open_file_def)
  then have "chunk_for_write demo_libs (new_open_file ino 2) 0 s = Ok ((new_open_file ino 2)\<lparr>of_cache := [0 \<mapsto> []]\<rparr>)"
    by (simp add: chunk_for_write_def ensure_cached_def cache_insert_def evict_def) (simp add: new_open_file_def)
  moreover have "grow_map 0 (new_open_file ino 2) = new_open_file ino 2" by (simp add: grow_map_def new_open_file_def)
  moreover have "patch_chunk 0 0 [1, 2, 3] [] 3 ((new_open_file ino 2)\<lparr>of_cache := [0 \<mapsto> []]\<rparr>) = demo_written ino"
    by (simp add: patch_chunk_def demo_written_def new_open_file_def blit_def numeral_3_eq_3)
  ultimately show ?thesis
    using assms(1) by (subst write_loop.simps) (simp add: Let_def write_loop.simps [of _ _ _ _ 3 3] CHUNK_SIZE_def subrange_def)
qed

end
