(* ===== verification/Fuse_Properties.thy ===== *)
theory Fuse_Properties
  imports Fuse_Demo
begin

text \<open>
  The properties of the file system operations of fs/fuse.rs: directories are finite maps from
  names to nodes, files are byte sequences, and a flush brings a file to disk as the next open
  finds it. The instances run on the twenty-slot container with a root directory.
\<close>

section \<open>Directories\<close>

text \<open>C23: Making a directory, when it succeeds, leaves the parent with exactly one more name, which leads to a
new empty directory under its inode; every name led elsewhere before still does, and only the
parent and one slot that was free are touched. A failure changes no live node and no inode.\<close>

theorem mkdir_then_lookup:
  assumes "fuse_ok L s" "dir_at L s parent p d" "op_mkdir L parent name s = (r, s')"
  shows "case r of
      Ok (ino, node) \<Rightarrow> find_entry name d = None \<and> node = empty_dir \<and>
        op_lookup L parent name s' = (Ok (ino, empty_dir), s') \<and> heap.frame L {p} s s' \<and>
        (\<exists>e. de_name e = name \<and> de_slot e \<notin> heap.live s \<and> heap.live s' = insert (de_slot e) (heap.live s) \<and>
           dir_at L s' parent p (push_entry e d) \<and> (\<forall>m. m \<noteq> name \<longrightarrow> find_entry m (push_entry e d) = find_entry m d))
    | _ \<Rightarrow> heap.frame L {} s s' \<and> fu_inodes s' = fu_inodes s"
proof -
  have run': "then_op (slot_of_ino parent) (\<lambda>p_slot. then_op (eio (write_node L empty_dir)) (\<lambda>slot.
      then_op (enter_node L p_slot \<lparr>de_name = name, de_slot = slot, de_kind = KDirectory\<rparr>) (\<lambda>_ s.
        let (ino, s) = assign_ino slot s in (Ok (ino, empty_dir), s)))) s = (r, s')"
    using assms(3) by (simp add: op_mkdir_def empty_dir_def Let_def)
  show ?thesis
  proof (rule enter_step [OF assms(1,2) run'], goal_cases)
    case (1 slot ino s2)
    then have r: "r = Ok (ino, empty_dir)" "s2 = s'" by simp_all
    note el = entered_lookup [OF 1(1)]
    show ?case
      unfolding r(1) outcome.case prod.case
      using 1(1) r(2) el
      by (intro conjI exI [of _ "\<lparr>de_name = name, de_slot = slot, de_kind = KDirectory\<rparr>"]) (auto simp: entered_def)
  next
    case 2
    then show ?case by (cases r) auto
  qed
qed

theorem mkdir_then_lookup_witness:
  "\<exists>(s :: venom_fuse) ino s'. op_mkdir demo_libs 1 ''x'' s = (Ok (ino, empty_dir), s') \<and>
    op_lookup demo_libs 1 ''x'' s' = (Ok (ino, empty_dir), s')"
proof -
  have "empty_dir = empty_dir \<and> KDirectory = KDirectory \<or> empty_dir = empty_file \<and> KDirectory = KFile" by simp
  then obtain s s1 s2 s3 :: venom_fuse and ino where m: "fuse_ok demo_libs s" "dir_at demo_libs s 1 1 no_entries"
    "write_node demo_libs empty_dir s = (Ok 2, s1)" "enter_node demo_libs 1 (demo_entry KDirectory) s1 = (Ok (), s2)"
    "assign_ino 2 s2 = (ino, s3)"
    by (rule demo_made)
  have "slot_of_ino 1 s = (Ok 1, s)" using m(2) by (simp add: dir_at_def slot_of_ino_def)
  then have "op_mkdir demo_libs 1 ''x'' s = (Ok (ino, empty_dir), s3)"
    using m(3-5) by (simp add: op_mkdir_def empty_dir_def [symmetric] demo_entry_def)
  with mkdir_then_lookup [OF m(1,2) this] show ?thesis by auto
qed

text \<open>C24: Creating a file, when it succeeds, enters it in the parent under its inode as an empty file, and opens it under
the next handle of the counter: the handle's content is empty, clean and in order, and no other handle's entry changes.
If every open handle lies below the counter, as in a session in which it has not come round (C33), no file was open
under that handle.\<close>

theorem create_opens_empty:
  assumes "fuse_ok L s" "dir_at L s parent p d" "op_create L parent name s = (Ok (ino, fh), s')"
  shows "find_entry name d = None \<and> op_lookup L parent name s' = (Ok (ino, empty_file), s') \<and> heap.frame L {p} s s' \<and>
    fh = fu_next_fh s \<and> (\<exists>fo. fu_open_files s' = (fu_open_files s)(fh \<mapsto> fo) \<and> of_ino fo = ino \<and>
      slot_of ino (fu_inodes s') = Some (of_head_slot fo) \<and> of_head_slot fo \<notin> heap.live s \<and>
      file_clean L s' fo \<and> of_total_size fo = 0 \<and> file_content L s' fo = []) \<and>
    ((\<forall>k \<in> dom (fu_open_files s). k < fu_next_fh s) \<longrightarrow> fu_open_files s fh = None)"
proof (rule op_create_Ok [OF assms], goal_cases)
  case (1 slot)
  let ?f = "new_open_file ino slot"
  have "node_inv L s'" "slot \<in> heap.live s'" using 1(4,5) heap.frame_inv by auto
  then have "file_clean L s' ?f" "file_content L s' ?f = []" using new_file_ok [of L s' slot ino] 1(7) by simp_all
  moreover have "of_total_size ?f = 0" "of_ino ?f = ino" "of_head_slot ?f = slot" by (simp_all add: new_open_file_def)
  moreover have "fu_open_files s fh = None" if "\<forall>k \<in> dom (fu_open_files s). k < fu_next_fh s"
    using that 1(10) by (cases "fu_open_files s fh") auto
  ultimately show ?case
    using 1(1,3,5,9-12) by (intro conjI exI [of _ ?f] impI) simp_all
qed

theorem create_opens_empty_witness:
  "\<exists>(s :: venom_fuse) ino fh s'. op_create demo_libs 1 ''x'' s = (Ok (ino, fh), s') \<and>
    op_lookup demo_libs 1 ''x'' s' = (Ok (ino, empty_file), s')"
proof -
  have "empty_file = empty_dir \<and> KFile = KDirectory \<or> empty_file = empty_file \<and> KFile = KFile" by simp
  then obtain s s1 s2 s3 :: venom_fuse and ino where m: "fuse_ok demo_libs s" "dir_at demo_libs s 1 1 no_entries"
    "write_node demo_libs empty_file s = (Ok 2, s1)" "enter_node demo_libs 1 (demo_entry KFile) s1 = (Ok (), s2)"
    "assign_ino 2 s2 = (ino, s3)"
    by (rule demo_made)
  have "slot_of_ino 1 s = (Ok 1, s)" using m(2) by (simp add: dir_at_def slot_of_ino_def)
  then obtain fh s' where "op_create demo_libs 1 ''x'' s = (Ok (ino, fh), s')"
    using m(3-5) by (simp add: op_create_def empty_file_def [symmetric] demo_entry_def Let_def split_beta)
  with create_opens_empty [OF m(1,2) this] show ?thesis by blast
qed

text \<open>C26: Removing a directory refuses an entry that is not one (ENOTDIR) and one that has entries (ENOTEMPTY),
leaving the state as it was; when it removes one, the name leads nowhere any more, its slot is free
again, its inode is forgotten, and every other slot, name and inode is as before.\<close>

theorem rmdir_correct:
  assumes "fuse_ok L s" "dir_at L s parent p d" "find_entry name d = Some e" "de_slot e \<in> heap.live s - {p}"
    and "fst (read_node L (de_slot e) s) = Ok node" "op_rmdir L parent name s = (r, s')"
  shows "case node of
      Directory t \<Rightarrow> (if db_entries t \<noteq> [] then r = Err ENOTEMPTY \<and> s' = s
        else r = Ok () \<longrightarrow> dir_at L s' parent p (cut_entry name d) \<and> op_lookup L parent name s' = (Err ENOENT, s') \<and>
          heap.frame L {p, de_slot e} s s' \<and> heap.live s' = heap.live s - {de_slot e} \<and>
          (\<forall>i. slot_of i (fu_inodes s') = (if slot_of i (fu_inodes s) = Some (de_slot e) then None else slot_of i (fu_inodes s))))
    | _ \<Rightarrow> r = Err ENOTDIR \<and> s' = s"
proof (cases "\<exists>t. node = Directory t")
  case False
  then have "op_rmdir L parent name s = (Err ENOTDIR, s)" by (intro op_rmdir_refused(2) [OF assms(2,3,5)]) blast
  with False assms(6) show ?thesis by (cases node) auto
next
  case True
  then obtain t where node: "node = Directory t" ..
  show ?thesis
  proof (cases "db_entries t = []")
    case False
    from op_rmdir_refused(3) [OF assms(2,3) assms(5) [unfolded node] False] assms(6) False show ?thesis by (simp add: node)
  next
    case True
    show ?thesis
    proof (cases "r = Ok ()")
      case False
      with True show ?thesis by (simp add: node)
    next
      case ok: True
      note rm = op_rmdir_Ok [OF assms(1-4) assms(6) [unfolded ok]]
      have "find_entry name (cut_entry name d) = None"
        using dirs.cut_spec [of d name name] assms(2) by (simp add: dir_at_def)
      then have "op_lookup L parent name s' = (Err ENOENT, s')" by (rule op_lookup_missing [OF rm(4)])
      with rm True show ?thesis by (simp add: node)
    qed
  qed
qed

lemma cut_demo: "cut_entry ''x'' (push_entry (demo_entry k) no_entries) = no_entries"
  by (simp add: cut_entry_def push_entry_def no_entries_def demo_entry_def)

lemma find_demo: "find_entry ''x'' (push_entry (demo_entry k) no_entries) = Some (demo_entry k)"
  by (simp add: find_entry_def push_entry_def no_entries_def demo_entry_def)

text \<open>A directory or a file made in the root, and the removal of its entry.\<close>

lemma demo_entry_removed:
  assumes "n = empty_dir \<and> k = KDirectory \<or> n = empty_file \<and> k = KFile"
  obtains s s1 :: venom_fuse where "fuse_ok demo_libs s" "dir_at demo_libs s 1 1 (push_entry (demo_entry k) no_entries)"
    "heap.live s = {1, 2}" "fst (read_node demo_libs 2 s) = Ok n" "dir_remove_entry demo_libs 1 ''x'' s = (Ok 2, s1)"
proof -
  from assms obtain s0 s1 s2 s :: venom_fuse and ino where m: "fuse_ok demo_libs s0" "dir_at demo_libs s0 1 1 no_entries"
    "write_node demo_libs n s0 = (Ok 2, s1)" "enter_node demo_libs 1 (demo_entry k) s1 = (Ok (), s2)"
    "assign_ino 2 s2 = (ino, s)" "entered demo_libs s0 1 1 no_entries (demo_entry k) n ino s" "heap.live s0 = {1}"
    "fuse_ok demo_libs s" "fu_open_files s = Map.empty"
    by (rule demo_made)
  have e: "dir_at demo_libs s 1 1 (push_entry (demo_entry k) no_entries)" "heap.live s = {1, 2}" "fst (read_node demo_libs 2 s) = Ok n"
    using m(6,7) by (auto simp: entered_def)
  obtain t where "dir_remove_entry demo_libs 1 ''x'' s = (Ok (de_slot (demo_entry k)), t)"
    by (rule demo_remove [OF m(8) e(1) find_demo]) (simp_all only: cut_demo demo_sizes)
  with m(8) e show thesis by (intro that [of s t]) simp_all
qed

theorem rmdir_correct_witness:
  "\<exists>s s' :: venom_fuse. op_rmdir demo_libs 1 ''x'' s = (Ok (), s') \<and> heap.live s = {1, 2} \<and> heap.live s' = {1} \<and>
    op_lookup demo_libs 1 ''x'' s' = (Err ENOENT, s')"
proof -
  have "empty_dir = empty_dir \<and> KDirectory = KDirectory \<or> empty_dir = empty_file \<and> KDirectory = KFile" by simp
  then obtain s s1 :: venom_fuse where m: "fuse_ok demo_libs s" "dir_at demo_libs s 1 1 (push_entry (demo_entry KDirectory) no_entries)"
    "heap.live s = {1, 2}" "fst (read_node demo_libs 2 s) = Ok empty_dir" "dir_remove_entry demo_libs 1 ''x'' s = (Ok 2, s1)"
    by (rule demo_entry_removed)
  have "slot_of_ino 1 s = (Ok 1, s)" "read_dir_block demo_libs 1 s = (Ok (push_entry (demo_entry KDirectory) no_entries), s)"
    "read_dir_block demo_libs 2 s = (Ok no_entries, s)"
    using m(2,4) by (simp_all add: dir_at_def slot_of_ino_def read_dir_block_def empty_dir_def no_entries_def)
  then obtain s' where r: "op_rmdir demo_libs 1 ''x'' s = (Ok (), s')"
    using m(5) find_demo by (simp add: op_rmdir_def) (simp add: no_entries_def)
  from rmdir_correct [OF m(1,2) find_demo _ _ r, of empty_dir] m(3,4)
  have "heap.live s' = {1} \<and> op_lookup demo_libs 1 ''x'' s' = (Err ENOENT, s')" by (auto simp: empty_dir_def)
  with r m(3) show ?thesis by blast
qed

text \<open>C27: Unlinking a file, when it succeeds, frees its head, all its data slots and its index chain, and nothing
else: the name leads nowhere, the inode is forgotten, its open handles are closed, and every other
live slot reads as before.\<close>

theorem unlink_frees_all:
  assumes "fuse_ok L s" "dir_at L s parent p d" "find_entry name d = Some e"
    and "fst (read_node L (de_slot e) s) = Ok (File fb)" "chain_at L s (fb_index_chain fb) is ids"
    and "set (file_slots (de_slot e) fb is) \<subseteq> heap.live s - {p}" "distinct (file_slots (de_slot e) fb is)"
    and "op_unlink L parent name s = (Ok (), s')"
  shows "heap.live s' = heap.live s - set (file_slots (de_slot e) fb is) \<and>
    heap.frame L (insert p (set (file_slots (de_slot e) fb is))) s s' \<and> op_lookup L parent name s' = (Err ENOENT, s') \<and>
    (\<forall>m. m \<noteq> name \<longrightarrow> find_entry m (cut_entry name d) = find_entry m d) \<and> dir_at L s' parent p (cut_entry name d) \<and>
    (\<forall>i. slot_of i (fu_inodes s') = (if slot_of i (fu_inodes s) = Some (de_slot e) then None else slot_of i (fu_inodes s))) \<and>
    (\<forall>fh fo. fu_open_files s' fh = Some fo \<longleftrightarrow> fu_open_files s fh = Some fo \<and> of_head_slot fo \<noteq> de_slot e)"
proof -
  note u = op_unlink_Ok [OF assms]
  have c: "find_entry m (cut_entry name d) = (if m = name then None else find_entry m d)" for m
    using dirs.cut_spec [of d name m] assms(2) by (simp add: dir_at_def)
  then have "op_lookup L parent name s' = (Err ENOENT, s')" by (intro op_lookup_missing [OF u(3)]) simp
  with u c show ?thesis by (auto split: option.splits if_splits)
qed

theorem unlink_frees_all_witness:
  "\<exists>s s' :: venom_fuse. op_unlink demo_libs 1 ''x'' s = (Ok (), s') \<and> heap.live s = {1, 2} \<and> heap.live s' = {1} \<and>
    op_lookup demo_libs 1 ''x'' s' = (Err ENOENT, s')"
proof -
  have "empty_file = empty_dir \<and> KFile = KDirectory \<or> empty_file = empty_file \<and> KFile = KFile" by simp
  then obtain s s1 :: venom_fuse where m: "fuse_ok demo_libs s" "dir_at demo_libs s 1 1 (push_entry (demo_entry KFile) no_entries)"
    "heap.live s = {1, 2}" "fst (read_node demo_libs 2 s) = Ok empty_file" "dir_remove_entry demo_libs 1 ''x'' s = (Ok 2, s1)"
    by (rule demo_entry_removed)
  let ?fb = "\<lparr>fb_kind = KFile, fb_total_size = 0, fb_data_slots = [], fb_index_chain = None, fb_data = []\<rparr>"
  have rd: "fst (read_node demo_libs (de_slot (demo_entry KFile)) s) = Ok (File ?fb)" using m(4) by (simp add: empty_file_def)
  have sp: "slot_of_ino 1 s = (Ok 1, s)" using m(2) by (simp add: dir_at_def slot_of_ino_def)
  note rs = remove_entry_spec [OF m(1,2,5)]
  have "fst (read_node demo_libs 2 s1) = Ok empty_file"
    using rs(5) [of 2] m(3,4) heap.frame_read [of demo_libs "{1}" s s1 2] by auto
  then have "\<exists>s'. op_unlink demo_libs 1 ''x'' s = (Ok (), s')"
    using sp m(5)
    by (simp add: op_unlink_def then_op_def Let_def empty_file_def free_all_def free_index_chain_def
        same_heap_heap(6) [OF same_heap_updates(2)])
  then obtain s' where r: "op_unlink demo_libs 1 ''x'' s = (Ok (), s')" ..
  have ch: "chain_at demo_libs s (fb_index_chain ?fb) [] []" by simp
  have sl: "set (file_slots (de_slot (demo_entry KFile)) ?fb []) \<subseteq> heap.live s - {1}"
    "distinct (file_slots (de_slot (demo_entry KFile)) ?fb [])" "set (file_slots (de_slot (demo_entry KFile)) ?fb []) = {2}"
    using m(3) by (auto simp: file_slots_def)
  from unlink_frees_all [OF m(1,2) find_demo rd ch sl(1,2) r] m(3) sl(3)
  have "heap.live s' = {1} \<and> op_lookup demo_libs 1 ''x'' s' = (Err ENOENT, s')" by auto
  with r m(3) show ?thesis by blast
qed

text \<open>C28: Renaming, where the entry moved and the entry replaced lead to different live nodes, neither of them one of the two
directories, makes, when it succeeds, the new name lead to the node of the old one and the old one lead
nowhere; the entry that had the new name is replaced and its slot freed, with its inode; in the target directory, and in
the source directory where that is another one, every other name leads where it led before; and every other live slot is
as before.\<close>

theorem rename_moves:
  assumes "fuse_ok L s" "dir_at L s parent p d" "find_entry name d = Some e" "de_slot e \<in> heap.live s - {p, np}"
    and "dir_at L s newparent np d2" "np = p \<Longrightarrow> d2 = d" "op_rename L parent name newparent newname s = (Ok (), s')"
    and "dest = (if np = p then cut_entry name d else d2)"
    and "old = (case find_entry newname dest of None \<Rightarrow> {} | Some x \<Rightarrow> {de_slot x})" "old \<subseteq> heap.live s - {p, np, de_slot e}"
  shows "(\<exists>ino node s2. fst (read_node L (de_slot e) s) = Ok node \<and> op_lookup L newparent newname s' = (Ok (ino, node), s2)) \<and>
    (np \<noteq> p \<or> name \<noteq> newname \<longrightarrow> op_lookup L parent name s' = (Err ENOENT, s')) \<and>
    (\<exists>d'. dir_at L s' newparent np d' \<and>
       (\<forall>m. m \<noteq> newname \<longrightarrow> find_entry m d' = (if np = p \<and> m = name then None else find_entry m d2))) \<and>
    (np \<noteq> p \<longrightarrow> (\<exists>d1. dir_at L s' parent p d1 \<and> (\<forall>m. m \<noteq> name \<longrightarrow> find_entry m d1 = find_entry m d))) \<and>
    heap.live s' = heap.live s - old \<and> heap.frame L (insert p (insert np old)) s s' \<and>
    (\<forall>i. slot_of i (fu_inodes s') = (case slot_of i (fu_inodes s) of Some y \<Rightarrow> if y \<in> old then None else Some y | None \<Rightarrow> None))"
proof -
  have ol: "de_slot x \<in> heap.live s - {p, np, de_slot e}" if "find_entry newname (if np = p then cut_entry name d else d2) = Some x" for x
    using assms(8,9,10) that by simp
  note rn = op_rename_Ok [OF assms(1-7) ol, folded assms(8), folded assms(9)]
  obtain node where node: "fst (read_node L (de_slot e) s) = Ok node"
    and dn: "dir_at L s' newparent np (push_entry (moved_entry node newname (de_slot e)) (cut_entry newname dest))"
    using rn(1) by blast
  let ?x = "moved_entry node newname (de_slot e)" and ?c = "cut_entry newname dest"
  have wf: "dir_wf dest" using assms(2,5) dirs.cut_spec [of d name name] by (auto simp: assms(8) dir_at_def)
  have nm: "de_name ?x = newname" "de_slot ?x = de_slot e" by (simp_all add: moved_entry_def)
  have c: "dir_wf ?c" "find_entry m ?c = (if m = newname then None else find_entry m dest)" for m
    using dirs.cut_spec [OF wf, of newname m] by simp_all
  have f: "find_entry m (push_entry ?x ?c) = (if m = newname then Some ?x else find_entry m dest)" for m
    using dirs.push_spec [OF c(1), of ?x m] c(2) nm by simp
  have le: "de_slot e \<notin> insert p (insert np old)" "de_slot e \<in> heap.live s" using assms(4,10) by auto
  have rd: "fst (read_node L (de_slot e) s') = Ok node" using heap.frame_read [OF rn(3) le(2,1)] node by simp
  have look: "\<exists>ino s2. op_lookup L newparent newname s' = (Ok (ino, node), s2)"
    using dn rd f [of newname] nm
    by (simp add: op_lookup_def dir_at_def slot_of_ino_Some read_dir_Ok eio_def split_beta then_op_def)
  have gone: "op_lookup L parent name s' = (Err ENOENT, s')" if "np \<noteq> p \<or> name \<noteq> newname"
  proof (cases "np = p")
    case True
    have "slot_of parent (fu_inodes s) = Some p" "p \<notin> old" using assms(2,10) by (auto simp: dir_at_def)
    then have "slot_of parent (fu_inodes s') = Some p" using rn(6) [of parent] by simp
    with dn True have da: "dir_at L s' parent p (push_entry ?x ?c)" by (simp add: dir_at_def)
    have "find_entry name dest = None"
      using dirs.cut_spec [of d name name] assms(2) True by (simp add: assms(8) dir_at_def)
    then show ?thesis using f [of name] that True by (intro op_lookup_missing [OF da]) simp
  next
    case False
    have "find_entry name (cut_entry name d) = None" using dirs.cut_spec [of d name name] assms(2) by (simp add: dir_at_def)
    moreover have "dir_at L s' parent p (cut_entry name d)" using rn(2) False by blast
    ultimately show ?thesis by (intro op_lookup_missing)
  qed
  have cd: "find_entry m (cut_entry name d) = (if m = name then None else find_entry m d)" for m
    using dirs.cut_spec [of d name m] assms(2) by (simp add: dir_at_def)
  then have fd: "find_entry m dest = (if np = p \<and> m = name then None else find_entry m d2)" for m
    using assms(6) by (simp add: assms(8))
  have target: "\<exists>d'. dir_at L s' newparent np d' \<and>
       (\<forall>m. m \<noteq> newname \<longrightarrow> find_entry m d' = (if np = p \<and> m = name then None else find_entry m d2))"
    using dn f fd by (intro exI [of _ "push_entry ?x ?c"]) simp
  have source: "\<exists>d1. dir_at L s' parent p d1 \<and> (\<forall>m. m \<noteq> name \<longrightarrow> find_entry m d1 = find_entry m d)" if "np \<noteq> p"
    using rn(2) that cd by (intro exI [of _ "cut_entry name d"]) simp
  from look gone node target source rn(3,4,6) show ?thesis by blast
qed

theorem rename_moves_witness:
  "\<exists>(s :: venom_fuse) s' ino s2. op_rename demo_libs 1 ''x'' 1 ''y'' s = (Ok (), s') \<and>
    op_lookup demo_libs 1 ''y'' s' = (Ok (ino, empty_file), s2) \<and> op_lookup demo_libs 1 ''x'' s' = (Err ENOENT, s')"
proof -
  have "empty_file = empty_dir \<and> KFile = KDirectory \<or> empty_file = empty_file \<and> KFile = KFile" by simp
  then obtain s s1 :: venom_fuse where m: "fuse_ok demo_libs s" "dir_at demo_libs s 1 1 (push_entry (demo_entry KFile) no_entries)"
    "heap.live s = {1, 2}" "fst (read_node demo_libs 2 s) = Ok empty_file" "dir_remove_entry demo_libs 1 ''x'' s = (Ok 2, s1)"
    by (rule demo_entry_removed)
  have sp: "slot_of_ino 1 s = (Ok 1, s)" using m(2) by (simp add: dir_at_def slot_of_ino_def)
  note rs = remove_entry_spec [OF m(1,2,5)]
  from rs(5) [of 2] have s1: "heap.frame demo_libs {1} s s1" "dir_at demo_libs s1 1 1 no_entries"
    by (auto simp: cut_demo)
  have "fst (read_node demo_libs 2 s1) = Ok empty_file" using m(3,4) heap.frame_read [OF s1(1), of 2] by auto
  then have r2: "eio (read_node demo_libs 2) s1 = (Ok empty_file, s1)" by (simp add: eio_def)
  have rd: "read_dir_block demo_libs 1 s1 = (Ok no_entries, s1)" using s1(2) by (simp add: dir_at_def read_dir_Ok)
  let ?d = "no_entries\<lparr>db_entries := [\<lparr>de_name = ''y'', de_slot = 2, de_kind = KFile\<rparr>]\<rparr>"
  have "length (put_node (Directory ?d)) \<le> 1000"
    by (simp add: put_list_def put_nat.simps put_bytes_def Demo_Libs.put_entry_def put_name_def no_entries_def)
  moreover have "1 \<in> heap.live s1" using rs(3) m(3) by simp
  ultimately obtain s' where u: "update_node demo_libs 1 (Directory ?d) s1 = (Ok (), s')"
    using demo_update [OF rs(4) heap.live_valid] by blast
  have "op_rename demo_libs 1 ''x'' 1 ''y'' s = (Ok (), s')"
    using sp m(5) r2 rd u by (simp add: op_rename_def empty_file_def entry_position_def no_entries_def Let_def)
  note r = this
  have e: "de_slot (demo_entry KFile) \<in> heap.live s - {1, 1}" by (simp add: m(3))
  have none: "find_entry ''y'' (cut_entry ''x'' (push_entry (demo_entry KFile) no_entries)) = None"
    by (simp add: cut_demo) (simp add: find_entry_def no_entries_def)
  from rename_moves [OF m(1,2) find_demo e m(2) refl r refl refl] none m(4)
  have "\<exists>ino s2. op_lookup demo_libs 1 ''y'' s' = (Ok (ino, empty_file), s2) \<and> op_lookup demo_libs 1 ''x'' s' = (Err ENOENT, s')"
    by auto
  with r show ?thesis by blast
qed

section \<open>File content\<close>

text \<open>C29: Reading from an open file that is in order returns exactly the bytes of its content in the range asked for (which
ends below 2^64), cut at the end of the file, whatever is cached, evicted or dirty, and changes nothing but the cache. In
order is what opening a saved file without an index chain gives, and what writes inside it or at its end keep (C24, C30,
C31): no chunk of the file is missing or too short, and clean cached chunks agree with their slots. Excluded are files
with a hole from a write beyond the end, and files grown by ftruncate, where a read comes back short or fails.\<close>

theorem read_returns_content:
  assumes "order_ok L" "fu_open_files s fh = Some fo" "file_ok L s fo" "offset + sz < 2 ^ 64"
  shows "\<exists>c s'. op_read L fh offset sz s = (Ok (take sz (drop offset (file_content L s fo))), s') \<and>
    s' = put_file fh (fo\<lparr>of_cache := c\<rparr>) s \<and> file_ok L s' (fo\<lparr>of_cache := c\<rparr>) \<and>
    content L s' (fo\<lparr>of_cache := c\<rparr>) = content L s fo"
  by (rule op_read_spec [OF assms]) blast

text \<open>The demonstration file with three bytes in it.\<close>

lemma demo_written_file:
  obtains s :: venom_fuse and fh ino where "fuse_ok demo_libs s" "slot_of ino (fu_inodes s) = Some 2"
    "fu_open_files s fh = Some (demo_written ino)" "file_ok demo_libs s (demo_written ino)"
    "file_content demo_libs s (demo_written ino) = [1, 2, 3]"
proof -
  obtain s :: venom_fuse and fh ino where s: "fuse_ok demo_libs s" "slot_of ino (fu_inodes s) = Some 2"
    "fu_open_files s = [fh \<mapsto> new_open_file ino 2]" "file_clean demo_libs s (new_open_file ino 2)"
    by (rule demo_open_file)
  let ?f = "new_open_file ino 2" and ?s = "put_file fh (demo_written ino) s"
  have opn: "fu_open_files s fh = Some ?f" using s(3) by simp
  have ok: "file_ok demo_libs s ?f" using s(4) by (simp add: file_clean_def)
  obtain fo' where w: "write_loop demo_libs fh 0 [1, 2, 3] (wrap64 (0 + length [1, 2, 3 :: byte])) 0 s = (Ok (), put_file fh fo' s)"
    "file_ok demo_libs (put_file fh fo' s) fo'"
    "file_content demo_libs (put_file fh fo' s) fo' = take 0 (file_content demo_libs s ?f) @ [1, 2, 3] @
       drop (0 + length [1, 2, 3 :: byte]) (file_content demo_libs s ?f)"
    by (rule write_loop_ok [OF demo_order_ok opn ok, of 0 "[1, 2, 3]"]) (simp_all add: new_open_file_def)
  have "wrap64 (0 + length [1, 2, 3 :: byte]) = 3" by (simp add: numeral_3_eq_3)
  with w(1) demo_write_bytes [OF opn s(4)] have "put_file fh fo' s = ?s" by (simp only: prod.inject)
  then have "fu_open_files (put_file fh fo' s) fh = fu_open_files ?s fh" by simp
  then have fo': "fo' = demo_written ino" by simp
  have sh: "same_heap s ?s" by simp
  have "fuse_ok demo_libs ?s" using s(1) by (simp add: fuse_ok_def same_heap_heap(1) [OF sh])
  with w(2,3) fo' s(2) show thesis by (intro that [of ?s ino fh]) (simp_all add: new_open_file_def)
qed

theorem read_returns_content_witness:
  "\<exists>(s :: venom_fuse) fh s'. op_read demo_libs fh 1 5 s = (Ok [2, 3], s')"
proof -
  obtain s :: venom_fuse and fh ino where s: "fuse_ok demo_libs s" "slot_of ino (fu_inodes s) = Some 2"
    "fu_open_files s fh = Some (demo_written ino)" "file_ok demo_libs s (demo_written ino)"
    "file_content demo_libs s (demo_written ino) = [1, 2, 3]"
    by (rule demo_written_file)
  from read_returns_content [OF demo_order_ok s(3,4), of 1 5] s(5) have "\<exists>s'. op_read demo_libs fh 1 5 s = (Ok [2, 3], s')" by auto
  then show ?thesis by blast
qed

text \<open>C30: Writing inside an open file or at its end replaces exactly the bytes of the range and extends the file
when the range ends beyond it; the file stays in order. A write that keeps the file within 129 chunks
always succeeds, since nothing has to go to disk.\<close>

theorem write_replaces_segment:
  assumes "order_ok L" "fu_open_files s fh = Some fo" "file_ok L s fo" "offset \<le> of_total_size fo" "data \<noteq> []"
    and "offset + length data < 2 ^ 63" "op_write L fh offset data s = (r, s')"
  shows "(\<forall>n. r = Ok n \<longrightarrow> n = length data mod 2 ^ 32 \<and> (\<exists>fo'. fu_open_files s' = (fu_open_files s)(fh \<mapsto> fo') \<and> file_ok L s' fo' \<and>
      of_total_size fo' = max (of_total_size fo) (offset + length data) \<and>
      file_content L s' fo' = take offset (file_content L s fo) @ data @ drop (offset + length data) (file_content L s fo))) \<and>
    (max (of_total_size fo) (offset + length data) \<le> 129 * CHUNK_SIZE \<longrightarrow> r = Ok (length data mod 2 ^ 32))"
proof (intro conjI allI impI)
  assume "max (of_total_size fo) (offset + length data) \<le> 129 * CHUNK_SIZE"
  from op_write_small [OF assms(1-5) this] assms(7) show "r = Ok (length data mod 2 ^ 32)" by auto
next
  fix n assume "r = Ok n"
  with assms(7) have run: "op_write L fh offset data s = (Ok n, s')" by simp
  show "n = length data mod 2 ^ 32"
    by (rule op_write_spec [OF assms(1-6) run])
  show "\<exists>fo'. fu_open_files s' = (fu_open_files s)(fh \<mapsto> fo') \<and> file_ok L s' fo' \<and>
      of_total_size fo' = max (of_total_size fo) (offset + length data) \<and>
      file_content L s' fo' = take offset (file_content L s fo) @ data @ drop (offset + length data) (file_content L s fo)"
    by (rule op_write_spec [OF assms(1-6) run]) blast
qed

theorem write_replaces_segment_witness:
  "\<exists>(s :: venom_fuse) fh s' fo'. op_write demo_libs fh 2 [7, 8] s = (Ok 2, s') \<and> fu_open_files s' fh = Some fo' \<and>
    file_content demo_libs s' fo' = [1, 2, 7, 8]"
proof -
  obtain s :: venom_fuse and fh ino where s: "fuse_ok demo_libs s" "slot_of ino (fu_inodes s) = Some 2"
    "fu_open_files s fh = Some (demo_written ino)" "file_ok demo_libs s (demo_written ino)"
    "file_content demo_libs s (demo_written ino) = [1, 2, 3]"
    by (rule demo_written_file)
  obtain r s' where w: "op_write demo_libs fh 2 [7, 8] s = (r, s')" by fastforce
  have t: "of_total_size (demo_written ino) = 3" by (simp add: demo_written_def)
  have h: "2 \<le> of_total_size (demo_written ino)" "[7, 8 :: byte] \<noteq> []" "2 + length [7, 8 :: byte] < 2 ^ 63" by (simp_all add: t)
  note W = write_replaces_segment [OF demo_order_ok s(3,4) h w]
  have "max (of_total_size (demo_written ino)) (2 + length [7, 8 :: byte]) \<le> 129 * CHUNK_SIZE" by (simp add: t CHUNK_SIZE_def)
  with W have r: "r = Ok (length [7, 8 :: byte] mod 2 ^ 32)" by blast
  with W obtain fo' where "fu_open_files s' = (fu_open_files s)(fh \<mapsto> fo')" "file_content demo_libs s' fo' =
      take 2 (file_content demo_libs s (demo_written ino)) @ [7, 8] @ drop (2 + length [7, 8 :: byte]) (file_content demo_libs s (demo_written ino))"
    by blast
  then have "fu_open_files s' fh = Some fo'" "file_content demo_libs s' fo' = [1, 2, 7, 8]" unfolding s(5) by simp_all
  moreover have "op_write demo_libs fh 2 [7, 8] s = (Ok 2, s')" using w r by simp
  ultimately show ?thesis by blast
qed

section \<open>To disk and back\<close>

text \<open>C31: For a file that is in order (C29: no chunk missing or too short, so no hole from a write beyond the end and no
growth by ftruncate) and of up to 4001 chunks, which need no index chain, a flush that reports success leaves the file
clean, its content unchanged and no foreign slot touched; opening the inode again, without any cache, finds the same
content.\<close>

theorem flush_then_open:
  assumes "order_ok L" "fu_open_files s fh = Some fo" "file_ok L s fo" "of_total_size fo \<le> 4001 * CHUNK_SIZE"
    and "slot_of ino (fu_inodes s) = Some (of_head_slot fo)" "flush_fh L fh s = (Ok (), s')"
  shows "(\<exists>fo'. fu_open_files s' = (fu_open_files s)(fh \<mapsto> fo') \<and> file_clean L s' fo' \<and> file_content L s' fo' = file_content L s fo) \<and>
    heap.frame L (insert (of_head_slot fo) (set (used_slots_of fo))) s s' \<and>
    (\<exists>fh2 s2 fo2. op_open L ino s' = (Ok fh2, s2) \<and> fu_open_files s2 fh2 = Some fo2 \<and> file_ok L s2 fo2 \<and>
       of_total_size fo2 = of_total_size fo \<and> file_content L s2 fo2 = file_content L s fo)"
proof -
  have small: "small_file fo" using assms(4) by (simp add: small_file_def)
  obtain fo' where f: "fu_open_files s' = (fu_open_files s)(fh \<mapsto> fo')" "fu_inodes s' = fu_inodes s" "fu_next_fh s' = fu_next_fh s"
    "file_clean L s' fo'" "file_content L s' fo' = file_content L s fo" "of_total_size fo' = of_total_size fo" "of_head_slot fo' = of_head_slot fo"
    "heap.frame L (insert (of_head_slot fo) (set (used_slots_of fo))) s s'"
    by (rule flush_spec [OF assms(1-3) small assms(6)]) (rule that)
  have so: "slot_of ino (fu_inodes s') = Some (of_head_slot fo')" using assms(5) f(2,7) by simp
  have A: "\<exists>fh2 s2 fo2. op_open L ino s' = (Ok fh2, s2) \<and> fu_open_files s2 fh2 = Some fo2 \<and> file_ok L s2 fo2 \<and>
      of_total_size fo2 = of_total_size fo \<and> file_content L s2 fo2 = file_content L s fo"
  proof (rule op_open_clean [OF f(4) so], goal_cases)
    case (1 fo2)
    have o: "fu_open_files (put_file (fu_next_fh s') fo2 (snd (alloc_fh s'))) (fu_next_fh s') = Some fo2" by simp
    have e: "of_total_size fo2 = of_total_size fo"
      "file_content L (put_file (fu_next_fh s') fo2 (snd (alloc_fh s'))) fo2 = file_content L s fo"
      using 1(3,4) f(5,6) by simp_all
    show ?case by (rule exI, rule exI, rule exI, rule conjI [OF 1(1)], rule conjI [OF o], rule conjI [OF 1(2)], rule conjI [OF e])
  qed
  have B: "\<exists>fo'. fu_open_files s' = (fu_open_files s)(fh \<mapsto> fo') \<and> file_clean L s' fo' \<and> file_content L s' fo' = file_content L s fo"
    by (rule exI, rule conjI [OF f(1)], rule conjI [OF f(4,5)])
  show ?thesis by (rule conjI [OF B conjI [OF f(8) A]])
qed

lemma demo_flush_ok:
  assumes "fuse_ok demo_libs s" "fu_open_files s fh = Some (demo_written ino)" "file_ok demo_libs s (demo_written ino)"
  shows "\<exists>s'. flush_fh demo_libs fh s = (Ok (), s')"
proof -
  let ?f = "demo_written ino"
  have f: "of_dirty ?f = {0}" "of_meta_dirty ?f" "of_total_size ?f = 3" "of_cache ?f = [0 \<mapsto> [1, 2, 3]]" "of_slot_map ?f = [None]"
    "of_head_slot ?f = 2" "of_index_chain ?f = None"
    by (simp_all add: demo_written_def new_open_file_def)
  have cc: "chunk_count 3 = 1" by (simp add: chunk_count_def CHUNK_SIZE_def)
  have ord: "hash_order demo_libs {0} = [0]" by (simp add: demo_libs_def)
  have dx: "drop_excess demo_libs fh 1 s = s" using assms(2) by (simp add: drop_excess_def f)
  have hd: "head_data demo_libs ?f s = Ok [1, 2, 3]" by (simp add: head_data_def f chunk_actual_size_def CHUNK_SIZE_def)
  let ?s = "upd_file fh (\<lambda>fo. fo\<lparr>of_index_chain := None\<rparr>) s"
  have sh: "same_heap s ?s" by simp
  have "node_inv demo_libs ?s" "in_volume ?s 2"
    using assms(1) slots_okD(2) [OF file_okD(3) [OF assms(3)]] heap.live_valid
    by (simp_all add: fuse_ok_def same_heap_heap(1,2) [OF sh] f)
  then obtain s' where u: "update_node demo_libs 2 (File \<lparr>fb_kind = KFile, fb_total_size = 3, fb_data_slots = [],
      fb_index_chain = None, fb_data = [1, 2, 3]\<rparr>) ?s = (Ok (), s')"
    using demo_update [of ?s 2 "File \<lparr>fb_kind = KFile, fb_total_size = 3, fb_data_slots = [], fb_index_chain = None, fb_data = [1, 2, 3]\<rparr>"]
    by (auto simp: put_list_def put_nat.simps put_option_def put_bytes_def)
  have "write_head demo_libs fh 1 ?f s = (Ok (), s')"
    using hd u by (simp add: write_head_def continuation_slots_def free_index_chain_def chain_fuel_def f subrange_def)
  then show ?thesis
    using assms(2) by (simp add: flush_fh_def f cc [simplified] ord dx [simplified] Let_def)
qed

theorem flush_then_open_witness:
  "\<exists>(s :: venom_fuse) fh ino s' fh2 s2 fo2. flush_fh demo_libs fh s = (Ok (), s') \<and> op_open demo_libs ino s' = (Ok fh2, s2) \<and>
    fu_open_files s2 fh2 = Some fo2 \<and> file_content demo_libs s2 fo2 = [1, 2, 3]"
proof -
  obtain s :: venom_fuse and fh ino where s: "fuse_ok demo_libs s" "slot_of ino (fu_inodes s) = Some 2"
    "fu_open_files s fh = Some (demo_written ino)" "file_ok demo_libs s (demo_written ino)"
    "file_content demo_libs s (demo_written ino) = [1, 2, 3]"
    by (rule demo_written_file)
  obtain s' where fl: "flush_fh demo_libs fh s = (Ok (), s')" using demo_flush_ok [OF s(1,3,4)] by blast
  have "of_total_size (demo_written ino) \<le> 4001 * CHUNK_SIZE" "slot_of ino (fu_inodes s) = Some (of_head_slot (demo_written ino))"
    using s(2) by (simp_all add: demo_written_def new_open_file_def CHUNK_SIZE_def)
  from flush_then_open [OF demo_order_ok s(3,4) this fl] obtain fh2 s2 fo2 where "op_open demo_libs ino s' = (Ok fh2, s2)"
    "fu_open_files s2 fh2 = Some fo2" "file_content demo_libs s2 fo2 = file_content demo_libs s (demo_written ino)"
    by blast
  moreover from this s(5) have "file_content demo_libs s2 fo2 = [1, 2, 3]" by simp
  ultimately show ?thesis using fl by blast
qed

text \<open>C32: A file that is in order (C29: no chunk missing) and has at least 2769 full chunks cannot be saved once its size or
slots have changed, which is what the metadata flag says: its head node, which carries chunk 0 and the slot numbers, does
not fit a slot (MessagePack takes a byte or more for every number). No flush of it reports success, although the code
means to spill the list only from the 4001st slot on. (Where chunks are missing the list of slots is shorter, and the
flush can succeed.)\<close>

theorem large_file_unsavable:
  assumes "order_ok L" "fu_open_files s fh = Some fo" "file_ok L s fo" "of_meta_dirty fo" "msgpack_dense L"
    and "2769 * CHUNK_SIZE \<le> of_total_size fo"
  shows "flush_fh L fh s \<noteq> (Ok (), s')"
  by (rule flush_too_large [OF assms])

text \<open>A file of that size on the demonstration container, all in the cache.\<close>

definition demo_big :: "nat \<Rightarrow> open_file" where
  "demo_big ino = (new_open_file ino 2)\<lparr>of_total_size := 2769 * CHUNK_SIZE, of_slot_map := replicate 2769 None,
     of_cache := (\<lambda>ci. if ci < 2769 then Some (replicate CHUNK_SIZE 0) else None), of_dirty := {..<2769}, of_meta_dirty := True\<rparr>"

lemma demo_big_ok:
  assumes "file_clean demo_libs s (new_open_file ino 2)"
  shows "file_ok demo_libs s (demo_big ino)"
proof -
  let ?f = "demo_big ino" and ?n = "new_open_file ino 2"
  have f: "of_total_size ?f = 2769 * CHUNK_SIZE" "of_slot_map ?f = replicate 2769 None" "of_dirty ?f = {..<2769}" "of_meta_dirty ?f"
    "of_cache ?f = (\<lambda>ci. if ci < 2769 then Some (replicate CHUNK_SIZE 0) else None)" "of_head_slot ?f = 2" "of_index_chain ?f = None"
    by (simp_all add: demo_big_def new_open_file_def)
  have ok: "file_ok demo_libs s ?n" using assms by (simp add: file_clean_def)
  note C = file_okD(1,3) [OF ok]
  have "load_chunk demo_libs ?f 0 s = load_chunk demo_libs ?n 0 s"
    by (simp add: load_chunk_def f nth_opt_def) (simp add: new_open_file_def)
  with chunks_okD(9) [OF C(1) chunks_okD(2) [OF C(1)]]
  have l0: "\<exists>d. load_chunk demo_libs ?f 0 s = Ok d \<and> length d \<le> CHUNK_SIZE" by simp
  have "load_chunk demo_libs ?f ci s = Ok []" if "0 < ci" "ci < 2769" for ci using that by (simp add: load_chunk_def f nth_opt_def)
  with l0 have l: "\<exists>d. load_chunk demo_libs ?f ci s = Ok d \<and> length d \<le> CHUNK_SIZE" if "ci < 2769" for ci
    using that by (cases "ci = 0") simp_all
  have v: "view demo_libs s ?f ci = Ok (replicate CHUNK_SIZE 0)" if "ci < 2769" for ci using that by (simp add: view_def f)
  have dom: "dom (of_cache ?f) = {..<2769}" by (auto simp: f dom_def)
  have in_n: "ci * CHUNK_SIZE < 2769 * CHUNK_SIZE \<Longrightarrow> ci < 2769" for ci by simp
  have "chunks_ok demo_libs s ?f (2769 * CHUNK_SIZE)"
    unfolding chunks_ok_def dom f(2,3)
    using l v in_n by (simp add: f nth_opt_def split: if_splits)
  moreover have "cached_inside ?f (2769 * CHUNK_SIZE)" by (simp add: cached_inside_def f split: if_splits)
  moreover have "slots_ok demo_libs s ?f"
    using C(2) by (simp add: slots_ok_def used_slots_of_def f) (simp add: new_open_file_def)
  ultimately show ?thesis by (simp add: file_ok_def f(1,4) CHUNK_SIZE_def)
qed

lemma put_nat_nonempty: "1 \<le> length (put_nat n)"
  by (subst put_nat.simps) simp

lemma demo_dense: "msgpack_dense demo_libs"
proof -
  have "length xs \<le> length (put_list put_nat xs)" for xs
  proof -
    have "length xs \<le> length (concat (map put_nat xs))" 
    proof (induction xs)
      case (Cons x xs)
      with put_nat_nonempty [of x] show ?case by simp
    qed simp
    then show ?thesis by (simp add: put_list_def)
  qed
  note pl = this
  show ?thesis
    unfolding msgpack_dense_def
  proof (intro allI impI)
    fix fb b assume "msgpack_enc demo_libs (File fb) = Some b"
    then have "b = put_node (File fb)" by simp
    with pl [of "fb_data_slots fb"] show "length (fb_data fb) + length (fb_data_slots fb) \<le> length b"
      by (simp add: put_bytes_def)
  qed
qed

theorem large_file_unsavable_witness:
  "\<exists>(s :: venom_fuse) fh ino. fu_open_files s fh = Some (demo_big ino) \<and> file_ok demo_libs s (demo_big ino) \<and>
    flush_fh demo_libs fh s \<noteq> (Ok (), s)"
proof -
  obtain s :: venom_fuse and fh ino where s: "fuse_ok demo_libs s" "slot_of ino (fu_inodes s) = Some 2"
    "fu_open_files s = [fh \<mapsto> new_open_file ino 2]" "file_clean demo_libs s (new_open_file ino 2)"
    by (rule demo_open_file)
  let ?s = "put_file fh (demo_big ino) s"
  have sh: "same_heap s ?s" by simp
  have ok: "file_ok demo_libs ?s (demo_big ino)" using demo_big_ok [OF s(4)] by (simp add: file_ok_same_heap [OF sh])
  have opn: "fu_open_files ?s fh = Some (demo_big ino)" by simp
  have "of_meta_dirty (demo_big ino)" "2769 * CHUNK_SIZE \<le> of_total_size (demo_big ino)" by (simp_all add: demo_big_def)
  from large_file_unsavable [OF demo_order_ok opn ok this(1) demo_dense this(2)] opn ok show ?thesis by blast
qed

end
