(* ===== verification/Ffi.thy ===== *)
theory Ffi
  imports Fuse_Handlers Key_File
begin

text \<open>
  The C interface (vnmcore-ffi/src/lib.rs). A pointer argument to a C string is \<open>None\<close>
  (null) or the bytes before its terminator; the addresses of the boxes handed to the
  caller are numbers, 0 is null. The state holds what the caller owns: the boxed
  container handles, the strings and the key lists. An address that is not in its map does
  not belong to a live box, and dereferencing or freeing it is undefined behaviour,
  the only error value of an interface function (a \<open>VnmError\<close> becomes a message). The caller's error cell is one number, the address of a string.

  The files of the machine are one map from paths to contents (\<open>key_files\<close>); a container
  operation works on the file of its path, selected before and written back after.
\<close>

section \<open>Paths\<close>

definition text_of :: "bytes \<Rightarrow> string" where
  "text_of bs = map (\<lambda>b. char_of (unat b)) bs"

definition path_join :: "string \<Rightarrow> string \<Rightarrow> string" where
  "path_join dir name =
     (if dir = [] \<or> last dir = CHR ''/'' then dir @ name else dir @ ''/'' @ name)"

fun path_split :: "string \<Rightarrow> string list" where
  "path_split [] = [[]]"
| "path_split (c # cs) =
     (if c = CHR ''/'' then [] # path_split cs
      else (case path_split cs of [] \<Rightarrow> [[c]] | w # ws \<Rightarrow> (c # w) # ws))"

text \<open>\<open>Path::file_name\<close>: the last component, unless it is \<open>..\<close>.\<close>

definition path_file_name :: "string \<Rightarrow> string option" where
  "path_file_name p =
     (let cs = [w \<leftarrow> path_split p. w \<noteq> [] \<and> w \<noteq> ''.'']
      in if cs = [] \<or> last cs = ''..'' then None else Some (last cs))"

text \<open>\<open>Path::extension\<close> of a path whose last component is the given name.\<close>

definition name_extension :: "string \<Rightarrow> string option" where
  "name_extension name =
     (let after = rev (takeWhile (\<lambda>c. c \<noteq> CHR ''.'') (rev name));
          before = take (length name - length after - 1) name
      in if name = ''..'' \<or> length after = length name \<or> before = [] then None else Some after)"

text \<open>\<open>to_str\<close> and \<open>unwrap_or("")\<close>.\<close>

definition to_str_or_empty :: "string option \<Rightarrow> string" where
  "to_str_or_empty name = (case name of
       Some n \<Rightarrow> (if utf8_valid (str_bytes n) then n else []) | None \<Rightarrow> [])"

text \<open>\<open>create_dir_all\<close> fails where the directory or one above it is a file.\<close>

definition create_dir_all :: "string \<Rightarrow> 'a key_sys_scheme \<Rightarrow> io_error option" where
  "create_dir_all dir s =
     (if \<exists>n \<in> {1..length dir}. (n = length dir \<or> dir ! n = CHR ''/'') \<and> key_files s (take n dir) \<noteq> None
      then Some InvalidInput else None)"

section \<open>State\<close>

datatype c_string = Text string | ErrorText vnm_error | IoText io_error | NulText

record vnm_handle =
  vh_container :: vnm_container
  vh_label_c :: bytes
  vh_cipher_c :: bytes

record key_entry =
  ke_fingerprint :: string
  ke_label :: bytes
  ke_filename :: string
  ke_created_at :: nat
  ke_is_protected :: bool
  ke_is_pub_only :: bool

record vnm_key_info =
  ki_fingerprint :: bytes
  ki_label :: bytes
  ki_filename :: bytes
  ki_created_at :: nat
  ki_is_protected :: bool
  ki_is_pub_only :: bool

record ffi = key_sys +
  ff_home :: "string option"
  ff_handles :: "nat \<rightharpoonup> vnm_handle"
  ff_strings :: "nat \<rightharpoonup> c_string"
  ff_lists :: "nat \<rightharpoonup> key_entry list"
  ff_next :: nat
  ff_error :: nat

datatype misuse = Undefined

type_synonym 'a ffi_op = "(ffi, misuse, 'a) op"

section \<open>Strings and errors\<close>

definition string_box :: "c_string \<Rightarrow> ffi \<Rightarrow> nat \<times> ffi" where
  "string_box t s = (ff_next s, s\<lparr>ff_strings := (ff_strings s)(ff_next s \<mapsto> t), ff_next := Suc (ff_next s)\<rparr>)"

definition set_error :: "c_string \<Rightarrow> bool \<Rightarrow> ffi \<Rightarrow> ffi" where
  "set_error msg error_out s =
     (if error_out then (let (p, s) = string_box msg s in s\<lparr>ff_error := p\<rparr>) else s)"

definition clear_error :: "bool \<Rightarrow> ffi \<Rightarrow> ffi" where
  "clear_error error_out s = (if error_out then s\<lparr>ff_error := 0\<rparr> else s)"

definition cstr :: "bytes option \<Rightarrow> bytes option" where
  "cstr p = (case p of None \<Rightarrow> None | Some bs \<Rightarrow> if utf8_valid bs then Some bs else None)"

definition cstr_or :: "bytes option \<Rightarrow> bytes \<Rightarrow> bytes" where
  "cstr_or p fallback = (case cstr p of Some bs \<Rightarrow> bs | None \<Rightarrow> fallback)"

text \<open>\<open>CString::new\<close> refuses an inner zero byte.\<close>

definition cstring_new :: "bytes \<Rightarrow> bytes option" where
  "cstring_new bs = (if 0 \<in> set bs then None else Some bs)"

definition vnm_free_string :: "nat \<Rightarrow> unit ffi_op" where
  "vnm_free_string p s =
     (if p = 0 then (Ok (), s)
      else case ff_strings s p of
        None \<Rightarrow> (Err Undefined, s)
      | Some _ \<Rightarrow> (Ok (), s\<lparr>ff_strings := (ff_strings s)(p := None)\<rparr>))"

section \<open>Container handles\<close>

definition select_file :: "string \<Rightarrow> 'a key_sys_scheme \<Rightarrow> sys" where
  "select_file path s = sys.truncate (s\<lparr>sys_file := (case key_files s path of Some f \<Rightarrow> f | None \<Rightarrow> []),
       sys_exists := key_files s path \<noteq> None\<rparr>)"

definition commit_file :: "string \<Rightarrow> 'b sys_scheme \<Rightarrow> 'a key_sys_scheme \<Rightarrow> 'a key_sys_scheme" where
  "commit_file path o' s =
     s\<lparr>sys_rng := sys_rng o', sys_clock := sys_clock o', sys_rollback := sys_rollback o',
       key_files := (if sys_exists o' then (key_files s)(path \<mapsto> sys_file o') else key_files s)\<rparr>"

text \<open>The container of a handle, on the machine as it is now.\<close>

definition resume :: "vnm_container \<Rightarrow> 'a key_sys_scheme \<Rightarrow> vnm_container" where
  "resume c s = sys.extend (select_file (vc_path c) s) (sys.more c)"

definition handle_boxed :: "vnm_container \<Rightarrow> nat ffi_op" where
  "handle_boxed c s =
     (let label_c = (case cstring_new (case vc_label c of Some l \<Rightarrow> l | None \<Rightarrow> []) of Some l \<Rightarrow> l | None \<Rightarrow> []);
          cipher_c = (case cstring_new (str_bytes (as_str (vc_cipher c))) of Some n \<Rightarrow> n | None \<Rightarrow> []);
          h = \<lparr>vh_container = c, vh_label_c = label_c, vh_cipher_c = cipher_c\<rparr>
      in (Ok (ff_next s), s\<lparr>ff_handles := (ff_handles s)(ff_next s \<mapsto> h), ff_next := Suc (ff_next s)\<rparr>))"

text \<open>The common end of the functions that return a handle: null and an error on failure.\<close>

definition return_handle :: "bool \<Rightarrow> vnm_container result \<Rightarrow> nat ffi_op" where
  "return_handle error_out r s = (case r of
       Ok c \<Rightarrow> handle_boxed c s
     | Err e \<Rightarrow> (Ok 0, set_error (ErrorText e) error_out s)
     | Panic p \<Rightarrow> (Panic p, s))"

definition cipher_of_id :: "byte \<Rightarrow> cipher_algorithm" where
  "cipher_of_id c = (if c = 1 then DeoxysII256 else if c = 2 then Serpent256
     else if c = 3 then Triple else XChaCha20Poly1305)"

definition vnm_container_create ::
    "libs \<Rightarrow> bytes option \<Rightarrow> bytes option \<Rightarrow> nat \<Rightarrow> byte \<Rightarrow> byte \<Rightarrow> bytes option \<Rightarrow> bool \<Rightarrow> nat ffi_op" where
  "vnm_container_create L path password size_mb cipher kdf_profile label error_out s =
     (let s = clear_error error_out s
      in case cstr path of
           None \<Rightarrow> (Ok 0, set_error (Text ''null path'') error_out s)
         | Some path_s \<Rightarrow>
             (let pw_s = cstr_or password [];
                  label_s = cstr label;
                  alg = cipher_of_id cipher;
                  prof = (if kdf_profile = 1 then ''sensitive'' else ''interactive'');
                  lbl_opt = (case label_s of Some l \<Rightarrow> if l = [] then None else Some l | None \<Rightarrow> None);
                  p = text_of path_s;
                  (r, o') = create L p pw_s (wrap64 (size_mb * 1024 * 1024)) alg prof lbl_opt None (select_file p s)
              in return_handle error_out r (commit_file p o' s)))"

definition vnm_container_open_password :: "libs \<Rightarrow> bytes option \<Rightarrow> bytes option \<Rightarrow> bool \<Rightarrow> nat ffi_op" where
  "vnm_container_open_password L path password error_out s =
     (let s = clear_error error_out s
      in case cstr path of
           None \<Rightarrow> (Ok 0, set_error (Text ''null path'') error_out s)
         | Some p \<Rightarrow> return_handle error_out
             (open_container L (text_of p) (Password (cstr_or password [])) (select_file (text_of p) s)) s)"

definition vnm_container_open_key ::
    "libs \<Rightarrow> bytes option \<Rightarrow> bytes option \<Rightarrow> bytes option \<Rightarrow> bool \<Rightarrow> nat ffi_op" where
  "vnm_container_open_key L path key_path key_passphrase error_out s =
     (let s = clear_error error_out s
      in case cstr path of
           None \<Rightarrow> (Ok 0, set_error (Text ''null path'') error_out s)
         | Some p \<Rightarrow> (case cstr key_path of
             None \<Rightarrow> (Ok 0, set_error (Text ''null key_path'') error_out s)
           | Some kp \<Rightarrow>
               (let passphrase = cstr_or key_passphrase [];
                    kf = (if passphrase = [] then read_key_file (text_of kp) s
                          else read_key_file_protected L (text_of kp) passphrase s)
                in return_handle error_out (and_then kf (\<lambda>kf.
                     open_container L (text_of p) (PrivateKey (kfd_key kf)) (select_file (text_of p) s))) s)))"

definition vnm_container_free :: "nat \<Rightarrow> unit ffi_op" where
  "vnm_container_free h s =
     (if h = 0 then (Ok (), s)
      else case ff_handles s h of
        None \<Rightarrow> (Err Undefined, s)
      | Some _ \<Rightarrow> (Ok (), s\<lparr>ff_handles := (ff_handles s)(h := None)\<rparr>))"

text \<open>The getters: the value for null, or a field of the live handle.\<close>

definition handle_field :: "'v \<Rightarrow> (vnm_handle \<Rightarrow> 'v) \<Rightarrow> nat \<Rightarrow> 'v ffi_op" where
  "handle_field none get h s =
     (if h = 0 then (Ok none, s)
      else case ff_handles s h of None \<Rightarrow> (Err Undefined, s) | Some vh \<Rightarrow> (Ok (get vh), s))"

definition vnm_container_get_label :: "nat \<Rightarrow> bytes option ffi_op" where
  "vnm_container_get_label = handle_field None (\<lambda>vh. Some (vh_label_c vh))"

definition vnm_container_get_cipher :: "nat \<Rightarrow> bytes option ffi_op" where
  "vnm_container_get_cipher = handle_field None (\<lambda>vh. Some (vh_cipher_c vh))"

definition vnm_container_get_created_at :: "nat \<Rightarrow> nat ffi_op" where
  "vnm_container_get_created_at = handle_field 0 (\<lambda>vh. vc_created_at (vh_container vh))"

definition vnm_container_get_is_hidden :: "nat \<Rightarrow> bool ffi_op" where
  "vnm_container_get_is_hidden = handle_field False (\<lambda>vh. vc_is_hidden (vh_container vh))"

section \<open>Mount\<close>

text \<open>
  \<open>mount2\<close> of the fuser crate is a parameter: it serves requests on the file system until it is
  unmounted, and gives the file system back to be dropped, which flushes it.
\<close>

type_synonym mount_session = "venom_fuse \<Rightarrow> string \<Rightarrow> (io_error, unit) outcome \<times> venom_fuse"

definition driver_mount :: "libs \<Rightarrow> mount_session \<Rightarrow> string \<Rightarrow> (vnm_container, vnm_error, unit) op" where
  "driver_mount L mount2 mountpoint c =
     (let (r, fs) = mount2 (venom_fuse_new c) mountpoint
      in case fs_drop L fs of
           (Panic p, fs) \<Rightarrow> (Panic p, vnm_container.truncate fs)
         | (_, fs) \<Rightarrow> (map_err Io r, vnm_container.truncate fs))"

datatype mount_event = Mounted bytes bytes nat bool | Gone | MountError vnm_error

definition vnm_mount_blocking ::
    "libs \<Rightarrow> mount_session \<Rightarrow> nat \<Rightarrow> bytes option \<Rightarrow> bool \<Rightarrow> bool \<Rightarrow> bool \<Rightarrow> mount_event list ffi_op" where
  "vnm_mount_blocking L mount2 handle mountpoint on_mounted on_error on_gone s =
     (if handle = 0 \<or> mountpoint = None then (Ok [], s)
      else case cstr mountpoint of
        None \<Rightarrow> (Ok [], s)
      | Some mp \<Rightarrow> (case ff_handles s handle of
            None \<Rightarrow> (Err Undefined, s)
          | Some owned \<Rightarrow>
              (let s = s\<lparr>ff_handles := (ff_handles s)(handle := None)\<rparr>;
                   c = vh_container owned;
                   up = (if on_mounted then [Mounted (vh_label_c owned) (vh_cipher_c owned) (vc_created_at c)
                           (vc_is_hidden c)] else []);
                   (r, c') = driver_mount L mount2 (text_of mp) (resume c s);
                   s = commit_file (vc_path c) c' s
               in case r of
                    Ok _ \<Rightarrow> (Ok (up @ (if on_gone then [Gone] else [])), s)
                  | Err e \<Rightarrow> (Ok (up @ (if on_error then [MountError e] else [])), s)
                  | Panic p \<Rightarrow> (Panic p, s))))"

text \<open>The exit status of an unmount program is a parameter.\<close>

definition vnm_unmount :: "(string \<Rightarrow> string \<Rightarrow> bool) \<Rightarrow> bytes option \<Rightarrow> bool" where
  "vnm_unmount status mountpoint = (case cstr mountpoint of
       None \<Rightarrow> False
     | Some mp \<Rightarrow> status ''fusermount3'' (text_of mp) \<or> status ''fusermount'' (text_of mp))"

section \<open>Recipients\<close>

definition recipient_key :: "string \<Rightarrow> 'a key_sys_scheme \<Rightarrow> hybrid_public_key result" where
  "recipient_key path s = (case read_pub_file path s of
       Ok d \<Rightarrow> Ok (pfd_public d)
     | Err e \<Rightarrow> and_then (read_key_public path s) (\<lambda>d. Ok (kpd_public d))
     | Panic p \<Rightarrow> Panic p)"

definition vnm_container_add_key_recipient :: "libs \<Rightarrow> nat \<Rightarrow> bytes option \<Rightarrow> bool \<Rightarrow> bool ffi_op" where
  "vnm_container_add_key_recipient L handle key_path error_out s =
     (let s = clear_error error_out s
      in if handle = 0 then (Ok False, s)
         else case cstr key_path of
           None \<Rightarrow> (Ok False, s)
         | Some kp \<Rightarrow> (case recipient_key (text_of kp) s of
               Err e \<Rightarrow> (Ok False, set_error (ErrorText e) error_out s)
             | Panic p \<Rightarrow> (Panic p, s)
             | Ok public_key \<Rightarrow> (case ff_handles s handle of
                   None \<Rightarrow> (Err Undefined, s)
                 | Some vh \<Rightarrow>
                     (let (r, c) = add_key_recipient L public_key (resume (vh_container vh) s);
                          s = commit_file (vc_path (vh_container vh)) c s;
                          s = s\<lparr>ff_handles := (ff_handles s)(handle \<mapsto> vh\<lparr>vh_container := c\<rparr>)\<rparr>
                      in case r of
                           Ok _ \<Rightarrow> (Ok True, s)
                         | Err e \<Rightarrow> (Ok False, set_error (ErrorText e) error_out s)
                         | Panic p \<Rightarrow> (Panic p, s)))))"

section \<open>Key generation and export\<close>

definition save_key ::
    "libs \<Rightarrow> string \<Rightarrow> hybrid_private_key \<Rightarrow> bytes \<Rightarrow> bytes \<Rightarrow> byte \<Rightarrow> (ffi, vnm_error, unit) op" where
  "save_key L path key lbl pw profile =
     (if pw = [] then write_key_file L path key lbl
      else write_key_file_protected L path key lbl pw profile)"

definition vnm_key_generate ::
    "libs \<Rightarrow> bytes option \<Rightarrow> bytes option \<Rightarrow> bytes option \<Rightarrow> bool \<Rightarrow> bool \<Rightarrow> bool ffi_op" where
  "vnm_key_generate L key_path label passphrase sensitive error_out s =
     (let s = clear_error error_out s
      in case cstr key_path of
           None \<Rightarrow> (Ok False, s)
         | Some kp \<Rightarrow>
             (let lbl = cstr_or label [];
                  pw = cstr_or passphrase [];
                  profile = (if sensitive then 1 else 0);
                  (key, s) = hybrid_generate L s
              in case save_key L (text_of kp) key lbl pw profile s of
                   (Ok _, s) \<Rightarrow> (Ok True, s)
                 | (Err e, s) \<Rightarrow> (Ok False, set_error (ErrorText e) error_out s)
                 | (Panic p, s) \<Rightarrow> (Panic p, s)))"

text \<open>The common part of the two functions that name the file after the fingerprint.\<close>

definition generate_into :: "libs \<Rightarrow> string \<Rightarrow> bytes \<Rightarrow> bytes \<Rightarrow> bool \<Rightarrow> bool \<Rightarrow> nat ffi_op" where
  "generate_into L keys_dir lbl pw sensitive error_out s =
     (let profile = (if sensitive then 1 else 0)
      in case create_dir_all keys_dir s of
           Some e \<Rightarrow> (Ok 0, set_error (IoText e) error_out s)
         | None \<Rightarrow>
             (let (key, s) = hybrid_generate L s;
                  fp_hex = concat (map hex_byte (hybrid_fingerprint L (hybrid_public key)));
                  path = path_join keys_dir (fp_hex @ ''.key'')
              in case save_key L path key lbl pw profile s of
                   (Ok _, s) \<Rightarrow>
                     (if CHR 0x00 \<in> set path then (Ok 0, set_error NulText error_out s)
                      else (let (p, s) = string_box (Text path) s in (Ok p, s)))
                 | (Err e, s) \<Rightarrow> (Ok 0, set_error (ErrorText e) error_out s)
                 | (Panic p, s) \<Rightarrow> (Panic p, s)))"

definition vnm_key_generate_to_dir ::
    "libs \<Rightarrow> bytes option \<Rightarrow> bytes option \<Rightarrow> bytes option \<Rightarrow> bool \<Rightarrow> bool \<Rightarrow> nat ffi_op" where
  "vnm_key_generate_to_dir L dir label passphrase sensitive error_out s =
     (let s = clear_error error_out s
      in case cstr dir of
           None \<Rightarrow> (Ok 0, set_error (Text ''null dir'') error_out s)
         | Some dir_s \<Rightarrow>
             generate_into L (text_of dir_s) (cstr_or label []) (cstr_or passphrase []) sensitive error_out s)"

definition keys_directory :: "ffi \<Rightarrow> string" where
  "keys_directory s =
     (let home = (case ff_home s of Some h \<Rightarrow> h | None \<Rightarrow> ''.'')
      in path_join (path_join (path_join home ''.config'') ''venom'') ''keys'')"

definition vnm_key_generate_auto :: "libs \<Rightarrow> bytes option \<Rightarrow> bytes option \<Rightarrow> bool \<Rightarrow> bool \<Rightarrow> nat ffi_op" where
  "vnm_key_generate_auto L label passphrase sensitive error_out s =
     (let s = clear_error error_out s
      in generate_into L (keys_directory s) (cstr_or label []) (cstr_or passphrase []) sensitive error_out s)"

definition vnm_key_export_pub :: "libs \<Rightarrow> bytes option \<Rightarrow> bytes option \<Rightarrow> bytes option \<Rightarrow> bool \<Rightarrow> bool ffi_op" where
  "vnm_key_export_pub L key_path pub_path key_passphrase error_out s =
     (let s = clear_error error_out s
      in case (cstr key_path, cstr pub_path) of
           (Some kp, Some pp) \<Rightarrow>
             (case read_key_public (text_of kp) s of
                Err e \<Rightarrow> (Ok False, set_error (ErrorText e) error_out s)
              | Panic p \<Rightarrow> (Panic p, s)
              | Ok pub_data \<Rightarrow>
                  (case write_pub_file L (text_of pp) (kpd_public pub_data) (kpd_label pub_data) (kpd_created_at pub_data) s of
                     (Ok _, s) \<Rightarrow> (Ok True, s)
                   | (Err e, s) \<Rightarrow> (Ok False, set_error (ErrorText e) error_out s)
                   | (Panic p, s) \<Rightarrow> (Panic p, s)))
         | _ \<Rightarrow> (Ok False, s))"

section \<open>The key list\<close>

text \<open>A text copied into a fixed buffer, cut to leave room for the terminator.\<close>

definition fill :: "bytes \<Rightarrow> bytes \<Rightarrow> bytes" where
  "fill buf b = (let n = min (length b) (length buf - 1) in (blit 0 (take n b) buf)[n := 0])"

definition listed_key :: "libs \<Rightarrow> string \<Rightarrow> string \<Rightarrow> 'a key_sys_scheme \<Rightarrow> key_entry option result" where
  "listed_key L dir name s =
     (let p = path_join dir name;
          fname = to_str_or_empty (Some name);
          ext = (case name_extension name of Some e \<Rightarrow> (if utf8_valid (str_bytes e) then e else []) | None \<Rightarrow> [])
      in if ext = ''key'' then
           and_then (ok_opt (read_key_public p s)) (\<lambda>d. Ok (case d of None \<Rightarrow> None | Some d \<Rightarrow>
             Some \<lparr>ke_fingerprint = fp_display (hybrid_fingerprint L (kpd_public d)), ke_label = kpd_label d,
               ke_filename = fname, ke_created_at = kpd_created_at d, ke_is_protected = kpd_is_protected d,
               ke_is_pub_only = False\<rparr>))
         else if ext = ''pub'' then
           and_then (ok_opt (read_pub_file p s)) (\<lambda>d. Ok (case d of None \<Rightarrow> None | Some d \<Rightarrow>
             Some \<lparr>ke_fingerprint = fp_display (hybrid_fingerprint L (pfd_public d)), ke_label = pfd_label d,
               ke_filename = fname, ke_created_at = pfd_created_at d, ke_is_protected = False,
               ke_is_pub_only = True\<rparr>))
         else Ok None)"

primrec listed_keys :: "libs \<Rightarrow> string \<Rightarrow> string list \<Rightarrow> 'a key_sys_scheme \<Rightarrow> key_entry list result" where
  "listed_keys L dir [] s = Ok []"
| "listed_keys L dir (n # ns) s =
     and_then (listed_key L dir n s) (\<lambda>e. and_then (listed_keys L dir ns s) (\<lambda>es.
       Ok (case e of None \<Rightarrow> es | Some e \<Rightarrow> e # es)))"

text \<open>
  \<open>read_dir\<close> is a parameter: the names in a directory, in the order of the operating system.
  The sort is stable, newest first.
\<close>

definition vnm_keylist_load ::
    "libs \<Rightarrow> ((string \<rightharpoonup> bytes) \<Rightarrow> string \<Rightarrow> string list) \<Rightarrow> nat ffi_op" where
  "vnm_keylist_load L read_dir s =
     (let dir = keys_directory s
      in case listed_keys L dir (read_dir (key_files s) dir) s of
           Panic p \<Rightarrow> (Panic p, s)
         | Err e \<Rightarrow> (Panic ''unreachable'', s)
         | Ok v \<Rightarrow>
             (let entries = sort_key (\<lambda>e. - int (ke_created_at e)) v
              in (Ok (ff_next s),
                  s\<lparr>ff_lists := (ff_lists s)(ff_next s \<mapsto> entries), ff_next := Suc (ff_next s)\<rparr>)))"

definition vnm_keylist_free :: "nat \<Rightarrow> unit ffi_op" where
  "vnm_keylist_free l s =
     (if l = 0 then (Ok (), s)
      else case ff_lists s l of
        None \<Rightarrow> (Err Undefined, s)
      | Some _ \<Rightarrow> (Ok (), s\<lparr>ff_lists := (ff_lists s)(l := None)\<rparr>))"

definition vnm_keylist_count :: "nat \<Rightarrow> nat ffi_op" where
  "vnm_keylist_count l s =
     (if l = 0 then (Ok 0, s)
      else case ff_lists s l of None \<Rightarrow> (Err Undefined, s) | Some es \<Rightarrow> (Ok (length es), s))"

text \<open>The caller's buffer is passed in with its contents; \<open>None\<close> as the result is \<open>false\<close>.\<close>

definition vnm_keylist_get :: "nat \<Rightarrow> nat \<Rightarrow> vnm_key_info option \<Rightarrow> vnm_key_info option ffi_op" where
  "vnm_keylist_get l i out s =
     (if l = 0 then (Ok None, s)
      else case out of
        None \<Rightarrow> (Ok None, s)
      | Some info \<Rightarrow> (case ff_lists s l of
          None \<Rightarrow> (Err Undefined, s)
        | Some es \<Rightarrow>
            (if length es \<le> i then (Ok None, s)
             else (let e = es ! i
                   in (Ok (Some \<lparr>ki_fingerprint = fill (ki_fingerprint info) (str_bytes (ke_fingerprint e)),
                         ki_label = fill (ki_label info) (ke_label e),
                         ki_filename = fill (ki_filename info) (str_bytes (ke_filename e)),
                         ki_created_at = ke_created_at e, ki_is_protected = ke_is_protected e,
                         ki_is_pub_only = ke_is_pub_only e\<rparr>), s)))))"

definition key_info_of :: "string \<Rightarrow> bytes \<Rightarrow> nat \<Rightarrow> bool \<Rightarrow> bool \<Rightarrow> string \<Rightarrow> vnm_key_info" where
  "key_info_of fp label created_at is_protected is_pub_only filename =
     \<lparr>ki_fingerprint = fill (replicate 24 0) (str_bytes fp), ki_label = fill (replicate 128 0) label,
      ki_filename = fill (replicate 256 0) (str_bytes filename), ki_created_at = created_at,
      ki_is_protected = is_protected, ki_is_pub_only = is_pub_only\<rparr>"

definition vnm_key_read_info :: "libs \<Rightarrow> bytes option \<Rightarrow> vnm_key_info option \<Rightarrow> vnm_key_info option ffi_op" where
  "vnm_key_read_info L key_path info_out s =
     (if key_path = None \<or> info_out = None then (Ok None, s)
      else case cstr key_path of
        None \<Rightarrow> (Ok None, s)
      | Some kp \<Rightarrow>
          (let path = text_of kp; name = to_str_or_empty (path_file_name path)
           in case read_key_public path s of
                Ok d \<Rightarrow> (Ok (Some (key_info_of (fp_display (hybrid_fingerprint L (kpd_public d))) (kpd_label d)
                          (kpd_created_at d) (kpd_is_protected d) False name)), s)
              | Panic p \<Rightarrow> (Panic p, s)
              | Err _ \<Rightarrow> (case read_pub_file path s of
                    Ok d \<Rightarrow> (Ok (Some (key_info_of (fp_display (hybrid_fingerprint L (pfd_public d))) (pfd_label d)
                              (pfd_created_at d) False True name)), s)
                  | Panic p \<Rightarrow> (Panic p, s)
                  | Err _ \<Rightarrow> (Ok None, s))))"

end
