(* ===== verification/Ffi_Contract.thy ===== *)
theory Ffi_Contract
  imports Ffi
begin

text \<open>
  The memory contract of the C interface. A client makes calls one after the other and keeps
  books of the boxes it owns: those returned to it and not yet given back. \<open>session\<close> is the
  set of states such a client reaches when every pointer it passes is null or its own; the
  invariant is that the books agree with the live boxes.
\<close>

section \<open>Calls\<close>

datatype ffi_call =
    ContainerCreate "bytes option" "bytes option" nat byte byte "bytes option" bool
  | OpenPassword "bytes option" "bytes option" bool
  | OpenKey "bytes option" "bytes option" "bytes option" bool
  | ContainerFree nat
  | GetLabel nat
  | GetCipher nat
  | GetCreatedAt nat
  | GetIsHidden nat
  | MountBlocking nat "bytes option" bool bool bool
  | AddKeyRecipient nat "bytes option" bool
  | KeyGenerate "bytes option" "bytes option" "bytes option" bool bool
  | KeyGenerateToDir "bytes option" "bytes option" "bytes option" bool bool
  | KeyGenerateAuto "bytes option" "bytes option" bool bool
  | KeyExportPub "bytes option" "bytes option" "bytes option" bool
  | KeyReadInfo "bytes option" "vnm_key_info option"
  | KeylistLoad
  | KeylistFree nat
  | KeylistCount nat
  | KeylistGet nat nat "vnm_key_info option"
  | FreeString nat

datatype reply = Plain | HandleReply nat | StringReply nat | ListReply nat

record ffi_env =
  fe_libs :: libs
  fe_mount2 :: mount_session
  fe_read_dir :: "(string \<rightharpoonup> bytes) \<Rightarrow> string \<Rightarrow> string list"

definition replying :: "('a \<Rightarrow> reply) \<Rightarrow> 'a ffi_op \<Rightarrow> reply ffi_op" where
  "replying f m = then_op m (\<lambda>a. return_op (Ok (f a)))"

abbreviation plainly :: "'a ffi_op \<Rightarrow> reply ffi_op" where
  "plainly \<equiv> replying (\<lambda>_. Plain)"

primrec perform :: "ffi_env \<Rightarrow> ffi_call \<Rightarrow> reply ffi_op" where
  "perform E (ContainerCreate path pw mb c prof label eo) =
     replying HandleReply (vnm_container_create (fe_libs E) path pw mb c prof label eo)"
| "perform E (OpenPassword path pw eo) = replying HandleReply (vnm_container_open_password (fe_libs E) path pw eo)"
| "perform E (OpenKey path key pw eo) = replying HandleReply (vnm_container_open_key (fe_libs E) path key pw eo)"
| "perform E (ContainerFree h) = plainly (vnm_container_free h)"
| "perform E (GetLabel h) = plainly (vnm_container_get_label h)"
| "perform E (GetCipher h) = plainly (vnm_container_get_cipher h)"
| "perform E (GetCreatedAt h) = plainly (vnm_container_get_created_at h)"
| "perform E (GetIsHidden h) = plainly (vnm_container_get_is_hidden h)"
| "perform E (MountBlocking h mp m e g) = plainly (vnm_mount_blocking (fe_libs E) (fe_mount2 E) h mp m e g)"
| "perform E (AddKeyRecipient h path eo) = plainly (vnm_container_add_key_recipient (fe_libs E) h path eo)"
| "perform E (KeyGenerate path label pw sens eo) = plainly (vnm_key_generate (fe_libs E) path label pw sens eo)"
| "perform E (KeyGenerateToDir dir label pw sens eo) =
     replying StringReply (vnm_key_generate_to_dir (fe_libs E) dir label pw sens eo)"
| "perform E (KeyGenerateAuto label pw sens eo) = replying StringReply (vnm_key_generate_auto (fe_libs E) label pw sens eo)"
| "perform E (KeyExportPub key pub pw eo) = plainly (vnm_key_export_pub (fe_libs E) key pub pw eo)"
| "perform E (KeyReadInfo path out) = plainly (vnm_key_read_info (fe_libs E) path out)"
| "perform E KeylistLoad = replying ListReply (vnm_keylist_load (fe_libs E) (fe_read_dir E))"
| "perform E (KeylistFree l) = plainly (vnm_keylist_free l)"
| "perform E (KeylistCount l) = plainly (vnm_keylist_count l)"
| "perform E (KeylistGet l i out) = plainly (vnm_keylist_get l i out)"
| "perform E (FreeString p) = plainly (vnm_free_string p)"

section \<open>The client's books\<close>

record owned =
  ow_handles :: "nat set"
  ow_strings :: "nat set"
  ow_lists :: "nat set"

definition nothing_owned :: owned where
  "nothing_owned = \<lparr>ow_handles = {}, ow_strings = {}, ow_lists = {}\<rparr>"

text \<open>Every pointer passed is null or owned.\<close>

fun permitted :: "owned \<Rightarrow> ffi_call \<Rightarrow> bool" where
  "permitted w (ContainerFree h) = (h = 0 \<or> h \<in> ow_handles w)"
| "permitted w (GetLabel h) = (h = 0 \<or> h \<in> ow_handles w)"
| "permitted w (GetCipher h) = (h = 0 \<or> h \<in> ow_handles w)"
| "permitted w (GetCreatedAt h) = (h = 0 \<or> h \<in> ow_handles w)"
| "permitted w (GetIsHidden h) = (h = 0 \<or> h \<in> ow_handles w)"
| "permitted w (MountBlocking h mp m e g) = (h = 0 \<or> h \<in> ow_handles w)"
| "permitted w (AddKeyRecipient h path eo) = (h = 0 \<or> h \<in> ow_handles w)"
| "permitted w (KeylistFree l) = (l = 0 \<or> l \<in> ow_lists w)"
| "permitted w (KeylistCount l) = (l = 0 \<or> l \<in> ow_lists w)"
| "permitted w (KeylistGet l i out) = (l = 0 \<or> l \<in> ow_lists w)"
| "permitted w (FreeString p) = (p = 0 \<or> p \<in> ow_strings w)"
| "permitted w _ = True"

text \<open>
  What a call gives back. Mounting consumes its handle, except where the mount point is null or not
  UTF-8: then the function returns before it takes the box, and the caller still owns it. (The comment at
  lib.rs:165-169 says that the handle is always taken; the books follow the code.)
\<close>

fun released :: "ffi_call \<Rightarrow> owned \<Rightarrow> owned" where
  "released (ContainerFree h) w = w\<lparr>ow_handles := ow_handles w - {h}\<rparr>"
| "released (MountBlocking h mp m e g) w =
     (if cstr mp = None then w else w\<lparr>ow_handles := ow_handles w - {h}\<rparr>)"
| "released (KeylistFree l) w = w\<lparr>ow_lists := ow_lists w - {l}\<rparr>"
| "released (FreeString p) w = w\<lparr>ow_strings := ow_strings w - {p}\<rparr>"
| "released _ w = w"

definition put :: "nat \<Rightarrow> nat set \<Rightarrow> nat set" where
  "put p A = (if p = 0 then A else insert p A)"

primrec received :: "reply \<Rightarrow> owned \<Rightarrow> owned" where
  "received Plain w = w"
| "received (HandleReply h) w = w\<lparr>ow_handles := put h (ow_handles w)\<rparr>"
| "received (StringReply p) w = w\<lparr>ow_strings := put p (ow_strings w)\<rparr>"
| "received (ListReply l) w = w\<lparr>ow_lists := put l (ow_lists w)\<rparr>"

text \<open>The calls that were given the address of the error cell; its string then belongs to the caller.\<close>

fun with_error_cell :: "ffi_call \<Rightarrow> bool" where
  "with_error_cell (ContainerCreate path pw mb c prof label eo) = eo"
| "with_error_cell (OpenPassword path pw eo) = eo"
| "with_error_cell (OpenKey path key pw eo) = eo"
| "with_error_cell (AddKeyRecipient h path eo) = eo"
| "with_error_cell (KeyGenerate path label pw sens eo) = eo"
| "with_error_cell (KeyGenerateToDir dir label pw sens eo) = eo"
| "with_error_cell (KeyGenerateAuto label pw sens eo) = eo"
| "with_error_cell (KeyExportPub key pub pw eo) = eo"
| "with_error_cell _ = False"

definition settled_books :: "ffi_call \<Rightarrow> reply \<Rightarrow> ffi \<Rightarrow> owned \<Rightarrow> owned" where
  "settled_books c r s w =
     (let w = received r (released c w)
      in if with_error_cell c then w\<lparr>ow_strings := put (ff_error s) (ow_strings w)\<rparr> else w)"

definition no_boxes :: "ffi \<Rightarrow> bool" where
  "no_boxes s \<longleftrightarrow> ff_handles s = Map.empty \<and> ff_strings s = Map.empty \<and> ff_lists s = Map.empty \<and> 0 < ff_next s"

inductive session :: "ffi_env \<Rightarrow> owned \<Rightarrow> ffi \<Rightarrow> bool" for E where
  session_start: "no_boxes s \<Longrightarrow> session E nothing_owned s"
| session_call: "session E w s \<Longrightarrow> permitted w c \<Longrightarrow> perform E c s = (Ok r, s') \<Longrightarrow>
     session E (settled_books c r s' w) s'"

section \<open>The invariant\<close>

definition books_ok :: "owned \<Rightarrow> ffi \<Rightarrow> bool" where
  "books_ok w s \<longleftrightarrow> ow_handles w = dom (ff_handles s) \<and> ow_strings w = dom (ff_strings s) \<and>
     ow_lists w = dom (ff_lists s) \<and>
     dom (ff_handles s) \<union> dom (ff_strings s) \<union> dom (ff_lists s) \<subseteq> {0<..<ff_next s} \<and> 0 < ff_next s"

lemma fresh_below: "A \<subseteq> {0<..<n} \<Longrightarrow> 0 < n \<Longrightarrow> insert n A \<subseteq> {0<..<Suc n}"
  by auto

text \<open>A fresh box of each sort, entered in the books.\<close>

lemma books_new_string:
  "books_ok w s \<Longrightarrow> books_ok (w\<lparr>ow_strings := insert (ff_next s) (ow_strings w)\<rparr>)
     (s\<lparr>ff_strings := (ff_strings s)(ff_next s \<mapsto> t), ff_next := Suc (ff_next s)\<rparr>)"
  using fresh_below [of "dom (ff_handles s) \<union> dom (ff_strings s) \<union> dom (ff_lists s)" "ff_next s"]
  by (simp add: books_ok_def)

lemma books_new_handle:
  "books_ok w s \<Longrightarrow> books_ok (w\<lparr>ow_handles := insert (ff_next s) (ow_handles w)\<rparr>)
     (s\<lparr>ff_handles := (ff_handles s)(ff_next s \<mapsto> h), ff_next := Suc (ff_next s)\<rparr>)"
  using fresh_below [of "dom (ff_handles s) \<union> dom (ff_strings s) \<union> dom (ff_lists s)" "ff_next s"]
  by (simp add: books_ok_def)

lemma books_new_list:
  "books_ok w s \<Longrightarrow> books_ok (w\<lparr>ow_lists := insert (ff_next s) (ow_lists w)\<rparr>)
     (s\<lparr>ff_lists := (ff_lists s)(ff_next s \<mapsto> l), ff_next := Suc (ff_next s)\<rparr>)"
  using fresh_below [of "dom (ff_handles s) \<union> dom (ff_strings s) \<union> dom (ff_lists s)" "ff_next s"]
  by (simp add: books_ok_def)

lemma books_error [simp]: "books_ok w (s\<lparr>ff_error := e\<rparr>) = books_ok w s"
  by (simp add: books_ok_def)

lemma books_next: "books_ok w s \<Longrightarrow> 0 < ff_next s"
  by (simp add: books_ok_def)

text \<open>The boxes and the error cell of two states are the same.\<close>

definition same_boxes :: "ffi \<Rightarrow> ffi \<Rightarrow> bool" where
  "same_boxes s s' \<longleftrightarrow> ff_handles s' = ff_handles s \<and> ff_strings s' = ff_strings s \<and> ff_lists s' = ff_lists s \<and>
     ff_next s' = ff_next s \<and> ff_error s' = ff_error s"

lemma same_boxes_refl [simp, intro]: "same_boxes s s"
  by (simp add: same_boxes_def)

lemma same_boxes_trans [trans]: "same_boxes s s1 \<Longrightarrow> same_boxes s1 s2 \<Longrightarrow> same_boxes s s2"
  by (simp add: same_boxes_def)

lemma same_boxes_commit: "same_boxes s (commit_file p o' s)"
  by (simp add: same_boxes_def commit_file_def)

lemma same_boxes_generate: "hybrid_generate L s = (key, s') \<Longrightarrow> same_boxes s s'"
  by (auto simp: same_boxes_def hybrid_generate_def kem_generate_def fill_bytes_def)

lemma same_boxes_rng: "same_boxes s (s\<lparr>sys_rng := n\<rparr>)"
  by (simp add: same_boxes_def)

lemma encode_protected_state:
  fixes s :: "'a sys_scheme"
  shows "\<exists>n. snd (encode_key_file_protected L key label pw prof s) = s\<lparr>sys_rng := n\<rparr>"
proof -
  let ?salt = "map (rand_tape L) [sys_rng s..<sys_rng s + 64]" and ?s1 = "s\<lparr>sys_rng := sys_rng s + 64\<rparr>"
  show ?thesis
  proof (cases "derive_key L pw (salted_params L prof ?salt)")
    case (Ok d)
    show ?thesis
    proof (cases "as_array_32 d")
      case None
      with Ok show ?thesis by (auto simp: encode_key_file_protected_def fill_bytes_def)
    next
      case (Some k)
      obtain r s2 where e: "encrypt_block L k KEY_CIPHER PROTECT_AAD (x25519_sk key @ mlkem_seed key) ?s1 = (r, s2)"
        by (cases "encrypt_block L k KEY_CIPHER PROTECT_AAD (x25519_sk key @ mlkem_seed key) ?s1")
      from encrypt_block_state [OF e] obtain n where "s2 = s\<lparr>sys_rng := n\<rparr>" by auto
      with Ok Some e show ?thesis
        by (cases r) (auto simp: encode_key_file_protected_def fill_bytes_def)
    qed
  qed (auto simp: encode_key_file_protected_def fill_bytes_def)
qed

lemma same_boxes_save:
  assumes "save_key L p key label pw prof s = (r, s')"
  shows "same_boxes s s'"
proof (cases "pw = []")
  case True
  with assms show ?thesis by (auto simp: save_key_def write_key_file_def same_boxes_def)
next
  case False
  obtain n where "snd (encode_key_file_protected L key label pw prof s) = s\<lparr>sys_rng := n\<rparr>"
    using encode_protected_state [of L key label pw prof s] by blast
  with False assms show ?thesis
    by (cases "encode_key_file_protected L key label pw prof s")
      (auto simp: save_key_def write_key_file_protected_def same_boxes_def then_op_def split: outcome.splits)
qed

lemma books_same: "books_ok w s \<Longrightarrow> same_boxes s s' \<Longrightarrow> books_ok w s'"
  by (simp add: books_ok_def same_boxes_def)

lemma put_0 [simp]: "put 0 A = A"
  by (simp add: put_def)

section \<open>Error cells and fresh boxes\<close>

text \<open>
  \<open>ready\<close>: the books agree and the error cell, if there is one, was cleared. \<open>ended\<close>: they agree once a
  string found in the error cell is entered.
\<close>

definition ready :: "owned \<Rightarrow> bool \<Rightarrow> ffi \<Rightarrow> bool" where
  "ready w eo s \<longleftrightarrow> books_ok w s \<and> (eo \<longrightarrow> ff_error s = 0)"

definition ended :: "owned \<Rightarrow> bool \<Rightarrow> ffi \<Rightarrow> bool" where
  "ended w eo s \<longleftrightarrow> books_ok (if eo then w\<lparr>ow_strings := put (ff_error s) (ow_strings w)\<rparr> else w) s"

lemma ready_clear: "books_ok w s \<Longrightarrow> ready w eo (clear_error eo s)"
  by (simp add: ready_def clear_error_def)

lemma ready_same: "ready w eo s \<Longrightarrow> same_boxes s s' \<Longrightarrow> ready w eo s'"
  by (auto simp: ready_def books_same same_boxes_def)

lemma ready_ended: "ready w eo s \<Longrightarrow> ended w eo s"
  by (auto simp: ready_def ended_def)

lemma ended_set_error:
  assumes "ready w eo s"
  shows "ended w eo (set_error m eo s)"
  using assms books_new_string [of w s m] books_next [of w s]
  by (simp add: ready_def ended_def set_error_def string_box_def put_def)

lemma ended_string:
  assumes "ready w eo s" "string_box t s = (p, s')"
  shows "ended (w\<lparr>ow_strings := put p (ow_strings w)\<rparr>) eo s'"
  using assms books_new_string [of w s t] books_next [of w s]
  by (auto simp: ready_def ended_def string_box_def put_def)

lemma ended_handle:
  assumes "ready w eo s" "handle_boxed c s = (Ok h, s')"
  shows "ended (w\<lparr>ow_handles := put h (ow_handles w)\<rparr>) eo s'"
  using assms books_new_handle [of w s] books_next [of w s]
  by (auto simp: ready_def ended_def handle_boxed_def Let_def put_def)

lemma ended_return_handle:
  assumes "ready w eo s" "return_handle eo r s = (Ok h, s')"
  shows "ended (w\<lparr>ow_handles := put h (ow_handles w)\<rparr>) eo s'"
proof (cases r)
  case (Ok c)
  with assms show ?thesis by (auto simp: return_handle_def intro: ended_handle)
next
  case (Err e)
  with assms have "s' = set_error (ErrorText e) eo s" "h = 0" by (simp_all add: return_handle_def)
  with ended_set_error [OF assms(1), of "ErrorText e"] show ?thesis by simp
next
  case (Panic x)
  with assms show ?thesis by (simp add: return_handle_def)
qed

lemma replying_Ok: "replying f m s = (Ok r, s') \<longleftrightarrow> (\<exists>a. m s = (Ok a, s') \<and> r = f a)"
  by (auto simp: replying_def then_op_def split: prod.splits outcome.splits)

lemma replying_Err: "fst (replying f m s) = Err e \<longleftrightarrow> fst (m s) = Err e"
  by (auto simp: replying_def then_op_def split: prod.splits outcome.splits)

section \<open>Each function keeps the books\<close>

lemma open_password_ended:
  assumes "books_ok w s" "vnm_container_open_password L path pw eo s = (Ok h, s')"
  shows "ended (w\<lparr>ow_handles := put h (ow_handles w)\<rparr>) eo s'"
proof (cases "cstr path")
  case None
  with assms(2) have "h = 0" "s' = set_error (Text ''null path'') eo (clear_error eo s)"
    by (simp_all add: vnm_container_open_password_def)
  with ended_set_error [OF ready_clear [OF assms(1)]] show ?thesis by simp
next
  case (Some p)
  with assms(2) obtain r where "return_handle eo r (clear_error eo s) = (Ok h, s')"
    by (auto simp: vnm_container_open_password_def Let_def)
  from ended_return_handle [OF ready_clear [OF assms(1)] this] show ?thesis .
qed

lemma open_key_ended:
  assumes "books_ok w s" "vnm_container_open_key L path key pw eo s = (Ok h, s')"
  shows "ended (w\<lparr>ow_handles := put h (ow_handles w)\<rparr>) eo s'"
proof (cases "cstr path = None \<or> cstr key = None")
  case True
  with assms(2) have "h = 0" "\<exists>m. s' = set_error m eo (clear_error eo s)"
    by (auto simp: vnm_container_open_key_def Let_def split: option.splits)
  with ended_set_error [OF ready_clear [OF assms(1)]] show ?thesis by auto
next
  case False
  then obtain p kp where "cstr path = Some p" "cstr key = Some kp" by auto
  with assms(2) obtain r where "return_handle eo r (clear_error eo s) = (Ok h, s')"
    by (simp add: vnm_container_open_key_def Let_def)
  from ended_return_handle [OF ready_clear [OF assms(1)] this] show ?thesis .
qed

lemma create_ended:
  assumes "books_ok w s" "vnm_container_create L path pw mb c prof label eo s = (Ok h, s')"
  shows "ended (w\<lparr>ow_handles := put h (ow_handles w)\<rparr>) eo s'"
proof (cases "cstr path")
  case None
  with assms(2) have "h = 0" "s' = set_error (Text ''null path'') eo (clear_error eo s)"
    by (simp_all add: vnm_container_create_def)
  with ended_set_error [OF ready_clear [OF assms(1)]] show ?thesis by simp
next
  case (Some p)
  then obtain r and o' :: sys where "return_handle eo r (commit_file (text_of p) o' (clear_error eo s)) = (Ok h, s')"
    using assms(2) by (auto simp: vnm_container_create_def Let_def split: prod.splits)
  from ended_return_handle [OF ready_same [OF ready_clear [OF assms(1)] same_boxes_commit] this] show ?thesis .
qed

lemma add_key_ended:
  assumes "books_ok w s" "vnm_container_add_key_recipient L h path eo s = (Ok b, s')"
  shows "ended w eo s'"
proof (cases "h = 0 \<or> cstr path = None")
  case True
  with assms(2) have "s' = clear_error eo s"
    by (auto simp: vnm_container_add_key_recipient_def Let_def split: option.splits if_splits)
  with ready_ended [OF ready_clear [OF assms(1)]] show ?thesis by simp
next
  case False
  then obtain kp where kp: "cstr path = Some kp" by auto
  note r0 = ready_clear [OF assms(1), of eo]
  show ?thesis
  proof (cases "recipient_key (text_of kp) (clear_error eo s)")
    case (Ok pk)
    with False kp assms(2) obtain vh where vh: "ff_handles (clear_error eo s) h = Some vh"
      by (auto simp: vnm_container_add_key_recipient_def Let_def split: option.splits)
    obtain r c where a: "add_key_recipient L pk (resume (vh_container vh) (clear_error eo s)) = (r, c)"
      by (cases "add_key_recipient L pk (resume (vh_container vh) (clear_error eo s))")
    let ?s1 = "commit_file (vc_path (vh_container vh)) c (clear_error eo s)"
    let ?s2 = "?s1\<lparr>ff_handles := (ff_handles ?s1)(h \<mapsto> vh\<lparr>vh_container := c\<rparr>)\<rparr>"
    have "ready w eo ?s1" by (rule ready_same [OF r0 same_boxes_commit])
    moreover have "h \<in> dom (ff_handles ?s1)" using vh by (auto simp: commit_file_def)
    ultimately have r2: "ready w eo ?s2" by (auto simp: ready_def books_ok_def)
    from Ok False kp assms(2) vh a have "s' = ?s2 \<or> (\<exists>e. s' = set_error (ErrorText e) eo ?s2)"
      by (auto simp: vnm_container_add_key_recipient_def Let_def split: outcome.splits)
    then show ?thesis using ready_ended [OF r2] ended_set_error [OF r2] by auto
  next
    case (Err e)
    with False kp assms(2) have "s' = set_error (ErrorText e) eo (clear_error eo s)"
      by (auto simp: vnm_container_add_key_recipient_def Let_def)
    with ended_set_error [OF r0] show ?thesis by simp
  next
    case (Panic x)
    with False kp assms(2) show ?thesis by (auto simp: vnm_container_add_key_recipient_def Let_def)
  qed
qed

lemma key_generate_ended:
  assumes "books_ok w s" "vnm_key_generate L path label pw sens eo s = (Ok b, s')"
  shows "ended w eo s'"
proof (cases "cstr path")
  case None
  with assms(2) have "s' = clear_error eo s" by (auto simp: vnm_key_generate_def Let_def)
  with ready_ended [OF ready_clear [OF assms(1)]] show ?thesis by simp
next
  case (Some kp)
  obtain key s1 where g: "hybrid_generate L (clear_error eo s) = (key, s1)" by fastforce
  obtain r s2 where v: "save_key L (text_of kp) key (cstr_or label []) (cstr_or pw []) (if sens then 1 else 0) s1 = (r, s2)"
    by fastforce
  have r2: "ready w eo s2"
    by (rule ready_same [OF ready_same [OF ready_clear [OF assms(1)] same_boxes_generate [OF g]] same_boxes_save [OF v]])
  from Some assms(2) g v have "s' = s2 \<or> (\<exists>e. s' = set_error (ErrorText e) eo s2)"
    by (auto simp: vnm_key_generate_def Let_def split: outcome.splits)
  then show ?thesis using ready_ended [OF r2] ended_set_error [OF r2] by auto
qed

lemma generate_into_ended:
  assumes "ready w eo s" "generate_into L dir lbl pw sens eo s = (Ok p, s')"
  shows "ended (w\<lparr>ow_strings := put p (ow_strings w)\<rparr>) eo s'"
proof (cases "create_dir_all dir s")
  case None
  obtain key s1 where g: "hybrid_generate L s = (key, s1)" by fastforce
  let ?path = "path_join dir (concat (map hex_byte (hybrid_fingerprint L (hybrid_public key))) @ ''.key'')"
  obtain r s2 where v: "save_key L ?path key lbl pw (if sens then 1 else 0) s1 = (r, s2)" by fastforce
  have r2: "ready w eo s2"
    by (rule ready_same [OF ready_same [OF assms(1) same_boxes_generate [OF g]] same_boxes_save [OF v]])
  from None assms(2) g v have "(\<exists>m. p = 0 \<and> s' = set_error m eo s2) \<or> string_box (Text ?path) s2 = (p, s')"
    by (auto simp: generate_into_def Let_def split: outcome.splits prod.splits if_splits)
  then show ?thesis using ended_string [OF r2] ended_set_error [OF r2] by auto
next
  case (Some e)
  with assms(2) have "p = 0" "s' = set_error (IoText e) eo s" by (auto simp: generate_into_def Let_def)
  with ended_set_error [OF assms(1)] show ?thesis by simp
qed

lemma generate_to_dir_ended:
  assumes "books_ok w s" "vnm_key_generate_to_dir L dir label pw sens eo s = (Ok p, s')"
  shows "ended (w\<lparr>ow_strings := put p (ow_strings w)\<rparr>) eo s'"
proof (cases "cstr dir")
  case None
  with assms(2) have "p = 0" "s' = set_error (Text ''null dir'') eo (clear_error eo s)"
    by (auto simp: vnm_key_generate_to_dir_def Let_def)
  with ended_set_error [OF ready_clear [OF assms(1)]] show ?thesis by simp
next
  case (Some d)
  with assms(2) have "generate_into L (text_of d) (cstr_or label []) (cstr_or pw []) sens eo (clear_error eo s) = (Ok p, s')"
    by (simp add: vnm_key_generate_to_dir_def Let_def)
  from generate_into_ended [OF ready_clear [OF assms(1)] this] show ?thesis .
qed

lemma generate_auto_ended:
  assumes "books_ok w s" "vnm_key_generate_auto L label pw sens eo s = (Ok p, s')"
  shows "ended (w\<lparr>ow_strings := put p (ow_strings w)\<rparr>) eo s'"
  using generate_into_ended [OF ready_clear [OF assms(1)]] assms(2) by (simp add: vnm_key_generate_auto_def Let_def)

lemma export_ended:
  assumes "books_ok w s" "vnm_key_export_pub L key pub pw eo s = (Ok b, s')"
  shows "ended w eo s'"
proof -
  note r0 = ready_clear [OF assms(1), of eo]
  have "ready w eo (clear_error eo s\<lparr>key_files := f\<rparr>)" for f
    by (rule ready_same [OF r0]) (simp add: same_boxes_def)
  moreover have "s' = clear_error eo s \<or> (\<exists>m. s' = set_error m eo (clear_error eo s)) \<or>
      (\<exists>f. s' = clear_error eo s\<lparr>key_files := f\<rparr>)"
    using assms(2)
    by (auto simp: vnm_key_export_pub_def write_pub_file_def Let_def split: option.splits outcome.splits)
  ultimately show ?thesis using ready_ended ended_set_error r0 by auto
qed

lemma keylist_load_books:
  assumes "books_ok w s" "vnm_keylist_load L rd s = (Ok l, s')"
  shows "books_ok (w\<lparr>ow_lists := put l (ow_lists w)\<rparr>) s'"
  using assms books_new_list [OF assms(1)] books_next [OF assms(1)]
  by (auto simp: vnm_keylist_load_def Let_def put_def split: outcome.splits)

text \<open>Giving a box back.\<close>

lemma books_drop_handle:
  "books_ok w s \<Longrightarrow> books_ok (w\<lparr>ow_handles := ow_handles w - {h}\<rparr>) (s\<lparr>ff_handles := (ff_handles s)(h := None)\<rparr>)"
  by (auto simp: books_ok_def)

lemma books_drop_string:
  "books_ok w s \<Longrightarrow> books_ok (w\<lparr>ow_strings := ow_strings w - {p}\<rparr>) (s\<lparr>ff_strings := (ff_strings s)(p := None)\<rparr>)"
  by (auto simp: books_ok_def)

lemma books_drop_list:
  "books_ok w s \<Longrightarrow> books_ok (w\<lparr>ow_lists := ow_lists w - {l}\<rparr>) (s\<lparr>ff_lists := (ff_lists s)(l := None)\<rparr>)"
  by (auto simp: books_ok_def)

lemma books_null: "books_ok w s \<Longrightarrow> 0 \<notin> ow_handles w \<and> 0 \<notin> ow_strings w \<and> 0 \<notin> ow_lists w"
  by (auto simp: books_ok_def)

lemma container_free_books:
  assumes "books_ok w s" "vnm_container_free h s = (Ok u, s')"
  shows "books_ok (w\<lparr>ow_handles := ow_handles w - {h}\<rparr>) s'"
  using assms books_drop_handle [OF assms(1)] books_null [OF assms(1)]
  by (auto simp: vnm_container_free_def split: if_splits option.splits)

lemma keylist_free_books:
  assumes "books_ok w s" "vnm_keylist_free l s = (Ok u, s')"
  shows "books_ok (w\<lparr>ow_lists := ow_lists w - {l}\<rparr>) s'"
  using assms books_drop_list [OF assms(1)] books_null [OF assms(1)]
  by (auto simp: vnm_keylist_free_def split: if_splits option.splits)

lemma free_string_books:
  assumes "books_ok w s" "vnm_free_string p s = (Ok u, s')"
  shows "books_ok (w\<lparr>ow_strings := ow_strings w - {p}\<rparr>) s'"
  using assms books_drop_string [OF assms(1)] books_null [OF assms(1)]
  by (auto simp: vnm_free_string_def split: if_splits option.splits)

lemma mount_books:
  assumes "books_ok w s" "vnm_mount_blocking L m2 h mp m e g s = (Ok evs, s')"
  shows "books_ok (if cstr mp = None then w else w\<lparr>ow_handles := ow_handles w - {h}\<rparr>) s'"
proof (cases "h = 0 \<or> cstr mp = None")
  case True
  with assms books_null [OF assms(1)] show ?thesis
    by (auto simp: vnm_mount_blocking_def split: option.splits if_splits)
next
  case False
  then obtain p where p: "cstr mp = Some p" by auto
  then have "mp \<noteq> None" by (cases mp) (simp_all add: cstr_def)
  note p = p this
  with False assms(2) obtain vh where vh: "ff_handles s h = Some vh"
    by (auto simp: vnm_mount_blocking_def split: option.splits)
  let ?s1 = "s\<lparr>ff_handles := (ff_handles s)(h := None)\<rparr>"
  from False p vh assms(2) have "\<exists>c. s' = commit_file (vc_path (vh_container vh)) (c :: vnm_container) ?s1"
    by (auto simp: vnm_mount_blocking_def Let_def split: outcome.splits prod.splits)
  then obtain c :: vnm_container where "s' = commit_file (vc_path (vh_container vh)) c ?s1" by blast
  with books_same [OF books_drop_handle [OF assms(1)] same_boxes_commit] p show ?thesis by simp
qed

section \<open>Sessions\<close>

lemma handle_field_same: "handle_field none get h s = (Ok v, s') \<Longrightarrow> s' = s"
  by (auto simp: handle_field_def split: if_splits option.splits)

lemmas getter_defs = vnm_container_get_label_def vnm_container_get_cipher_def vnm_container_get_created_at_def
  vnm_container_get_is_hidden_def

lemma keylist_reads_same:
  "vnm_keylist_count l s = (Ok n, s') \<Longrightarrow> s' = s" "vnm_keylist_get l i out s = (Ok v, s') \<Longrightarrow> s' = s"
  "vnm_key_read_info L path info s = (Ok v, s') \<Longrightarrow> s' = s"
  by (auto simp: vnm_keylist_count_def vnm_keylist_get_def vnm_key_read_info_def Let_def
      split: if_splits option.splits outcome.splits)

lemmas settled_simps = settled_books_def Let_def replying_Ok

lemma perform_books:
  assumes "books_ok w s" "perform E c s = (Ok r, s')"
  shows "books_ok (settled_books c r s' w) s'"
  using assms(2)
proof (cases c)
  case (ContainerCreate x1 x2 x3 x4 x5 x6 x7)
  with assms show ?thesis by (auto simp: settled_simps ended_def dest!: create_ended)
next
  case (OpenPassword x1 x2 x3)
  with assms show ?thesis by (auto simp: settled_simps ended_def dest!: open_password_ended)
next
  case (OpenKey x1 x2 x3 x4)
  with assms show ?thesis by (auto simp: settled_simps ended_def dest!: open_key_ended)
next
  case (AddKeyRecipient x1 x2 x3)
  with assms show ?thesis by (auto simp: settled_simps ended_def dest!: add_key_ended)
next
  case (KeyGenerate x1 x2 x3 x4 x5)
  with assms show ?thesis by (auto simp: settled_simps ended_def dest!: key_generate_ended)
next
  case (KeyGenerateToDir x1 x2 x3 x4 x5)
  with assms show ?thesis by (auto simp: settled_simps ended_def dest!: generate_to_dir_ended)
next
  case (KeyGenerateAuto x1 x2 x3 x4)
  with assms show ?thesis by (auto simp: settled_simps ended_def dest!: generate_auto_ended)
next
  case (KeyExportPub x1 x2 x3 x4)
  with assms show ?thesis by (auto simp: settled_simps ended_def dest!: export_ended)
next
  case (MountBlocking x1 x2 x3 x4 x5)
  with assms show ?thesis by (auto simp: settled_simps dest: mount_books)
qed (use assms in \<open>auto simp: settled_simps getter_defs dest!: handle_field_same keylist_reads_same
    dest: container_free_books keylist_free_books free_string_books keylist_load_books\<close>)

lemma session_books: "session E w s \<Longrightarrow> books_ok w s"
proof (induction rule: session.induct)
  case (session_start s)
  then show ?case by (simp add: no_boxes_def books_ok_def nothing_owned_def)
next
  case (session_call w s c r s')
  from perform_books [OF session_call.IH session_call.hyps(3)] show ?case .
qed

section \<open>Undefined behaviour\<close>

text \<open>Only a dangling pointer is undefined behaviour.\<close>

lemma return_handle_defined: "fst (return_handle eo r s) \<noteq> Err Undefined"
  by (cases r) (simp_all add: return_handle_def handle_boxed_def Let_def)

lemma create_defined: "fst (vnm_container_create L path pw mb c prof label eo s) \<noteq> Err Undefined"
  by (cases "cstr path") (simp_all add: vnm_container_create_def Let_def split_beta return_handle_defined)

lemma open_defined:
  "fst (vnm_container_open_password L path pw eo s) \<noteq> Err Undefined"
  "fst (vnm_container_open_key L path key pw eo s) \<noteq> Err Undefined"
  by (simp_all add: vnm_container_open_password_def vnm_container_open_key_def Let_def return_handle_defined split: option.splits)

lemma generate_defined:
  "fst (vnm_key_generate L path label pw sens eo s) \<noteq> Err Undefined"
  "fst (generate_into L d lbl p sens eo s) \<noteq> Err Undefined"
  by (auto simp: vnm_key_generate_def generate_into_def Let_def split: option.splits prod.splits outcome.splits)

lemma generate_named_defined:
  "fst (vnm_key_generate_to_dir L d label pw sens eo s) \<noteq> Err Undefined"
  "fst (vnm_key_generate_auto L label pw sens eo s) \<noteq> Err Undefined"
  by (simp_all add: vnm_key_generate_to_dir_def vnm_key_generate_auto_def Let_def generate_defined split: option.splits)

lemma export_defined: "fst (vnm_key_export_pub L key pub pw eo s) \<noteq> Err Undefined"
  by (simp add: vnm_key_export_pub_def write_pub_file_def Let_def split: option.splits outcome.splits)

lemma handle_field_defined:
  "h = 0 \<or> h \<in> dom (ff_handles s) \<Longrightarrow> fst (handle_field none get h s) \<noteq> Err Undefined"
  by (auto simp: handle_field_def)

lemma frees_defined:
  "h = 0 \<or> h \<in> dom (ff_handles s) \<Longrightarrow> fst (vnm_container_free h s) \<noteq> Err Undefined"
  "p = 0 \<or> p \<in> dom (ff_strings s) \<Longrightarrow> fst (vnm_free_string p s) \<noteq> Err Undefined"
  "l = 0 \<or> l \<in> dom (ff_lists s) \<Longrightarrow> fst (vnm_keylist_free l s) \<noteq> Err Undefined"
  by (auto simp: vnm_container_free_def vnm_free_string_def vnm_keylist_free_def)

lemma keylist_defined:
  "fst (vnm_keylist_load L rd s) \<noteq> Err Undefined"
  "l = 0 \<or> l \<in> dom (ff_lists s) \<Longrightarrow> fst (vnm_keylist_count l s) \<noteq> Err Undefined"
  "l = 0 \<or> l \<in> dom (ff_lists s) \<Longrightarrow> fst (vnm_keylist_get l i out s) \<noteq> Err Undefined"
  "fst (vnm_key_read_info L path info s) \<noteq> Err Undefined"
  by (auto simp: vnm_keylist_load_def vnm_keylist_count_def vnm_keylist_get_def vnm_key_read_info_def Let_def
      split: option.splits outcome.splits)

lemma mount_defined:
  assumes "h = 0 \<or> h \<in> dom (ff_handles s)"
  shows "fst (vnm_mount_blocking L m2 h mp m e g s) \<noteq> Err Undefined"
  using assms by (auto simp: vnm_mount_blocking_def Let_def split: option.splits prod.splits outcome.splits)

lemma add_key_defined:
  assumes "h = 0 \<or> h \<in> dom (ff_handles s)"
  shows "fst (vnm_container_add_key_recipient L h path eo s) \<noteq> Err Undefined"
proof -
  have "ff_handles (clear_error eo s) = ff_handles s" by (simp add: clear_error_def)
  with assms show ?thesis
    by (auto simp: vnm_container_add_key_recipient_def Let_def split: option.splits prod.splits outcome.splits)
qed

lemma perform_defined:
  assumes "books_ok w s" "permitted w c"
  shows "fst (perform E c s) \<noteq> Err Undefined"
proof -
  have d: "ow_handles w = dom (ff_handles s)" "ow_strings w = dom (ff_strings s)" "ow_lists w = dom (ff_lists s)"
    using assms(1) by (simp_all add: books_ok_def)
  show ?thesis
    using assms(2)
    by (cases c) (simp_all only: perform.simps permitted.simps replying_Err d getter_defs create_defined open_defined
        generate_defined generate_named_defined export_defined handle_field_defined frees_defined keylist_defined
        mount_defined add_key_defined not_False_eq_True)
qed

end
