(* ===== verification/Ffi_Properties.thy ===== *)
theory Ffi_Properties
  imports Ffi_Contract Key_Properties
begin

text \<open>
  The properties of the C interface (vnmcore-ffi/src/lib.rs): its memory contract, the key files it writes and
  reads, and containers opened with them.
\<close>

section \<open>A machine to run on\<close>

definition demo_ffi :: ffi where
  "demo_ffi = \<lparr>sys_file = [], sys_exists = False, sys_rng = 0, sys_clock = 7, sys_rollback = None, key_files = Map.empty,
     ff_home = None, ff_handles = Map.empty, ff_strings = Map.empty, ff_lists = Map.empty, ff_next = 1, ff_error = 0\<rparr>"

definition demo_env :: ffi_env where
  "demo_env = \<lparr>fe_libs = demo_libs, fe_mount2 = (\<lambda>fs mp. (Ok (), fs)), fe_read_dir = (\<lambda>fs dir. [])\<rparr>"

lemma demo_ffi_empty: "no_boxes demo_ffi"
  by (simp add: no_boxes_def demo_ffi_def)

section \<open>The memory contract\<close>

text \<open>A mount that returns has consumed its handle: freeing it again is undefined behaviour. The exception is a mount
point that is null or not UTF-8: the function then returns without any event and the handle is still live,
so a caller that follows the comment (never free after mounting) leaks the container with its keys.\<close>

theorem mount_consumes_handle:
  assumes "session E w s" "h \<in> ow_handles w"
    and "vnm_mount_blocking (fe_libs E) (fe_mount2 E) h mp m e g s = (Ok events, s')"
  shows "if cstr mp = None then events = [] \<and> s' = s \<and> fst (vnm_container_free h s') = Ok ()
    else ff_handles s' h = None \<and> fst (vnm_container_free h s') = Err Undefined"
proof -
  note b = session_books [OF assms(1)]
  have h: "h \<noteq> 0" "h \<in> dom (ff_handles s)" using b assms(2) by (auto simp: books_ok_def)
  show ?thesis
  proof (cases "cstr mp")
    case None
    with assms(3) have "events = [] \<and> s' = s" by (auto simp: vnm_mount_blocking_def split: if_splits)
    with None h show ?thesis by (auto simp: vnm_container_free_def)
  next
    case (Some p)
    from mount_books [OF b assms(3)] Some have "dom (ff_handles s') = ow_handles w - {h}" by (simp add: books_ok_def)
    then have "ff_handles s' h = None" by auto
    with Some h show ?thesis by (simp add: vnm_container_free_def)
  qed
qed

text \<open>C20: Whatever calls a client makes, as long as every pointer it passes is null or a box returned to it that it has
not given back, its books are exactly the live boxes: no call, successful or failed, leaves a box that is not on them,
and none frees a box behind the client's back; and none of its calls dereferences or frees a dangling pointer. Mounting
is the one call that takes a handle off the books without being a free, and here they follow the code against its
comment (lib.rs:165-169, which says that mounting always takes the handle): a mount that returns has freed its handle
exactly when the mount point is neither null nor invalid UTF-8. With such a mount point the handle stays live and on the
books, and a client that trusts the comment and never frees it leaks the container with its keys.\<close>

theorem memory_contract:
  assumes "session E w s"
  shows "ow_handles w = dom (ff_handles s) \<and> ow_strings w = dom (ff_strings s) \<and> ow_lists w = dom (ff_lists s) \<and>
    (\<forall>c. permitted w c \<longrightarrow> fst (perform E c s) \<noteq> Err Undefined) \<and>
    (\<forall>h mp m e g events s'. h \<in> ow_handles w \<longrightarrow>
       vnm_mount_blocking (fe_libs E) (fe_mount2 E) h mp m e g s = (Ok events, s') \<longrightarrow>
       (h \<in> dom (ff_handles s') \<longleftrightarrow> cstr mp = None))"
proof -
  have "h \<in> dom (ff_handles s') \<longleftrightarrow> cstr mp = None"
    if h: "h \<in> ow_handles w" and r: "vnm_mount_blocking (fe_libs E) (fe_mount2 E) h mp m e g s = (Ok events, s')"
    for h mp m e g events s'
    using mount_consumes_handle [OF assms h r] session_books [OF assms] h
    by (auto simp: books_ok_def split: if_splits)
  then show ?thesis
    using session_books [OF assms] perform_defined [OF session_books [OF assms]] by (simp add: books_ok_def)
qed

lemma demo_failed_open:
  obtains s where "session demo_env (nothing_owned\<lparr>ow_strings := {1}\<rparr>) s"
    "ff_strings s = [1 \<mapsto> ErrorText (ContainerNotFound (text_of [99]))]"
proof -
  define s1 where "s1 = demo_ffi\<lparr>ff_strings := [1 \<mapsto> ErrorText (ContainerNotFound (text_of [99]))], ff_next := 2, ff_error := 1\<rparr>"
  have p: "perform demo_env (OpenPassword (Some [99]) None True) demo_ffi = (Ok (HandleReply 0), s1)"
    by (simp add: replying_def vnm_container_open_password_def clear_error_def cstr_def select_file_def
        open_container_def sys.defs demo_ffi_def return_handle_def set_error_def string_box_def s1_def)
  have "session demo_env (settled_books (OpenPassword (Some [99]) None True) (HandleReply 0) s1 nothing_owned) s1"
    by (rule session_call [OF session_start [OF demo_ffi_empty] _ p]) simp
  then have "session demo_env (nothing_owned\<lparr>ow_strings := {1}\<rparr>) s1"
    by (simp add: settled_books_def s1_def nothing_owned_def) (simp add: put_def)
  then show thesis by (rule that) (simp add: s1_def)
qed

theorem memory_contract_witness:
  "\<exists>s. session demo_env (nothing_owned\<lparr>ow_strings := {1}\<rparr>) s \<and> fst (perform demo_env (FreeString 1) s) \<noteq> Err Undefined"
proof -
  obtain s where s: "session demo_env (nothing_owned\<lparr>ow_strings := {1}\<rparr>) s" by (rule demo_failed_open)
  have "permitted (nothing_owned\<lparr>ow_strings := {1}\<rparr>) (FreeString 1)" by simp
  with memory_contract [OF s] s show ?thesis by blast
qed

section \<open>Generated keys\<close>

text \<open>The text a C reader sees in a buffer.\<close>

definition c_text :: "bytes \<Rightarrow> bytes" where
  "c_text buf = takeWhile (\<lambda>b. b \<noteq> 0) buf"

lemma c_text_fill:
  assumes "length b < length buf" "0 \<notin> set b"
  shows "c_text (fill buf b) = b"
proof -
  have "min (length b) (length buf - 1) = length b" using assms(1) by linarith
  then have "fill buf b = (b @ drop (length b) buf)[length b := 0]" by (simp add: fill_def blit_def Let_def)
  also have "\<dots> = b @ 0 # drop (Suc (length b)) buf"
    using assms(1) by (simp add: list_update_append Cons_nth_drop_Suc [symmetric])
  finally have f: "fill buf b = b @ 0 # drop (Suc (length b)) buf" .
  have "\<forall>x \<in> set b. x \<noteq> 0" using assms(2) by auto
  then show ?thesis unfolding c_text_def f by (subst takeWhile_append2) simp_all
qed

lemma text_nonzero: "CHR 0x00 \<notin> set cs \<Longrightarrow> 0 \<notin> set (str_bytes cs)"
proof
  assume "CHR 0x00 \<notin> set cs" "0 \<in> set (str_bytes cs)"
  then obtain c where c: "c \<in> set cs" "(of_nat (of_char c) :: byte) = 0" by (auto simp: str_bytes_def)
  have "unat (of_nat (of_char c) :: byte) = of_char c" by (simp add: unat_of_nat)
  with c(2) have "(of_char c :: nat) = of_char (CHR 0x00)" by simp
  then have "c = CHR 0x00" by (simp only: of_char_eq_iff)
  with c(1) \<open>CHR 0x00 \<notin> set cs\<close> show False by simp
qed

lemma hex_digit_nonzero: "n < 16 \<Longrightarrow> hex_digit n \<noteq> CHR 0x00"
proof -
  assume "n < 16"
  then have "hex_digit n \<in> set ''0123456789abcdef''" unfolding hex_digit_def by (intro nth_mem) simp
  then show ?thesis by auto
qed

lemma fp_display_text:
  assumes "length fp = 8"
  shows "length (fp_display fp) = 23 \<and> CHR 0x00 \<notin> set (fp_display fp)"
proof -
  have h: "length (hex_byte b) = 2 \<and> CHR 0x00 \<notin> set (hex_byte b)" for b
  proof -
    have "unat b < 256" by (rule unat_lt_256)
    then have "unat b div 16 < 16" "unat b mod 16 < 16" by auto
    with hex_digit_nonzero [of "unat b div 16"] hex_digit_nonzero [of "unat b mod 16"]
    show ?thesis by (auto simp: hex_byte_def)
  qed
  have "bs \<noteq> [] \<Longrightarrow> length (fp_display bs) + 1 = 3 * length bs \<and> CHR 0x00 \<notin> set (fp_display bs)" for bs
    unfolding fp_display_def
  proof (induction bs rule: induct_list012)
    case (2 x) then show ?case using h [of x] by simp
  next
    case (3 x y zs) then show ?case using h [of x] by simp
  qed simp
  from this [of fp] assms show ?thesis by fastforce
qed

text \<open>What reading back a generated key file gives, protected or not.\<close>

lemma saved_key_reads:
  assumes "libs_ok L" "keypair_ok L key" "sys_clock s < 2 ^ 64" "length pw < 2 ^ 32"
  obtains s' where "save_key L path key label pw prof s = (Ok (), s')"
    "read_key_public path s' =
      Ok \<lparr>kpd_label = label_str (label_bytes label), kpd_created_at = sys_clock s, kpd_public = hybrid_public key, kpd_is_protected = (pw \<noteq> [])\<rparr>"
    "(if pw = [] then read_key_file path s' else read_key_file_protected L path pw s') =
      Ok \<lparr>kfd_label = label_str (label_bytes label), kfd_created_at = sys_clock s, kfd_key = key, kfd_is_protected = (pw \<noteq> [])\<rparr>"
proof -
  note L = libs_okD [OF assms(1)]
  have sz: "length (x25519_sk key) = 32" "length (mlkem_seed key) = 64" using assms(2) by (simp_all add: keypair_ok_def)
  note pub = keypair_public_ok [OF L(4) assms(2)]
  show thesis
  proof (cases "pw = []")
    case True
    from read_public_header [OF L(2) pub assms(3), of label 0] decode_key_file_plain [OF L(2) pub assms(3) sz, of label]
    show thesis
      by (intro that [of "s\<lparr>key_files := (key_files s)(path \<mapsto> encode_key_file L key label s)\<rparr>"])
        (simp_all add: True save_key_def write_key_file_def read_key_public_def read_key_file_def fs_read_def
          encode_key_file_def)
  next
    case False
    obtain k salt enc r where w: "encode_key_file_protected L key label pw prof s =
        (Ok (write_public_header L [] KEY_MAGIC (hybrid_public key) label (sys_clock s) @ 1 # salt @ prof # enc), s\<lparr>sys_rng := r\<rparr>)"
      and d: "derive_key L pw (salted_params L prof salt) = Ok k" "length k = 32" "length salt = 64" "length enc = 144"
      "decrypt_block L k KEY_CIPHER PROTECT_AAD enc = Ok (x25519_sk key @ mlkem_seed key)"
      by (rule encode_protected_total [OF L(1,2,3) assms(2,4)])
    let ?data = "write_public_header L [] KEY_MAGIC (hybrid_public key) label (sys_clock s) @ 1 # salt @ prof # enc"
    from read_public_header [OF L(2) pub assms(3), of label 1] decode_key_file_sealed [OF L(2) pub assms(3) d(3,4,1,2,5) sz, of label]
    show thesis
      by (intro that [of "s\<lparr>sys_rng := r, key_files := (key_files s)(path \<mapsto> ?data)\<rparr>"])
        (use False w in \<open>simp_all add: save_key_def write_key_file_protected_def read_key_public_def
          read_key_file_protected_def fs_read_def\<close>)
  qed
qed

lemma cstr_or_valid: "utf8_valid (cstr_or p [])"
  by (simp add: cstr_or_def cstr_def split: option.splits)

text \<open>C21: Generating a key into a file (a path that is a UTF-8 string, a passphrase shorter than 4 GiB or none) succeeds for
every label; the file then shows the key's fingerprint as text, the creation time and whether a passphrase protects it,
and it yields the key pair when read with the same passphrase. A label of at most 64 bytes without NUL is shown whole, its
buffer being large enough, and is read back with the key; of a longer one only what fits 64 bytes is kept.\<close>

theorem generate_then_info:
  assumes "libs_ok L" "cstr path = Some kp" "sys_clock s < 2 ^ 64" "length (cstr_or pw []) < 2 ^ 32"
  shows "\<exists>key s' i shown. keypair_ok L key \<and> vnm_key_generate L path label pw sensitive eo s = (Ok True, s') \<and>
    vnm_key_read_info L path (Some out) s' = (Ok (Some i), s') \<and>
    c_text (ki_fingerprint i) = str_bytes (fp_display (hybrid_fingerprint L (hybrid_public key))) \<and>
    (length (cstr_or label []) \<le> 64 \<longrightarrow> 0 \<notin> set (cstr_or label []) \<longrightarrow>
      c_text (ki_label i) = cstr_or label [] \<and> shown = cstr_or label []) \<and>
    shown = utf8_lossy (takeWhile (\<lambda>b. b \<noteq> 0) (take 64 (cstr_or label []))) \<and> ki_created_at i = sys_clock s \<and>
    ki_is_protected i = (cstr_or pw [] \<noteq> []) \<and> \<not> ki_is_pub_only i \<and>
    (if cstr_or pw [] = [] then read_key_file (text_of kp) s' else read_key_file_protected L (text_of kp) (cstr_or pw []) s') =
      Ok \<lparr>kfd_label = shown, kfd_created_at = sys_clock s, kfd_key = key, kfd_is_protected = (cstr_or pw [] \<noteq> [])\<rparr>"
proof -
  obtain key s1 where g: "hybrid_generate L (clear_error eo s) = (key, s1)" by fastforce
  then have k: "keypair_ok L key" using hybrid_generate_keypair [of L "clear_error eo s"] by simp
  have t: "sys_clock s1 = sys_clock s"
    using g by (auto simp: hybrid_generate_def kem_generate_def fill_bytes_def clear_error_def)
  let ?shown = "label_str (label_bytes (cstr_or label []))"
  obtain s' where v: "save_key L (text_of kp) key (cstr_or label []) (cstr_or pw []) (if sensitive then 1 else 0) s1 = (Ok (), s')"
    and r: "read_key_public (text_of kp) s' = Ok \<lparr>kpd_label = ?shown, kpd_created_at = sys_clock s1,
      kpd_public = hybrid_public key, kpd_is_protected = (cstr_or pw [] \<noteq> [])\<rparr>"
    and f: "(if cstr_or pw [] = [] then read_key_file (text_of kp) s' else read_key_file_protected L (text_of kp) (cstr_or pw []) s') =
      Ok \<lparr>kfd_label = ?shown, kfd_created_at = sys_clock s1, kfd_key = key, kfd_is_protected = (cstr_or pw [] \<noteq> [])\<rparr>"
    by (rule saved_key_reads [OF assms(1) k _ assms(4), of s1]) (use t assms(3) in simp, rule that)
  let ?fp = "fp_display (hybrid_fingerprint L (hybrid_public key))"
  let ?i = "key_info_of ?fp ?shown (sys_clock s) (cstr_or pw [] \<noteq> []) False
    (to_str_or_empty (path_file_name (text_of kp)))"
  have fp: "length ?fp = 23 \<and> CHR 0x00 \<notin> set ?fp"
    by (rule fp_display_text) (use libs_okD(2) [OF assms(1)] in simp)
  have "c_text (fill (replicate 24 0) (str_bytes ?fp)) = str_bytes ?fp"
    by (rule c_text_fill) (use fp text_nonzero in auto)
  moreover have "c_text (fill (replicate 128 0) (cstr_or label [])) = cstr_or label [] \<and> ?shown = cstr_or label []"
    if short: "length (cstr_or label []) \<le> 64" "0 \<notin> set (cstr_or label [])"
  proof -
    have "c_text (fill (replicate 128 0) (cstr_or label [])) = cstr_or label []"
      by (rule c_text_fill) (use short in auto)
    with label_roundtrip [OF short cstr_or_valid] show ?thesis by simp
  qed
  moreover have "path \<noteq> None" using assms(2) by (cases path) (simp_all add: cstr_def)
  then have "vnm_key_read_info L path (Some out) s' = (Ok (Some ?i), s')"
    using r t assms(2) by (simp add: vnm_key_read_info_def Let_def)
  moreover have "vnm_key_generate L path label pw sensitive eo s = (Ok True, s')"
    using assms(2) g v by (simp add: vnm_key_generate_def Let_def)
  ultimately show ?thesis
    unfolding label_str_bytes [symmetric]
    using k f t
    by (intro exI [of _ key] exI [of _ s'] exI [of _ ?i] exI [of _ ?shown] conjI impI) (simp_all add: key_info_of_def)
qed

definition no_info :: vnm_key_info where
  "no_info = \<lparr>ki_fingerprint = [], ki_label = [], ki_filename = [], ki_created_at = 0, ki_is_protected = False, ki_is_pub_only = False\<rparr>"

theorem generate_then_info_witness:
  "\<exists>s' i. vnm_key_generate demo_libs (Some [107]) (Some [65]) (Some [1, 2]) True True demo_ffi = (Ok True, s') \<and>
    vnm_key_read_info demo_libs (Some [107]) (Some no_info) s' = (Ok (Some i), s') \<and>
    c_text (ki_label i) = [65] \<and> ki_created_at i = 7 \<and> ki_is_protected i"
  using generate_then_info [OF demo_libs_ok, of "Some [107]" "[107]" demo_ffi "Some [1, 2]" "Some [65]" True True no_info]
  by (auto simp: cstr_def cstr_or_def demo_ffi_def)

section \<open>Containers opened with a key\<close>

lemma recipient_key_of_key_file:
  assumes "read_key_file path s = Ok kf"
  shows "recipient_key path s = Ok (hybrid_public (kfd_key kf))"
proof -
  obtain d where d: "key_files s path = Some d" "decode_key_file d = Ok kf"
    using assms by (auto simp: read_key_file_def fs_read_def and_then_eq_Ok)
  obtain pd where pd: "read_public_from_key_bytes d = Ok pd" "kpd_public pd = hybrid_public (kfd_key kf)"
    using d(2) by (auto simp: decode_key_file_def and_then_eq_Ok Let_def split: if_splits)
  from pd(1) have "subrange 0 4 d = KEY_MAGIC"
    by (auto simp: read_public_from_key_bytes_def Let_def split: if_splits)
  then have "\<exists>e. decode_pub_file d = Err e" by (cases "length d < 1688") (simp_all add: decode_pub_file_def)
  then obtain e where "decode_pub_file d = Err e" by blast
  with d pd show ?thesis
    by (simp add: recipient_key_def read_pub_file_def read_key_public_def fs_read_def)
qed

text \<open>A container that was just created or changed is the one on the machine.\<close>

lemma select_commit:
  "sys_exists o' \<Longrightarrow> select_file p (commit_file p o' s) = sys.truncate o'"
  by (simp add: select_file_def commit_file_def sys.defs)

lemma truncate_sys [simp]: "sys.truncate (o' :: sys) = o'"
  by (cases o') (simp add: sys.defs)

lemma select_boxes [simp]:
  "select_file p (s\<lparr>ff_handles := a\<rparr>) = select_file p s" "select_file p (s\<lparr>ff_next := n\<rparr>) = select_file p s"
  "select_file p (s\<lparr>ff_error := n\<rparr>) = select_file p s"
  by (simp_all add: select_file_def sys.defs)

lemma clear_fields [simp]:
  "select_file p (clear_error eo s) = select_file p s" "ff_next (clear_error eo s) = ff_next s"
  "ff_handles (clear_error eo s) = ff_handles s" "key_files (clear_error eo s) = key_files s"
  "sys_clock (clear_error eo s) = sys_clock s"
  by (simp_all add: clear_error_def)

lemma commit_fields [simp]:
  fixes s :: ffi
  shows "ff_next (commit_file p o' s) = ff_next s" "ff_handles (commit_file p o' s) = ff_handles s"
    "key_files (commit_file p o' s) = (if sys_exists o' then (key_files s)(p \<mapsto> sys_file o') else key_files s)"
    "sys_clock (commit_file p o' s) = sys_clock o'"
  by (simp_all add: commit_file_def)

text \<open>A handle returned by the functions that create or open one.\<close>

lemma handle_boxed_shape:
  "\<exists>vh. vh_container vh = c \<and> handle_boxed c s =
    (Ok (ff_next s), s\<lparr>ff_handles := (ff_handles s)(ff_next s \<mapsto> vh), ff_next := Suc (ff_next s)\<rparr>)"
  unfolding handle_boxed_def Let_def by (rule exI, rule conjI [rotated], rule refl, simp)

lemma return_handle_Ok:
  assumes "return_handle eo r s = (Ok h, s')" "h \<noteq> 0"
  obtains c vh where "r = Ok c" "h = ff_next s" "vh_container vh = c"
    "s' = s\<lparr>ff_handles := (ff_handles s)(h \<mapsto> vh), ff_next := Suc h\<rparr>"
proof (cases r)
  case (Ok c)
  with assms(1) have "handle_boxed c s = (Ok h, s')" by (simp add: return_handle_def)
  with handle_boxed_shape [of c s] Ok that show ?thesis by auto
qed (use assms in \<open>auto simp: return_handle_def\<close>)

text \<open>What a successful creation leaves: a handle whose container is the file on the machine.\<close>

lemma created_handle:
  assumes "libs_ok L" "sys_clock s < 2 ^ 64" "cstr path = Some p"
    and "vnm_container_create L path password mb cipher prof label eo s = (Ok h, s1)" "h \<noteq> 0"
    and "ff_handles s1 h = Some vh" "vc_container_id (vh_container vh) \<noteq> ZERO_ID"
  obtains c pw lb pf o' where "vh_container vh = c" "h = ff_next s"
    "create L (text_of p) pw (wrap64 (mb * 1024 * 1024)) (cipher_of_id cipher) pf lb None (select_file (text_of p) s) = (Ok c, o')"
    "s1 = (commit_file (text_of p) o' (clear_error eo s))\<lparr>ff_handles := (ff_handles s)(h \<mapsto> vh), ff_next := Suc h\<rparr>"
    "resume c (clear_error eo s1) = c" "sys_exists o'" "vc_path c = text_of p" "sys_exists c"
proof -
  let ?p = "text_of p" and ?s0 = "clear_error eo s"
  obtain r o' where cr: "create L ?p (cstr_or password []) (wrap64 (mb * 1024 * 1024)) (cipher_of_id cipher)
      (if prof = 1 then ''sensitive'' else ''interactive'')
      (case cstr label of Some l \<Rightarrow> if l = [] then None else Some l | None \<Rightarrow> None) None (select_file ?p s) = (r, o')"
    by fastforce
  with assms(3,4) have "return_handle eo r (commit_file ?p o' ?s0) = (Ok h, s1)"
    by (simp add: vnm_container_create_def Let_def)
  then obtain c vh' where "r = Ok c" "h = ff_next (commit_file ?p o' ?s0)" "vh_container vh' = c"
    "s1 = (commit_file ?p o' ?s0)\<lparr>ff_handles := (ff_handles (commit_file ?p o' ?s0))(h \<mapsto> vh'), ff_next := Suc h\<rparr>"
    by (rule return_handle_Ok [OF _ assms(5)])
  with assms(6) have c: "r = Ok c" "vh_container vh = c" "h = ff_next s"
    and s1: "s1 = (commit_file ?p o' ?s0)\<lparr>ff_handles := (ff_handles s)(h \<mapsto> vh), ff_next := Suc h\<rparr>"
    by simp_all
  note run = cr [unfolded c(1)]
  have id: "vc_container_id c \<noteq> ZERO_ID" using assms(7) c by simp
  have clk: "sys_clock (select_file ?p s) < 2 ^ 64" using assms(2) by (simp add: select_file_def sys.defs)
  note created = created_reopens [OF libs_okD(1,3,5) [OF assms(1)] wrap64_bound clk run id]
  have "resume c (clear_error eo s1) = c"
    using extend_truncate [of c] created(3,7) by (simp add: resume_def s1 select_commit [OF created(2)])
  moreover have "sys_exists c" using created(2) unfolding created(3) [symmetric] by (simp add: sys.defs)
  ultimately show thesis using c run s1 created(2,7) by (intro that) 
qed

text \<open>Adding the recipient of a key file through the interface.\<close>

lemma add_key_file_recipient:
  assumes "cstr key_path = Some kp" "h \<noteq> 0" "ff_handles s h = Some vh" "vh_container vh = c"
    and "read_key_file (text_of kp) s = Ok kf" "resume c (clear_error eo s) = c"
    and "add_key_recipient L (hybrid_public (kfd_key kf)) c = (r, c')"
  shows "fst (vnm_container_add_key_recipient L h key_path eo s) = Ok True \<longleftrightarrow> r = Ok ()"
    "r = Ok () \<Longrightarrow> vnm_container_add_key_recipient L h key_path eo s = (Ok True,
      (commit_file (vc_path c) c' (clear_error eo s))\<lparr>ff_handles := (ff_handles s)(h \<mapsto> vh\<lparr>vh_container := c'\<rparr>)\<rparr>)"
proof -
  have "recipient_key (text_of kp) (clear_error eo s) = Ok (hybrid_public (kfd_key kf))"
    by (rule recipient_key_of_key_file) (use assms(5) in \<open>simp add: read_key_file_def fs_read_def\<close>)
  with assms show "fst (vnm_container_add_key_recipient L h key_path eo s) = Ok True \<longleftrightarrow> r = Ok ()"
    "r = Ok () \<Longrightarrow> vnm_container_add_key_recipient L h key_path eo s = (Ok True,
      (commit_file (vc_path c) c' (clear_error eo s))\<lparr>ff_handles := (ff_handles s)(h \<mapsto> vh\<lparr>vh_container := c'\<rparr>)\<rparr>)"
    by (cases r; simp add: vnm_container_add_key_recipient_def Let_def)+
qed

text \<open>C22: A container created through the interface, with or without a password, opens again with an unprotected key file
(one that is read without a passphrase, at another path than the container) once that file was added as a recipient: the
open succeeds with a new handle on the same volume (master key, slots, root, free list, generation, identifier), the
first handle stays live, and the key file is read as it was. The cipher of the container must be the first of those
probed to accept the key slot and the header, and the random identifier must not be all zero.\<close>

theorem key_file_opens_container:
  assumes "libs_ok L" "sys_clock s < 2 ^ 64" "cstr path = Some p" "cstr key_path = Some kp" "text_of kp \<noteq> text_of p"
    and "read_key_file (text_of kp) s = Ok kf" "keypair_ok L (kfd_key kf)"
    and "vnm_container_create L path password mb cipher prof label eo s = (Ok h, s1)" "h \<noteq> 0"
    and "ff_handles s1 h = Some vh" "vc_container_id (vh_container vh) \<noteq> ZERO_ID"
    and "vnm_container_add_key_recipient L h key_path eo s1 = (Ok True, s2)" "key_files s2 (text_of p) = Some f"
    and "key_slot_clear L (key_slot 0 f) (kfd_key kf) (cipher_of_id cipher)"
    and "header_clear L (subrange 0 512 f) (vc_k_master (vh_container vh)) (cipher_of_id cipher) False"
  shows "\<exists>h' s3 vh' lbl. vnm_container_open_key L path key_path None eo s2 = (Ok h', s3) \<and> h' \<noteq> 0 \<and> h' \<noteq> h \<and>
    ff_handles s3 h' = Some vh' \<and> h \<in> dom (ff_handles s3) \<and> key_files s3 (text_of kp) = key_files s (text_of kp) \<and>
    vh_container vh' = reopened_on (vh_container vh) (select_file (text_of p) s2) lbl (text_of p)"
proof -
  note L = libs_okD [OF assms(1)]
  let ?p = "text_of p" and ?kp = "text_of kp" and ?s0 = "clear_error eo s"
  obtain c pw lb pf o' where vhc: "vh_container vh = c" and h: "h = ff_next s"
    and c: "create L ?p pw (wrap64 (mb * 1024 * 1024)) (cipher_of_id cipher) pf lb None (select_file ?p s) = (Ok c, o')"
    and s1: "s1 = (commit_file ?p o' ?s0)\<lparr>ff_handles := (ff_handles s)(h \<mapsto> vh), ff_next := Suc h\<rparr>"
    and res: "resume c (clear_error eo s1) = c" and o': "sys_exists o'" "vc_path c = ?p" and cex: "sys_exists c"
    by (rule created_handle [OF assms(1,2,3,8,9,10,11)])
  have id: "vc_container_id c \<noteq> ZERO_ID" using assms(11) vhc by simp
  have clk: "sys_clock (select_file ?p s) < 2 ^ 64" using assms(2) by (simp add: select_file_def sys.defs)
  have rd1: "read_key_file ?kp s1 = Ok kf" using assms(5,6) by (simp add: s1 read_key_file_def fs_read_def)
  obtain r c' where ad: "add_key_recipient L (hybrid_public (kfd_key kf)) c = (r, c')" by fastforce
  note ak = add_key_file_recipient [OF assms(4,9,10) vhc rd1 res ad]
  from assms(12) ak have r: "r = Ok ()"
    and s2: "s2 = (commit_file ?p c' (clear_error eo s1))\<lparr>ff_handles := (ff_handles s1)(h \<mapsto> vh\<lparr>vh_container := c'\<rparr>)\<rparr>"
    using o' by auto
  from ad r have add: "add_key_recipient L (hybrid_public (kfd_key kf)) c = (Ok (), c')" by simp
  have ex: "sys_exists c'" by (rule add_key_recipient_exists [OF add, THEN iffD2, OF cex])
  have f: "sys_file c' = f" using assms(13) ex by (simp add: s2)
  note opens = added_key_opens(1) [OF L(1,3,5,4,2) wrap64_bound clk c id assms(7) add, unfolded f, OF assms(14) assms(15) [unfolded vhc]]
  have sel: "select_file ?p s2 = sys.truncate c'" by (simp add: s2 select_commit [OF ex])
  have kf: "key_files s2 ?kp = key_files s ?kp" using assms(5) ex o' by (simp add: s2 s1)
  then have rd: "read_key_file ?kp s2 = Ok kf" using assms(6) by (simp add: read_key_file_def fs_read_def)
  let ?c2 = "reopened_on c (sys.truncate c') (label_from (label_field lb)) ?p"
  have "vnm_container_open_key L path key_path None eo s2 = handle_boxed ?c2 (clear_error eo s2)"
    using assms(3,4) rd opens [of ?p] sel
    by (simp add: vnm_container_open_key_def Let_def cstr_or_def cstr_def return_handle_def read_key_file_def fs_read_def)
  moreover obtain vh' where "vh_container vh' = ?c2" "handle_boxed ?c2 (clear_error eo s2) =
      (Ok (Suc h), (clear_error eo s2)\<lparr>ff_handles := (ff_handles s2)(Suc h \<mapsto> vh'), ff_next := Suc (Suc h)\<rparr>)"
    using handle_boxed_shape [of ?c2 "clear_error eo s2"] by (auto simp: s2 s1)
  ultimately obtain vh' where vh': "vh_container vh' = ?c2" and o: "vnm_container_open_key L path key_path None eo s2 =
      (Ok (Suc h), (clear_error eo s2)\<lparr>ff_handles := (ff_handles s2)(Suc h \<mapsto> vh'), ff_next := Suc (Suc h)\<rparr>)"
    by auto
  have "h \<in> dom (ff_handles s2)" by (simp add: s2)
  with o vh' show ?thesis
    by (intro exI [of _ "Suc h"] exI [of _ vh'] exI [of _ "label_from (label_field lb)"]
        exI [of _ "(clear_error eo s2)\<lparr>ff_handles := (ff_handles s2)(Suc h \<mapsto> vh'), ff_next := Suc (Suc h)\<rparr>"])
      (simp add: vhc sel kf)
qed

text \<open>A machine with the demonstration key in the file \<open>k\<close>, and a key-only container of one megabyte on it.\<close>

definition demo_key_ffi :: ffi where
  "demo_key_ffi = demo_ffi\<lparr>key_files := [text_of [107] \<mapsto> encode_key_file demo_libs demo_keypair [65] demo_ffi]\<rparr>"

lemma demo_key_read:
  "read_key_file (text_of [107]) demo_key_ffi = Ok \<lparr>kfd_label = label_str (label_bytes [65]), kfd_created_at = 7,
     kfd_key = demo_keypair, kfd_is_protected = False\<rparr>"
proof -
  have sz: "length (x25519_sk demo_keypair) = 32" "length (mlkem_seed demo_keypair) = 64"
    using demo_keypair_ok by (simp_all add: keypair_ok_def)
  have "\<lparr>x25519_sk = x25519_sk demo_keypair, mlkem_seed = mlkem_seed demo_keypair, hybrid_public = hybrid_public demo_keypair\<rparr> = demo_keypair"
    by (cases demo_keypair) simp
  with decode_key_file_plain [OF demo_laws(2) keypair_public_ok [OF demo_laws(4) demo_keypair_ok] _ sz, of 7 "[65]"]
  show ?thesis
    by (simp add: demo_key_ffi_def read_key_file_def fs_read_def encode_key_file_def) (simp add: demo_ffi_def)
qed

lemma demo_key_only:
  obtains s1 vh where "vnm_container_create demo_libs (Some [99]) None 1 0 0 None True demo_key_ffi = (Ok 1, s1)"
    "ff_handles s1 1 = Some vh" "vc_container_id (vh_container vh) \<noteq> ZERO_ID"
    "\<exists>s2 f. vnm_container_add_key_recipient demo_libs 1 (Some [107]) True s1 = (Ok True, s2) \<and> key_files s2 (text_of [99]) = Some f"
proof -
  let ?s = "select_file (text_of [99]) demo_key_ffi"
  have sel: "\<not> sys_exists ?s" "sys_clock ?s = 7"
    by (simp_all add: select_file_def sys.defs demo_key_ffi_def demo_ffi_def text_of_def char_of_eq_iff)
  obtain c o' where run: "create demo_libs (text_of [99]) [] 1048576 XChaCha20Poly1305 ''interactive'' None None ?s = (Ok c, o')"
    using create_result [OF demo_laws(1,2,3) demo_small_empty_dir, of ?s 1048576 "[]" XChaCha20Poly1305 "text_of [99]" "''interactive''" None] sel
    by (auto simp: MIN_SIZE_def DATA_AREA_OFFSET_eq SLOT_SIZE_def alloc_fits_def)
  have id: "vc_container_id c \<noteq> ZERO_ID" by (rule demo_create_id [OF run]) (simp_all add: sel)
  obtain s1 vh where cr: "vnm_container_create demo_libs (Some [99]) None 1 0 0 None True demo_key_ffi = (Ok 1, s1)"
    and vh: "ff_handles s1 1 = Some vh" "vh_container vh = c"
  proof -
    have "vnm_container_create demo_libs (Some [99]) None 1 0 0 None True demo_key_ffi =
        handle_boxed c (commit_file (text_of [99]) o' (clear_error True demo_key_ffi))"
      using run by (simp add: vnm_container_create_def Let_def cstr_def cstr_or_def cipher_of_id_def wrap64_def return_handle_def)
    with handle_boxed_shape [of c "commit_file (text_of [99]) o' (clear_error True demo_key_ffi)"] that
    show thesis by (auto simp: demo_key_ffi_def demo_ffi_def)
  qed
  have clk: "sys_clock demo_key_ffi < 2 ^ 64" by (simp add: demo_key_ffi_def demo_ffi_def)
  have p: "cstr (Some [99]) = Some [99]" "cstr (Some [107]) = Some [107]" by (simp_all add: cstr_def)
  have "\<exists>s2 f. vnm_container_add_key_recipient demo_libs 1 (Some [107]) True s1 = (Ok True, s2) \<and> key_files s2 (text_of [99]) = Some f"
  proof (rule created_handle [OF demo_libs_ok clk p(1) cr _ vh(1)])
    show "(1 :: nat) \<noteq> 0" "vc_container_id (vh_container vh) \<noteq> ZERO_ID" using id vh by simp_all
    fix c0 pw lb pf o''
    assume c0: "vh_container vh = c0"
      and s1: "s1 = (commit_file (text_of [99]) o'' (clear_error True demo_key_ffi))\<lparr>ff_handles := (ff_handles demo_key_ffi)(1 \<mapsto> vh), ff_next := Suc 1\<rparr>"
      and res: "resume c0 (clear_error True s1) = c0" and o: "sys_exists o''" "vc_path c0 = text_of [99]" "sys_exists c0"
    have cc: "c0 = c" using c0 vh by simp
    obtain c' where ad: "add_key_recipient demo_libs (hybrid_public demo_keypair) c = (Ok (), c')"
      by (rule demo_add_key [OF run _ _ id]) (simp_all add: sel)
    have "text_of [107] \<noteq> text_of [99]" by (simp add: text_of_def char_of_eq_iff)
    with demo_key_read have rd: "read_key_file (text_of [107]) s1 = Ok \<lparr>kfd_label = label_str (label_bytes [65]),
        kfd_created_at = 7, kfd_key = demo_keypair, kfd_is_protected = False\<rparr>"
      by (simp add: s1 read_key_file_def fs_read_def)
    from add_key_file_recipient(2) [OF p(2) _ vh rd, of True demo_libs "Ok ()" c'] ad res cc o add_key_recipient_exists [OF ad]
    show ?thesis by auto
  qed
  with cr vh id that show thesis by simp
qed

theorem key_file_opens_container_witness:
  "\<exists>s1 s2 h' s3. vnm_container_create demo_libs (Some [99]) None 1 0 0 None True demo_key_ffi = (Ok 1, s1) \<and>
    vnm_container_add_key_recipient demo_libs 1 (Some [107]) True s1 = (Ok True, s2) \<and>
    vnm_container_open_key demo_libs (Some [99]) (Some [107]) None True s2 = (Ok h', s3) \<and> h' \<noteq> 0 \<and> h' \<noteq> 1"
proof -
  obtain s1 vh s2 f where c: "vnm_container_create demo_libs (Some [99]) None 1 0 0 None True demo_key_ffi = (Ok 1, s1)"
    and vh: "ff_handles s1 1 = Some vh" "vc_container_id (vh_container vh) \<noteq> ZERO_ID"
    and a: "vnm_container_add_key_recipient demo_libs 1 (Some [107]) True s1 = (Ok True, s2)" "key_files s2 (text_of [99]) = Some f"
    by (rule demo_key_only) blast
  have p: "sys_clock demo_key_ffi < 2 ^ 64" "cstr (Some [99]) = Some [99]" "cstr (Some [107]) = Some [107]"
    "text_of [107] \<noteq> text_of [99]" "keypair_ok demo_libs (kfd_key \<lparr>kfd_label = label_str (label_bytes [65]), kfd_created_at = 7,
     kfd_key = demo_keypair, kfd_is_protected = False\<rparr>)" "(1 :: nat) \<noteq> 0"
    using demo_keypair_ok by (simp_all add: demo_key_ffi_def demo_ffi_def cstr_def text_of_def char_of_eq_iff)
  have clear: "key_slot_clear demo_libs slot key (cipher_of_id 0)" "header_clear demo_libs raw k (cipher_of_id 0) False" for slot key raw k
    by (simp_all add: key_slot_clear_def header_clear_def tried_before_def ALL_CIPHERS_def cipher_of_id_def)
  from key_file_opens_container [OF demo_libs_ok p(1-4) demo_key_read p(5) c p(6) vh a clear] c a(1) show ?thesis by blast
qed

theorem mount_consumes_handle_witness:
  "\<exists>w s s'. session demo_env w s \<and> 1 \<in> ow_handles w \<and>
    vnm_mount_blocking demo_libs (\<lambda>fs mp. (Ok (), fs)) 1 (Some [255]) True True True s = (Ok [], s') \<and>
    fst (vnm_container_free 1 s') = Ok ()"
proof -
  obtain s1 vh where c: "vnm_container_create demo_libs (Some [99]) None 1 0 0 None True demo_key_ffi = (Ok 1, s1)"
    and vh: "ff_handles s1 1 = Some vh"
    by (rule demo_key_only)
  have e: "no_boxes demo_key_ffi" by (simp add: no_boxes_def demo_key_ffi_def demo_ffi_def)
  let ?c = "ContainerCreate (Some [99]) None 1 0 0 None True"
  have p: "perform demo_env ?c demo_key_ffi = (Ok (HandleReply 1), s1)"
    using c by (simp add: replying_def demo_env_def)
  have s: "session demo_env (settled_books ?c (HandleReply 1) s1 nothing_owned) s1"
    by (rule session_call [OF session_start [OF e] _ p]) simp
  have h: "1 \<in> ow_handles (settled_books ?c (HandleReply 1) s1 nothing_owned)"
    by (simp add: settled_books_def Let_def put_def)
  have "vnm_mount_blocking demo_libs (\<lambda>fs mp. (Ok (), fs)) 1 (Some [255]) True True True s1 = (Ok [], s1)"
    "cstr (Some [255]) = None"
    by (simp_all add: vnm_mount_blocking_def cstr_def)
  with mount_consumes_handle [OF s h, of "Some [255]" True True True "[]" s1] s h show ?thesis
    by (auto simp: demo_env_def)
qed

end
