(* ===== verification/Winfsp.thy ===== *)
theory Winfsp
  imports Fuse_Dirs
begin

text \<open>
  The Windows adapter (fs/winfsp.rs). It keeps the whole content of every open file in memory and writes it back
  as a chain of slots. The source is written against a file block with a \<open>next_slot\<close> link and a
  \<open>FileContinuation\<close> kind, which vault_fs.rs no longer has: the node type below is the one the
  adapter names, and its serialisation is a parameter. Paths are the UTF-8 texts of the
  UTF-16 strings; the WinFsp crate (buffers of directory entries, the host loop) is a parameter.
\<close>

section \<open>Nodes\<close>

datatype win_kind = WkFile | WkFileContinuation

record win_file_block =
  wf_kind :: win_kind
  wf_total_size :: nat
  wf_next_slot :: "nat option"
  wf_data :: bytes

datatype win_node = WDirectory directory_block | WFile win_file_block

record win_codec =
  wc_enc :: "win_node \<Rightarrow> bytes option"
  wc_dec :: "bytes \<Rightarrow> win_node option"

datatype fsp_error = FENOENT | FEIO | FEEXIST | FENOTDIR | FWin32 nat

text \<open>The container's node operations at this node type.\<close>

definition win_read_node :: "libs \<Rightarrow> win_codec \<Rightarrow> nat \<Rightarrow> ('a slot_store_scheme, vnm_error, win_node) op" where
  "win_read_node L C slot s = then_op (store_read L slot) (\<lambda>data.
     return_op (ok_or (Serialization ''rmp_serde'') (wc_dec C data))) s"

definition win_update_node :: "libs \<Rightarrow> win_codec \<Rightarrow> nat \<Rightarrow> win_node \<Rightarrow> ('a slot_store_scheme, vnm_error, unit) op" where
  "win_update_node L C slot node s =
     then_op (return_op (ok_or (Serialization ''rmp_serde'') (wc_enc C node)))
       (\<lambda>payload. store_write L slot payload) s"

definition win_write_node :: "libs \<Rightarrow> win_codec \<Rightarrow> win_node \<Rightarrow> ('a slot_store_scheme, vnm_error, nat) op" where
  "win_write_node L C node s =
     then_op alloc (\<lambda>slot.
     then_op (return_op (ok_or (Serialization ''rmp_serde'') (wc_enc C node))) (\<lambda>payload.
     then_op (store_write L slot payload) (\<lambda>_. return_op (Ok slot)))) s"

text \<open>\<open>map_err(|_| e)\<close>, and \<open>let _ =\<close>.\<close>

definition or_fail :: "'f \<Rightarrow> ('s, 'e, 'x) op \<Rightarrow> ('s, 'f, 'x) op" where
  "or_fail e m s = (let (r, s) = m s in (map_err (\<lambda>_. e) r, s))"

definition ignoring :: "('s, 'e, 'x) op \<Rightarrow> ('s, 'f, unit) op" where
  "ignoring m s = (case m s of (Panic p, s) \<Rightarrow> (Panic p, s) | (_, s) \<Rightarrow> (Ok (), s))"

section \<open>Times\<close>

definition WIN_EPOCH_DIFF :: nat where
  "WIN_EPOCH_DIFF = 11644473600"

definition unix_to_win_time :: "nat \<Rightarrow> nat" where
  "unix_to_win_time secs = wrap64 (wrap64 (secs + WIN_EPOCH_DIFF) * 10000000)"

definition now_win_time :: "'a sys_scheme \<Rightarrow> nat" where
  "now_win_time s = unix_to_win_time (sys_clock s)"

definition FILE_ATTRIBUTE_DIRECTORY :: nat where
  "FILE_ATTRIBUTE_DIRECTORY = 0x10"

definition FILE_ATTRIBUTE_ARCHIVE :: nat where
  "FILE_ATTRIBUTE_ARCHIVE = 0x20"

definition FILE_DATA_CHUNK :: nat where
  "FILE_DATA_CHUNK = 30000"

section \<open>Paths\<close>

definition is_sep :: "char \<Rightarrow> bool" where
  "is_sep c \<longleftrightarrow> c = CHR 0x5C \<or> c = CHR ''/''"

definition trim_matches :: "(char \<Rightarrow> bool) \<Rightarrow> string \<Rightarrow> string" where
  "trim_matches P p = rev (dropWhile P (rev (dropWhile P p)))"

fun split_matches :: "(char \<Rightarrow> bool) \<Rightarrow> string \<Rightarrow> string list" where
  "split_matches P [] = [[]]"
| "split_matches P (c # cs) =
     (if P c then [] # split_matches P cs
      else (case split_matches P cs of [] \<Rightarrow> [[c]] | w # ws \<Rightarrow> (c # w) # ws))"

definition ascii_lower :: "char \<Rightarrow> char" where
  "ascii_lower c = (if 65 \<le> (of_char c :: nat) \<and> (of_char c :: nat) \<le> 90 then char_of ((of_char c :: nat) + 32) else c)"

definition eq_ignore_case :: "string \<Rightarrow> string \<Rightarrow> bool" where
  "eq_ignore_case a b \<longleftrightarrow> map ascii_lower a = map ascii_lower b"

definition split_path :: "string \<Rightarrow> string \<times> string" where
  "split_path path =
     (let name = rev (takeWhile (\<lambda>c. \<not> is_sep c) (rev path))
      in if length name = length path then ([], path)
         else (take (length path - length name - 1) path, name))"

section \<open>State\<close>

record win_open_file =
  wo_slot :: nat
  wo_ino :: nat
  wo_data :: bytes
  wo_dirty :: bool
  wo_is_dir :: bool

record winfsp = vnm_container +
  ws_inodes :: inode_map
  ws_open_files :: "nat \<rightharpoonup> win_open_file"
  ws_next_fh :: nat
  ws_pending_delete :: "nat set"

definition winfsp_new :: "vnm_container \<Rightarrow> winfsp" where
  "winfsp_new c = vnm_container.extend c (winfsp.fields (inode_map_new (vc_root_slot c)) Map.empty 1 {})"

definition win_alloc_fh :: "'a winfsp_scheme \<Rightarrow> nat \<times> 'a winfsp_scheme" where
  "win_alloc_fh s = (ws_next_fh s, s\<lparr>ws_next_fh := max (wrap64 (ws_next_fh s + 1)) 1\<rparr>)"

text \<open>The table of inodes is the one of fs/fuse.rs.\<close>

definition win_get_or_alloc :: "nat \<Rightarrow> 'a winfsp_scheme \<Rightarrow> nat \<times> 'a winfsp_scheme" where
  "win_get_or_alloc slot s = (let (ino, m) = get_or_alloc slot (ws_inodes s) in (ino, s\<lparr>ws_inodes := m\<rparr>))"

definition win_forget :: "nat \<Rightarrow> 'a winfsp_scheme \<Rightarrow> 'a winfsp_scheme" where
  "win_forget slot s = s\<lparr>ws_inodes := remove_slot slot (ws_inodes s)\<rparr>"

definition win_read_dir_block :: "libs \<Rightarrow> win_codec \<Rightarrow> nat \<Rightarrow> ('a slot_store_scheme, fsp_error, directory_block option) op" where
  "win_read_dir_block L C slot s = (case fst (win_read_node L C slot s) of
       Ok (WDirectory d) \<Rightarrow> (Ok (Some d), s)
     | Panic p \<Rightarrow> (Panic p, s)
     | _ \<Rightarrow> (Ok None, s))"

abbreviation win_dir :: "libs \<Rightarrow> win_codec \<Rightarrow> nat \<Rightarrow> ('a slot_store_scheme, fsp_error, directory_block) op" where
  "win_dir L C slot \<equiv> then_op (win_read_dir_block L C slot) (\<lambda>d. return_op (ok_or FENOENT d))"

section \<open>The data of a file\<close>

fun load_chain :: "libs \<Rightarrow> win_codec \<Rightarrow> nat \<Rightarrow> nat option \<Rightarrow> 'a slot_store_scheme \<Rightarrow> (fsp_error, bytes) outcome" where
  "load_chain L C fuel None s = Ok []"
| "load_chain L C 0 (Some slot) s = Panic ''does not return''"
| "load_chain L C (Suc fuel) (Some slot) s = (case fst (win_read_node L C slot s) of
       Ok (WFile c) \<Rightarrow> and_then (load_chain L C fuel (wf_next_slot c) s) (\<lambda>rest. Ok (wf_data c @ rest))
     | Panic p \<Rightarrow> Panic p
     | _ \<Rightarrow> Ok [])"

definition load_file_data :: "libs \<Rightarrow> win_codec \<Rightarrow> win_file_block \<Rightarrow> 'a slot_store_scheme \<Rightarrow> (fsp_error, bytes) outcome" where
  "load_file_data L C f s =
     and_then (load_chain L C (length (sys_file s)) (wf_next_slot f) s)
       (\<lambda>rest. Ok (take (wf_total_size f) (wf_data f @ rest)))"

fun free_file_chain :: "libs \<Rightarrow> win_codec \<Rightarrow> nat \<Rightarrow> nat option \<Rightarrow> ('a slot_store_scheme, fsp_error, unit) op" where
  "free_file_chain L C fuel None s = (Ok (), s)"
| "free_file_chain L C 0 (Some slot) s = (Panic ''does not return'', s)"
| "free_file_chain L C (Suc fuel) (Some slot) s = (case fst (win_read_node L C slot s) of
       Ok (WFile c) \<Rightarrow> free_file_chain L C fuel (wf_next_slot c) (free_node L slot s)
     | Panic p \<Rightarrow> (Panic p, s)
     | _ \<Rightarrow> (Ok (), s))"

function chunks_of :: "nat \<Rightarrow> 'x list \<Rightarrow> 'x list list" where
  "chunks_of n xs = (if xs = [] \<or> n = 0 then [] else take n xs # chunks_of n (drop n xs))"
  by pat_completeness auto

termination
proof (relation "measure (\<lambda>(n, xs). length xs)", goal_cases)
  case (2 n xs)
  then have "0 < length xs" "0 < n" by simp_all
  then show ?case by simp
qed simp

declare chunks_of.simps [simp del]

text \<open>The chunks after the first are written from the last to the first, each linked to the one before it.\<close>

primrec write_tail :: "libs \<Rightarrow> win_codec \<Rightarrow> bytes list \<Rightarrow> nat option \<Rightarrow> ('a slot_store_scheme, fsp_error, nat option) op" where
  "write_tail L C [] tail s = (Ok tail, s)"
| "write_tail L C (chunk # chunks) tail s =
     (case win_write_node L C (WFile \<lparr>wf_kind = WkFileContinuation, wf_total_size = 0, wf_next_slot = tail, wf_data = chunk\<rparr>) s of
        (Ok slot, s) \<Rightarrow> write_tail L C chunks (Some slot) s
      | (Err e, s) \<Rightarrow> write_tail L C chunks tail s
      | (Panic p, s) \<Rightarrow> (Panic p, s))"

definition persist_file_data ::
    "libs \<Rightarrow> win_codec \<Rightarrow> nat \<Rightarrow> win_file_block \<Rightarrow> bytes \<Rightarrow> ('a slot_store_scheme, fsp_error, unit) op" where
  "persist_file_data L C first_slot existing new_data s =
     then_op (free_file_chain L C (length (sys_file s)) (wf_next_slot existing)) (\<lambda>_.
     let total_size = length new_data;
         chunks = chunks_of FILE_DATA_CHUNK new_data
     in then_op (write_tail L C (rev (drop 1 chunks)) None) (\<lambda>tail.
        let first_data = (case chunks of [] \<Rightarrow> [] | c # _ \<Rightarrow> c)
        in ignoring (win_update_node L C first_slot (WFile \<lparr>wf_kind = WkFile, wf_total_size = total_size,
             wf_next_slot = tail, wf_data = first_data\<rparr>)))) s"

definition win_upd_file :: "nat \<Rightarrow> (win_open_file \<Rightarrow> win_open_file) \<Rightarrow> 'a winfsp_scheme \<Rightarrow> 'a winfsp_scheme" where
  "win_upd_file fh f s = s\<lparr>ws_open_files := (ws_open_files s)(fh := map_option f (ws_open_files s fh))\<rparr>"

definition win_flush_fh :: "libs \<Rightarrow> win_codec \<Rightarrow> nat \<Rightarrow> ('a winfsp_scheme, fsp_error, unit) op" where
  "win_flush_fh L C fh s = (case ws_open_files s fh of
       None \<Rightarrow> (Ok (), s)
     | Some fo \<Rightarrow>
         (if \<not> wo_dirty fo then (Ok (), s)
          else then_op (\<lambda>s. case fst (win_read_node L C (wo_slot fo) s) of
                 Ok (WFile fb) \<Rightarrow> persist_file_data L C (wo_slot fo) fb (wo_data fo) s
               | Panic p \<Rightarrow> (Panic p, s)
               | _ \<Rightarrow> (Ok (), s))
             (\<lambda>_ s. (Ok (), win_upd_file fh (\<lambda>fo. fo\<lparr>wo_dirty := False\<rparr>) s)) s))"

primrec win_flush_each :: "libs \<Rightarrow> win_codec \<Rightarrow> nat list \<Rightarrow> ('a winfsp_scheme, fsp_error, unit) op" where
  "win_flush_each L C [] s = (Ok (), s)"
| "win_flush_each L C (fh # fhs) s = then_op (win_flush_fh L C fh) (\<lambda>_. win_flush_each L C fhs) s"

definition win_flush_all :: "libs \<Rightarrow> win_codec \<Rightarrow> ('a winfsp_scheme, fsp_error, unit) op" where
  "win_flush_all L C s =
     then_op (win_flush_each L C (hash_order L (dom (ws_open_files s)))) (\<lambda>_. ignoring (flush L)) s"

end
