(* ===== verification/Winfsp_Ops.thy ===== *)
theory Winfsp_Ops
  imports Winfsp
begin

text \<open>
  The callbacks of the Windows adapter (fs/winfsp.rs): resolving a path, opening, reading, writing, removing,
  renaming and listing, and the mount. Each is a function over the state of the adapter, which extends
  the container. Arguments a callback ignores are left out; what it writes through a reference is returned.
\<close>

section \<open>Paths to nodes\<close>

primrec win_walk :: "libs \<Rightarrow> win_codec \<Rightarrow> string list \<Rightarrow> nat \<Rightarrow> ('a slot_store_scheme, fsp_error, nat) op" where
  "win_walk L C [] current s = (Ok current, s)"
| "win_walk L C (component # components) current s =
     then_op (or_fail FENOENT (win_read_node L C current)) (\<lambda>node. case node of
         WFile f \<Rightarrow> return_op (Err (FWin32 87))
       | WDirectory dir \<Rightarrow>
           then_op (return_op (ok_or FENOENT (find (\<lambda>e. eq_ignore_case (de_name e) component) (db_entries dir))))
             (\<lambda>entry. win_walk L C components (de_slot entry))) s"

definition win_resolve :: "libs \<Rightarrow> win_codec \<Rightarrow> string \<Rightarrow> ('a winfsp_scheme, fsp_error, nat \<times> win_node) op" where
  "win_resolve L C path s =
     (let trimmed = trim_matches is_sep path
      in then_op (if trimmed = [] then return_op (Ok (vc_root_slot s))
                  else win_walk L C (split_matches is_sep trimmed) (vc_root_slot s)) (\<lambda>current.
         then_op (or_fail FENOENT (win_read_node L C current)) (\<lambda>node s.
           (Ok (current, node), snd (win_get_or_alloc current s)))) s)"

text \<open>\<open>from_str_truncate\<close> cuts the string at a terminator.\<close>

definition resolve_slot :: "libs \<Rightarrow> win_codec \<Rightarrow> string \<Rightarrow> ('a winfsp_scheme, fsp_error, nat) op" where
  "resolve_slot L C path s =
     (if path = [] then (Ok (vc_root_slot s), s)
      else then_op (win_resolve L C (takeWhile (\<lambda>c. c \<noteq> CHR 0x00) (CHR 0x5C # path)))
             (\<lambda>(slot, _). return_op (Ok slot)) s)"

section \<open>File information\<close>

record win_info =
  wi_file_attributes :: nat
  wi_reparse_tag :: nat
  wi_allocation_size :: nat
  wi_file_size :: nat
  wi_creation_time :: nat
  wi_last_access_time :: nat
  wi_last_write_time :: nat
  wi_change_time :: nat
  wi_index_number :: nat
  wi_hard_links :: nat
  wi_ea_size :: nat

definition alloc_round :: "nat \<Rightarrow> nat" where
  "alloc_round n = unat ((of_nat n + 4095 :: 64 word) AND NOT 4095)"

definition node_to_file_info :: "nat \<Rightarrow> win_node \<Rightarrow> nat \<Rightarrow> win_info" where
  "node_to_file_info slot node created_at =
     (let ts = unix_to_win_time created_at
      in case node of
           WDirectory _ \<Rightarrow>
             \<lparr>wi_file_attributes = FILE_ATTRIBUTE_DIRECTORY, wi_reparse_tag = 0, wi_allocation_size = 0,
              wi_file_size = 0, wi_creation_time = ts, wi_last_access_time = ts, wi_last_write_time = ts,
              wi_change_time = ts, wi_index_number = slot, wi_hard_links = 0, wi_ea_size = 0\<rparr>
         | WFile f \<Rightarrow>
             \<lparr>wi_file_attributes = FILE_ATTRIBUTE_ARCHIVE, wi_reparse_tag = 0,
              wi_allocation_size = alloc_round (wf_total_size f), wi_file_size = wf_total_size f,
              wi_creation_time = ts, wi_last_access_time = ts, wi_last_write_time = ts,
              wi_change_time = ts, wi_index_number = slot, wi_hard_links = 0, wi_ea_size = 0\<rparr>)"

definition win_new_dir :: win_node where
  "win_new_dir = WDirectory \<lparr>db_kind = KDirectory, db_entries = []\<rparr>"

definition win_sized_file :: "nat \<Rightarrow> win_node" where
  "win_sized_file n = WFile \<lparr>wf_kind = WkFile, wf_total_size = n, wf_next_slot = None, wf_data = []\<rparr>"

definition win_is_dir :: "win_node \<Rightarrow> bool" where
  "win_is_dir node \<longleftrightarrow> (case node of WDirectory _ \<Rightarrow> True | WFile _ \<Rightarrow> False)"

record file_security =
  fs_attributes :: nat
  fs_reparse :: bool
  fs_sz_security_descriptor :: nat

definition get_security_by_name :: "libs \<Rightarrow> win_codec \<Rightarrow> string \<Rightarrow> ('a winfsp_scheme, fsp_error, file_security) op" where
  "get_security_by_name L C file_name =
     then_op (win_resolve L C file_name) (\<lambda>(slot, node). return_op (Ok
       \<lparr>fs_attributes = (if win_is_dir node then FILE_ATTRIBUTE_DIRECTORY else FILE_ATTRIBUTE_ARCHIVE),
        fs_reparse = False, fs_sz_security_descriptor = 0\<rparr>))"

definition get_security :: nat where
  "get_security = 0"

section \<open>Opening and creating\<close>

text \<open>A new handle on a slot, as \<open>open\<close> and \<open>create\<close> register it.\<close>

definition win_register ::
    "nat \<Rightarrow> win_node \<Rightarrow> bytes \<Rightarrow> ('a winfsp_scheme, fsp_error, nat \<times> win_info) op" where
  "win_register slot node data s =
     (let (ino, s) = win_get_or_alloc slot s;
          (fh, s) = win_alloc_fh s;
          s = s\<lparr>ws_open_files := (ws_open_files s)(fh \<mapsto>
            \<lparr>wo_slot = slot, wo_ino = ino, wo_data = data, wo_dirty = False, wo_is_dir = win_is_dir node\<rparr>)\<rparr>
      in (Ok (fh, node_to_file_info slot node (vc_created_at s)), s))"

definition win_open :: "libs \<Rightarrow> win_codec \<Rightarrow> string \<Rightarrow> ('a winfsp_scheme, fsp_error, nat \<times> win_info) op" where
  "win_open L C file_name =
     then_op (win_resolve L C file_name) (\<lambda>(slot, node).
     then_op (\<lambda>s. (case node of WDirectory _ \<Rightarrow> Ok [] | WFile f \<Rightarrow> load_file_data L C f s, s)) (\<lambda>data.
       win_register slot node data))"

definition win_create ::
    "libs \<Rightarrow> win_codec \<Rightarrow> string \<Rightarrow> nat \<Rightarrow> nat \<Rightarrow> ('a winfsp_scheme, fsp_error, nat \<times> win_info) op" where
  "win_create L C file_name create_options file_attributes =
     (let (parent_path, name) = split_path (trim_matches is_sep file_name)
      in then_op (resolve_slot L C parent_path) (\<lambda>parent_slot.
         let is_dir = (file_attributes AND FILE_ATTRIBUTE_DIRECTORY \<noteq> 0 \<or> create_options AND 1 \<noteq> 0);
             new_node = (if is_dir then win_new_dir else win_sized_file 0)
         in then_op (or_fail FEIO (win_write_node L C new_node)) (\<lambda>new_slot.
            then_op (win_dir L C parent_slot) (\<lambda>parent_dir.
              if \<exists>e \<in> set (db_entries parent_dir). eq_ignore_case (de_name e) name
              then (\<lambda>s. (Err FEEXIST, free_node L new_slot s))
              else then_op (or_fail FEIO (win_update_node L C parent_slot (WDirectory (parent_dir\<lparr>db_entries :=
                      db_entries parent_dir @ [\<lparr>de_name = name, de_slot = new_slot,
                        de_kind = (if is_dir then KDirectory else KFile)\<rparr>]\<rparr>))))
                   (\<lambda>_. win_register new_slot new_node [])))))"

section \<open>Closing and removing\<close>

text \<open>\<open>position\<close> of the first element, and a search that stops at the first success.\<close>

definition list_position :: "('x \<Rightarrow> bool) \<Rightarrow> 'x list \<Rightarrow> nat option" where
  "list_position P xs = (let i = length (takeWhile (\<lambda>x. \<not> P x) xs) in if i < length xs then Some i else None)"

primrec any_op :: "('x \<Rightarrow> ('s, 'e, bool) op) \<Rightarrow> 'x list \<Rightarrow> ('s, 'e, bool) op" where
  "any_op f [] s = (Ok False, s)"
| "any_op f (x # xs) s = then_op (f x) (\<lambda>found. if found then return_op (Ok True) else any_op f xs) s"

text \<open>Removing the entry at a position of a directory, and freeing its node with the chain behind it.\<close>

definition remove_target ::
    "libs \<Rightarrow> win_codec \<Rightarrow> nat \<Rightarrow> directory_block \<Rightarrow> nat \<Rightarrow> nat \<Rightarrow> ('a winfsp_scheme, fsp_error, bool) op" where
  "remove_target L C dir_slot dir pos target =
     then_op (ignoring (win_update_node L C dir_slot (WDirectory (dir\<lparr>db_entries := vec_remove pos (db_entries dir)\<rparr>)))) (\<lambda>_.
     then_op (\<lambda>s. case fst (win_read_node L C target s) of
           Ok (WFile f) \<Rightarrow> free_file_chain L C (length (sys_file s)) (wf_next_slot f) s
         | Panic p \<Rightarrow> (Panic p, s)
         | _ \<Rightarrow> (Ok (), s)) (\<lambda>_ s.
       (Ok True, win_forget target (free_node L target s))))"

primrec delete_walk :: "libs \<Rightarrow> win_codec \<Rightarrow> nat \<Rightarrow> nat \<Rightarrow> nat \<Rightarrow> ('a winfsp_scheme, fsp_error, bool) op" where
  "delete_walk L C target 0 dir_slot s = (Panic ''does not return'', s)"
| "delete_walk L C target (Suc fuel) dir_slot s = (case fst (win_read_node L C dir_slot s) of
       Ok (WDirectory dir) \<Rightarrow>
         (case list_position (\<lambda>e. de_slot e = target) (db_entries dir) of
            Some pos \<Rightarrow> remove_target L C dir_slot dir pos target s
          | None \<Rightarrow> any_op (\<lambda>e. if de_kind e = KDirectory then delete_walk L C target fuel (de_slot e)
              else return_op (Ok False)) (db_entries dir) s)
     | Panic p \<Rightarrow> (Panic p, s)
     | _ \<Rightarrow> (Ok False, s))"

definition delete_slot_from_tree :: "libs \<Rightarrow> win_codec \<Rightarrow> nat \<Rightarrow> ('a winfsp_scheme, fsp_error, bool) op" where
  "delete_slot_from_tree L C target s = delete_walk L C target (length (sys_file s)) (vc_root_slot s) s"

definition win_close :: "libs \<Rightarrow> win_codec \<Rightarrow> nat \<Rightarrow> ('a winfsp_scheme, fsp_error, unit) op" where
  "win_close L C fh =
     then_op (win_flush_fh L C fh) (\<lambda>_ s.
       let slot = map_option wo_slot (ws_open_files s fh);
           s = s\<lparr>ws_open_files := (ws_open_files s)(fh := None)\<rparr>
       in then_op (\<lambda>s. case slot of
              None \<Rightarrow> (Ok (), s)
            | Some slot \<Rightarrow>
                (if slot \<in> ws_pending_delete s
                 then ignoring (delete_slot_from_tree L C slot) (s\<lparr>ws_pending_delete := ws_pending_delete s - {slot}\<rparr>)
                 else (Ok (), s)))
            (\<lambda>_. ignoring (flush L)) s)"

definition win_set_delete :: "nat \<Rightarrow> bool \<Rightarrow> 'a winfsp_scheme \<Rightarrow> 'a winfsp_scheme" where
  "win_set_delete fh delete_file s = (case ws_open_files s fh of
       None \<Rightarrow> s
     | Some fo \<Rightarrow> s\<lparr>ws_pending_delete := (if delete_file then insert (wo_slot fo) (ws_pending_delete s)
         else ws_pending_delete s - {wo_slot fo})\<rparr>)"

definition win_cleanup :: "nat \<Rightarrow> nat \<Rightarrow> 'a winfsp_scheme \<Rightarrow> 'a winfsp_scheme" where
  "win_cleanup fh flags s =
     (if flags AND 1 \<noteq> 0 then
        (case ws_open_files s fh of
           None \<Rightarrow> s
         | Some fo \<Rightarrow> s\<lparr>ws_pending_delete := insert (wo_slot fo) (ws_pending_delete s)\<rparr>)
      else s)"

section \<open>Reading and writing a handle\<close>

text \<open>\<open>buffer\<close> is the caller's; the count is a 32-bit integer.\<close>

definition win_read :: "nat \<Rightarrow> bytes \<Rightarrow> nat \<Rightarrow> ('a winfsp_scheme, fsp_error, nat \<times> bytes) op" where
  "win_read fh buffer offset s =
     then_op (return_op (ok_or FENOENT (ws_open_files s fh))) (\<lambda>fo.
       let start = min offset (length (wo_data fo));
           fin = min (start + length buffer) (length (wo_data fo));
           n = fin - start
       in return_op (Ok (n mod 2 ^ 32, subrange start fin (wo_data fo) @ drop n buffer))) s"

definition resize :: "nat \<Rightarrow> bytes \<Rightarrow> bytes" where
  "resize n data = take n data @ replicate (n - length data) 0"

definition win_write ::
    "nat \<Rightarrow> bytes \<Rightarrow> nat \<Rightarrow> bool \<Rightarrow> bool \<Rightarrow> ('a winfsp_scheme, fsp_error, nat \<times> win_info option) op" where
  "win_write fh buffer offset write_to_end_of_file constrained_io s =
     then_op (return_op (ok_or FENOENT (ws_open_files s fh))) (\<lambda>fo s.
       let actual_offset = (if write_to_end_of_file then length (wo_data fo) else offset)
       in if constrained_io \<and> length (wo_data fo) \<le> actual_offset then (Ok (0, None), s)
          else let start = actual_offset;
                   fin = wrap64 (start + length buffer);
                   data = (if length (wo_data fo) < fin then resize fin (wo_data fo) else wo_data fo)
               in if fin < start
                  then (Panic ''slice index starts past its end'', win_upd_file fh (\<lambda>fo. fo\<lparr>wo_data := data\<rparr>) s)
                  else let data = blit start buffer data;
                           s = win_upd_file fh (\<lambda>fo. fo\<lparr>wo_data := data, wo_dirty := True\<rparr>) s
                       in (Ok (length buffer mod 2 ^ 32,
                            Some (node_to_file_info (wo_slot fo) (win_sized_file (length data)) (vc_created_at s))), s)) s"

definition win_flush ::
    "libs \<Rightarrow> win_codec \<Rightarrow> nat option \<Rightarrow> ('a winfsp_scheme, fsp_error, win_info option) op" where
  "win_flush L C file_context = (case file_context of
       Some fh \<Rightarrow> then_op (win_flush_fh L C fh) (\<lambda>_ s. (Ok (map_option (\<lambda>fo. node_to_file_info (wo_slot fo)
           (win_sized_file (length (wo_data fo))) (vc_created_at s)) (ws_open_files s fh)), s))
     | None \<Rightarrow> then_op (win_flush_all L C) (\<lambda>_. return_op (Ok None)))"

definition get_file_info :: "nat \<Rightarrow> ('a winfsp_scheme, fsp_error, win_info) op" where
  "get_file_info fh s =
     then_op (return_op (ok_or FENOENT (ws_open_files s fh))) (\<lambda>fo. return_op (Ok
       (if wo_is_dir fo then node_to_file_info (wo_slot fo) win_new_dir (vc_created_at s)
        else node_to_file_info (wo_slot fo) (win_sized_file (length (wo_data fo))) (vc_created_at s)))) s"

definition set_basic_info :: "nat \<Rightarrow> ('a winfsp_scheme, fsp_error, win_info) op" where
  "set_basic_info fh = get_file_info fh"

definition set_file_size :: "nat \<Rightarrow> nat \<Rightarrow> bool \<Rightarrow> ('a winfsp_scheme, fsp_error, win_info) op" where
  "set_file_size fh new_size set_allocation_size s =
     (if set_allocation_size then get_file_info fh s
      else then_op (return_op (ok_or FENOENT (ws_open_files s fh))) (\<lambda>fo s.
        let s = win_upd_file fh (\<lambda>fo. fo\<lparr>wo_data := resize new_size (wo_data fo), wo_dirty := True\<rparr>) s
        in (Ok (node_to_file_info (wo_slot fo) (win_sized_file new_size) (vc_created_at s)), s)) s)"

section \<open>Renaming\<close>

text \<open>The two halves of \<open>rename\<close>: the entry leaves its directory, then it enters the other one.\<close>

definition rename_out :: "libs \<Rightarrow> win_codec \<Rightarrow> string \<Rightarrow> ('a winfsp_scheme, fsp_error, unit) op" where
  "rename_out L C file_name =
     (let (old_parent_path, old_name) = split_path (trim_matches is_sep file_name)
      in then_op (resolve_slot L C old_parent_path) (\<lambda>old_parent_slot.
         then_op (win_dir L C old_parent_slot) (\<lambda>old_parent.
           or_fail FEIO (win_update_node L C old_parent_slot (WDirectory (old_parent\<lparr>db_entries :=
             filter (\<lambda>e. \<not> eq_ignore_case (de_name e) old_name) (db_entries old_parent)\<rparr>))))))"

definition rename_in ::
    "libs \<Rightarrow> win_codec \<Rightarrow> string \<Rightarrow> nat \<Rightarrow> node_kind \<Rightarrow> bool \<Rightarrow> ('a winfsp_scheme, fsp_error, unit) op" where
  "rename_in L C new_file_name slot kind replace_if_exists =
     (let (new_parent_path, new_name) = split_path (trim_matches is_sep new_file_name)
      in then_op (resolve_slot L C new_parent_path) (\<lambda>new_parent_slot.
         then_op (win_dir L C new_parent_slot) (\<lambda>new_parent s.
           let pos = list_position (\<lambda>e. eq_ignore_case (de_name e) new_name) (db_entries new_parent)
           in if pos \<noteq> None \<and> \<not> replace_if_exists then (Err FEEXIST, s)
              else let (new_parent, s) = (case pos of
                       None \<Rightarrow> (new_parent, s)
                     | Some pos \<Rightarrow>
                         (let old_slot = de_slot (db_entries new_parent ! pos)
                          in (new_parent\<lparr>db_entries := vec_remove pos (db_entries new_parent)\<rparr>,
                              win_forget old_slot (free_node L old_slot s))))
                   in or_fail FEIO (win_update_node L C new_parent_slot (WDirectory (new_parent\<lparr>db_entries :=
                        db_entries new_parent @ [\<lparr>de_name = new_name, de_slot = slot, de_kind = kind\<rparr>]\<rparr>))) s)))"

definition win_rename ::
    "libs \<Rightarrow> win_codec \<Rightarrow> string \<Rightarrow> string \<Rightarrow> bool \<Rightarrow> ('a winfsp_scheme, fsp_error, unit) op" where
  "win_rename L C file_name new_file_name replace_if_exists =
     then_op (win_resolve L C file_name) (\<lambda>(slot, node).
     let kind = (if win_is_dir node then KDirectory else KFile)
     in then_op (rename_out L C file_name) (\<lambda>_. rename_in L C new_file_name slot kind replace_if_exists))"

section \<open>The volume and its directories\<close>

record volume_info =
  vi_total_size :: nat
  vi_free_size :: nat
  vi_volume_label :: string

definition get_volume_info :: "'a winfsp_scheme \<Rightarrow> volume_info" where
  "get_volume_info s =
     \<lparr>vi_total_size = wrap64 (vc_outer_limit s * SLOT_SIZE), vi_free_size = wrap64 (length (free_list s) * SLOT_SIZE),
      vi_volume_label = ''Venom''\<rparr>"

definition matches_pattern :: "string option \<Rightarrow> dir_entry \<Rightarrow> bool" where
  "matches_pattern pattern e \<longleftrightarrow> (case pattern of None \<Rightarrow> True
     | Some pat \<Rightarrow> pat = [] \<or> pat = ''*'' \<or> eq_ignore_case (de_name e) (trim_matches (\<lambda>c. c = CHR ''*'') pat))"

text \<open>
  \<open>put\<close> is \<open>DirInfo::write_to_buffer\<close> of the crate: the buffer with one more entry, or None when it is
  full. The loop stops at the first entry that does not fit.
\<close>

primrec list_entries ::
    "libs \<Rightarrow> win_codec \<Rightarrow> (string \<Rightarrow> win_info \<Rightarrow> 'b \<Rightarrow> 'b option) \<Rightarrow> string option \<Rightarrow> string option \<Rightarrow> bool \<Rightarrow>
       dir_entry list \<Rightarrow> nat \<Rightarrow> 'b \<Rightarrow> 'a winfsp_scheme \<Rightarrow> (fsp_error, nat \<times> 'b) outcome" where
  "list_entries L C put pattern marker past_marker [] added buffer s = Ok (added, buffer)"
| "list_entries L C put pattern marker past_marker (e # es) added buffer s =
     (if \<not> past_marker
      then list_entries L C put pattern marker
             (case marker of Some m \<Rightarrow> eq_ignore_case (de_name e) m | None \<Rightarrow> False) es added buffer s
      else if \<not> matches_pattern pattern e then list_entries L C put pattern marker True es added buffer s
      else (case fst (win_read_node L C (de_slot e) s) of
          Err _ \<Rightarrow> list_entries L C put pattern marker True es added buffer s
        | Panic p \<Rightarrow> Panic p
        | Ok child_node \<Rightarrow>
            (case put (de_name e) (node_to_file_info (de_slot e) child_node (vc_created_at s)) buffer of
               None \<Rightarrow> Ok (added, buffer)
             | Some buffer \<Rightarrow> list_entries L C put pattern marker True es (added + 1) buffer s)))"

definition read_directory ::
    "libs \<Rightarrow> win_codec \<Rightarrow> (string \<Rightarrow> win_info \<Rightarrow> 'b \<Rightarrow> 'b option) \<Rightarrow> nat \<Rightarrow> string option \<Rightarrow> string option \<Rightarrow> 'b \<Rightarrow>
       ('a winfsp_scheme, fsp_error, nat \<times> 'b) op" where
  "read_directory L C put fh pattern marker buffer s =
     then_op (return_op (ok_or FENOENT (ws_open_files s fh))) (\<lambda>fo.
       if \<not> wo_is_dir fo then return_op (Err FENOTDIR)
       else then_op (win_dir L C (wo_slot fo)) (\<lambda>dir s.
         (list_entries L C put pattern marker (marker = None) (db_entries dir) 0 buffer s, s))) s"

section \<open>Mounting\<close>

record fsp_params =
  sector_size :: nat
  sectors_per_allocation :: nat
  max_component_length :: nat
  volume_creation_time :: nat
  volume_serial_number :: nat
  file_info_timeout :: nat
  case_sensitive_search :: bool
  case_preserved_names :: bool
  unicode_on_disk :: bool
  persistent_acls :: bool
  post_cleanup_when_modified_only :: bool
  volume_prefix :: string
  file_system_name :: string

definition venom_params :: "'a sys_scheme \<Rightarrow> fsp_params" where
  "venom_params s =
     \<lparr>sector_size = 512, sectors_per_allocation = 1, max_component_length = 255,
      volume_creation_time = now_win_time s, volume_serial_number = 0x56454E4D, file_info_timeout = 1000,
      case_sensitive_search = False, case_preserved_names = True, unicode_on_disk = True, persistent_acls = False,
      post_cleanup_when_modified_only = True, volume_prefix = '''', file_system_name = ''Venom''\<rparr>"

text \<open>
  The host of the crate is a parameter: it fails to start, fails to mount, or serves callbacks until the volume is
  dismounted. It gives the file system back to be dropped, which flushes it.
\<close>

datatype host_result = Served | InitFailed string | MountFailed string

type_synonym win_host = "fsp_params \<Rightarrow> winfsp \<Rightarrow> string \<Rightarrow> host_result \<times> winfsp"

definition win_mount :: "libs \<Rightarrow> win_codec \<Rightarrow> win_host \<Rightarrow> string \<Rightarrow> (vnm_container, vnm_error, unit) op" where
  "win_mount L C host mountpoint c =
     (let (r, fs) = host (venom_params c) (winfsp_new c) mountpoint
      in case win_flush_all L C fs of
           (Panic p, fs) \<Rightarrow> (Panic p, vnm_container.truncate fs)
         | (_, fs) \<Rightarrow> (case r of
               Served \<Rightarrow> Ok ()
             | InitFailed e \<Rightarrow> Err (InvalidFormat (''WinFSP init: '' @ e))
             | MountFailed e \<Rightarrow> Err (Io (OtherIo (''WinFSP mount: '' @ e))), vnm_container.truncate fs))"

end
