(* ===== verification/Winfsp_Nodes.thy ===== *)
theory Winfsp_Nodes
  imports Winfsp_Ops
begin

text \<open>
  The container as the Windows adapter uses it: the heap of nodes of the FUSE adapter's lemmas, at the
  node type of fs/winfsp.rs, and the chains of slots that hold the content of a file.
\<close>

section \<open>A heap of nodes\<close>

text \<open>The law of the serialisation: a node it encodes it decodes again, and no encoding is empty.\<close>

definition codec_ok :: "win_codec \<Rightarrow> bool" where
  "codec_ok C \<longleftrightarrow> (\<forall>n data. wc_enc C n = Some data \<longrightarrow> data \<noteq> [] \<and> wc_dec C data = Some n)"

definition win_inv :: "win_codec \<Rightarrow> libs \<Rightarrow> 'a slot_store_scheme \<Rightarrow> bool" where
  "win_inv C L s \<longleftrightarrow> node_inv L s \<and> codec_ok C"

definition any_win_node :: "win_node \<Rightarrow> bool" where
  "any_win_node n \<longleftrightarrow> True"

definition win_rd :: "win_codec \<Rightarrow> libs \<Rightarrow> nat \<Rightarrow> ('a slot_store_scheme, vnm_error, win_node) op" where
  "win_rd C L = win_read_node L C"

definition win_wr :: "win_codec \<Rightarrow> libs \<Rightarrow> nat \<Rightarrow> win_node \<Rightarrow> ('a slot_store_scheme, vnm_error, unit) op" where
  "win_wr C L = win_update_node L C"

definition win_new :: "win_codec \<Rightarrow> libs \<Rightarrow> win_node \<Rightarrow> ('a slot_store_scheme, vnm_error, nat) op" where
  "win_new C L = win_write_node L C"

lemma win_read_node_fst:
  "fst (win_read_node L C i s) =
     and_then (fst (store_read L i s)) (\<lambda>data. ok_or (Serialization ''rmp_serde'') (wc_dec C data))"
proof -
  obtain r where "store_read L i s = (r, s)"
    using store_read_state [of L i s] by (metis prod.collapse)
  then show ?thesis by (cases r) (simp_all add: win_read_node_def)
qed

lemma win_read_node_state [simp]: "snd (win_read_node L C i s) = s"
proof -
  obtain r where "store_read L i s = (r, s)"
    using store_read_state [of L i s] by (metis prod.collapse)
  then show ?thesis by (cases r) (simp_all add: win_read_node_def)
qed

lemma win_update_node_cases:
  assumes "win_update_node L C i n s = (r, s')"
  obtains "wc_enc C n = None" "s' = s" "r = Err (Serialization ''rmp_serde'')"
  | data where "wc_enc C n = Some data" "store_write L i data s = (r, s')"
  using assms by (cases "wc_enc C n") (simp_all add: win_update_node_def)

lemma win_write_node_states:
  assumes "win_write_node L C n s = (r, s')"
  obtains "s' = s" "\<And>i. r \<noteq> Ok i" | i where "alloc s = (Ok i, s')" "\<And>i. r \<noteq> Ok i"
    | i s1 data q where "alloc s = (Ok i, s1)" "wc_enc C n = Some data" "store_write L i data s1 = (q, s')"
      "\<And>j. r = Ok j \<Longrightarrow> j = i \<and> q = Ok ()"
proof (cases "fst (alloc s)")
  case (Ok i)
  obtain s1 where a: "alloc s = (Ok i, s1)" using Ok by (metis prod.collapse)
  show thesis
  proof (cases "wc_enc C n")
    case None
    with assms a show thesis by (intro that(2) [of i]) (auto simp: win_write_node_def)
  next
    case (Some data)
    obtain q s2 where w: "store_write L i data s1 = (q, s2)" by fastforce
    with assms a Some have "s2 = s'" "\<And>j. r = Ok j \<Longrightarrow> j = i \<and> q = Ok ()"
      by (cases q; auto simp: win_write_node_def)+
    with a w Some show thesis by (intro that(3) [of i s1 data q]) blast+
  qed
next
  case (Err x)
  then have "alloc s = (Err x, s)" by (auto simp: alloc_def split: if_splits)
  with assms show thesis by (intro that(1)) (auto simp: win_write_node_def)
next
  case (Panic p)
  then show thesis by (auto simp: alloc_def split: if_splits)
qed

lemmas win_ops = win_rd_def win_wr_def win_new_def win_inv_def

lemma win_read_other:
  assumes "node_inv L s" "in_volume s i" "store_write L i data s = (r, s')" "in_volume s j" "j \<noteq> i"
  shows "fst (win_read_node L C j s') = fst (win_read_node L C j s)"
  using dev.read_other [OF node_inv_device [OF assms(1)] assms(2,4,5,3)] by (simp add: win_read_node_fst)

lemma win_read_same:
  assumes "node_inv L s" "codec_ok C" "in_volume s i" "wc_enc C n = Some data" "store_write L i data s = (Ok (), s')"
  shows "fst (win_read_node L C i s') = Ok n"
proof -
  have "nonempty_payload data" "wc_dec C data = Some n"
    using assms(2,4) by (auto simp: codec_ok_def nonempty_payload_def)
  with dev.read_same [OF node_inv_device [OF assms(1)] assms(3) _ assms(5)] show ?thesis
    by (simp add: win_read_node_fst)
qed

interpretation wheap: node_heap "win_inv C" in_volume any_win_node "win_rd C" "win_wr C" pool_owned free_set "win_new C" free_node
  for C
proof (unfold_locales, goal_cases)
  case 1
  show ?case by (simp add: win_ops)
next
  case (2 L s i d r s')
  then have u: "win_update_node L C i d s = (r, s')" and ni: "node_inv L s" "codec_ok C" by (simp_all add: win_ops)
  from u show ?case
    by (cases rule: win_update_node_cases) (use store_write_node [OF ni(1) 2(2)] ni in \<open>auto simp: win_ops\<close>)
next
  case (3 L s i d s')
  then have u: "win_update_node L C i d s = (Ok (), s')" and ni: "node_inv L s" "codec_ok C" by (simp_all add: win_ops)
  from u show ?case
    by (cases rule: win_update_node_cases) (use win_read_same [OF ni 3(2)] in \<open>auto simp: win_ops\<close>)
next
  case (4 L s i j d r s')
  then have u: "win_update_node L C i d s = (r, s')" and ni: "node_inv L s" by (simp_all add: win_ops)
  from u show ?case
    by (cases rule: win_update_node_cases) (use win_read_other [OF ni 4(2) _ 4(3,4)] in \<open>auto simp: win_ops\<close>)
next
  case (5 i s)
  then show ?case by (simp add: pool_owned_def in_volume_def)
next
  case (6 L s)
  then show ?case using pool.avail_owned by (auto simp: win_ops node_inv_def)
next
  case (7 L s i d r s')
  then have u: "win_update_node L C i d s = (r, s')" and ni: "node_inv L s" by (simp_all add: win_ops)
  from u show ?case
    by (cases rule: win_update_node_cases) (use store_write_node [OF ni 7(2)] in auto)
next
  case (8 L s d q s')
  then have w: "win_write_node L C d s = (q, s')" and ni: "node_inv L s" "codec_ok C" by (simp_all add: win_ops)
  have inv: "store_inv s" using ni(1) by (simp add: node_inv_def)
  have al: "win_inv C L s1 \<and> in_volume s1 = in_volume s \<and> pool_owned s1 = pool_owned s \<and> free_set s1 \<subseteq> free_set s \<and>
      (\<forall>j \<in> pool_owned s - free_set s. fst (win_rd C L j s1) = fst (win_rd C L j s))" if "alloc s = (Ok i, s1)" for i s1
    using alloc_reads [OF ni(1) that] ni(2) alloc_store_read [OF inv that]
    by (auto simp: win_ops win_read_node_fst pool_owned_def in_volume_def)
  from w show ?case
  proof (cases rule: win_write_node_states)
    case 1
    with 8 show ?thesis by simp
  next
    case (2 i)
    from al [OF 2(1)] show ?thesis .
  next
    case (3 i s1 data q2)
    note a = alloc_reads [OF ni(1) 3(1)] and w = store_write_node [OF alloc_reads(1,6) [OF ni(1) 3(1)] 3(3)]
    have "fst (win_rd C L j s') = fst (win_rd C L j s)" if "j \<in> pool_owned s - free_set s" for j
    proof -
      have "in_volume s1 j" "j \<noteq> i" using that a(2,5) by (auto simp: pool_owned_def in_volume_def)
      from win_read_other [OF a(1,6) 3(3) this] al [OF 3(1)] that show ?thesis by (simp add: win_ops)
    qed
    with a w ni(2) show ?thesis by (auto simp: win_ops)
  qed
next
  case (9 L s d i s')
  then have w: "win_write_node L C d s = (Ok i, s')" and ni: "node_inv L s" "codec_ok C" by (simp_all add: win_ops)
  from w show ?case
  proof (cases rule: win_write_node_states)
    case (3 k s1 data q2)
    note a = alloc_reads [OF ni(1) 3(1)] and w = store_write_node [OF alloc_reads(1,6) [OF ni(1) 3(1)] 3(3)]
    have "store_write L i data s1 = (Ok (), s')" "k = i" using 3(3,4) by auto
    with win_read_same [OF a(1) ni(2) a(6) 3(2)] a w show ?thesis by (simp add: win_ops)
  qed auto
next
  case (10 L s i)
  then have ni: "node_inv L s" "codec_ok C" by (simp_all add: win_ops)
  have inv: "store_inv s" using ni(1) by (simp add: node_inv_def)
  from free_node_reads [OF ni(1) 10(2,3)] free_node_store_read [OF inv 10(2,3)] ni(2)
  show ?case by (simp add: win_ops win_read_node_fst)
qed

end
