(* ===== verification/Winfsp_Chain.thy ===== *)
theory Winfsp_Chain
  imports Winfsp_Nodes Fuse_Removal
begin

text \<open>
  The content of a file as the Windows adapter stores it: a head block and a chain of continuation blocks.
  Loading follows the chain, persisting frees the old chain, writes a new one from its end and
  rewrites the head.
\<close>

section \<open>Chains\<close>

primrec win_chain :: "libs \<Rightarrow> win_codec \<Rightarrow> 'a slot_store_scheme \<Rightarrow> nat list \<Rightarrow> nat option \<Rightarrow> bytes \<Rightarrow> bool" where
  "win_chain L C s [] next_slot data \<longleftrightarrow> next_slot = None \<and> data = []"
| "win_chain L C s (i # is) next_slot data \<longleftrightarrow> next_slot = Some i \<and>
     (\<exists>f rest. fst (win_read_node L C i s) = Ok (WFile f) \<and> data = wf_data f @ rest \<and>
        win_chain L C s is (wf_next_slot f) rest)"

lemma win_chain_cong:
  "\<forall>i \<in> set is. fst (win_read_node L C i t) = fst (win_read_node L C i s) \<Longrightarrow>
     win_chain L C t is nx data = win_chain L C s is nx data"
  by (induction "is" arbitrary: nx data) simp_all

lemma win_chain_frame:
  assumes "wheap.frame C L X s t" "set is \<subseteq> heap.live s" "set is \<inter> X = {}" "win_chain L C s is nx data"
  shows "win_chain L C t is nx data" "set is \<subseteq> heap.live t"
proof -
  have "fst (win_read_node L C i t) = fst (win_read_node L C i s) \<and> i \<in> heap.live t" if "i \<in> set is" for i
    using that assms(2,3) wheap.frame_read [OF assms(1), of i] wheap.frame_live [OF assms(1), of i]
    by (auto simp: win_rd_def)
  then show "win_chain L C t is nx data" "set is \<subseteq> heap.live t" using win_chain_cong [of "is" L C t s] assms(4) by auto
qed

lemma load_chain_eq: "win_chain L C s is nx data \<Longrightarrow> length is \<le> fuel \<Longrightarrow> load_chain L C fuel nx s = Ok data"
proof (induction "is" arbitrary: nx data fuel)
  case (Cons i "is")
  then obtain f rest n where f: "nx = Some i" "fst (win_read_node L C i s) = Ok (WFile f)" "data = wf_data f @ rest"
    "win_chain L C s is (wf_next_slot f) rest" and n: "fuel = Suc n" "length is \<le> n"
    by (cases fuel) auto
  from Cons.IH [OF f(4) n(2)] f n show ?case by simp
qed simp

lemma chain_fits:
  assumes "node_inv L s" "set is \<subseteq> heap.live s" "distinct is"
  shows "length is \<le> length (sys_file s)"
  using live_fuel [OF assms] by (simp add: chain_fuel_def)

lemma free_file_chain_eq:
  assumes "win_inv C L s" "win_chain L C s is nx data" "set is \<subseteq> heap.live s" "distinct is" "length is \<le> fuel"
  shows "free_file_chain L C fuel nx s = (Ok (), fold (free_node L) is s)"
  using assms
proof (induction "is" arbitrary: s nx data fuel)
  case (Cons i "is")
  then obtain f rest n where f: "nx = Some i" "fst (win_read_node L C i s) = Ok (WFile f)"
    "win_chain L C s is (wf_next_slot f) rest" and n: "fuel = Suc n" "length is \<le> n"
    by (cases fuel) auto
  have "i \<in> heap.live s" using Cons.prems(3) by simp
  note d = wheap.frame_del [OF Cons.prems(1) this]
  have "set is \<subseteq> heap.live s" "set is \<inter> {i} = {}" "distinct is" using Cons.prems(3,4) by auto
  note c = win_chain_frame [OF d(1) this(1,2) f(3)]
  from Cons.IH [OF wheap.frame_inv [OF d(1)] c \<open>distinct is\<close> n(2)] f n show ?case by simp
qed simp

section \<open>Nodes that fit a slot\<close>

text \<open>
  MessagePack encodes a file block of the adapter, whose numbers are 64 bits wide, in its data and a small
  number of bytes.
\<close>

definition small_file_block :: "win_file_block \<Rightarrow> bool" where
  "small_file_block f \<longleftrightarrow> length (wf_data f) \<le> FILE_DATA_CHUNK \<and> wf_total_size f < 2 ^ 64 \<and>
     (\<forall>i. wf_next_slot f = Some i \<longrightarrow> i < 2 ^ 64)"

definition codec_compact :: "win_codec \<Rightarrow> bool" where
  "codec_compact C \<longleftrightarrow> (\<forall>f. small_file_block f \<longrightarrow>
     (\<exists>enc. wc_enc C (WFile f) = Some enc \<and> length enc \<le> length (wf_data f) + 1000))"

lemma store_small:
  assumes "aead_ok L" "hash_ok L" "store_inv s" "in_volume s i" "length enc \<le> FILE_DATA_CHUNK + 1000"
  obtains s' where "store_write L i enc s = (Ok (), s')"
proof -
  have v: "volume_ok s" "i < slot_limit s" using assms(3,4) by (simp_all add: store_inv_def in_volume_def)
  have l: "length enc < 2 ^ 30" "length enc + vnmb_overhead (store_cipher s) + 4 \<le> SLOT_SIZE"
    using assms(5) vnmb_overhead_bounds(2) [of "store_cipher s"] by (simp_all add: FILE_DATA_CHUNK_def SLOT_SIZE_def)
  from store_write_result [OF assms(1,2) v l(1)] l(2) have "fst (store_write L i enc s) = Ok ()" by simp
  then show thesis using that by (metis prod.collapse)
qed

lemma enc_small:
  assumes "codec_compact C" "small_file_block f"
  obtains enc where "wc_enc C (WFile f) = Some enc" "length enc \<le> FILE_DATA_CHUNK + 1000"
proof -
  obtain enc where "wc_enc C (WFile f) = Some enc" "length enc \<le> length (wf_data f) + 1000"
    using assms unfolding codec_compact_def by blast
  with assms(2) show thesis by (intro that [of enc]) (simp_all add: small_file_block_def)
qed

lemma win_update_small:
  assumes "win_inv C L s" "hash_ok L" "codec_compact C" "small_file_block f" "in_volume s i"
  obtains s' where "win_update_node L C i (WFile f) s = (Ok (), s')"
proof -
  obtain enc where e: "wc_enc C (WFile f) = Some enc" "length enc \<le> FILE_DATA_CHUNK + 1000"
    by (rule enc_small [OF assms(3,4)])
  have "aead_ok L" "store_inv s" using assms(1) by (simp_all add: win_inv_def node_inv_def)
  from store_small [OF this(1) assms(2) this(2) assms(5) e(2)] obtain s' where "store_write L i enc s = (Ok (), s')" .
  with e(1) show thesis by (intro that [of s']) (simp add: win_update_node_def)
qed

lemma win_write_small:
  assumes "win_inv C L s" "hash_ok L" "codec_compact C" "small_file_block f" "free_set s \<noteq> {}"
  obtains i s' where "win_write_node L C (WFile f) s = (Ok i, s')" "i < 2 ^ 64"
proof -
  obtain enc where e: "wc_enc C (WFile f) = Some enc" "length enc \<le> FILE_DATA_CHUNK + 1000"
    by (rule enc_small [OF assms(3,4)])
  have inv: "node_inv L s" "aead_ok L" "store_inv s" using assms(1) by (simp_all add: win_inv_def node_inv_def)
  from pool.take_Ok [OF inv(3) assms(5)] obtain i s1 where a: "alloc s = (Ok i, s1)" by blast
  note r = alloc_reads [OF inv(1) a]
  have s1: "store_inv s1" using r(1) by (simp add: node_inv_def)
  obtain s' where w: "store_write L i enc s1 = (Ok (), s')"
    by (rule store_small [OF inv(2) assms(2) s1 r(6) e(2)])
  have v: "volume_ok s1" "i < slot_limit s1" using s1 r(6) by (simp_all add: store_inv_def in_volume_def)
  have "slot_limit s1 \<le> slot_limit s1 * SLOT_SIZE" by (simp add: SLOT_SIZE_def)
  with v(2) volume_okD(3,4) [OF v(1)] have "i < 2 ^ 63" by linarith
  then have "i < 2 ^ 64" by simp
  with a w e(1) show thesis by (intro that [of i s']) (simp_all add: win_write_node_def)
qed

section \<open>Container calls leave the adapter's fields alone\<close>

lemma store_write_more:
  assumes "node_inv L s" "in_volume s i" "store_write L i data s = (r, s')"
  shows "slot_store.more s' = slot_store.more s"
proof -
  have "same_volume s s'"
    by (rule store_write_same_volume [OF _ _ assms(3)]) (use assms(1,2) in \<open>simp_all add: node_inv_def store_inv_def in_volume_def\<close>)
  then show ?thesis by (simp add: same_volume_fields)
qed

lemma win_update_more:
  assumes "node_inv L s" "in_volume s i" "win_update_node L C i n s = (r, s')"
  shows "slot_store.more s' = slot_store.more s"
  using assms(3) by (cases rule: win_update_node_cases) (use store_write_more [OF assms(1,2)] in auto)

lemma win_write_more:
  assumes "node_inv L s" "win_write_node L C n s = (r, s')"
  shows "slot_store.more s' = slot_store.more s"
  using assms(2)
proof (cases rule: win_write_node_states)
  case (3 i s1 data q)
  note a = alloc_reads [OF assms(1) 3(1)]
  from store_write_more [OF a(1,6) 3(3)] alloc_more [OF 3(1)] show ?thesis by simp
qed (auto dest: alloc_more)

section \<open>Persisting\<close>

lemma concat_chunks_of: "0 < n \<Longrightarrow> concat (chunks_of n xs) = xs"
proof (induction n xs rule: chunks_of.induct)
  case (1 n xs)
  then show ?case by (subst chunks_of.simps) (cases "xs = []"; simp)
qed

lemma length_chunk_of: "c \<in> set (chunks_of n xs) \<Longrightarrow> length c \<le> n"
proof (induction n xs rule: chunks_of.induct)
  case (1 n xs)
  show ?case
  proof (cases "xs = [] \<or> n = 0")
    case True
    then have "chunks_of n xs = []" by (subst chunks_of.simps) simp
    with 1(2) show ?thesis by simp
  next
    case False
    then have "chunks_of n xs = take n xs # chunks_of n (drop n xs)" by (subst chunks_of.simps) simp
    with 1(2) have "c = take n xs \<or> c \<in> set (chunks_of n (drop n xs))" by simp
    with 1(1) [OF False] show ?thesis by auto
  qed
qed

definition cont_block :: "nat option \<Rightarrow> bytes \<Rightarrow> win_file_block" where
  "cont_block tail chunk = \<lparr>wf_kind = WkFileContinuation, wf_total_size = 0, wf_next_slot = tail, wf_data = chunk\<rparr>"

lemma write_tail_spec:
  assumes "win_inv C L s" "hash_ok L" "codec_compact C" "win_chain L C s is tail data" "set is \<subseteq> heap.live s" "distinct is"
    and "\<forall>c \<in> set chunks. length c \<le> FILE_DATA_CHUNK" "length chunks \<le> card (free_set s)" "\<forall>i. tail = Some i \<longrightarrow> i < 2 ^ 64"
  shows "\<exists>tail' news s'. write_tail L C chunks tail s = (Ok tail', s') \<and>
    win_chain L C s' (news @ is) tail' (concat (rev chunks) @ data) \<and> distinct (news @ is) \<and>
    set news \<inter> heap.live s = {} \<and> heap.live s' = heap.live s \<union> set news \<and> wheap.frame C L {} s s' \<and>
    slot_store.more s' = slot_store.more s \<and> (\<forall>i. tail' = Some i \<longrightarrow> i < 2 ^ 64)"
  using assms(1,4-9)
proof (induction chunks arbitrary: s tail "is" data)
  case Nil
  then show ?case by (intro exI [of _ tail] exI [of _ "[]"] exI [of _ s]) (simp add: wheap.frame_refl)
next
  case (Cons c chunks)
  let ?n = "WFile (cont_block tail c)"
  have ne: "free_set s \<noteq> {}" using Cons.prems(6) by auto
  have sm: "small_file_block (cont_block tail c)" using Cons.prems(5,7) by (simp add: small_file_block_def cont_block_def)
  obtain i s1 where w: "win_write_node L C ?n s = (Ok i, s1)" "i < 2 ^ 64"
    by (rule win_write_small [OF Cons.prems(1) assms(2,3) sm ne])
  have w': "win_new C L ?n s = (Ok i, s1)" and any: "any_win_node ?n" using w(1) by (simp_all add: win_new_def any_win_node_def)
  note fr = wheap.frame_new [OF Cons.prems(1) w'] and nl = wheap.new_live [OF Cons.prems(1) any w']
    and nk = wheap.new_Ok [OF Cons.prems(1) any w']
  note m = win_write_more [OF conjunct1 [OF Cons.prems(1) [unfolded win_inv_def]] w(1)]
  have empty: "set is \<inter> {} = {}" by simp
  note ch = win_chain_frame [OF fr Cons.prems(3) empty Cons.prems(2)]
  have ni: "i \<notin> set is" using nl(2) Cons.prems(3) by auto
  have rd: "fst (win_read_node L C i s1) = Ok ?n" using nk by (simp add: win_rd_def)
  have chain1: "win_chain L C s1 (i # is) (Some i) (c @ data)"
    using rd ch(1) by (simp add: cont_block_def)
  have sub: "set (i # is) \<subseteq> heap.live s1" "distinct (i # is)" using nl(1) ch(2) Cons.prems(4) ni by auto
  have cs: "\<forall>c \<in> set chunks. length c \<le> FILE_DATA_CHUNK" "\<forall>j. Some i = Some j \<longrightarrow> j < 2 ^ 64" using Cons.prems(5) w(2) by auto
  have "finite (free_set s)" by (simp add: free_set_def)
  then have room: "length chunks \<le> card (free_set s1)" using Cons.prems(6) nk by simp
  obtain tail' news s' where r: "write_tail L C chunks (Some i) s1 = (Ok tail', s')"
    "win_chain L C s' (news @ i # is) tail' (concat (rev chunks) @ c @ data)" "distinct (news @ i # is)"
    "set news \<inter> heap.live s1 = {}" "heap.live s' = heap.live s1 \<union> set news" "wheap.frame C L {} s1 s'"
    "slot_store.more s' = slot_store.more s1" "\<forall>i. tail' = Some i \<longrightarrow> i < 2 ^ 64"
    using Cons.IH [OF wheap.frame_inv [OF fr] chain1 sub cs(1) room cs(2)] by (elim exE conjE) (rule that)
  show ?case
  proof (intro exI conjI)
    show "write_tail L C (c # chunks) tail s = (Ok tail', s')" using w(1) r(1) by (simp add: cont_block_def)
    show "win_chain L C s' ((news @ [i]) @ is) tail' (concat (rev (c # chunks)) @ data)" using r(2) by simp
    show "distinct ((news @ [i]) @ is)" using r(3) by simp
    show "set (news @ [i]) \<inter> heap.live s = {}" using r(4) nl by auto
    show "heap.live s' = heap.live s \<union> set (news @ [i])" using r(5) nl(3) by auto
    show "wheap.frame C L {} s s'" by (rule wheap.frame_same [OF fr r(6)])
    show "slot_store.more s' = slot_store.more s" using r(7) m by simp
  qed (rule r(8))
qed

text \<open>A file on disk: its head, the slots of its chain, and its content.\<close>

definition win_stored ::
    "libs \<Rightarrow> win_codec \<Rightarrow> 'a slot_store_scheme \<Rightarrow> nat \<Rightarrow> win_file_block \<Rightarrow> nat list \<Rightarrow> bytes \<Rightarrow> bool" where
  "win_stored L C s slot f is data \<longleftrightarrow> slot \<in> heap.live s \<and> fst (win_read_node L C slot s) = Ok (WFile f) \<and>
     wf_total_size f = length data \<and> (\<exists>tail. wf_data f @ tail = data \<and> win_chain L C s is (wf_next_slot f) tail) \<and>
     set is \<subseteq> heap.live s - {slot} \<and> distinct is"

lemma stored_load:
  assumes "node_inv L s" "win_stored L C s slot f is data"
  shows "load_file_data L C f s = Ok data"
proof -
  from assms(2) obtain tail where t: "wf_data f @ tail = data" "win_chain L C s is (wf_next_slot f) tail"
    and m: "wf_total_size f = length data" "set is \<subseteq> heap.live s" "distinct is" by (auto simp: win_stored_def)
  have "take (length data) (wf_data f @ tail) = data" by (simp only: t(1)) simp
  with load_chain_eq [OF t(2) chain_fits [OF assms(1) m(2,3)]] m(1) show ?thesis by (simp only: load_file_data_def and_then.simps)
qed

lemma chunks_tail:
  "0 < n \<Longrightarrow> (case chunks_of n xs of [] \<Rightarrow> [] | c # _ \<Rightarrow> c) @ concat (drop 1 (chunks_of n xs)) = xs"
  using concat_chunks_of [of n xs] by (cases "chunks_of n xs") simp_all

lemma free_set_live: "win_inv C L s \<Longrightarrow> free_set s = pool_owned s - heap.live s"
  using wheap.avail_owned [of C L s] by (auto simp: heap.live_def)

text \<open>Persisting stores the new content and touches nothing but the head, the old chain and free slots.\<close>

lemma persist_spec:
  assumes "win_inv C L s" "hash_ok L" "codec_compact C" "win_stored L C s slot f is old"
    and "length data < 2 ^ 64" "length (chunks_of FILE_DATA_CHUNK data) \<le> Suc (card (free_set s) + length is)"
  obtains s' f' news where "persist_file_data L C slot f data s = (Ok (), s')" "win_stored L C s' slot f' news data"
    "wheap.frame C L (insert slot (set is)) s s'" "heap.live s' = heap.live s - set is \<union> set news"
    "set news \<inter> (heap.live s - set is) = {}" "slot_store.more s' = slot_store.more s"
proof -
  let ?cs = "chunks_of FILE_DATA_CHUNK data" and ?s1 = "fold (free_node L) is s"
  have ni: "node_inv L s" and co: "codec_ok C" using assms(1) by (simp_all add: win_inv_def)
  from assms(4) obtain tail where st: "slot \<in> heap.live s" "fst (win_read_node L C slot s) = Ok (WFile f)"
    "win_chain L C s is (wf_next_slot f) tail" "set is \<subseteq> heap.live s" "slot \<notin> set is" "distinct is"
    by (auto simp: win_stored_def)
  have fr: "free_file_chain L C (length (sys_file s)) (wf_next_slot f) s = (Ok (), ?s1)"
    by (rule free_file_chain_eq [OF assms(1) st(3,4,6) chain_fits [OF ni st(4,6)]])
  note d = wheap.frame_del_all [OF assms(1) st(4,6)] and m1 = fold_free_more [OF ni st(4,6)]
  have d1: "wheap.frame C L (set is) s ?s1" "heap.live ?s1 = heap.live s - set is"
    by (rule conjunct1 [OF d], rule conjunct2 [OF d])
  note inv1 = wheap.frame_inv [OF d1(1)]
  have ow: "pool_owned ?s1 = pool_owned s" using d1(1) by (simp add: wheap.frame_def)
  have "free_set ?s1 = free_set s \<union> set is" "free_set s \<inter> set is = {}"
    unfolding free_set_live [OF inv1] free_set_live [OF assms(1)] ow d1(2) using st(4) by (auto simp: heap.live_def)
  then have "card (free_set ?s1) = card (free_set s) + length is"
    using distinct_card [OF st(6)] by (simp add: card_Un_disjoint free_set_def)
  then have room: "length (rev (drop 1 ?cs)) \<le> card (free_set ?s1)" using assms(6) by simp
  have cs: "\<forall>c \<in> set (rev (drop 1 ?cs)). length c \<le> FILE_DATA_CHUNK"
    using length_chunk_of [of _ FILE_DATA_CHUNK data] by (auto dest: in_set_dropD)
  have e: "win_chain L C ?s1 [] None []" "set [] \<subseteq> heap.live ?s1" "distinct ([] :: nat list)"
    "\<forall>i. (None :: nat option) = Some i \<longrightarrow> i < 2 ^ 64" by simp_all
  from write_tail_spec [OF inv1 assms(2,3) e(1,2,3) cs room e(4), unfolded rev_rev_ident append_Nil2] obtain tail' news s2 where
    w: "write_tail L C (rev (drop 1 ?cs)) None ?s1 = (Ok tail', s2)"
    "win_chain L C s2 news tail' (concat (drop 1 ?cs))" "distinct news" "set news \<inter> heap.live ?s1 = {}"
    "heap.live s2 = heap.live ?s1 \<union> set news" "wheap.frame C L {} ?s1 s2" "slot_store.more s2 = slot_store.more ?s1"
    "\<forall>i. tail' = Some i \<longrightarrow> i < 2 ^ 64" by (elim exE conjE) (rule that)
  let ?first = "case ?cs of [] \<Rightarrow> [] | c # _ \<Rightarrow> c"
  let ?f' = "\<lparr>wf_kind = WkFile, wf_total_size = length data, wf_next_slot = tail', wf_data = ?first\<rparr>"
  have "length ?first \<le> FILE_DATA_CHUNK" using length_chunk_of [of _ FILE_DATA_CHUNK data] by (cases ?cs) auto
  then have sm: "small_file_block ?f'" using assms(5) w(8) by (simp add: small_file_block_def)
  note inv2 = wheap.frame_inv [OF w(6)]
  have s2: "slot \<in> heap.live s2" "slot \<notin> set news" using w(4,5) d1(2) st(1,5) by auto
  obtain s' where u: "win_update_node L C slot (WFile ?f') s2 = (Ok (), s')"
    by (rule win_update_small [OF inv2 assms(2,3) sm wheap.live_valid [OF s2(1)]])
  then have u': "win_wr C L slot (WFile ?f') s2 = (Ok (), s')" by (simp add: win_wr_def)
  note fw = wheap.frame_wr [OF inv2 wheap.live_valid [OF s2(1)] u']
  have rd: "fst (win_read_node L C slot s') = Ok (WFile ?f')"
    using wheap.read_same [OF inv2 wheap.live_valid [OF s2(1)] _ u'] by (simp add: win_rd_def any_win_node_def)
  have nw: "set news \<subseteq> heap.live s2" "set news \<inter> {slot} = {}" using w(5) s2(2) by auto
  note ch = win_chain_frame [OF fw(1) nw w(2)]
  have m2: "slot_store.more s' = slot_store.more s"
    using win_update_more [OF _ wheap.live_valid [OF s2(1)] u] inv2 w(7) m1 by (simp add: win_inv_def)
  show thesis
  proof (rule that)
    show "persist_file_data L C slot f data s = (Ok (), s')"
      by (simp only: persist_file_data_def Let_def then_op_def fr w(1) ignoring_def u prod.case outcome.case)
    show "win_stored L C s' slot ?f' news data"
      unfolding win_stored_def
    proof (intro conjI exI [of _ "concat (drop 1 ?cs)"])
      show "wf_data ?f' @ concat (drop 1 ?cs) = data" using chunks_tail [of FILE_DATA_CHUNK data] by (simp add: FILE_DATA_CHUNK_def)
      show "set news \<subseteq> heap.live s' - {slot}" using ch(2) s2(2) by blast
    qed (use rd ch(1) w(3) s2(1) fw(2) in simp_all)
    have "wheap.frame C L (set is \<union> {} \<union> {slot}) s s'"
      by (rule wheap.frame_trans [OF wheap.frame_trans [OF d1(1) w(6)] fw(1)])
    then show "wheap.frame C L (insert slot (set is)) s s'" by simp
    show "heap.live s' = heap.live s - set is \<union> set news" using fw(2) w(5) d1(2) by simp
    show "set news \<inter> (heap.live s - set is) = {}" using w(4) d1(2) by simp
  qed (rule m2)
qed

end
