(* ===== verification/Winfsp_Dirs.thy ===== *)
theory Winfsp_Dirs
  imports Winfsp_Chain
begin

text \<open>
  Lemmas for the callbacks of the Windows adapter: changes of its own fields leave the heap alone, a
  file name without a separator is looked up in the root directory, ignoring case, and the directory
  operations as steps on that directory.
\<close>

section \<open>The adapter's fields\<close>

lemma win_same_heap_updates [simp]:
  fixes s :: "'a winfsp_scheme"
  shows "same_heap s (s\<lparr>ws_inodes := m\<rparr>)" "same_heap s (s\<lparr>ws_open_files := f\<rparr>)" "same_heap s (s\<lparr>ws_next_fh := n\<rparr>)"
    "same_heap s (s\<lparr>ws_pending_delete := p\<rparr>)" "same_heap s (snd (win_get_or_alloc i s))" "same_heap s (snd (win_alloc_fh s))"
    "same_heap s (win_forget i s)" "same_heap s (win_upd_file fh g s)"
  by (simp_all add: same_heap_def slot_store.truncate_def win_get_or_alloc_def win_alloc_fh_def win_forget_def
      win_upd_file_def Let_def split_beta)

lemma same_heap_refl: "same_heap s s"
  by (simp add: same_heap_def)

lemma same_heap_trans: "same_heap s t \<Longrightarrow> same_heap t u \<Longrightarrow> same_heap s u"
  by (simp add: same_heap_def)

lemma store_read_cong:
  "sys_file t = sys_file s \<Longrightarrow> master_key t = master_key s \<Longrightarrow> store_cipher t = store_cipher s \<Longrightarrow>
     fst (store_read L i t) = fst (store_read L i s)"
  by (simp add: store_read_def then_op_def pread_def derive_slot_key_def Let_def split: prod.splits outcome.splits)

lemma same_heap_win:
  assumes "same_heap s t"
  shows "win_inv C L t = win_inv C L s" "fst (win_read_node L C i t) = fst (win_read_node L C i s)"
    "win_chain L C t is nx data = win_chain L C s is nx data" "win_stored L C t slot f is data = win_stored L C s slot f is data"
proof -
  note f = same_heap_fields [OF assms] and h = same_heap_heap [OF assms]
  show "win_inv C L t = win_inv C L s" by (simp add: win_inv_def h)
  show rd: "fst (win_read_node L C i t) = fst (win_read_node L C i s)" for i
    by (simp add: win_read_node_fst store_read_cong [OF f(1,2,9)])
  show ch: "win_chain L C t is nx data = win_chain L C s is nx data" for "is" nx data by (rule win_chain_cong) (simp add: rd)
  show "win_stored L C t slot f is data = win_stored L C s slot f is data" by (simp add: win_stored_def rd ch h)
qed

lemma same_heap_win_frame: "win_inv C L s \<Longrightarrow> same_heap s t \<Longrightarrow> wheap.frame C L X s t"
  by (simp add: wheap.frame_def same_heap_win win_rd_def same_heap_heap)

lemma win_more_fields:
  assumes "slot_store.more (t :: 'a winfsp_scheme) = slot_store.more s"
  shows "ws_inodes t = ws_inodes s" "ws_open_files t = ws_open_files s" "ws_next_fh t = ws_next_fh s"
    "ws_pending_delete t = ws_pending_delete s" "vc_root_slot t = vc_root_slot s" "vc_created_at t = vc_created_at s"
  using assms by (cases s; cases t; simp)+

lemma win_field_simps [simp]:
  "vc_root_slot (snd (win_get_or_alloc i s)) = vc_root_slot s" "ws_open_files (snd (win_get_or_alloc i s)) = ws_open_files s"
  "ws_next_fh (snd (win_get_or_alloc i s)) = ws_next_fh s" "vc_root_slot (win_forget i s) = vc_root_slot s"
  by (simp_all add: win_get_or_alloc_def win_forget_def Let_def split_beta)

section \<open>File names in the root directory\<close>

definition plain_name :: "string \<Rightarrow> bool" where
  "plain_name name \<longleftrightarrow> name \<noteq> [] \<and> (\<forall>c \<in> set name. \<not> is_sep c)"

definition root_path :: "string \<Rightarrow> string" where
  "root_path name = CHR 0x5C # name"

lemma trim_plain: "plain_name name \<Longrightarrow> trim_matches is_sep (root_path name) = name"
proof -
  assume p: "plain_name name"
  then obtain c cs where c: "name = c # cs" "\<not> is_sep c" by (cases name) (auto simp: plain_name_def)
  obtain d ds where d: "rev name = d # ds" "\<not> is_sep d"
    using p by (cases "rev name") (auto simp: plain_name_def simp flip: set_rev [of name])
  have "dropWhile is_sep (root_path name) = name" using c by (simp add: root_path_def is_sep_def)
  with d show ?thesis by (simp add: trim_matches_def)
qed

lemma split_plain: "plain_name name \<Longrightarrow> split_path name = ([], name)"
proof -
  assume "plain_name name"
  then have "takeWhile (\<lambda>c. \<not> is_sep c) (rev name) = rev name" by (simp add: plain_name_def takeWhile_eq_all_conv)
  then show ?thesis unfolding split_path_def Let_def by (simp only: rev_rev_ident simp_thms if_True)
qed

lemma split_matches_plain: "\<forall>c \<in> set name. \<not> is_sep c \<Longrightarrow> split_matches is_sep name = [name]"
  by (induction name) simp_all

text \<open>The entry a name stands for: the first one equal to it up to the case of its letters.\<close>

definition win_entry :: "string \<Rightarrow> directory_block \<Rightarrow> dir_entry option" where
  "win_entry name d = find (\<lambda>e. eq_ignore_case (de_name e) name) (db_entries d)"

definition win_root :: "libs \<Rightarrow> win_codec \<Rightarrow> 'a winfsp_scheme \<Rightarrow> directory_block \<Rightarrow> bool" where
  "win_root L C s d \<longleftrightarrow> win_inv C L s \<and> vc_root_slot s \<in> heap.live s \<and>
     fst (win_read_node L C (vc_root_slot s) s) = Ok (WDirectory d)"

lemma sized_file_info [simp]: "wi_file_size (node_to_file_info slot (win_sized_file n) t) = n"
  by (simp add: node_to_file_info_def win_sized_file_def Let_def)

lemma win_read_eq: "fst (win_read_node L C i s) = r \<Longrightarrow> win_read_node L C i s = (r, s)"
  by (metis prod.collapse win_read_node_state)

lemma resolve_plain:
  assumes "win_root L C s d" "plain_name name"
  shows "win_resolve L C (root_path name) s = (case win_entry name d of
      None \<Rightarrow> (Err FENOENT, s)
    | Some e \<Rightarrow> (case fst (win_read_node L C (de_slot e) s) of
        Ok node \<Rightarrow> (Ok (de_slot e, node), snd (win_get_or_alloc (de_slot e) s))
      | Err _ \<Rightarrow> (Err FENOENT, s)
      | Panic p \<Rightarrow> (Panic p, s)))"
proof -
  have sp: "split_matches is_sep name = [name]" "name \<noteq> []"
    using assms(2) split_matches_plain by (simp_all add: plain_name_def)
  have rd: "win_read_node L C (vc_root_slot s) s = (Ok (WDirectory d), s)"
    by (rule win_read_eq) (use assms(1) in \<open>simp add: win_root_def\<close>)
  note r = win_read_eq [of L C _ s, OF refl]
  show ?thesis
  proof (cases "win_entry name d")
    case None
    with sp rd show ?thesis
      by (simp add: win_resolve_def trim_plain [OF assms(2)] or_fail_def then_op_def win_entry_def)
  next
    case (Some e)
    with sp rd r [of "de_slot e"] show ?thesis
      by (cases "fst (win_read_node L C (de_slot e) s)") (simp_all add: win_resolve_def trim_plain [OF assms(2)] or_fail_def then_op_def win_entry_def)
  qed
qed

lemma resolve_plain_keeps:
  assumes "win_root L C s d" "plain_name name" "win_resolve L C (root_path name) s = (r, s')"
  shows "same_heap s s'" "vc_root_slot s' = vc_root_slot s" "ws_open_files s' = ws_open_files s" "ws_next_fh s' = ws_next_fh s"
  using assms(3) unfolding resolve_plain [OF assms(1,2)]
  by (auto split: option.splits outcome.splits simp: same_heap_refl)

lemma win_root_same_heap: "same_heap s t \<Longrightarrow> vc_root_slot t = vc_root_slot s \<Longrightarrow> win_root L C t d = win_root L C s d"
  by (simp add: win_root_def same_heap_win same_heap_heap)

lemma read_root:
  assumes "win_root L C s d"
  shows "win_read_dir_block L C (vc_root_slot s) s = (Ok (Some d), s)" "resolve_slot L C [] s = (Ok (vc_root_slot s), s)"
  using assms by (simp_all add: win_root_def win_read_dir_block_def then_op_def resolve_slot_def)

text \<open>Writing the root directory back.\<close>

lemma update_root:
  assumes "win_root L C s d" "win_update_node L C (vc_root_slot s) (WDirectory d') s = (Ok (), s')"
  shows "win_root L C s' d'" "wheap.frame C L {vc_root_slot s} s s'" "heap.live s' = heap.live s"
    "slot_store.more s' = slot_store.more s"
proof -
  have r: "win_inv C L s" "in_volume s (vc_root_slot s)" "vc_root_slot s \<in> heap.live s" "node_inv L s"
    using assms(1) heap.live_valid by (auto simp: win_root_def win_inv_def)
  have u: "win_wr C L (vc_root_slot s) (WDirectory d') s = (Ok (), s')" using assms(2) by (simp add: win_wr_def)
  note w = wheap.frame_wr [OF r(1,2) u] and rs = wheap.read_same [OF r(1,2) _ u]
  show m: "slot_store.more s' = slot_store.more s" by (rule win_update_more [OF r(4,2) assms(2)])
  show "wheap.frame C L {vc_root_slot s} s s'" "heap.live s' = heap.live s" by (rule w)+
  show "win_root L C s' d'"
    using rs w r(3) wheap.frame_inv [OF w(1)] win_more_fields(5) [OF m] by (simp add: win_root_def win_rd_def any_win_node_def)
qed

end
