(* ===== verification/Winfsp_Demo.thy ===== *)
theory Winfsp_Demo
  imports Winfsp_Dirs Fuse_Demo
begin

text \<open>
  A volume to run the callbacks of the Windows adapter on: a serialisation of its nodes that satisfies the laws of
  \<open>Winfsp_Nodes\<close> and \<open>Winfsp_Chain\<close>, and the twenty-slot container with two files in its root directory.
\<close>

section \<open>A serialisation\<close>

primrec put_win_kind :: "win_kind \<Rightarrow> byte" where
  "put_win_kind WkFile = 0"
| "put_win_kind WkFileContinuation = 1"

definition get_win_kind :: "byte \<Rightarrow> win_kind" where
  "get_win_kind b = (if b = 0 then WkFile else WkFileContinuation)"

primrec put_win :: "win_node \<Rightarrow> bytes" where
  "put_win (WDirectory d) = put_node (Directory d)"
| "put_win (WFile f) = 1 # put_win_kind (wf_kind f) # put_nat (wf_total_size f) @ put_option (wf_next_slot f) @
     put_bytes (wf_data f)"

definition get_win_file :: "bytes \<Rightarrow> win_node option" where
  "get_win_file bs = (case bs of [] \<Rightarrow> None | k # r1 \<Rightarrow>
     (case get_nat r1 of None \<Rightarrow> None | Some (sz, r2) \<Rightarrow>
     (case get_option r2 of None \<Rightarrow> None | Some (nx, r3) \<Rightarrow>
     (case get_bytes r3 of None \<Rightarrow> None | Some (d, r4) \<Rightarrow>
        Some (WFile \<lparr>wf_kind = get_win_kind k, wf_total_size = sz, wf_next_slot = nx, wf_data = d\<rparr>)))))"

definition get_win :: "bytes \<Rightarrow> win_node option" where
  "get_win bs = (case bs of [] \<Rightarrow> None | b # r \<Rightarrow>
     if b = 0 then (case get_dir r of Some (Directory d) \<Rightarrow> Some (WDirectory d) | _ \<Rightarrow> None) else get_win_file r)"

definition demo_codec :: win_codec where
  "demo_codec = \<lparr>wc_enc = \<lambda>n. Some (put_win n), wc_dec = get_win\<rparr>"

lemma get_put_win: "get_win (put_win n) = Some n"
proof (cases n)
  case (WDirectory d)
  then show ?thesis by (simp add: get_win_def get_dir_def)
next
  case (WFile f)
  then show ?thesis by (cases "wf_kind f") (simp_all add: get_win_def get_win_file_def get_win_kind_def)
qed

lemma demo_codec_ok: "codec_ok demo_codec"
proof -
  have "put_win n \<noteq> []" for n by (cases n) simp_all
  then show ?thesis by (simp add: codec_ok_def demo_codec_def get_put_win)
qed

lemma length_put_nat: "0 < k \<Longrightarrow> n < 128 ^ k \<Longrightarrow> length (put_nat n) \<le> k"
proof (induction k arbitrary: n)
  case (Suc k)
  show ?case
  proof (cases "n < 128")
    case True
    then show ?thesis by (simp add: put_nat.simps [of n])
  next
    case False
    then have k: "0 < k" using Suc.prems by (cases k) simp_all
    have "n div 128 < 128 ^ k" using Suc.prems by (simp add: less_mult_imp_div_less mult.commute)
    from Suc.IH [OF k this] False show ?thesis by (simp add: put_nat.simps [of n])
  qed
qed simp

lemma length_put_u64: "n < 2 ^ 64 \<Longrightarrow> length (put_nat n) \<le> 10"
  by (rule length_put_nat) simp_all

lemma demo_codec_compact: "codec_compact demo_codec"
proof -
  have "length (put_win (WFile f)) \<le> length (wf_data f) + 1000" if f: "small_file_block f" for f
  proof -
    have "length (put_nat (wf_total_size f)) \<le> 10" "length (put_nat (length (wf_data f))) \<le> 10"
      using f by (simp_all add: length_put_u64 small_file_block_def FILE_DATA_CHUNK_def)
    moreover have "length (put_option (wf_next_slot f)) \<le> 11"
      using f length_put_u64 by (cases "wf_next_slot f") (simp_all add: small_file_block_def put_option_def)
    ultimately show ?thesis by (simp add: put_bytes_def)
  qed
  then show ?thesis by (simp add: codec_compact_def demo_codec_def)
qed

section \<open>Node writes that succeed\<close>

lemma demo_win_store:
  assumes "node_inv demo_libs s" "in_volume s i" "length (put_win n) \<le> 1000"
  obtains s' where "store_write demo_libs i (put_win n) s = (Ok (), s')"
  by (rule store_small [of demo_libs s i "put_win n"])
    (use assms in \<open>auto simp: node_inv_def FILE_DATA_CHUNK_def intro: that\<close>)

lemma demo_win_update:
  assumes "node_inv demo_libs s" "in_volume s i" "length (put_win n) \<le> 1000"
  obtains s' where "win_update_node demo_libs demo_codec i n s = (Ok (), s')"
proof -
  obtain s' where "store_write demo_libs i (put_win n) s = (Ok (), s')" by (rule demo_win_store [OF assms])
  then show thesis by (intro that [of s']) (simp add: win_update_node_def demo_codec_def)
qed

lemma demo_win_new:
  assumes "node_inv demo_libs s" "free_set s \<noteq> {}" "length (put_win n) \<le> 1000"
  obtains s' where "win_write_node demo_libs demo_codec n s = (Ok (Min (free_set s)), s')"
proof -
  have "store_inv s" using assms(1) by (simp add: node_inv_def)
  from pool.take_Ok [OF this assms(2)] obtain s1 where a: "alloc s = (Ok (Min (free_set s)), s1)" by blast
  obtain s' where "store_write demo_libs (Min (free_set s)) (put_win n) s1 = (Ok (), s')"
    by (rule demo_win_store [OF alloc_reads(1,6) [OF assms(1) a] assms(3)])
  with a show thesis by (intro that [of s']) (simp add: win_write_node_def demo_codec_def)
qed

section \<open>A root directory with two files\<close>

definition demo_win_dir :: directory_block where
  "demo_win_dir = \<lparr>db_kind = KDirectory, db_entries =
     [\<lparr>de_name = ''a'', de_slot = 2, de_kind = KFile\<rparr>, \<lparr>de_name = ''B'', de_slot = 3, de_kind = KFile\<rparr>]\<rparr>"

lemma winfsp_new_fields:
  "slot_store.truncate (winfsp_new c) = slot_store.truncate c" "vc_root_slot (winfsp_new c) = vc_root_slot c"
  "ws_open_files (winfsp_new c) = Map.empty" "ws_next_fh (winfsp_new c) = 1"
  by (simp_all add: winfsp_new_def vnm_container.defs winfsp.defs slot_store.truncate_def)

lemma demo_win_sizes:
  "length (put_win (WDirectory demo_win_dir)) \<le> 1000" "length (put_win (win_sized_file 0)) \<le> 1000"
  by (simp_all add: demo_win_dir_def win_sized_file_def put_list_def Demo_Libs.put_entry_def put_name_def put_bytes_def
      put_nat.simps put_option_def)

lemma winfsp_new_heap:
  "node_inv L (winfsp_new c) = node_inv L c" "free_set (winfsp_new c) = free_set c"
  "pool_owned (winfsp_new c) = pool_owned c" "fst (win_read_node L C i (winfsp_new c)) = fst (win_read_node L C i c)"
proof -
  have f: "sys_file (winfsp_new c) = sys_file c" "master_key (winfsp_new c) = master_key c"
    "slot_start (winfsp_new c) = slot_start c" "slot_limit (winfsp_new c) = slot_limit c"
    "alloc_slot (winfsp_new c) = alloc_slot c" "free_list (winfsp_new c) = free_list c"
    "cached_merkle_root (winfsp_new c) = cached_merkle_root c" "generation (winfsp_new c) = generation c"
    "store_cipher (winfsp_new c) = store_cipher c"
    by (simp_all add: winfsp_new_def vnm_container.defs)
  show "node_inv L (winfsp_new c) = node_inv L c" by (rule node_inv_cong) (rule f)+
  show "free_set (winfsp_new c) = free_set c" "pool_owned (winfsp_new c) = pool_owned c"
    by (simp_all add: free_set_def pool_owned_def f)
  show "fst (win_read_node L C i (winfsp_new c)) = fst (win_read_node L C i c)"
    by (simp add: win_read_node_fst store_read_cong [OF f(1,2,9)])
qed

text \<open>Writing a node to the next slot keeps the nodes written before it.\<close>

lemma demo_win_step:
  assumes "win_inv demo_codec demo_libs s" "free_set s = {i..<20}" "pool_owned s = {1..<20}" "1 \<le> i" "i < 20"
    and "length (put_win n) \<le> 1000"
  obtains s' where "win_write_node demo_libs demo_codec n s = (Ok i, s')" "win_inv demo_codec demo_libs s'"
    "free_set s' = {Suc i..<20}" "pool_owned s' = {1..<20}" "fst (win_read_node demo_libs demo_codec i s') = Ok n"
    "\<forall>j \<in> {1..<i}. fst (win_read_node demo_libs demo_codec j s') = fst (win_read_node demo_libs demo_codec j s)"
    "slot_store.more s' = slot_store.more s"
proof -
  have ni: "node_inv demo_libs s" using assms(1) by (simp add: win_inv_def)
  have mn: "Min (free_set s) = i" unfolding assms(2) by (rule Min_eqI) (use assms(5) in auto)
  have "free_set s \<noteq> {}" using assms(2,5) by simp
  from demo_win_new [OF ni this assms(6)] obtain s' where w: "win_write_node demo_libs demo_codec n s = (Ok i, s')"
    unfolding mn .
  then have w': "win_new demo_codec demo_libs n s = (Ok i, s')" and any: "any_win_node n" by (simp_all add: win_new_def any_win_node_def)
  note nk = wheap.new_Ok [OF assms(1) any w'] and nf = wheap.new_frame [OF assms(1) w']
  have "{i..<20} - {i} = {Suc i..<20}" by auto
  with nk have "free_set s' = {Suc i..<20}" by (simp add: assms(2))
  moreover have "{1..<i} \<subseteq> pool_owned s - free_set s" using assms(2-5) by auto
  ultimately show thesis
    using w nk nf assms(3) win_write_more [OF ni w] by (intro that [of s']) (auto simp: win_rd_def)
qed

lemma demo_win:
  obtains s :: winfsp where "win_root demo_libs demo_codec s demo_win_dir" "heap.live s = {1, 2, 3}" "vc_root_slot s = 1"
    "fst (win_read_node demo_libs demo_codec 2 s) = Ok (win_sized_file 0)"
    "free_set s = {4..<20}" "ws_open_files s = Map.empty" "ws_next_fh s = 1"
proof -
  have inv: "win_inv demo_codec demo_libs demo_cont" using demo_cont_inv demo_codec_ok by (simp add: win_inv_def node_inv_def)
  have f0: "free_set demo_cont = {1..<20}" using demo_free_set by (simp add: free_set_def)
  have o0: "pool_owned demo_cont = {1..<20}" by (auto simp: pool_owned_def)
  obtain c1 where c1: "win_inv demo_codec demo_libs c1" "free_set c1 = {Suc 1..<20}" "pool_owned c1 = {1..<20}"
    "fst (win_read_node demo_libs demo_codec 1 c1) = Ok (WDirectory demo_win_dir)" "slot_store.more c1 = slot_store.more demo_cont"
    by (rule demo_win_step [OF inv f0 o0 _ _ demo_win_sizes(1)]) simp_all
  obtain c2 where c2: "win_inv demo_codec demo_libs c2" "free_set c2 = {Suc (Suc 1)..<20}" "pool_owned c2 = {1..<20}"
    "fst (win_read_node demo_libs demo_codec (Suc 1) c2) = Ok (win_sized_file 0)"
    "\<forall>j \<in> {1..<Suc 1}. fst (win_read_node demo_libs demo_codec j c2) = fst (win_read_node demo_libs demo_codec j c1)"
    "slot_store.more c2 = slot_store.more c1"
    by (rule demo_win_step [OF c1(1-3) _ _ demo_win_sizes(2)]) simp_all
  obtain c3 where c3: "win_inv demo_codec demo_libs c3" "free_set c3 = {Suc (Suc (Suc 1))..<20}" "pool_owned c3 = {1..<20}"
    "\<forall>j \<in> {1..<Suc (Suc 1)}. fst (win_read_node demo_libs demo_codec j c3) = fst (win_read_node demo_libs demo_codec j c2)"
    "slot_store.more c3 = slot_store.more c2"
    by (rule demo_win_step [OF c2(1-3) _ _ demo_win_sizes(2)]) simp_all
  let ?s = "winfsp_new c3"
  have m: "slot_store.more c3 = slot_store.more demo_cont" using c1(5) c2(6) c3(5) by simp
  have root: "vc_root_slot c3 = 1" using vc_root_slot_more [OF m] by simp
  have live: "heap.live ?s = {1, 2, 3}"
    using c3(2,3) by (auto simp: heap.live_def winfsp_new_heap)
  have fs: "free_set ?s = {4..<20}" using c3(2) by (simp add: winfsp_new_heap eval_nat_numeral)
  have rd: "fst (win_read_node demo_libs demo_codec 1 c3) = Ok (WDirectory demo_win_dir)"
    "fst (win_read_node demo_libs demo_codec 2 c3) = Ok (win_sized_file 0)"
    using c1(4) c2(4,5) c3(4) by (simp_all add: numeral_2_eq_2)
  have "win_root demo_libs demo_codec ?s demo_win_dir"
    using c3(1) live rd(1) by (simp add: win_root_def win_inv_def winfsp_new_heap winfsp_new_fields root)
  with live fs rd(2) show thesis
    by (intro that [of ?s]) (simp_all add: winfsp_new_heap winfsp_new_fields root)
qed

end
