(* ===== verification/Winfsp_Properties.thy ===== *)
theory Winfsp_Properties
  imports Winfsp_Demo
begin

text \<open>
  The properties of the Windows adapter (fs/winfsp.rs): a flush stores the bytes of a handle, a write replaces a
  segment of them, and creating, renaming and removing in the root directory are updates of a map
  from names to nodes. The instances run on the twenty-slot container with two files.
\<close>

section \<open>The content of a file\<close>

lemma flush_fh_stored:
  assumes "win_inv C L s" "hash_ok L" "codec_compact C" "ws_open_files s fh = Some fo" "wo_dirty fo"
    and "win_stored L C s (wo_slot fo) f is old" "length (wo_data fo) < 2 ^ 64"
    and "length (chunks_of FILE_DATA_CHUNK (wo_data fo)) \<le> Suc (card (free_set s) + length is)"
  obtains s' f' news where "win_flush_fh L C fh s = (Ok (), s')" "win_stored L C s' (wo_slot fo) f' news (wo_data fo)"
    "wheap.frame C L (insert (wo_slot fo) (set is)) s s'" "heap.live s' = heap.live s - set is \<union> set news"
    "ws_open_files s' = (ws_open_files s)(fh \<mapsto> fo\<lparr>wo_dirty := False\<rparr>)" "win_inv C L s'"
proof -
  obtain s1 f' news where p: "persist_file_data L C (wo_slot fo) f (wo_data fo) s = (Ok (), s1)"
    "win_stored L C s1 (wo_slot fo) f' news (wo_data fo)" "wheap.frame C L (insert (wo_slot fo) (set is)) s s1"
    "heap.live s1 = heap.live s - set is \<union> set news" "slot_store.more s1 = slot_store.more s"
    by (rule persist_spec [OF assms(1-3,6-8)])
  let ?s' = "win_upd_file fh (\<lambda>fo. fo\<lparr>wo_dirty := False\<rparr>) s1"
  have sh: "same_heap s1 ?s'" by simp
  note inv1 = wheap.frame_inv [OF p(3)] and m = win_more_fields [OF p(5)]
  show thesis
  proof (rule that [of ?s' f' news])
    show "win_flush_fh L C fh s = (Ok (), ?s')"
      using assms(4-6) p(1) by (simp add: win_flush_fh_def win_stored_def then_op_def)
    show "win_stored L C ?s' (wo_slot fo) f' news (wo_data fo)" using p(2) by (simp add: same_heap_win(4) [OF sh])
    show "wheap.frame C L (insert (wo_slot fo) (set is)) s ?s'"
      by (rule wheap.frame_same [OF p(3) same_heap_win_frame [OF inv1 sh]])
    show "heap.live ?s' = heap.live s - set is \<union> set news" using p(4) by (simp add: same_heap_heap(5) [OF sh])
    show "ws_open_files ?s' = (ws_open_files s)(fh \<mapsto> fo\<lparr>wo_dirty := False\<rparr>)" using assms(4) m by (simp add: win_upd_file_def)
    show "win_inv C L ?s'" using inv1 by (simp add: same_heap_win(1) [OF sh])
  qed
qed

text \<open>C35: Flushing a handle whose content fits the free slots and those of the file's old chain stores
exactly that content: the head and its new chain load as the bytes of the handle, the handle is clean, and every
live node outside the head and the old chain is as it was.\<close>

theorem win_flush_stores:
  assumes "win_inv C L s" "hash_ok L" "codec_compact C" "ws_open_files s fh = Some fo" "wo_dirty fo"
    and "win_stored L C s (wo_slot fo) f is old" "length (wo_data fo) < 2 ^ 64"
    and "length (chunks_of FILE_DATA_CHUNK (wo_data fo)) \<le> Suc (card (free_set s) + length is)"
  shows "\<exists>info s' f'. win_flush L C (Some fh) s = (Ok (Some info), s') \<and> wi_file_size info = length (wo_data fo) \<and>
    fst (win_read_node L C (wo_slot fo) s') = Ok (WFile f') \<and> load_file_data L C f' s' = Ok (wo_data fo) \<and>
    ws_open_files s' = (ws_open_files s)(fh \<mapsto> fo\<lparr>wo_dirty := False\<rparr>) \<and>
    wheap.frame C L (insert (wo_slot fo) (set is)) s s'"
proof -
  obtain s' f' news where p: "win_flush_fh L C fh s = (Ok (), s')" "win_stored L C s' (wo_slot fo) f' news (wo_data fo)"
    "wheap.frame C L (insert (wo_slot fo) (set is)) s s'"
    "ws_open_files s' = (ws_open_files s)(fh \<mapsto> fo\<lparr>wo_dirty := False\<rparr>)" "win_inv C L s'"
    by (rule flush_fh_stored [OF assms])
  have "load_file_data L C f' s' = Ok (wo_data fo)" by (rule stored_load [OF _ p(2)]) (use p(5) in \<open>simp add: win_inv_def\<close>)
  with p show ?thesis
    by (intro exI [of _ "node_to_file_info (wo_slot fo) (win_sized_file (length (wo_data fo))) (vc_created_at s')"]
        exI [of _ s'] exI [of _ f'])
      (simp add: win_flush_def then_op_def win_stored_def)
qed

text \<open>What a write makes of the bytes of a handle.\<close>

definition spliced :: "nat \<Rightarrow> bytes \<Rightarrow> bytes \<Rightarrow> bytes" where
  "spliced start buffer data = take start (data @ replicate (start - length data) 0) @ buffer @ drop (start + length buffer) data"

lemma blit_resize:
  "length data < start + length buffer \<Longrightarrow> blit start buffer (resize (start + length buffer) data) = spliced start buffer data"
  "\<not> length data < start + length buffer \<Longrightarrow> blit start buffer data = spliced start buffer data"
  by (intro nth_equalityI; auto simp: blit_def resize_def spliced_def nth_append min_def)+

text \<open>Writing to a handle replaces a segment of its content, with zeros between the old end and the start of the
segment: reading the same range returns the bytes written, the size reported is the new length, other
handles are untouched and nothing is written to the container.\<close>

theorem win_write_then_read:
  assumes "ws_open_files s fh = Some fo" "start = (if eof then length (wo_data fo) else offset)"
    and "start + length buffer < 2 ^ 64" "\<not> (constrained \<and> length (wo_data fo) \<le> start)"
  shows "\<exists>info s'. win_write fh buffer offset eof constrained s = (Ok (length buffer mod 2 ^ 32, Some info), s') \<and>
    ws_open_files s' = (ws_open_files s)(fh \<mapsto> fo\<lparr>wo_data := spliced start buffer (wo_data fo), wo_dirty := True\<rparr>) \<and>
    wi_file_size info = max (length (wo_data fo)) (start + length buffer) \<and>
    (\<forall>buf. length buf = length buffer \<longrightarrow> win_read fh buf start s' = (Ok (length buffer mod 2 ^ 32, buffer), s')) \<and>
    same_heap s s'"
proof -
  let ?d = "spliced start buffer (wo_data fo)"
  let ?s' = "win_upd_file fh (\<lambda>fo. fo\<lparr>wo_data := ?d, wo_dirty := True\<rparr>) s"
  have of: "ws_open_files ?s' = (ws_open_files s)(fh \<mapsto> fo\<lparr>wo_data := ?d, wo_dirty := True\<rparr>)"
    using assms(1) by (simp add: win_upd_file_def)
  have len: "length ?d = max (length (wo_data fo)) (start + length buffer)" by (simp add: spliced_def min_def max_def)
  have mid: "subrange start (start + length buffer) ?d = buffer" by (simp add: subrange_def spliced_def)
  have w: "win_write fh buffer offset eof constrained s = (Ok (length buffer mod 2 ^ 32,
      Some (node_to_file_info (wo_slot fo) (win_sized_file (length ?d)) (vc_created_at ?s'))), ?s')"
    using assms(1,3,4) by (simp add: win_write_def then_op_def Let_def assms(2) [symmetric] blit_resize)
  have r: "win_read fh buf start ?s' = (Ok (length buffer mod 2 ^ 32, buffer), ?s')" if "length buf = length buffer" for buf
    using of that len mid by (simp add: win_read_def then_op_def Let_def max_def min_def)
  show ?thesis
  proof (intro exI conjI allI impI)
    show "win_write fh buffer offset eof constrained s = (Ok (length buffer mod 2 ^ 32,
      Some (node_to_file_info (wo_slot fo) (win_sized_file (length ?d)) (vc_created_at ?s'))), ?s')" by (rule w)
    show "ws_open_files ?s' = (ws_open_files s)(fh \<mapsto> fo\<lparr>wo_data := ?d, wo_dirty := True\<rparr>)" by (rule of)
  qed (use len r in simp_all)
qed

section \<open>Names\<close>

lemma rename_out_root:
  assumes "win_root L C s d" "plain_name old"
  shows "rename_out L C (root_path old) s = or_fail FEIO (win_update_node L C (vc_root_slot s)
    (WDirectory (d\<lparr>db_entries := filter (\<lambda>e. \<not> eq_ignore_case (de_name e) old) (db_entries d)\<rparr>))) s"
  by (simp add: rename_out_def trim_plain [OF assms(2)] split_plain [OF assms(2)] then_op_def read_root [OF assms(1)])

lemma rename_in_root:
  assumes "win_root L C s d" "plain_name new"
  shows "rename_in L C (root_path new) slot kind False s = (if win_entry new d \<noteq> None then (Err FEEXIST, s)
     else or_fail FEIO (win_update_node L C (vc_root_slot s)
       (WDirectory (d\<lparr>db_entries := db_entries d @ [\<lparr>de_name = new, de_slot = slot, de_kind = kind\<rparr>]\<rparr>))) s)"
proof -
  have "list_position (\<lambda>e. eq_ignore_case (de_name e) new) es = None \<longleftrightarrow> find (\<lambda>e. eq_ignore_case (de_name e) new) es = None" for es :: "dir_entry list"
  proof -
    have "length (takeWhile (\<lambda>x. \<not> P x) es) < length es \<longleftrightarrow> (\<exists>x \<in> set es. P x)" for P :: "dir_entry \<Rightarrow> bool"
      by (induction es) auto
    then show ?thesis by (auto simp: list_position_def Let_def find_None_iff)
  qed
  then have "list_position (\<lambda>e. eq_ignore_case (de_name e) new) (db_entries d) = None \<longleftrightarrow> win_entry new d = None"
    by (simp add: win_entry_def)
  then show ?thesis
    by (cases "win_entry new d") (simp_all add: rename_in_def trim_plain [OF assms(2)] split_plain [OF assms(2)]
        then_op_def read_root [OF assms(1)] Let_def)
qed

lemma or_fail_Ok: "or_fail x m s = (Ok a, s') \<longleftrightarrow> m s = (Ok a, s')"
  by (cases "m s") (auto simp: or_fail_def)

lemma or_fail_Err: "or_fail x m s = (Err y, s') \<Longrightarrow> y = x"
  by (cases "m s"; cases "fst (m s)") (auto simp: or_fail_def)

lemma eq_ignore_case_trans: "eq_ignore_case a b \<Longrightarrow> eq_ignore_case c b \<longleftrightarrow> eq_ignore_case c a"
  by (simp add: eq_ignore_case_def)

lemma win_entry_cases: "eq_ignore_case a b \<Longrightarrow> win_entry a d = win_entry b d"
  by (simp add: win_entry_def eq_ignore_case_trans [of a b])

lemma win_entry_push:
  "win_entry name (d\<lparr>db_entries := db_entries d @ [e]\<rparr>) =
     (case win_entry name d of Some x \<Rightarrow> Some x | None \<Rightarrow> if eq_ignore_case (de_name e) name then Some e else None)"
  by (cases d) (simp add: win_entry_def find_append split: option.splits)

lemma win_entry_filter:
  "win_entry name (d\<lparr>db_entries := filter (\<lambda>e. \<not> eq_ignore_case (de_name e) old) (db_entries d)\<rparr>) =
     (if eq_ignore_case name old then None else win_entry name d)"
proof -
  have "find (\<lambda>e. eq_ignore_case (de_name e) name) (filter (\<lambda>e. \<not> eq_ignore_case (de_name e) old) es) =
      (if eq_ignore_case name old then None else find (\<lambda>e. eq_ignore_case (de_name e) name) es)" for es :: "dir_entry list"
    by (induction es) (auto simp: eq_ignore_case_def)
  then show ?thesis by (simp add: win_entry_def)
qed

text \<open>The root directory without the entries of a name, and with one more.\<close>

definition without_name :: "string \<Rightarrow> directory_block \<Rightarrow> directory_block" where
  "without_name name d = d\<lparr>db_entries := filter (\<lambda>e. \<not> eq_ignore_case (de_name e) name) (db_entries d)\<rparr>"

definition with_entry :: "dir_entry \<Rightarrow> directory_block \<Rightarrow> directory_block" where
  "with_entry e d = d\<lparr>db_entries := db_entries d @ [e]\<rparr>"

lemma rename_steps:
  assumes "win_root L C s d" "plain_name old" "plain_name new" "win_entry old d = Some e"
    and "win_rename L C (root_path old) (root_path new) False s = (r, s')"
    and "fst (win_read_node L C (de_slot e) s) = Ok node" "r = Ok () \<or> r = Err FEEXIST"
  obtains s1 s2 where "same_heap s s1" "win_root L C s1 d"
    "win_update_node L C (vc_root_slot s1) (WDirectory (without_name old d)) s1 = (Ok (), s2)" "win_root L C s2 (without_name old d)"
    "vc_root_slot s1 = vc_root_slot s"
    "if win_entry new (without_name old d) \<noteq> None then r = Err FEEXIST \<and> s' = s2
     else r = Ok () \<and> win_update_node L C (vc_root_slot s2)
       (WDirectory (with_entry \<lparr>de_name = new, de_slot = de_slot e, de_kind = (if win_is_dir node then KDirectory else KFile)\<rparr>
         (without_name old d))) s2 = (Ok (), s')"
proof -
  let ?s1 = "snd (win_get_or_alloc (de_slot e) s)" and ?k = "if win_is_dir node then KDirectory else KFile"
  have rs: "win_resolve L C (root_path old) s = (Ok (de_slot e, node), ?s1)"
    using assms(4,6) by (simp add: resolve_plain [OF assms(1,2)])
  have sh: "same_heap s ?s1" by simp
  have r1: "win_root L C ?s1 d" using assms(1) by (simp add: win_root_same_heap [OF sh])
  have run: "then_op (rename_out L C (root_path old)) (\<lambda>_. rename_in L C (root_path new) (de_slot e) ?k False) ?s1 = (r, s')"
    using assms(5) rs by (simp add: win_rename_def Let_def)
  obtain q s2 where q: "rename_out L C (root_path old) ?s1 = (q, s2)" by fastforce
  have "q = Ok ()"
  proof (cases q)
    case (Err x)
    then have "x = FEIO" using q or_fail_Err unfolding rename_out_root [OF r1 assms(2)] by metis
    with run q Err assms(7) show ?thesis by auto
  next
    case (Panic p)
    with run q Panic assms(7) show ?thesis by auto
  qed simp
  with q have u: "win_update_node L C (vc_root_slot ?s1) (WDirectory (without_name old d)) ?s1 = (Ok (), s2)"
    unfolding rename_out_root [OF r1 assms(2)] without_name_def by (simp add: or_fail_Ok)
  note r2 = update_root(1) [OF r1 u]
  have i: "rename_in L C (root_path new) (de_slot e) ?k False s2 = (r, s')" using run q \<open>q = Ok ()\<close> by simp
  show thesis
  proof (rule that [OF sh r1 u r2])
    show "vc_root_slot ?s1 = vc_root_slot s" by simp
    show "if win_entry new (without_name old d) \<noteq> None then r = Err FEEXIST \<and> s' = s2
      else r = Ok () \<and> win_update_node L C (vc_root_slot s2)
        (WDirectory (with_entry \<lparr>de_name = new, de_slot = de_slot e, de_kind = ?k\<rparr> (without_name old d))) s2 = (Ok (), s')"
      using i assms(7) or_fail_Err [of FEIO _ s2 FEEXIST s'] unfolding rename_in_root [OF r2 assms(3)] with_entry_def
      by (auto simp: or_fail_Ok split: if_splits)
  qed
qed

text \<open>C37: Renaming inside the root directory without replacing is an update of the map from names, up to the case
of letters, to entries: the new name leads to the node of the old one, which leads nowhere unless it is a spelling of the
new one, and every other name leads where it did. But when the new name is taken and the call reports so,
the old name is gone all the same: its node stays allocated and no name leads to it any more.\<close>

theorem win_rename_without_replace:
  assumes "win_root L C s d" "plain_name old" "plain_name new" "win_entry old d = Some e"
    and "win_rename L C (root_path old) (root_path new) False s = (r, s')"
    and "fst (win_read_node L C (de_slot e) s) = Ok node" "de_slot e \<in> heap.live s - {vc_root_slot s}"
  shows "case r of
      Ok _ \<Rightarrow> \<exists>d'. win_root L C s' d' \<and> fst (win_read_node L C (de_slot e) s') = Ok node \<and>
        (\<forall>name. map_option de_slot (win_entry name d') = (if eq_ignore_case name new then Some (de_slot e)
           else if eq_ignore_case name old then None else map_option de_slot (win_entry name d)))
    | Err x \<Rightarrow> x = FEEXIST \<longrightarrow> win_entry new d \<noteq> None \<and>
        (\<exists>d'. win_root L C s' d' \<and> fst (win_read_node L C (de_slot e) s') = Ok node \<and> de_slot e \<in> heap.live s' \<and>
          (\<forall>name. win_entry name d' = (if eq_ignore_case name old then None else win_entry name d)))
    | Panic _ \<Rightarrow> True"
proof (cases "r = Ok () \<or> r = Err FEEXIST")
  case True
  let ?e = "\<lparr>de_name = new, de_slot = de_slot e, de_kind = (if win_is_dir node then KDirectory else KFile)\<rparr>"
  obtain s1 s2 where h: "same_heap s s1" "win_root L C s1 d"
    "win_update_node L C (vc_root_slot s1) (WDirectory (without_name old d)) s1 = (Ok (), s2)" "win_root L C s2 (without_name old d)"
    "vc_root_slot s1 = vc_root_slot s"
    "if win_entry new (without_name old d) \<noteq> None then r = Err FEEXIST \<and> s' = s2
     else r = Ok () \<and> win_update_node L C (vc_root_slot s2) (WDirectory (with_entry ?e (without_name old d))) s2 = (Ok (), s')"
    by (rule rename_steps [OF assms(1-6) True])
  note u1 = update_root [OF h(2,3)]
  have wn: "win_entry name (without_name old d) = (if eq_ignore_case name old then None else win_entry name d)" for name
    by (simp add: without_name_def win_entry_filter)
  have root2: "vc_root_slot s2 = vc_root_slot s" using win_more_fields(5) [OF u1(4)] h(5) by simp
  have live2: "heap.live s2 = heap.live s" using u1(3) by (simp add: same_heap_heap(5) [OF h(1)])
  have rd2: "fst (win_read_node L C (de_slot e) s2) = Ok node"
    using wheap.frame_read [OF u1(2), of "de_slot e"] assms(6,7) h(5)
    by (simp add: win_rd_def same_heap_heap(5) [OF h(1)] same_heap_win(2) [OF h(1)])
  show ?thesis
  proof (cases "win_entry new (without_name old d) = None")
    case True
    with h(6) have r: "r = Ok ()"
      and u: "win_update_node L C (vc_root_slot s2) (WDirectory (with_entry ?e (without_name old d))) s2 = (Ok (), s')" by simp_all
    note u2 = update_root [OF h(4) u]
    have rd: "fst (win_read_node L C (de_slot e) s') = Ok node"
      using wheap.frame_read [OF u2(2), of "de_slot e"] rd2 assms(7) by (simp add: win_rd_def live2 root2)
    have m: "map_option de_slot (win_entry name (with_entry ?e (without_name old d))) =
        (if eq_ignore_case name new then Some (de_slot e) else if eq_ignore_case name old then None
         else map_option de_slot (win_entry name d))" for name
    proof (cases "eq_ignore_case name new")
      case True
      then have "win_entry name (without_name old d) = None" using \<open>win_entry new _ = None\<close> win_entry_cases by metis
      moreover have "eq_ignore_case new name" using True by (simp add: eq_ignore_case_def)
      ultimately show ?thesis using True by (simp add: with_entry_def win_entry_push)
    next
      case False
      then have "\<not> eq_ignore_case new name" by (simp add: eq_ignore_case_def)
      with False show ?thesis by (simp add: with_entry_def win_entry_push wn split: option.split)
    qed
    show ?thesis
      unfolding r outcome.case by (intro exI [of _ "with_entry ?e (without_name old d)"] conjI allI) (rule u2(1) rd m)+
  next
    case False
    with h(6) have r: "r = Err FEEXIST" "s' = s2" by simp_all
    have "win_entry new d \<noteq> None" using False by (auto simp: wn split: if_splits)
    with r h(4) rd2 live2 assms(7) wn show ?thesis by auto
  qed
qed (cases r; simp)

lemma then_op_split:
  assumes "then_op m f s = (r, s')"
  obtains a t where "m s = (Ok a, t)" "f a t = (r, s')" | x where "m s = (Err x, s')" "r = Err x" | p where "m s = (Panic p, s')" "r = Panic p"
  using assms by (auto simp: then_op_def split: prod.splits outcome.splits)

lemma win_dir_exists: "(\<exists>e \<in> set (db_entries d). eq_ignore_case (de_name e) name) \<longleftrightarrow> win_entry name d \<noteq> None"
  by (auto simp: win_entry_def find_None_iff)

lemma register_spec:
  assumes "win_register slot node data s = (r, s')"
  shows "r = Ok (ws_next_fh s, node_to_file_info slot node (vc_created_at s'))" "same_heap s s'" "vc_root_slot s' = vc_root_slot s"
    "\<exists>fo. ws_open_files s' = (ws_open_files s)(ws_next_fh s \<mapsto> fo) \<and> wo_slot fo = slot \<and> wo_data fo = data \<and> \<not> wo_dirty fo \<and>
       wo_is_dir fo = win_is_dir node"
  using assms
  by (auto simp: win_register_def win_get_or_alloc_def win_alloc_fh_def Let_def same_heap_def slot_store.truncate_def split: prod.splits)

text \<open>A node is allocated before the directory is read: what is known of the state in between.\<close>

lemma root_after_new:
  assumes "win_root L C s d" "win_write_node L C n s = (Ok slot, s1)"
  shows "win_root L C s1 d" "slot \<notin> heap.live s" "heap.live s1 = insert slot (heap.live s)" "fst (win_read_node L C slot s1) = Ok n"
    "wheap.frame C L {} s s1" "ws_open_files s1 = ws_open_files s" "ws_next_fh s1 = ws_next_fh s" "vc_root_slot s1 = vc_root_slot s"
proof -
  have inv: "win_inv C L s" and rt: "vc_root_slot s \<in> heap.live s" "fst (win_rd C L (vc_root_slot s) s) = Ok (WDirectory d)"
    using assms(1) by (simp_all add: win_root_def win_rd_def)
  have w: "win_new C L n s = (Ok slot, s1)" and any: "any_win_node n" using assms(2) by (simp_all add: win_new_def any_win_node_def)
  note fr = wheap.frame_new [OF inv w] and nl = wheap.new_live [OF inv any w]
  have m: "slot_store.more s1 = slot_store.more s" by (rule win_write_more [OF _ assms(2)]) (use inv in \<open>simp add: win_inv_def\<close>)
  show "ws_open_files s1 = ws_open_files s" "ws_next_fh s1 = ws_next_fh s" "vc_root_slot s1 = vc_root_slot s"
    by (rule win_more_fields [OF m])+
  show "slot \<notin> heap.live s" "heap.live s1 = insert slot (heap.live s)" "wheap.frame C L {} s s1" by (rule nl fr)+
  show "fst (win_read_node L C slot s1) = Ok n" using wheap.new_Ok [OF inv any w] by (simp add: win_rd_def)
  show "win_root L C s1 d"
    using wheap.frame_inv [OF fr] wheap.frame_read [OF fr rt(1)] rt wheap.frame_live [OF fr rt(1)] win_more_fields(5) [OF m]
    by (simp add: win_root_def win_rd_def)
qed

text \<open>C36: Creating in the root directory, when it succeeds, enters one new node under the name, in a slot that was free, as
a file or a directory as asked, and opens it under a new handle with no content; every other name
leads where it did. A name already taken in any spelling is refused, and then the slot allocated for the
node is free again and the directory as it was.\<close>

theorem win_create_enters:
  fixes s :: "'a winfsp_scheme"
  assumes "win_root L C s d" "plain_name name" "win_create L C (root_path name) opts attrs s = (r, s')"
  shows "case r of
      Ok (fh, info) \<Rightarrow> win_entry name d = None \<and> fh = ws_next_fh s \<and> (\<exists>slot node fo d'. slot \<notin> heap.live s \<and>
        heap.live s' = insert slot (heap.live s) \<and> fst (win_read_node L C slot s') = Ok node \<and>
        win_is_dir node = (attrs AND FILE_ATTRIBUTE_DIRECTORY \<noteq> 0 \<or> opts AND 1 \<noteq> 0) \<and> win_root L C s' d' \<and>
        (\<forall>m. map_option de_slot (win_entry m d') = (if eq_ignore_case m name then Some slot else map_option de_slot (win_entry m d))) \<and>
        ws_open_files s' = (ws_open_files s)(fh \<mapsto> fo) \<and> wo_slot fo = slot \<and> wo_data fo = [] \<and> \<not> wo_dirty fo)
    | Err x \<Rightarrow> x = FEEXIST \<longrightarrow> win_entry name d \<noteq> None \<and> heap.live s' = heap.live s \<and> win_root L C s' d
    | Panic _ \<Rightarrow> True"
proof -
  define is_dir where "is_dir = (attrs AND FILE_ATTRIBUTE_DIRECTORY \<noteq> 0 \<or> opts AND 1 \<noteq> 0)"
  define node where "node = (if is_dir then win_new_dir else win_sized_file 0)"
  have nd: "win_is_dir node = is_dir" by (simp add: node_def win_is_dir_def win_new_dir_def win_sized_file_def)
  have at_root: "then_op (resolve_slot L C []) g s = g (vc_root_slot s) s" for g :: "nat \<Rightarrow> ('a winfsp_scheme, fsp_error, nat \<times> win_info) op"
    by (simp add: then_op_def read_root(2) [OF assms(1)])
  have run: "then_op (or_fail FEIO (win_write_node L C node)) (\<lambda>new_slot. then_op (win_dir L C (vc_root_slot s)) (\<lambda>parent_dir.
      if \<exists>e \<in> set (db_entries parent_dir). eq_ignore_case (de_name e) name then (\<lambda>s. (Err FEEXIST, free_node L new_slot s))
      else then_op (or_fail FEIO (win_update_node L C (vc_root_slot s) (WDirectory (with_entry
          \<lparr>de_name = name, de_slot = new_slot, de_kind = (if is_dir then KDirectory else KFile)\<rparr> parent_dir))))
        (\<lambda>_. win_register new_slot node []))) s = (r, s')"
    using assms(3)
    unfolding win_create_def trim_plain [OF assms(2)] split_plain [OF assms(2)] prod.case with_entry_def node_def is_dir_def Let_def at_root .
  then show ?thesis
  proof (cases rule: then_op_split)
    case (1 slot s1)
    then have w: "win_write_node L C node s = (Ok slot, s1)" by (simp add: or_fail_Ok)
    note a = root_after_new [OF assms(1) w]
    have rd: "win_dir L C (vc_root_slot s) s1 = (Ok d, s1)" using read_root(1) [OF a(1)] a(8) by simp
    let ?e = "\<lparr>de_name = name, de_slot = slot, de_kind = (if is_dir then KDirectory else KFile)\<rparr>"
    show ?thesis
    proof (cases "win_entry name d")
      case (Some x)
      with 1(2) rd have r: "r = Err FEEXIST" "s' = free_node L slot s1" by (simp_all add: win_dir_exists)
      have inv1: "win_inv C L s1" and sl: "slot \<in> heap.live s1" using a(1,3) by (simp_all add: win_root_def)
      note fd = wheap.frame_del [OF inv1 sl]
      have rt: "vc_root_slot s1 \<in> heap.live s1" "vc_root_slot s1 \<notin> {slot}" using a(1,2,8) assms(1) by (auto simp: win_root_def)
      have m: "slot_store.more s' = slot_store.more s1"
        unfolding r(2) by (rule free_node_more [OF _ sl]) (use inv1 in \<open>simp add: win_inv_def\<close>)
      have "win_root L C s' d"
        using a(1) wheap.frame_inv [OF fd(1)] wheap.frame_read [OF fd(1) rt] wheap.frame_live [OF fd(1) rt] win_more_fields(5) [OF m]
        by (simp add: win_root_def win_rd_def r(2))
      then show ?thesis using r fd(2) a(2,3) Some by auto
    next
      case None
      with 1(2) rd have "then_op (or_fail FEIO (win_update_node L C (vc_root_slot s) (WDirectory (with_entry ?e d))))
          (\<lambda>_. win_register slot node []) s1 = (r, s')" by (simp add: win_dir_exists)
      then show ?thesis
      proof (cases rule: then_op_split)
        case (1 u s2)
        then have u: "win_update_node L C (vc_root_slot s1) (WDirectory (with_entry ?e d)) s1 = (Ok (), s2)"
          by (simp add: or_fail_Ok a(8))
        note b = update_root [OF a(1) u] and c = register_spec [OF 1(2)]
        note m = win_more_fields [OF b(4)]
        have sl: "slot \<in> heap.live s1" "slot \<notin> {vc_root_slot s1}" using a(2,3,8) assms(1) by (auto simp: win_root_def)
        have rs: "fst (win_read_node L C slot s') = Ok node"
          using wheap.frame_read [OF b(2) sl] a(4) by (simp add: win_rd_def same_heap_win(2) [OF c(2)])
        have r': "win_root L C s' (with_entry ?e d)" using b(1) by (simp add: win_root_same_heap [OF c(2,3)])
        have lv: "heap.live s' = insert slot (heap.live s)" using b(3) a(3) by (simp add: same_heap_heap(5) [OF c(2)])
        obtain fo where fo: "ws_open_files s' = (ws_open_files s)(ws_next_fh s \<mapsto> fo)" "wo_slot fo = slot" "wo_data fo = []" "\<not> wo_dirty fo"
          using c(4) m a(6,7) by auto
        have me: "map_option de_slot (win_entry n (with_entry ?e d)) =
            (if eq_ignore_case n name then Some slot else map_option de_slot (win_entry n d))" for n
          using None win_entry_cases [of n name d] by (auto simp: with_entry_def win_entry_push eq_ignore_case_def split: option.split)
        have r: "r = Ok (ws_next_fh s, node_to_file_info slot node (vc_created_at s'))" using c(1) m a(7) by simp
        show ?thesis
          unfolding r outcome.case prod.case using None
          by (intro conjI refl exI [of _ slot] exI [of _ node] exI [of _ fo] exI [of _ "with_entry ?e d"] allI)
            (use a(2) lv rs nd r' me fo in \<open>simp_all add: is_dir_def\<close>)
      next
        case (2 x)
        then show ?thesis using or_fail_Err by fastforce
      qed simp
    qed
  next
    case (2 x)
    then show ?thesis using or_fail_Err by fastforce
  qed simp
qed

text \<open>C40: Removing a file that an entry of the root directory names, as closing a handle marked for deletion does, takes that
entry out of the directory and frees the head and every block of the chain behind it: no slot of the file stays
allocated, and no other live node changes.\<close>

theorem win_delete_frees:
  assumes "win_root L C s d" "list_position (\<lambda>e. de_slot e = target) (db_entries d) = Some pos"
    and "win_stored L C s target f is data" "vc_root_slot s \<notin> insert target (set is)"
    and "win_update_node L C (vc_root_slot s) (WDirectory (d\<lparr>db_entries := vec_remove pos (db_entries d)\<rparr>)) s = (Ok (), s1)"
  shows "\<exists>s'. delete_slot_from_tree L C target s = (Ok True, s') \<and>
    win_root L C s' (d\<lparr>db_entries := vec_remove pos (db_entries d)\<rparr>) \<and>
    heap.live s' = heap.live s - insert target (set is) \<and>
    wheap.frame C L (insert (vc_root_slot s) (insert target (set is))) s s'"
proof -
  let ?s2 = "fold (free_node L) is s1" and ?d = "d\<lparr>db_entries := vec_remove pos (db_entries d)\<rparr>"
  let ?s' = "win_forget target (free_node L target ?s2)"
  have inv: "win_inv C L s" and ni: "node_inv L s" and rt: "vc_root_slot s \<in> heap.live s"
    "fst (win_read_node L C (vc_root_slot s) s) = Ok (WDirectory d)" using assms(1) by (simp_all add: win_root_def win_inv_def)
  note u = update_root [OF assms(1,5)]
  note inv1 = wheap.frame_inv [OF u(2)]
  have ni1: "node_inv L s1" using inv1 by (simp add: win_inv_def)
  from assms(3) obtain tail where st: "target \<in> heap.live s" "fst (win_read_node L C target s) = Ok (WFile f)"
    "win_chain L C s is (wf_next_slot f) tail" "set is \<subseteq> heap.live s" "target \<notin> set is" "distinct is"
    by (auto simp: win_stored_def)
  have off: "target \<notin> {vc_root_slot s}" "set is \<inter> {vc_root_slot s} = {}" using assms(4) by auto
  have rd: "fst (win_read_node L C target s1) = Ok (WFile f)" using wheap.frame_read [OF u(2) st(1) off(1)] st(2) by (simp add: win_rd_def)
  note ch = win_chain_frame [OF u(2) st(4) off(2) st(3)]
  have fr: "free_file_chain L C (length (sys_file s1)) (wf_next_slot f) s1 = (Ok (), ?s2)"
    by (rule free_file_chain_eq [OF inv1 ch st(6) chain_fits [OF ni1 ch(2) st(6)]])
  note d = wheap.frame_del_all [OF inv1 ch(2) st(6)] and m1 = fold_free_more [OF ni1 ch(2) st(6)]
  note d1 = conjunct1 [OF d] and d2 = conjunct2 [OF d]
  note inv2 = wheap.frame_inv [OF d1]
  have tl: "target \<in> heap.live ?s2" using d2 u(3) st(1,5) by simp
  note e = wheap.frame_del [OF inv2 tl] and inv3 = wheap.frame_inv [OF wheap.frame_del(1) [OF inv2 tl]]
  have m2: "slot_store.more (free_node L target ?s2) = slot_store.more ?s2"
    by (rule free_node_more [OF _ tl]) (use inv2 in \<open>simp add: win_inv_def\<close>)
  have sh: "same_heap (free_node L target ?s2) ?s'" by simp
  have f1: "wheap.frame C L (set is \<union> {target} \<union> {}) s1 ?s'"
    by (rule wheap.frame_trans [OF wheap.frame_trans [OF d1 e(1)] same_heap_win_frame [OF inv3 sh]])
  have root1: "vc_root_slot s1 = vc_root_slot s" by (rule win_more_fields [OF u(4)])
  have root: "vc_root_slot (free_node L target ?s2) = vc_root_slot s" using win_more_fields(5) [OF m2] win_more_fields(5) [OF m1] root1 by simp
  have r1: "vc_root_slot s \<in> heap.live s1" "vc_root_slot s \<notin> set is \<union> {target} \<union> {}" using rt(1) u(3) assms(4) by auto
  have "win_root L C ?s' ?d"
    using wheap.frame_inv [OF f1] wheap.frame_live [OF f1 r1] wheap.frame_read [OF f1 r1] u(1)
    by (simp add: win_root_def root root1 win_rd_def)
  moreover have "heap.live ?s' = heap.live s - insert target (set is)"
    using e(2) d2 u(3) by (simp add: same_heap_heap(5) [OF sh]) blast
  moreover have "wheap.frame C L (insert (vc_root_slot s) (insert target (set is))) s ?s'"
    using wheap.frame_trans [OF u(2) f1] by (simp add: insert_commute)
  moreover have "delete_slot_from_tree L C target s = (Ok True, ?s')"
  proof -
    have "length [vc_root_slot s] \<le> length (sys_file s)" by (rule chain_fits [OF ni]) (use rt(1) in simp_all)
    then obtain n where n: "length (sys_file s) = Suc n" by (cases "length (sys_file s)") simp_all
    have ig: "ignoring (win_update_node L C (vc_root_slot s) (WDirectory ?d)) s = (Ok (), s1)" by (simp add: ignoring_def assms(5))
    have "remove_target L C (vc_root_slot s) d pos target s = (Ok True, ?s')"
      by (simp only: remove_target_def then_op_def ig rd fr prod.case outcome.case win_node.case)
    with n rt(2) assms(2) show ?thesis by (simp add: delete_slot_from_tree_def)
  qed
  ultimately show ?thesis by blast
qed

section \<open>Instances\<close>

definition demo_win_file :: "bytes \<Rightarrow> bool \<Rightarrow> win_open_file" where
  "demo_win_file data dirty = \<lparr>wo_slot = 2, wo_ino = 2, wo_data = data, wo_dirty = dirty, wo_is_dir = False\<rparr>"

definition demo_opened :: "bytes \<Rightarrow> bool \<Rightarrow> winfsp \<Rightarrow> winfsp" where
  "demo_opened data dirty s = s\<lparr>ws_open_files := [1 \<mapsto> demo_win_file data dirty]\<rparr>"

lemma demo_stored:
  assumes "heap.live s = {1, 2, 3}" "fst (win_read_node demo_libs demo_codec 2 s) = Ok (win_sized_file 0)"
  shows "win_stored demo_libs demo_codec s 2 \<lparr>wf_kind = WkFile, wf_total_size = 0, wf_next_slot = None, wf_data = []\<rparr> [] []"
  using assms by (simp add: win_stored_def win_sized_file_def)

lemma demo_chunks: "chunks_of FILE_DATA_CHUNK (replicate 30001 (7 :: byte)) = [replicate 30000 7, [7]]"
proof -
  have "chunks_of 30000 [7 :: byte] = [[7]]" by (subst chunks_of.simps) (simp add: chunks_of.simps [of _ "[]"])
  then show ?thesis unfolding FILE_DATA_CHUNK_def by (subst chunks_of.simps) (simp add: replicate_eq_replicate)
qed

theorem win_flush_stores_witness:
  "\<exists>(s :: winfsp) info s' f'. win_flush demo_libs demo_codec (Some 1) s = (Ok (Some info), s') \<and>
     fst (win_read_node demo_libs demo_codec 2 s') = Ok (WFile f') \<and>
     load_file_data demo_libs demo_codec f' s' = Ok (replicate 30001 7)"
proof -
  obtain s :: winfsp where s: "win_root demo_libs demo_codec s demo_win_dir" "heap.live s = {1, 2, 3}" "vc_root_slot s = 1"
    "fst (win_read_node demo_libs demo_codec 2 s) = Ok (win_sized_file 0)"
    "free_set s = {4..<20}" "ws_open_files s = Map.empty" "ws_next_fh s = 1" by (rule demo_win)
  let ?data = "replicate 30001 (7 :: byte)"
  let ?s = "demo_opened ?data True s"
  have sh: "same_heap s ?s" by (simp add: demo_opened_def)
  have inv: "win_inv demo_codec demo_libs ?s" using s(1) by (simp add: win_root_def same_heap_win(1) [OF sh])
  have fo: "ws_open_files ?s 1 = Some (demo_win_file ?data True)" by (simp add: demo_opened_def)
  have st: "win_stored demo_libs demo_codec ?s (wo_slot (demo_win_file ?data True))
      \<lparr>wf_kind = WkFile, wf_total_size = 0, wf_next_slot = None, wf_data = []\<rparr> [] []"
    using demo_stored [OF s(2,4)] by (simp add: same_heap_win(4) [OF sh] demo_win_file_def)
  have d: "wo_dirty (demo_win_file ?data True)" "length (wo_data (demo_win_file ?data True)) < 2 ^ 64" "wo_data (demo_win_file ?data True) = ?data"
    by (simp_all add: demo_win_file_def)
  have c: "length (chunks_of FILE_DATA_CHUNK (wo_data (demo_win_file ?data True))) \<le>
      Suc (card (free_set ?s) + length ([] :: nat list))"
    unfolding d(3) demo_chunks using s(5) by (simp add: same_heap_heap(4) [OF sh])
  from win_flush_stores [OF inv demo_laws(2) demo_codec_compact fo d(1) st d(2) c] show ?thesis
    unfolding d(3) by (simp add: demo_win_file_def) blast
qed

theorem win_write_then_read_witness:
  "\<exists>(s :: winfsp) info s'. win_write 1 [9] 5 False False s = (Ok (1, Some info), s') \<and> wi_file_size info = 6 \<and>
     win_read 1 [0] 5 s' = (Ok (1, [9]), s')"
proof -
  obtain s :: winfsp where "ws_open_files s = Map.empty" by (rule demo_win)
  let ?s = "demo_opened [1, 2, 3] False s"
  have "ws_open_files ?s 1 = Some (demo_win_file [1, 2, 3] False)" by (simp add: demo_opened_def)
  from win_write_then_read [OF this refl, of False 5 "[9]" False] obtain info s' where
    w: "win_write 1 [9] 5 False False ?s = (Ok (1, Some info), s')" "wi_file_size info = 6"
    "\<forall>buf :: bytes. length buf = 1 \<longrightarrow> win_read 1 buf 5 s' = (Ok (1, [9]), s')"
    by (auto simp: demo_win_file_def)
  have "win_read 1 [0] 5 s' = (Ok (1, [9]), s')" using w(3) by simp
  with w(1,2) show ?thesis by blast
qed

lemma demo_names: "plain_name ''a''" "plain_name ''b''" "plain_name ''c''"
  by (simp_all add: plain_name_def is_sep_def)

lemma demo_lower [simp]: "ascii_lower CHR ''B'' = CHR ''b''" "ascii_lower CHR ''C'' = CHR ''c''"
  by (simp_all add: ascii_lower_def char_of_def bit_iff_odd)

lemma demo_entries:
  "win_entry ''a'' demo_win_dir = Some \<lparr>de_name = ''a'', de_slot = 2, de_kind = KFile\<rparr>"
  "win_entry ''c'' demo_win_dir = None"
  "win_entry ''b'' demo_win_dir = Some \<lparr>de_name = ''B'', de_slot = 3, de_kind = KFile\<rparr>"
  by (simp_all add: win_entry_def demo_win_dir_def eq_ignore_case_def) (simp_all add: ascii_lower_def)

lemma demo_dir_size:
  "length (put_win (WDirectory (without_name ''a'' demo_win_dir))) \<le> 1000"
  "length (put_win (WDirectory (with_entry \<lparr>de_name = ''c'', de_slot = 4, de_kind = KFile\<rparr> demo_win_dir))) \<le> 1000"
  "length (put_win (WDirectory (demo_win_dir\<lparr>db_entries := vec_remove 0 (db_entries demo_win_dir)\<rparr>))) \<le> 1000"
  by (simp_all add: without_name_def with_entry_def vec_remove_def demo_win_dir_def eq_ignore_case_def ascii_lower_def put_list_def
      Demo_Libs.put_entry_def put_name_def put_bytes_def put_nat.simps)

lemma demo_root_update:
  assumes "win_root demo_libs demo_codec s d" "length (put_win (WDirectory d')) \<le> 1000"
  obtains s' where "win_update_node demo_libs demo_codec (vc_root_slot s) (WDirectory d') s = (Ok (), s')"
proof -
  have "node_inv demo_libs s" "in_volume s (vc_root_slot s)" using assms(1) heap.live_valid by (auto simp: win_root_def win_inv_def)
  then show thesis by (rule demo_win_update [OF _ _ assms(2)]) (rule that)
qed

theorem win_rename_without_replace_witness:
  "\<exists>(s :: winfsp) s' d'. win_rename demo_libs demo_codec (root_path ''a'') (root_path ''b'') False s = (Err FEEXIST, s') \<and>
     win_root demo_libs demo_codec s' d' \<and> win_entry ''a'' d' = None \<and> 2 \<in> heap.live s'"
proof -
  obtain s :: winfsp where s: "win_root demo_libs demo_codec s demo_win_dir" "heap.live s = {1, 2, 3}" "vc_root_slot s = 1"
    "fst (win_read_node demo_libs demo_codec 2 s) = Ok (win_sized_file 0)"
    "free_set s = {4..<20}" "ws_open_files s = Map.empty" "ws_next_fh s = 1" by (rule demo_win)
  let ?s1 = "snd (win_get_or_alloc 2 s)"
  have sh: "same_heap s ?s1" by simp
  have r1: "win_root demo_libs demo_codec ?s1 demo_win_dir" using s(1) by (simp add: win_root_same_heap [OF sh])
  obtain s2 where u: "win_update_node demo_libs demo_codec (vc_root_slot ?s1) (WDirectory (without_name ''a'' demo_win_dir)) ?s1 = (Ok (), s2)"
    by (rule demo_root_update [OF r1 demo_dir_size(1)])
  note r2 = update_root(1) [OF r1 u]
  have rs: "win_resolve demo_libs demo_codec (root_path ''a'') s = (Ok (2, win_sized_file 0), ?s1)"
    by (simp add: resolve_plain [OF s(1) demo_names(1)] demo_entries s(4))
  have out: "rename_out demo_libs demo_codec (root_path ''a'') ?s1 = (Ok (), s2)"
    using u by (simp add: rename_out_root [OF r1 demo_names(1)] without_name_def or_fail_def)
  have "win_entry ''b'' (without_name ''a'' demo_win_dir) \<noteq> None"
    by (simp add: without_name_def win_entry_filter demo_entries) (simp add: eq_ignore_case_def ascii_lower_def)
  then have i: "rename_in demo_libs demo_codec (root_path ''b'') 2 k False s2 = (Err FEEXIST, s2)" for k
    by (simp add: rename_in_root [OF r2 demo_names(2)])
  have run: "win_rename demo_libs demo_codec (root_path ''a'') (root_path ''b'') False s = (Err FEEXIST, s2)"
    by (simp add: win_rename_def then_op_def rs out i Let_def)
  from win_rename_without_replace [OF s(1) demo_names(1,2) demo_entries(1) run] s(2-4)
  obtain d' where "win_root demo_libs demo_codec s2 d'" "2 \<in> heap.live s2"
    "\<forall>name. win_entry name d' = (if eq_ignore_case name ''a'' then None else win_entry name demo_win_dir)" by auto
  then have "win_root demo_libs demo_codec s2 d' \<and> win_entry ''a'' d' = None \<and> 2 \<in> heap.live s2" by (simp add: eq_ignore_case_def)
  with run show ?thesis by blast
qed

theorem win_create_enters_witness:
  "\<exists>(s :: winfsp) info s' slot d'. win_create demo_libs demo_codec (root_path ''c'') 0 0x20 s = (Ok (1, info), s') \<and>
     win_root demo_libs demo_codec s' d' \<and> map_option de_slot (win_entry ''C'' d') = Some slot \<and> slot \<notin> heap.live s"
proof -
  obtain s :: winfsp where s: "win_root demo_libs demo_codec s demo_win_dir" "heap.live s = {1, 2, 3}" "vc_root_slot s = 1"
    "fst (win_read_node demo_libs demo_codec 2 s) = Ok (win_sized_file 0)"
    "free_set s = {4..<20}" "ws_open_files s = Map.empty" "ws_next_fh s = 1" by (rule demo_win)
  have mn: "Min (free_set s) = 4" unfolding s(5) by (rule Min_eqI) auto
  have "node_inv demo_libs s" "free_set s \<noteq> {}" using s(1,5) by (simp_all add: win_root_def win_inv_def)
  then obtain s1 where w: "win_write_node demo_libs demo_codec (win_sized_file 0) s = (Ok 4, s1)"
    using demo_win_new [OF _ _ demo_win_sizes(2)] unfolding mn [symmetric] by metis
  note a = root_after_new [OF s(1) w]
  obtain s2 where u: "win_update_node demo_libs demo_codec (vc_root_slot s1)
      (WDirectory (with_entry \<lparr>de_name = ''c'', de_slot = 4, de_kind = KFile\<rparr> demo_win_dir)) s1 = (Ok (), s2)"
    by (rule demo_root_update [OF a(1) demo_dir_size(2)])
  obtain r s' where g: "win_register 4 (win_sized_file 0) [] s2 = (r, s')" by fastforce
  have no: "\<not> (\<exists>e \<in> set (db_entries demo_win_dir). eq_ignore_case (de_name e) ''c'')"
    unfolding win_dir_exists by (simp add: demo_entries)
  have at: "(0x20 AND FILE_ATTRIBUTE_DIRECTORY \<noteq> (0 :: nat) \<or> 0 AND 1 \<noteq> (0 :: nat)) = False"
    by (simp add: FILE_ATTRIBUTE_DIRECTORY_def)
  have run: "win_create demo_libs demo_codec (root_path ''c'') 0 0x20 s = (r, s')"
    unfolding win_create_def trim_plain [OF demo_names(3)] split_plain [OF demo_names(3)] prod.case at if_False Let_def
    using w u g no
    by (simp add: then_op_def read_root(2) [OF s(1)] read_root(1) [OF a(1), unfolded a(8)] or_fail_def with_entry_def a(8))
  have "ws_next_fh s2 = 1" using win_more_fields(3) [OF update_root(4) [OF a(1) u]] a(7) s(7) by simp
  with register_spec(1) [OF g] obtain info where r: "r = Ok (1, info)" by simp
  from win_create_enters [OF s(1) demo_names(3) run] obtain slot d' where
    "slot \<notin> heap.live s" "win_root demo_libs demo_codec s' d'"
    "\<forall>m. map_option de_slot (win_entry m d') = (if eq_ignore_case m ''c'' then Some slot else map_option de_slot (win_entry m demo_win_dir))"
    by (auto simp: r)
  moreover have "eq_ignore_case ''C'' ''c''" by (simp add: eq_ignore_case_def) (simp add: ascii_lower_def)
  ultimately have "win_root demo_libs demo_codec s' d' \<and> map_option de_slot (win_entry ''C'' d') = Some slot \<and> slot \<notin> heap.live s"
    by simp
  with run r show ?thesis by blast
qed

theorem win_delete_frees_witness:
  "\<exists>(s :: winfsp) s'. delete_slot_from_tree demo_libs demo_codec 2 s = (Ok True, s') \<and> 2 \<in> heap.live s \<and> heap.live s' = {1, 3}"
proof -
  obtain s :: winfsp where s: "win_root demo_libs demo_codec s demo_win_dir" "heap.live s = {1, 2, 3}" "vc_root_slot s = 1"
    "fst (win_read_node demo_libs demo_codec 2 s) = Ok (win_sized_file 0)"
    "free_set s = {4..<20}" "ws_open_files s = Map.empty" "ws_next_fh s = 1" by (rule demo_win)
  obtain s1 where u: "win_update_node demo_libs demo_codec (vc_root_slot s)
      (WDirectory (demo_win_dir\<lparr>db_entries := vec_remove 0 (db_entries demo_win_dir)\<rparr>)) s = (Ok (), s1)"
    by (rule demo_root_update [OF s(1) demo_dir_size(3)])
  have p: "list_position (\<lambda>e. de_slot e = 2) (db_entries demo_win_dir) = Some 0"
    by (simp add: list_position_def demo_win_dir_def)
  have "vc_root_slot s \<notin> insert 2 (set [])" using s(3) by simp
  from win_delete_frees [OF s(1) p demo_stored [OF s(2,4)] this u] obtain s' where
    d: "delete_slot_from_tree demo_libs demo_codec 2 s = (Ok True, s')" "heap.live s' = heap.live s - insert 2 (set [])" by blast
  have "heap.live s' = {1, 3}" "2 \<in> heap.live s" unfolding d(2) s(2) by auto
  with d(1) show ?thesis by blast
qed

end
