(* ===== verification/Locked_Memory.thy ===== *)
theory Locked_Memory
  imports Venom_Prelude Machine
begin

text \<open>
  Secrets in memory the operating system must not swap out (locked_memory.rs). A value is its bytes in
  a heap box; the pages the box lies on are locked while it lives, and the bytes are overwritten with
  zeros before the box is freed. The allocator and the kernel are parameters: where a box
  goes, the pages that are locked after \<open>mlock\<close> and \<open>munlock\<close>, and the size of a page, with the laws their
  documentation states (\<open>alloc_fresh\<close>, \<open>kernel_ok\<close>). Copies on the stack and in registers are not part of the model.
\<close>

section \<open>The process\<close>

record process =
  pr_bytes :: "nat \<Rightarrow> byte"
  pr_boxes :: "nat \<rightharpoonup> nat"
  pr_locked :: "nat set"

record memory_os =
  mo_alloc :: "process \<Rightarrow> nat \<Rightarrow> nat"
  mo_mlock :: "nat set \<Rightarrow> nat \<Rightarrow> nat \<Rightarrow> nat set"
  mo_munlock :: "nat set \<Rightarrow> nat \<Rightarrow> nat \<Rightarrow> nat set"
  mo_page :: nat

text \<open>The bytes of a box, and the pages it lies on.\<close>

definition span :: "nat \<Rightarrow> nat \<Rightarrow> nat set" where
  "span a n = {a..<a + n}"

definition pages :: "memory_os \<Rightarrow> nat \<Rightarrow> nat \<Rightarrow> nat set" where
  "pages M a n = (if n = 0 then {} else {a div mo_page M..(a + n - 1) div mo_page M})"

definition poke :: "nat \<Rightarrow> bytes \<Rightarrow> process \<Rightarrow> process" where
  "poke a bs m = m\<lparr>pr_bytes := (\<lambda>i. if i \<in> span a (length bs) then bs ! (i - a) else pr_bytes m i)\<rparr>"

definition peek :: "nat \<Rightarrow> nat \<Rightarrow> process \<Rightarrow> bytes" where
  "peek a n m = map (pr_bytes m) [a..<a + n]"

text \<open>The calls ignore what the kernel answers.\<close>

definition mlock :: "memory_os \<Rightarrow> nat \<Rightarrow> nat \<Rightarrow> process \<Rightarrow> process" where
  "mlock M a n m = m\<lparr>pr_locked := mo_mlock M (pr_locked m) a n\<rparr>"

definition munlock :: "memory_os \<Rightarrow> nat \<Rightarrow> nat \<Rightarrow> process \<Rightarrow> process" where
  "munlock M a n m = m\<lparr>pr_locked := mo_munlock M (pr_locked m) a n\<rparr>"

section \<open>Locked values\<close>

definition locked_new :: "memory_os \<Rightarrow> bytes \<Rightarrow> process \<Rightarrow> nat \<times> process" where
  "locked_new M value m =
     (let a = mo_alloc M m (length value);
          m = poke a value (m\<lparr>pr_boxes := (pr_boxes m)(a \<mapsto> length value)\<rparr>)
      in (a, mlock M a (length value) m))"

definition locked_drop :: "memory_os \<Rightarrow> nat \<Rightarrow> process \<Rightarrow> process" where
  "locked_drop M a m = (case pr_boxes m a of
       None \<Rightarrow> m
     | Some n \<Rightarrow> (munlock M a n (poke a (replicate n 0) m))\<lparr>pr_boxes := (pr_boxes m)(a := None)\<rparr>)"

definition locked_deref :: "nat \<Rightarrow> process \<Rightarrow> bytes option" where
  "locked_deref a m = map_option (\<lambda>n. peek a n m) (pr_boxes m a)"

definition locked_deref_mut :: "nat \<Rightarrow> bytes \<Rightarrow> process \<Rightarrow> process" where
  "locked_deref_mut a value m = (if pr_boxes m a = Some (length value) then poke a value m else m)"

definition locked_clone :: "memory_os \<Rightarrow> nat \<Rightarrow> process \<Rightarrow> (nat \<times> process) option" where
  "locked_clone M a m = map_option (\<lambda>value. locked_new M value m) (locked_deref a m)"

section \<open>Runs of a program\<close>

text \<open>
  The allocator returns a range that overlaps no live box, as its documentation promises for sizes above zero; a box of no bytes
  is never locked or written and is left out.
\<close>

definition alloc_fresh :: "memory_os \<Rightarrow> bool" where
  "alloc_fresh M \<longleftrightarrow> 0 < mo_page M \<and> (\<forall>m n b k. finite (dom (pr_boxes m)) \<longrightarrow>
     pr_boxes m b = Some k \<longrightarrow> span (mo_alloc M m n) n \<inter> span b k = {})"

text \<open>
  As mlock(2) says: a call that succeeds locks all pages of the range, one that fails changes nothing, and locks do not
  nest, so that one \<open>munlock\<close> unlocks a page however often it was locked.
\<close>

definition kernel_ok :: "memory_os \<Rightarrow> bool" where
  "kernel_ok M \<longleftrightarrow> (\<forall>l a n. mo_mlock M l a n \<in> {l, l \<union> pages M a n} \<and> mo_munlock M l a n = l - pages M a n)"

inductive memory_step :: "memory_os \<Rightarrow> process \<Rightarrow> process \<Rightarrow> bool" for M where
  ms_new: "value \<noteq> [] \<Longrightarrow> memory_step M m (snd (locked_new M value m))"
| ms_drop: "pr_boxes m a \<noteq> None \<Longrightarrow> memory_step M m (locked_drop M a m)"
| ms_write: "pr_boxes m a = Some (length value) \<Longrightarrow> memory_step M m (locked_deref_mut a value m)"
| ms_clone: "locked_clone M a m = Some (b, m') \<Longrightarrow> memory_step M m m'"

definition memory_start :: "process \<Rightarrow> bool" where
  "memory_start m \<longleftrightarrow> pr_boxes m = Map.empty \<and> pr_bytes m = (\<lambda>_. 0) \<and> pr_locked m = {}"

text \<open>The boxes are apart, and every byte outside of them is zero.\<close>

definition boxes_apart :: "process \<Rightarrow> bool" where
  "boxes_apart m \<longleftrightarrow> (\<forall>a n. pr_boxes m a = Some n \<longrightarrow> 0 < n) \<and>
     (\<forall>a n b k. pr_boxes m a = Some n \<longrightarrow> pr_boxes m b = Some k \<longrightarrow> a \<noteq> b \<longrightarrow> span a n \<inter> span b k = {})"

definition no_residue :: "process \<Rightarrow> bool" where
  "no_residue m \<longleftrightarrow> (\<forall>i. pr_bytes m i \<noteq> 0 \<longrightarrow> (\<exists>a n. pr_boxes m a = Some n \<and> i \<in> span a n))"

definition memory_inv :: "process \<Rightarrow> bool" where
  "memory_inv m \<longleftrightarrow> finite (dom (pr_boxes m)) \<and> boxes_apart m \<and> no_residue m"

lemma locked_new_fields:
  assumes "locked_new M value m = (a, m')"
  shows "a = mo_alloc M m (length value)" "pr_boxes m' = (pr_boxes m)(a \<mapsto> length value)"
    "pr_bytes m' i = (if i \<in> span a (length value) then value ! (i - a) else pr_bytes m i)"
    "pr_locked m' = mo_mlock M (pr_locked m) a (length value)"
  using assms by (auto simp: locked_new_def Let_def mlock_def poke_def split: if_splits)

lemma locked_drop_fields:
  assumes "pr_boxes m a = Some n"
  shows "pr_boxes (locked_drop M a m) = (pr_boxes m)(a := None)"
    "pr_bytes (locked_drop M a m) i = (if i \<in> span a n then 0 else pr_bytes m i)"
    "pr_locked (locked_drop M a m) = mo_munlock M (pr_locked m) a n"
  using assms by (auto simp: locked_drop_def munlock_def poke_def span_def)

lemma span_start: "0 < n \<Longrightarrow> a \<in> span a n"
  by (simp add: span_def)

lemma new_inv:
  assumes "alloc_fresh M" "memory_inv m" "value \<noteq> []" "locked_new M value m = (a, m')"
  shows "memory_inv m'" "pr_boxes m a = None"
proof -
  note f = locked_new_fields [OF assms(4)]
  have fr: "span a (length value) \<inter> span b k = {}" if "pr_boxes m b = Some k" for b k
    using assms(1,2) that by (simp add: alloc_fresh_def memory_inv_def f(1))
  show none: "pr_boxes m a = None"
  proof (rule ccontr)
    assume "pr_boxes m a \<noteq> None"
    then obtain k where k: "pr_boxes m a = Some k" by auto
    then have "0 < k" using assms(2) by (auto simp: memory_inv_def boxes_apart_def)
    with fr [OF k] assms(3) show False using span_start [of k a] span_start [of "length value" a] by auto
  qed
  have "boxes_apart m'"
    using assms(2,3) fr unfolding memory_inv_def boxes_apart_def f(2) by (auto split: if_splits)
  moreover have "no_residue m'"
    unfolding no_residue_def
  proof (intro allI impI)
    fix i assume i: "pr_bytes m' i \<noteq> 0"
    show "\<exists>b n. pr_boxes m' b = Some n \<and> i \<in> span b n"
    proof (cases "i \<in> span a (length value)")
      case True
      then show ?thesis using f(2) by (intro exI [of _ a] exI [of _ "length value"]) simp
    next
      case False
      then have "pr_bytes m i \<noteq> 0" using i f(3) by simp
      then obtain b n where "pr_boxes m b = Some n" "i \<in> span b n" using assms(2) by (auto simp: memory_inv_def no_residue_def)
      with none show ?thesis by (intro exI [of _ b] exI [of _ n]) (auto simp: f(2))
    qed
  qed
  ultimately show "memory_inv m'" using assms(2) by (simp add: memory_inv_def f(2))
qed

lemma drop_inv:
  assumes "memory_inv m" "pr_boxes m a = Some n"
  shows "memory_inv (locked_drop M a m)"
proof -
  note f = locked_drop_fields [OF assms(2)]
  have "boxes_apart (locked_drop M a m)"
    using assms(1) by (auto simp: memory_inv_def boxes_apart_def f split: if_splits)
  moreover have "no_residue (locked_drop M a m)"
    unfolding no_residue_def
  proof (intro allI impI)
    fix i assume "pr_bytes (locked_drop M a m) i \<noteq> 0"
    then have i: "i \<notin> span a n" "pr_bytes m i \<noteq> 0" by (auto simp: f split: if_splits)
    then obtain b k where "pr_boxes m b = Some k" "i \<in> span b k" using assms(1) by (auto simp: memory_inv_def no_residue_def)
    with i(1) assms(2) show "\<exists>b k. pr_boxes (locked_drop M a m) b = Some k \<and> i \<in> span b k"
      by (intro exI [of _ b] exI [of _ k]) (auto simp: f)
  qed
  ultimately show ?thesis using assms(1) by (simp add: memory_inv_def f(1))
qed

lemma write_inv:
  assumes "memory_inv m"
  shows "memory_inv (locked_deref_mut a value m)"
  using assms by (auto simp: memory_inv_def boxes_apart_def no_residue_def locked_deref_mut_def poke_def split: if_splits)

interpretation locked: machine_invariant memory_start "memory_step M" "\<lambda>m. alloc_fresh M \<longrightarrow> memory_inv m" for M
proof (unfold_locales, goal_cases)
  case (1 m)
  then show ?case by (simp add: memory_start_def memory_inv_def boxes_apart_def no_residue_def)
next
  case (2 m m')
  from 2(2) show ?case
  proof cases
    case (ms_new v)
    with 2(1) new_inv(1) [of M m v] show ?thesis by (metis prod.collapse)
  next
    case (ms_drop a)
    with 2(1) drop_inv show ?thesis by auto
  next
    case (ms_write a v)
    with 2(1) write_inv show ?thesis by simp
  next
    case (ms_clone a b)
    then obtain n where n: "pr_boxes m a = Some n" "locked_new M (peek a n m) m = (b, m')"
      by (auto simp: locked_clone_def locked_deref_def)
    show ?thesis
    proof
      assume M: "alloc_fresh M"
      with 2(1) have inv: "memory_inv m" by simp
      then have "peek a n m \<noteq> []" using n(1) by (auto simp: peek_def memory_inv_def boxes_apart_def)
      from new_inv(1) [OF M inv this n(2)] show "memory_inv m'" .
    qed
  qed
qed

end
