(* ===== verification/Locked_Properties.thy ===== *)
theory Locked_Properties
  imports Locked_Memory
begin

text \<open>
  What locked memory keeps of its promises (locked_memory.rs): no byte of a secret stays in the heap,
  but locks are per page and not counted, so that dropping one value unlocks its neighbours.
\<close>

lemma peek_same: "(\<And>i. i \<in> span a n \<Longrightarrow> pr_bytes m' i = pr_bytes m i) \<Longrightarrow> peek a n m' = peek a n m"
  by (simp add: peek_def span_def)

lemma deref_same:
  assumes "boxes_apart m" "pr_boxes m b = Some k" "pr_boxes m' b = Some k" "span a n \<inter> span b k = {}"
    and "\<And>i. i \<notin> span a n \<Longrightarrow> pr_bytes m' i = pr_bytes m i"
  shows "locked_deref b m' = locked_deref b m"
  using assms peek_same [of b k m' m] by (auto simp: locked_deref_def)

text \<open>C38: However a program creates, copies, changes and drops locked values, every byte of the heap that is not
zero belongs to a value that still lives: no secret is left behind. A new value reads as what it was made of, and
making it changes no other live value.\<close>

theorem no_secret_left:
  assumes "alloc_fresh M" "reach memory_start (memory_step M) m" "v \<noteq> []" "locked_new M v m = (a, m')"
  shows "(pr_bytes m i \<noteq> 0 \<longrightarrow> (\<exists>b n. pr_boxes m b = Some n \<and> i \<in> span b n)) \<and>
    locked_deref a m' = Some v \<and> (pr_boxes m b \<noteq> None \<longrightarrow> locked_deref b m' = locked_deref b m)"
proof -
  have inv: "memory_inv m" using locked.reach_inv [OF assms(2)] assms(1) by simp
  note n = new_inv [OF assms(1) inv assms(3,4)] and f = locked_new_fields [OF assms(4)]
  have "locked_deref a m' = Some v"
    by (simp add: locked_deref_def f(2) peek_def f(3)) (intro nth_equalityI; simp add: f(3) span_def)
  moreover have "locked_deref b m' = locked_deref b m" if live: "pr_boxes m b \<noteq> None"
  proof -
    obtain k where k: "pr_boxes m b = Some k" using live by auto
    have "b \<noteq> a" using k n(2) by auto
    moreover from this have "pr_boxes m' b = Some k" using k by (simp add: f(2))
    moreover have "span a (length v) \<inter> span b k = {}"
      using assms(1) inv k by (simp add: alloc_fresh_def memory_inv_def f(1))
    ultimately show ?thesis
      using inv k by (intro deref_same [of m b k m' a "length v"]) (simp_all add: memory_inv_def f(3))
  qed
  ultimately show ?thesis using inv by (auto simp: memory_inv_def no_residue_def)
qed

text \<open>C39: Dropping a value overwrites all its bytes and leaves every other live value readable, but another value
stays locked exactly when the two share no page: with a neighbour on the same page, as two keys of 32 bytes easily
have, the drop of one lets the other be swapped out while it is in use.\<close>

theorem drop_unlocks_page:
  assumes "alloc_fresh M" "kernel_ok M" "reach memory_start (memory_step M) m" "pr_boxes m a = Some n" "pr_boxes m b = Some k" "a \<noteq> b"
    and "pages M b k \<subseteq> pr_locked m"
  shows "(\<forall>i \<in> span a n. pr_bytes (locked_drop M a m) i = 0) \<and> locked_deref a (locked_drop M a m) = None \<and>
    locked_deref b (locked_drop M a m) = locked_deref b m \<and>
    (pages M b k \<subseteq> pr_locked (locked_drop M a m) \<longleftrightarrow> pages M a n \<inter> pages M b k = {})"
proof -
  have inv: "boxes_apart m" using locked.reach_inv [OF assms(3)] assms(1) by (simp add: memory_inv_def)
  note f = locked_drop_fields [OF assms(4)]
  have "span a n \<inter> span b k = {}" using inv assms(4-6) by (auto simp: boxes_apart_def)
  then have "locked_deref b (locked_drop M a m) = locked_deref b m"
    using inv assms(5,6) by (intro deref_same [of m b k _ a n]) (simp_all add: f)
  moreover have "pages M b k \<subseteq> pr_locked m - pages M a n \<longleftrightarrow> pages M a n \<inter> pages M b k = {}" using assms(7) by auto
  ultimately show ?thesis using assms(2) by (simp add: f locked_deref_def kernel_ok_def)
qed

section \<open>Instances\<close>

text \<open>An allocator that places every box behind the ones that live, pages of 4096 bytes, and a kernel that locks.\<close>

definition demo_top :: "process \<Rightarrow> nat" where
  "demo_top m = Max (insert 0 ((\<lambda>b. b + the (pr_boxes m b)) ` dom (pr_boxes m)))"

definition demo_pages :: "nat \<Rightarrow> nat \<Rightarrow> nat set" where
  "demo_pages a n = (if n = 0 then {} else {a div 4096..(a + n - 1) div 4096})"

definition demo_memory_os :: memory_os where
  "demo_memory_os = \<lparr>mo_alloc = \<lambda>m n. demo_top m, mo_mlock = \<lambda>l a n. l \<union> demo_pages a n,
     mo_munlock = \<lambda>l a n. l - demo_pages a n, mo_page = 4096\<rparr>"

lemma demo_kernel_ok: "kernel_ok demo_memory_os"
  by (simp add: kernel_ok_def demo_memory_os_def pages_def demo_pages_def)

lemma demo_top: "finite (dom (pr_boxes m)) \<Longrightarrow> pr_boxes m b = Some k \<Longrightarrow> b + k \<le> demo_top m"
  unfolding demo_top_def by (rule Max_ge) (auto intro!: image_eqI [of _ _ b])

lemma demo_alloc_fresh: "alloc_fresh demo_memory_os"
  unfolding alloc_fresh_def
proof (intro conjI allI impI)
  fix m :: process and n b k
  assume "finite (dom (pr_boxes m))" "pr_boxes m b = Some k"
  from demo_top [OF this] show "span (mo_alloc demo_memory_os m n) n \<inter> span b k = {}"
    by (auto simp: demo_memory_os_def span_def)
qed (simp add: demo_memory_os_def)

definition empty_process :: process where
  "empty_process = \<lparr>pr_bytes = \<lambda>_. 0, pr_boxes = Map.empty, pr_locked = {}\<rparr>"

lemma demo_reach_start: "reach memory_start (memory_step M) empty_process"
  by (rule reach_start) (simp add: memory_start_def empty_process_def)

theorem no_secret_left_witness:
  "\<exists>a m. locked_new demo_memory_os [7, 8] empty_process = (a, m) \<and> locked_deref a m = Some [7, 8]"
proof -
  obtain a m where n: "locked_new demo_memory_os [7, 8] empty_process = (a, m)" by fastforce
  have "[7, 8 :: byte] \<noteq> []" by simp
  from no_secret_left [OF demo_alloc_fresh demo_reach_start this n] n show ?thesis by blast
qed

text \<open>Two keys on one page: the second, a copy of the first, is dropped.\<close>

theorem drop_unlocks_page_witness:
  "\<exists>m. pr_boxes m 0 = Some 32 \<and> pages demo_memory_os 0 32 \<subseteq> pr_locked m \<and>
     \<not> pages demo_memory_os 0 32 \<subseteq> pr_locked (locked_drop demo_memory_os 32 m)"
proof -
  let ?M = demo_memory_os and ?key = "replicate 32 (7 :: byte)"
  obtain a m1 where n1: "locked_new ?M ?key empty_process = (a, m1)" by fastforce
  have a: "a = 0" using locked_new_fields(1) [OF n1] by (simp add: demo_memory_os_def demo_top_def empty_process_def)
  note f1 = locked_new_fields [OF n1, unfolded a]
  have l1: "pr_locked m1 = pages ?M 0 32"
    using f1(4) by (simp add: demo_memory_os_def empty_process_def demo_pages_def pages_def)
  have r1: "reach memory_start (memory_step ?M) m1"
    using reach_step [OF demo_reach_start ms_new [of ?key ?M empty_process]] n1 by simp
  obtain b m2 where n2: "locked_new ?M ?key m1 = (b, m2)" by fastforce
  have b: "b = 32" using locked_new_fields(1) [OF n2] by (simp add: demo_memory_os_def demo_top_def f1(2) empty_process_def)
  note f2 = locked_new_fields [OF n2, unfolded b]
  have r2: "reach memory_start (memory_step ?M) m2" using reach_step [OF r1 ms_new [of ?key ?M m1]] n2 by simp
  have bx: "pr_boxes m2 32 = Some 32" "pr_boxes m2 0 = Some 32" using f2(2) f1(2) by simp_all
  have lk: "pages ?M 0 32 \<subseteq> pr_locked m2" using f2(4) l1 by (auto simp: demo_memory_os_def)
  have "pages ?M 32 32 \<inter> pages ?M 0 32 \<noteq> {}" by (simp add: pages_def demo_memory_os_def)
  with drop_unlocks_page [OF demo_alloc_fresh demo_kernel_ok r2 bx(1) bx(2) _ lk] have "\<not> pages ?M 0 32 \<subseteq> pr_locked (locked_drop ?M 32 m2)" by simp
  with bx(2) lk show ?thesis by blast
qed

end
