(* ===== verification/Fuse_Session.thy ===== *)
theory Fuse_Session
  imports Fuse_Handlers Fuse_Dirs Machine
begin

text \<open>
  Sessions of the FUSE adapter: the kernel sends requests one after the other, and each is served by its
  handler (impl Filesystem for VenomFuse in fs/fuse.rs). What every request keeps, whatever is
  stored in the container: the keys and the geometry of the volume, a slot map of at least one place in every open
  file, and handles below the counter. The interface \<open>request_inv\<close> states what an invariant of the open files must
  allow for all operations to keep it.
\<close>

section \<open>Requests\<close>

datatype request =
    Lookup nat "string option"
  | Getattr nat
  | Setattr nat "nat option" "nat option"
  | Readdir nat nat
  | Mkdir nat "string option"
  | Rmdir nat "string option"
  | Create nat "string option"
  | Unlink nat "string option"
  | Rename nat "string option" nat "string option"
  | Open nat
  | Release nat
  | Flush nat
  | Fsync nat
  | Read nat int nat
  | Write nat int bytes
  | Statfs

datatype answer =
    Done
  | Attributes file_attr
  | Listing "listed_entry list"
  | Created file_attr nat
  | Opened nat
  | Data bytes
  | Written nat
  | Statistics "nat list"

record fuse_env =
  fv_libs :: libs
  fv_ids :: "nat \<times> nat"
  fv_full :: "listed_entry list \<Rightarrow> listed_entry \<Rightarrow> bool"

definition answering :: "('x \<Rightarrow> answer) \<Rightarrow> ('s, 'e, 'x) op \<Rightarrow> ('s, 'e, answer) op" where
  "answering f m = then_op m (\<lambda>a. return_op (Ok (f a)))"

primrec serve :: "fuse_env \<Rightarrow> request \<Rightarrow> ('a venom_fuse_scheme, errno, answer) op" where
  "serve E (Lookup parent name) = answering Attributes (fs_lookup (fv_libs E) (fv_ids E) parent name)"
| "serve E (Getattr ino) = answering Attributes (fs_getattr (fv_libs E) (fv_ids E) ino)"
| "serve E (Setattr ino sz fh) = answering Attributes (fs_setattr (fv_libs E) (fv_ids E) ino sz fh)"
| "serve E (Readdir ino offset) = answering Listing (fs_readdir (fv_libs E) (fv_full E) ino offset)"
| "serve E (Mkdir parent name) = answering Attributes (fs_mkdir (fv_libs E) (fv_ids E) parent name)"
| "serve E (Rmdir parent name) = answering (\<lambda>_. Done) (fs_rmdir (fv_libs E) parent name)"
| "serve E (Create parent name) = answering (\<lambda>(a, fh). Created a fh) (fs_create (fv_libs E) (fv_ids E) parent name)"
| "serve E (Unlink parent name) = answering (\<lambda>_. Done) (fs_unlink (fv_libs E) parent name)"
| "serve E (Rename parent name newparent newname) =
     answering (\<lambda>_. Done) (fs_rename (fv_libs E) parent name newparent newname)"
| "serve E (Open ino) = answering Opened (fs_open (fv_libs E) ino)"
| "serve E (Release fh) = answering (\<lambda>_. Done) (fs_release (fv_libs E) fh)"
| "serve E (Flush fh) = answering (\<lambda>_. Done) (fs_flush (fv_libs E) fh)"
| "serve E (Fsync fh) = answering (\<lambda>_. Done) (fs_fsync (fv_libs E) fh)"
| "serve E (Read fh offset sz) = answering Data (fs_read_file (fv_libs E) fh offset sz)"
| "serve E (Write fh offset data) = answering Written (fs_write_file (fv_libs E) fh offset data)"
| "serve E Statfs = (\<lambda>s. (Ok (Statistics (fs_statfs s)), s))"

text \<open>The kernel reads only at offsets of a signed machine word that the length does not overflow.\<close>

fun well_formed :: "request \<Rightarrow> bool" where
  "well_formed (Read fh offset sz) = (0 \<le> offset \<and> offset + int sz < 2 ^ 64)"
| "well_formed _ = True"

section \<open>Results without a panic\<close>

text \<open>The one panic left is the value that stands for an endless chain of slots.\<close>

definition soft :: "('e, 'x) outcome \<Rightarrow> bool" where
  "soft r \<longleftrightarrow> (\<forall>p. r = Panic p \<longrightarrow> p = ''does not return'')"

lemma soft_simps [simp]:
  "soft (Ok a)" "soft (Err e)" "soft (Panic p) \<longleftrightarrow> p = ''does not return''" "soft (map_err g r) = soft r" "soft (ok_or e x)"
  by (auto simp: soft_def ok_or_def split: option.splits)

lemma soft_panic: "(\<And>p. r \<noteq> Panic p) \<Longrightarrow> soft r"
  by (simp add: soft_def)

lemma soft_and_then: "soft r \<Longrightarrow> (\<And>a. r = Ok a \<Longrightarrow> soft (f a)) \<Longrightarrow> soft (and_then r f)"
  by (cases r) simp_all

definition yields :: "('s \<Rightarrow> bool) \<Rightarrow> ('e, 'x) outcome \<times> 's \<Rightarrow> bool" where
  "yields I p \<longleftrightarrow> soft (fst p) \<and> I (snd p)"

lemma yields_pair [simp]: "yields I (r, s) \<longleftrightarrow> soft r \<and> I s"
  by (simp add: yields_def)

lemma yields_then:
  assumes "yields I (m s)" "\<And>a t. m s = (Ok a, t) \<Longrightarrow> I t \<Longrightarrow> yields J (f a t)" "\<And>t. I t \<Longrightarrow> J t"
  shows "yields J (then_op m f s)"
  using assms by (cases "m s"; cases "fst (m s)") auto

lemma yields_bind:
  assumes "yields I (m s)" "\<And>a t. m s = (Ok a, t) \<Longrightarrow> I t \<Longrightarrow> yields I (f a t)"
  shows "yields I (then_op m f s)"
  using assms by (rule yields_then)

lemma yields_eio: "yields I (m s) \<Longrightarrow> yields I (eio m s)"
  by (simp add: yields_def eio_def)

lemma yields_answering: "yields I (m s) \<Longrightarrow> yields I (answering f m s)"
  unfolding answering_def by (rule yields_then) auto

section \<open>The store\<close>

text \<open>What no slot operation changes, even at a slot outside of the volume.\<close>

definition apart :: "'a slot_store_scheme \<Rightarrow> 'a slot_store_scheme \<Rightarrow> bool" where
  "apart s t \<longleftrightarrow> slot_store.more t = slot_store.more s \<and> master_key t = master_key s \<and> store_cipher t = store_cipher s \<and>
     slot_start t = slot_start s \<and> slot_limit t = slot_limit s \<and> alloc_slot t = alloc_slot s"

lemma apart_refl [simp]: "apart s s"
  by (simp add: apart_def)

lemma apart_trans: "apart s t \<Longrightarrow> apart t u \<Longrightarrow> apart s u"
  by (simp add: apart_def)

lemma store_write_apart: "store_write L i p s = (r, t) \<Longrightarrow> soft r \<and> apart s t"
proof -
  assume w: "store_write L i p s = (r, t)"
  obtain r1 s1 where e: "encrypt_block L (derive_slot_key L i s) (store_cipher s) (to_le 8 i) p s = (r1, s1)" by fastforce
  with encrypt_block_no_panic have "\<And>x. r1 \<noteq> Panic x" by metis
  with w e encrypt_block_state [OF e] show ?thesis
    by (cases r1) (auto simp: store_write_def Let_def pwrite_def apart_def then_op_def split: if_splits)
qed

lemma update_node_apart: "update_node L i n s = (r, t) \<Longrightarrow> soft r \<and> apart s t"
  unfolding update_node_def by (cases "msgpack_enc L n") (auto dest: store_write_apart)

lemma write_node_apart: "write_node L n s = (r, t) \<Longrightarrow> soft r \<and> apart s t"
proof -
  assume w: "write_node L n s = (r, t)"
  let ?s = "s\<lparr>free_list := butlast (free_list s)\<rparr>"
  have a: "apart s ?s" by (simp add: apart_def)
  obtain r1 s1 where st: "store_write L (last (free_list s)) (the (msgpack_enc L n)) ?s = (r1, s1)" by fastforce
  show ?thesis
  proof (cases "free_list s = []")
    case True
    with w show ?thesis by (auto simp: write_node_def alloc_def then_op_def)
  next
    case False
    with w st a show ?thesis
      by (cases "msgpack_enc L n"; cases r1)
        (auto simp: write_node_def alloc_def then_op_def dest: store_write_apart intro: apart_trans)
  qed
qed

lemma free_node_apart: "apart s (free_node L i s)"
  by (auto simp: free_node_def free_slot_def wipe_def Let_def apart_def fill_bytes_def pwrite_def then_op_def)

lemma free_all_apart: "apart s (free_all L is s)"
  unfolding free_all_def by (induction "is" arbitrary: s) (auto intro: apart_trans free_node_apart)

lemma read_node_soft:
  assumes "aead_ok L"
  shows "soft (fst (read_node L i s))"
  using store_read_no_panic [OF assms, of i s]
  by (cases "store_read L i s"; cases "fst (store_read L i s)") (auto simp: read_node_def soft_def ok_or_def split: option.splits)

lemma fetch_soft: "aead_ok L \<Longrightarrow> soft (fetch L i s)"
  by (simp add: fetch_def read_node_soft)

lemma follow_index_soft: "aead_ok L \<Longrightarrow> soft (follow_index L fuel ptr s)"
  by (induction L fuel ptr s rule: follow_index.induct)
    (auto intro!: soft_and_then fetch_soft split: vault_node.splits)

lemma load_chunk_soft: "aead_ok L \<Longrightarrow> soft (load_chunk L fo ci s)"
  by (auto simp: load_chunk_def intro!: soft_and_then fetch_soft split: option.splits vault_node.splits)

lemma ensure_cached_map: "ensure_cached L fo ci s = Ok fo' \<Longrightarrow> of_slot_map fo' = of_slot_map fo"
  by (auto simp: ensure_cached_def and_then_eq_Ok cache_insert_def evict_def split: if_splits option.splits)

lemma ensure_cached_soft: "aead_ok L \<Longrightarrow> soft (ensure_cached L fo ci s)"
  by (auto simp: ensure_cached_def intro!: soft_and_then load_chunk_soft)

section \<open>The interface: invariants of the open files\<close>

locale slot_inv =
  fixes I :: "'a venom_fuse_scheme \<Rightarrow> bool"
  assumes apart_keeps: "I s \<Longrightarrow> apart s t \<Longrightarrow> I t"
begin

lemma free_keeps: "I s \<Longrightarrow> I (free_node L i s)" "I s \<Longrightarrow> I (free_all L is s)"
  by (auto intro: apart_keeps free_node_apart free_all_apart)

lemma update_keeps: "I s \<Longrightarrow> yields I (update_node L i n s)"
  by (cases "update_node L i n s") (auto dest: update_node_apart intro: apart_keeps)

lemma write_keeps: "I s \<Longrightarrow> yields I (write_node L n s)"
  by (cases "write_node L n s") (auto dest: write_node_apart intro: apart_keeps)

lemma read_keeps: "aead_ok L \<Longrightarrow> I s \<Longrightarrow> yields I (read_node L i s)"
  using read_node_soft [of L i s] by (simp add: yields_def)

lemma slot_keeps: "I s \<Longrightarrow> yields I (slot_of_ino ino s)"
  by (simp add: slot_of_ino_def)

lemma dir_block_keeps: "aead_ok L \<Longrightarrow> I s \<Longrightarrow> yields I (read_dir_block L i s)"
  using read_node_soft [of L i s] by (auto simp: read_dir_block_def split: outcome.splits vault_node.splits)

lemmas store_keeps = yields_eio update_keeps write_keeps read_keeps slot_keeps dir_block_keeps

lemma free_chain_keeps: "aead_ok L \<Longrightarrow> I s \<Longrightarrow> yields I (free_chain L fuel ptr s)"
proof (induction L fuel ptr s rule: free_chain.induct)
  case (3 L fuel slot s)
  from read_node_soft [OF 3(2), of slot s] 3 show ?case
    by (auto simp: free_keeps split: outcome.splits vault_node.splits)
qed auto

lemma index_chain_keeps: "aead_ok L \<Longrightarrow> I s \<Longrightarrow> yields I (free_index_chain L ptr s)"
  by (simp add: free_index_chain_def free_chain_keeps)

lemma write_chain_keeps: "I s \<Longrightarrow> yields I (write_chain L chunks nxt s)"
  by (induction chunks arbitrary: nxt s) (auto intro!: yields_bind store_keeps)

lemma add_entry_keeps: "aead_ok L \<Longrightarrow> I s \<Longrightarrow> yields I (dir_add_entry L i e s)"
  unfolding dir_add_entry_def by (rule yields_bind) (auto intro: store_keeps)

lemma remove_entry_keeps: "aead_ok L \<Longrightarrow> I s \<Longrightarrow> yields I (dir_remove_entry L i name s)"
  unfolding dir_remove_entry_def Let_def by (intro yields_bind store_keeps) (auto intro: store_keeps)

lemma enter_keeps: "aead_ok L \<Longrightarrow> I s \<Longrightarrow> yields I (enter_node L i e s)"
  using add_entry_keeps [of L s i e] by (auto simp: enter_node_def free_keeps split: prod.splits outcome.splits)

end

locale entry_inv = slot_inv I for I :: "'a venom_fuse_scheme \<Rightarrow> bool" +
  assumes inodes_keep: "I s \<Longrightarrow> I (s\<lparr>fu_inodes := m\<rparr>)"
begin

lemma forget_keeps: "I s \<Longrightarrow> I (forget_slot i s)"
  by (simp add: forget_slot_def inodes_keep)

lemma assign_keeps: "I s \<Longrightarrow> assign_ino i s = (ino, t) \<Longrightarrow> I t"
  by (auto simp: assign_ino_def inodes_keep split: prod.splits)

section \<open>Directory operations\<close>

lemma lookup_keeps: "aead_ok L \<Longrightarrow> I s \<Longrightarrow> yields I (op_lookup L parent name s)"
  unfolding op_lookup_def
  by (intro yields_bind store_keeps) (auto intro: store_keeps assign_keeps split: prod.splits)

lemma mkdir_keeps: "aead_ok L \<Longrightarrow> I s \<Longrightarrow> yields I (op_mkdir L parent name s)"
  unfolding op_mkdir_def Let_def
  by (intro yields_bind store_keeps enter_keeps) (auto intro: assign_keeps split: prod.splits)

lemma rmdir_keeps: "aead_ok L \<Longrightarrow> I s \<Longrightarrow> yields I (op_rmdir L parent name s)"
  unfolding op_rmdir_def
  by (intro yields_bind store_keeps) (auto intro!: yields_bind remove_entry_keeps forget_keeps free_keeps)

lemma rename_keeps: "aead_ok L \<Longrightarrow> I s \<Longrightarrow> yields I (op_rename L parent name newparent newname s)"
  unfolding op_rename_def Let_def
  by (intro yields_bind store_keeps remove_entry_keeps)
    (auto intro!: store_keeps forget_keeps free_keeps split: option.splits)

lemma getattr_keeps: "aead_ok L \<Longrightarrow> I s \<Longrightarrow> yields I (fs_getattr L ids ino s)"
  unfolding fs_getattr_def by (intro yields_bind store_keeps) auto

lemma readdir_keeps: "aead_ok L \<Longrightarrow> I s \<Longrightarrow> yields I (fs_readdir L full ino offset s)"
  unfolding fs_readdir_def Let_def by (intro yields_bind store_keeps) (auto simp: inodes_keep split: prod.splits)

end

locale file_inv = slot_inv I for I :: "'a venom_fuse_scheme \<Rightarrow> bool" +
  assumes mapped: "I s \<Longrightarrow> fu_open_files s fh = Some fo \<Longrightarrow> of_slot_map fo \<noteq> []"
    and put_keeps: "I s \<Longrightarrow> fu_open_files s fh = Some fo \<Longrightarrow> of_slot_map fo' \<noteq> [] \<Longrightarrow> I (put_file fh fo' s)"
begin

lemma upd_keeps: "I s \<Longrightarrow> (\<And>fo. of_slot_map fo \<noteq> [] \<Longrightarrow> of_slot_map (g fo) \<noteq> []) \<Longrightarrow> I (upd_file fh g s)"
  by (auto simp: upd_file_def mapped intro: put_keeps split: option.splits)

lemma write_chunks_keeps:
  assumes "\<And>ci fo. of_slot_map fo \<noteq> [] \<Longrightarrow> of_slot_map (after ci fo) \<noteq> []"
  shows "I s \<Longrightarrow> yields I (write_chunks L after fh cis s)"
proof (induction cis arbitrary: s)
  case (Cons ci cis)
  have up: "I t \<Longrightarrow> I (upd_file fh (after ci) t)" for t using upd_keeps assms by blast
  have set_slot: "I t \<Longrightarrow> I (upd_file fh (set_slot ci i) t)" for t i by (rule upd_keeps) (simp_all add: set_slot_def)
  show ?case
    using Cons.prems by (auto intro!: yields_bind store_keeps Cons.IH up set_slot split: option.splits)
qed simp

lemma write_through_keeps: "I s \<Longrightarrow> yields I (write_through_flush L fh n s)"
  by (auto simp: write_through_flush_def Let_def drop_chunk_def intro!: write_chunks_keeps split: option.splits)

lemma drop_excess_keeps: "I s \<Longrightarrow> I (drop_excess L fh n s)"
  by (auto simp: drop_excess_def intro!: upd_keeps free_keeps split: option.splits)

lemma write_head_keeps:
  assumes "aead_ok L" "I s" "of_slot_map fo \<noteq> []"
  shows "yields I (write_head L fh n fo s)"
proof -
  have h: "soft (head_data L fo s)"
    by (auto simp: head_data_def intro!: soft_and_then fetch_soft assms(1) split: option.splits vault_node.splits)
  have c: "soft (continuation_slots n (of_slot_map fo))" using assms(3) by (simp add: continuation_slots_def Let_def)
  have up: "I t \<Longrightarrow> I (upd_file fh (\<lambda>fo. fo\<lparr>of_index_chain := ch\<rparr>) t)" for t ch by (rule upd_keeps) simp_all
  show ?thesis
    unfolding write_head_def write_index_chain_def
    by (intro yields_bind index_chain_keeps assms(1))
      (use assms(2) h c in \<open>auto intro!: yields_bind write_chain_keeps store_keeps up split: prod.splits\<close>)
qed

text \<open>Handles stay open.\<close>

lemma kept_open: "file_inv (\<lambda>s. I s \<and> fu_open_files s fh \<noteq> None)"
proof (unfold_locales, goal_cases)
  case (1 s t)
  with more_fields(2) [of t s] apart_keeps [of s t] show ?case by (simp add: apart_def)
next
  case (2 s fh' fo)
  then show ?case using mapped by blast
next
  case (3 s fh' fo fo')
  then show ?case using put_keeps by (simp add: put_file_def)
qed

lemma finish_keeps:
  assumes "aead_ok L" "I s" "fu_open_files s fh = Some fo"
  shows "yields I (then_op (if of_meta_dirty fo \<or> 0 \<in> of_dirty fo then write_head L fh n fo else return_op (Ok ()))
    (\<lambda>_ s. (Ok (), upd_file fh (\<lambda>fo. fo\<lparr>of_dirty := {}, of_meta_dirty := False\<rparr>) s)) s)"
proof (rule yields_bind)
  show "yields I ((if of_meta_dirty fo \<or> 0 \<in> of_dirty fo then write_head L fh n fo else return_op (Ok ())) s)"
    using assms mapped by (auto intro: write_head_keeps)
next
  fix a t
  assume "I t"
  then have "I (upd_file fh (\<lambda>fo. fo\<lparr>of_dirty := {}, of_meta_dirty := False\<rparr>) t)" by (rule upd_keeps) simp
  then show "yields I (Ok (), upd_file fh (\<lambda>fo. fo\<lparr>of_dirty := {}, of_meta_dirty := False\<rparr>) t)" by simp
qed

lemma flush_keeps:
  assumes "aead_ok L" "I s"
  shows "yields I (flush_fh L fh s)"
proof (cases "fu_open_files s fh")
  case None
  with assms show ?thesis by (simp add: flush_fh_def)
next
  case (Some fo0)
  let ?J = "\<lambda>s. I s \<and> fu_open_files s fh \<noteq> None" and ?n = "chunk_count (of_total_size fo0)"
  have w: "yields ?J (write_chunks L (\<lambda>_ fo. fo) fh cis s)" for cis
    using assms(2) Some by (intro file_inv.write_chunks_keeps [OF kept_open]) simp_all
  have d: "?J t \<Longrightarrow> \<exists>fo. fu_open_files (drop_excess L fh ?n t) fh = Some fo \<and> I (drop_excess L fh ?n t)" for t
    using file_inv.drop_excess_keeps [OF kept_open, of t fh] by fastforce
  have "yields I (then_op (write_chunks L (\<lambda>_ fo. fo) fh cis) (\<lambda>_ s.
      let s = drop_excess L fh ?n s; fo = the (fu_open_files s fh)
      in then_op (if of_meta_dirty fo \<or> 0 \<in> of_dirty fo then write_head L fh ?n fo else return_op (Ok ()))
        (\<lambda>_ s. (Ok (), upd_file fh (\<lambda>fo. fo\<lparr>of_dirty := {}, of_meta_dirty := False\<rparr>) s)) s) s)" for cis
  proof (rule yields_then [where I = ?J], rule w)
    fix a t assume "?J t"
    from d [OF this] obtain fo where "fu_open_files (drop_excess L fh ?n t) fh = Some fo" "I (drop_excess L fh ?n t)" by blast
    from finish_keeps [OF assms(1) this(2,1)] this(1)
    show "yields I (let s = drop_excess L fh ?n t; fo = the (fu_open_files s fh)
      in then_op (if of_meta_dirty fo \<or> 0 \<in> of_dirty fo then write_head L fh ?n fo else return_op (Ok ()))
        (\<lambda>_ s. (Ok (), upd_file fh (\<lambda>fo. fo\<lparr>of_dirty := {}, of_meta_dirty := False\<rparr>) s)) s)"
      by (simp only: Let_def option.sel)
  qed simp
  then show ?thesis unfolding flush_fh_def Some option.case using assms(2) by (simp only: Let_def if_split) simp
qed

lemma read_loop_keeps:
  "aead_ok L \<Longrightarrow> I s \<Longrightarrow> yields I (read_loop L fh stop pos result s)"
proof (induction L fh stop pos result s rule: read_loop.induct)
  case (1 L fh stop pos result s)
  show ?case
  proof (cases "pos < stop \<and> fu_open_files s fh \<noteq> None")
    case False
    with 1 show ?thesis by (subst read_loop.simps) (auto split: option.splits)
  next
    case True
    then obtain fo where fo: "fu_open_files s fh = Some fo" by auto
    have put: "I (put_file fh fo' s)" if "ensure_cached L fo (pos div CHUNK_SIZE) s = Ok fo'" for fo'
      using put_keeps [OF 1(3) fo] mapped [OF 1(3) fo] ensure_cached_map [OF that] by simp
    show ?thesis
      using True fo ensure_cached_soft [OF 1(2), of fo "pos div CHUNK_SIZE" s] 1(3)
      by (subst read_loop.simps) (auto simp: Let_def intro!: put 1(1) 1(2) split: outcome.splits option.splits)
  qed
qed

lemma op_read_keeps:
  assumes "aead_ok L" "I s" "offset + sz < 2 ^ 64"
  shows "yields I (op_read L fh offset sz s)"
  using assms by (auto simp: op_read_def Let_def wrap64_id intro!: read_loop_keeps split: option.splits)

lemma write_loop_keeps:
  "aead_ok L \<Longrightarrow> I s \<Longrightarrow> yields I (write_loop L fh offset data stop pos s)"
proof (induction L fh offset data stop pos s rule: write_loop.induct)
  case (1 L fh offset data stop pos s)
  show ?case
  proof (cases "pos < stop \<and> fu_open_files s fh \<noteq> None")
    case False
    with 1 show ?thesis by (subst write_loop.simps) (auto simp: Let_def split: option.splits)
  next
    case True
    then obtain fo where fo: "fu_open_files s fh = Some fo" by auto
    let ?ci = "pos div CHUNK_SIZE" and ?g = "grow_map (pos div CHUNK_SIZE) fo"
    have g: "of_slot_map ?g \<noteq> []" using mapped [OF 1(3) fo] by (simp add: grow_map_def)
    have c: "of_slot_map fo' \<noteq> []" if "chunk_for_write L ?g ?ci s = Ok fo'" for fo'
      using that g by (auto simp: chunk_for_write_def cache_insert_def dest: ensure_cached_map split: if_splits)
    have p: "of_slot_map (patch_chunk ci coff piece chunk stop fo') = of_slot_map fo'" for ci coff piece chunk fo'
      by (simp add: patch_chunk_def Let_def)
    have s: "soft (chunk_for_write L ?g ?ci s)"
      by (auto simp: chunk_for_write_def intro: ensure_cached_soft 1(2))
    note put = put_keeps [OF 1(3) fo]
    show ?thesis
    proof (cases "chunk_for_write L ?g ?ci s")
      case (Ok fo')
      show ?thesis
        using True fo Ok 1(2) c [OF Ok]
        by (subst write_loop.simps) (auto simp: Let_def p intro!: put 1(1) split: option.splits)
    qed (use True fo s put [OF g] in \<open>subst write_loop.simps, auto simp: Let_def\<close>)+
  qed
qed

lemma op_write_keeps: "aead_ok L \<Longrightarrow> I s \<Longrightarrow> yields I (op_write L fh offset data s)"
  unfolding op_write_def Let_def
  by (intro yields_bind write_loop_keeps) (auto intro!: yields_bind write_through_keeps)

lemma resize_keeps: "aead_ok L \<Longrightarrow> I s \<Longrightarrow> yields I (resize_closed L i n s)"
  unfolding resize_closed_def Let_def
  by (intro yields_bind store_keeps)
    (auto intro!: yields_bind index_chain_keeps free_keeps store_keeps split: vault_node.splits)

lemma setattr_size_keeps: "aead_ok L \<Longrightarrow> I s \<Longrightarrow> yields I (op_setattr_size L ino hint n s)"
  by (auto simp: op_setattr_size_def resize_open_def Let_def mapped
      intro!: put_keeps yields_bind resize_keeps slot_keeps split: option.splits)

end

locale request_inv = file_inv I + entry_inv I for I :: "'a venom_fuse_scheme \<Rightarrow> bool" +
  assumes close_keeps: "I s \<Longrightarrow> f \<subseteq>\<^sub>m fu_open_files s \<Longrightarrow> I (s\<lparr>fu_open_files := f\<rparr>)"
begin

lemma unlink_keeps:
  assumes "aead_ok L" "I s"
  shows "yields I (op_unlink L parent name s)"
  unfolding op_unlink_def Let_def
proof (intro yields_bind slot_keeps remove_entry_keeps, goal_cases)
  case (4 p t i u)
  let ?u = "u\<lparr>fu_open_files := (\<lambda>fh. case fu_open_files u fh of
    Some fo \<Rightarrow> if of_head_slot fo \<noteq> i then Some fo else None | None \<Rightarrow> None)\<rparr>"
  have "I ?u" using 4 by (intro close_keeps) (auto simp: map_le_def split: option.splits)
  with read_node_soft [OF assms(1), of i ?u] show ?case
    by (auto intro!: index_chain_keeps assms(1) free_keeps split: outcome.splits vault_node.splits)
qed (use assms in \<open>auto intro: forget_keeps free_keeps\<close>)

section \<open>Requests that open nothing\<close>

lemma release_keeps: "aead_ok L \<Longrightarrow> I s \<Longrightarrow> yields I (fs_release L fh s)"
proof -
  assume a: "aead_ok L" "I s"
  have "yields I (op_release L fh s)"
    unfolding op_release_def using a
    by (intro yields_bind flush_keeps) (auto intro!: close_keeps simp: map_le_def)
  then show ?thesis by (auto simp: fs_release_def split: prod.splits outcome.splits)
qed

lemma setattr_keeps: "aead_ok L \<Longrightarrow> I s \<Longrightarrow> yields I (fs_setattr L ids ino sz fh s)"
  unfolding fs_setattr_def by (intro yields_bind getattr_keeps) (auto intro: setattr_size_keeps split: option.splits)

lemmas request_keeps = lookup_keeps mkdir_keeps rmdir_keeps unlink_keeps rename_keeps getattr_keeps setattr_keeps
  readdir_keeps release_keeps flush_keeps op_read_keeps op_write_keeps

lemma serve_keeps:
  assumes "aead_ok (fv_libs E)" "I s" "well_formed q" "\<And>parent name. q \<noteq> Create parent name" "\<And>ino. q \<noteq> Open ino"
  shows "yields I (serve E q s)"
proof (cases q)
  case (Read fh offset sz)
  have "as_usize offset + sz < 2 ^ 64" using assms(3) Read by (auto simp: as_usize_def)
  from op_read_keeps [OF assms(1,2) this] Read show ?thesis by (simp add: fs_read_file_def yields_answering)
qed (use assms in \<open>auto simp: fs_lookup_def fs_mkdir_def fs_rmdir_def fs_unlink_def fs_rename_def fs_flush_def fs_fsync_def
    op_flush_def fs_write_file_def Let_def intro!: yields_answering request_keeps yields_bind split: option.splits\<close>)

end

text \<open>Requests that open a file lead from one invariant to the next.\<close>

locale opening_inv = request_inv I for I :: "'a venom_fuse_scheme \<Rightarrow> bool" +
  fixes J :: "'a venom_fuse_scheme \<Rightarrow> bool"
  assumes weaker: "I s \<Longrightarrow> J s"
    and opens: "I s \<Longrightarrow> of_slot_map fo \<noteq> [] \<Longrightarrow> alloc_fh s = (fh, t) \<Longrightarrow> J (put_file fh fo t)"
begin

lemma create_opens: "aead_ok L \<Longrightarrow> I s \<Longrightarrow> yields J (op_create L parent name s)"
  unfolding op_create_def Let_def
  by (intro yields_then [where I = I] store_keeps enter_keeps)
    (auto simp: new_open_file_def weaker intro: opens assign_keeps split: prod.splits)

lemma build_slot_map_map:
  assumes "build_slot_map L i s = Ok (n, ch, slot_map)"
  shows "slot_map \<noteq> []"
proof -
  obtain node where "fetch L i s = Ok node" using assms by (auto simp: build_slot_map_def and_then_eq_Ok)
  with assms show ?thesis by (cases node) (auto simp: build_slot_map_def and_then_eq_Ok)
qed

lemma op_open_opens:
  assumes "aead_ok L" "I s"
  shows "yields J (op_open L ino s)"
proof -
  have b: "soft (build_slot_map L i t)" for i t
    by (auto simp: build_slot_map_def intro!: soft_and_then fetch_soft follow_index_soft assms(1) split: vault_node.splits)
  have c: "soft (and_then (fetch L i t) (\<lambda>node. case node of File fb \<Rightarrow> Ok (fb_data fb) | _ \<Rightarrow> Err EISDIR))" for i t
    by (auto intro!: soft_and_then fetch_soft assms(1) split: vault_node.splits)
  show ?thesis
    unfolding op_open_def Let_def
    by (intro yields_then [where I = I] slot_keeps assms(2))
      (auto simp: b c weaker intro!: yields_then [where I = I] opens split: prod.splits)
qed

lemma serve_opens:
  assumes "aead_ok (fv_libs E)" "I s" "well_formed q"
  shows "yields J (serve E q s)"
proof (cases "(\<exists>parent name. q = Create parent name) \<or> (\<exists>ino. q = Open ino)")
  case True
  then show ?thesis
    using assms by (auto simp: fs_create_def fs_open_def weaker
      intro!: yields_answering create_opens op_open_opens yields_then [where I = J] split: option.splits)
next
  case False
  with serve_keeps [OF assms] have "yields I (serve E q s)" by blast
  with weaker show ?thesis by (simp add: yields_def)
qed

end

section \<open>Sessions\<close>

definition settings where
  "settings s = (master_key s, store_cipher s, slot_start s, slot_limit s, alloc_slot s, vc_root_slot s, vc_is_hidden s,
     vc_cipher s, vc_outer_slots s, vc_outer_limit s, vc_k_master s, vc_container_id s)"

text \<open>
  With fewer than \<open>k\<close> requests served, the counter of handles has not come round, so that the next handle is
  a new one.
\<close>

definition handles_below :: "nat \<Rightarrow> venom_fuse \<Rightarrow> bool" where
  "handles_below k s \<longleftrightarrow> 0 < fu_next_fh s \<and> fu_next_fh s \<le> k \<and> (\<forall>fh. fu_open_files s fh \<noteq> None \<longrightarrow> fh < fu_next_fh s)"

definition session_inv :: "vnm_container \<Rightarrow> nat \<Rightarrow> venom_fuse \<Rightarrow> bool" where
  "session_inv c k s \<longleftrightarrow> settings s = settings c \<and> (k < 2 ^ 64 \<longrightarrow> handles_below k s) \<and>
     (\<forall>fh fo. fu_open_files s fh = Some fo \<longrightarrow> of_slot_map fo \<noteq> [])"

inductive session_step :: "fuse_env \<Rightarrow> venom_fuse \<times> nat \<Rightarrow> venom_fuse \<times> nat \<Rightarrow> bool" for E where
  served: "well_formed q \<Longrightarrow> serve E q s = (r, t) \<Longrightarrow> \<forall>p. r \<noteq> Panic p \<Longrightarrow> session_step E (s, n) (t, Suc n)"

inductive_cases session_stepE: "session_step E p q"

definition session_start :: "vnm_container \<Rightarrow> venom_fuse \<times> nat \<Rightarrow> bool" where
  "session_start c p \<longleftrightarrow> p = (venom_fuse_new c, 0)"

lemma apart_settings: "apart s (t :: 'a vnm_container_scheme) \<Longrightarrow> settings t = settings s"
  by (cases s; cases t) (simp add: apart_def settings_def)

lemma settings_fields [simp]:
  "settings (s\<lparr>fu_inodes := m\<rparr>) = settings s" "settings (s\<lparr>fu_open_files := f\<rparr>) = settings s"
  "settings (put_file fh fo s) = settings s" "settings (s\<lparr>fu_next_fh := n\<rparr>) = settings (s :: venom_fuse)"
  by (simp_all add: settings_def put_file_def)

interpretation session: opening_inv "session_inv c k" "session_inv c (Suc k)" for c k
proof (unfold_locales, goal_cases)
  case (1 s t)
  then have "slot_store.more t = slot_store.more s" by (simp add: apart_def)
  from more_fields [OF this] apart_settings [OF 1(2)] 1(1) show ?case by (simp add: session_inv_def handles_below_def)
next
  case (4 s m)
  then show ?case by (simp add: session_inv_def handles_below_def)
next
  case (5 s f)
  then have "f fh = Some fo \<Longrightarrow> fu_open_files s fh = Some fo" for fh fo by (auto simp: map_le_def dom_def)
  with 5(1) show ?case by (auto simp: session_inv_def handles_below_def)
next
  case (6 s)
  then show ?case by (auto simp: session_inv_def handles_below_def)
next
  case (7 s fo fh t)
  have *: "fh = fu_next_fh s" "t = s\<lparr>fu_next_fh := max (wrap64 (fu_next_fh s + 1)) 1\<rparr>"
    using 7(3) unfolding alloc_fh_def by (metis fst_conv, metis snd_conv)
  have "handles_below (Suc k) (put_file fh fo t)" if k: "Suc k < 2 ^ 64"
  proof -
    have h: "handles_below k s" using 7(1) k by (simp add: session_inv_def)
    then have "fu_next_fh s + 1 < 2 ^ 64" using k by (simp add: handles_below_def)
    then have "wrap64 (fu_next_fh s + 1) = fu_next_fh s + 1" by (rule wrap64_id)
    with h show ?thesis by (auto simp: * handles_below_def put_file_def less_Suc_eq)
  qed
  with 7(1,2) show ?case by (auto simp: * session_inv_def) (auto simp: put_file_def split: if_splits)
qed (auto simp: session_inv_def handles_below_def put_file_def split: if_splits)

interpretation sessions: machine_invariant "session_start c" "session_step E"
    "\<lambda>(s, n). aead_ok (fv_libs E) \<longrightarrow> session_inv c (Suc n) s" for c E
proof (unfold_locales, goal_cases)
  case (1 p)
  then show ?case
    by (simp add: session_start_def session_inv_def handles_below_def venom_fuse_new_def settings_def vnm_container.defs venom_fuse.defs)
next
  case (2 p p')
  from 2(2) show ?case
  proof (rule session_stepE)
    fix q s r t n
    assume q: "p = (s, n)" "p' = (t, Suc n)" "well_formed q" "serve E q s = (r, t)"
    show ?thesis
      using 2(1) session.serve_opens [of E c "Suc n" s q] q by simp
  qed
qed

text \<open>The handle that a request hands out is the counter before it, in a table otherwise unchanged.\<close>

lemma open_handle_new:
  assumes "op_open L ino s = (Ok fh, t)"
  shows "fh = fu_next_fh s" "\<exists>fo. fu_open_files t = (fu_open_files s)(fh \<mapsto> fo)"
  using assms by (auto simp: op_open_def then_op_eq_Ok slot_of_ino_def alloc_fh_def put_file_def Let_def)

definition same_handles :: "nat \<Rightarrow> (nat \<rightharpoonup> open_file) \<Rightarrow> venom_fuse \<Rightarrow> bool" where
  "same_handles n f t \<longleftrightarrow> fu_next_fh t = n \<and> fu_open_files t = f"

interpretation handles: entry_inv "same_handles n f" for n f
proof (unfold_locales, goal_cases)
  case (1 s t)
  then have "slot_store.more t = slot_store.more s" by (simp add: apart_def)
  from more_fields [OF this] 1(1) show ?case by (simp add: same_handles_def)
qed (simp add: same_handles_def)

lemma new_file_handle:
  assumes "aead_ok L" "op_create L parent name (s :: venom_fuse) = (Ok (ino, fh), t)"
  shows "fh = fu_next_fh s" "\<exists>fo. fu_open_files t = (fu_open_files s)(fh \<mapsto> fo)"
proof -
  let ?K = "same_handles (fu_next_fh s) (fu_open_files s)"
  obtain p_slot head s1 s2 where w: "eio (write_node L (File \<lparr>fb_kind = KFile, fb_total_size = 0, fb_data_slots = [],
         fb_index_chain = None, fb_data = []\<rparr>)) s = (Ok head, s1)"
    and e: "enter_node L p_slot \<lparr>de_name = name, de_slot = head, de_kind = KFile\<rparr> s1 = (Ok (), s2)"
    and r: "(let (ino, s) = assign_ino head s2; (fh, s) = alloc_fh s in (Ok (ino, fh), put_file fh (new_open_file ino head) s)) =
      ((Ok (ino, fh), t) :: (errno, nat \<times> nat) outcome \<times> venom_fuse)"
    using assms(2) unfolding op_create_def by (auto simp: then_op_eq_Ok slot_of_ino_def)
  have "yields ?K (eio (write_node L (File \<lparr>fb_kind = KFile, fb_total_size = 0, fb_data_slots = [],
         fb_index_chain = None, fb_data = []\<rparr>)) s)" by (intro yields_eio handles.write_keeps) (simp add: same_handles_def)
  then have "?K s1" using w by simp
  from handles.enter_keeps [OF assms(1) this, of p_slot "\<lparr>de_name = name, de_slot = head, de_kind = KFile\<rparr>"] e
  have "?K s2" by simp
  with r show "fh = fu_next_fh s" "\<exists>fo. fu_open_files t = (fu_open_files s)(fh \<mapsto> fo)"
    by (auto simp: same_handles_def assign_ino_def alloc_fh_def put_file_def Let_def split: prod.splits)
qed

text \<open>Handles are handed out by exactly these answers.\<close>

fun hands_out :: "(errno, answer) outcome \<Rightarrow> nat option" where
  "hands_out (Ok (Created a fh)) = Some fh"
| "hands_out (Ok (Opened fh)) = Some fh"
| "hands_out r = None"

lemma answering_Ok: "answering f m s = (Ok a, t) \<longleftrightarrow> (\<exists>x. m s = (Ok x, t) \<and> a = f x)"
  by (auto simp: answering_def then_op_eq_Ok)

lemma served_handle:
  assumes "aead_ok (fv_libs E)" "serve E q (s :: venom_fuse) = (r, t)" "hands_out r = Some fh"
  shows "fh = fu_next_fh s \<and> (\<exists>fo. fu_open_files t = (fu_open_files s)(fh \<mapsto> fo))"
proof -
  obtain a where a: "r = Ok a" "(\<exists>x. a = Created x fh) \<or> a = Opened fh"
    using assms(3) by (cases r rule: hands_out.cases) auto
  show ?thesis
  proof (cases q)
    case (Create parent name)
    then show ?thesis
      using a assms(2) new_file_handle [OF assms(1)]
      by (cases name) (auto simp: answering_Ok fs_create_def then_op_eq_Ok)
  next
    case (Open ino)
    then show ?thesis using a assms(2) open_handle_new by (auto simp: answering_Ok fs_open_def)
  qed (use a assms(2) in \<open>auto simp: answering_Ok\<close>)
qed

end
