(* ===== verification/Session_Properties.thy ===== *)
theory Session_Properties
  imports Fuse_Session Fuse_Demo
begin

text \<open>
  What holds in every session of the FUSE adapter (fs/fuse.rs): no request makes it panic, the keys and the
  geometry stay, handles are new ones. And what does not: a handle of a file that was renamed over lives on, and
  what it writes destroys the file that gets its slot.
\<close>

text \<open>C33: In a session of any length over a container of any content, damaged or not, no request that the kernel can send
makes the adapter panic (short of an endless chain of slots, and of memory running out, which is not modelled), every request leaves the keys, the geometry and the root
of the volume as they were, and as long as the 64-bit counter has not come round a handle handed out is one that
no open file has, is entered with a slot map of at least one place, and changes no other open file.\<close>

theorem session_safe:
  assumes "libs_ok (fv_libs E)" "reach (session_start c) (session_step E) (s, n)" "well_formed q" "serve E q s = (r, t)"
  shows "(\<forall>p. r = Panic p \<longrightarrow> p = ''does not return'') \<and> settings t = settings c \<and>
    (Suc n < 2 ^ 64 \<longrightarrow> hands_out r = Some fh \<longrightarrow> 0 < fh \<and> fu_open_files s fh = None \<and>
      (\<exists>fo. fu_open_files t = (fu_open_files s)(fh \<mapsto> fo) \<and> of_slot_map fo \<noteq> []))"
proof -
  note L = libs_okD(1) [OF assms(1)]
  have inv: "session_inv c (Suc n) s" using sessions.reach_inv [OF assms(2)] L by simp
  have y: "soft r" "session_inv c (Suc (Suc n)) t"
    using session.serve_opens [OF L inv assms(3)] assms(4) by simp_all
  have "0 < fh \<and> fu_open_files s fh = None \<and> (\<exists>fo. fu_open_files t = (fu_open_files s)(fh \<mapsto> fo) \<and> of_slot_map fo \<noteq> [])"
    if k: "Suc n < 2 ^ 64" and fh: "hands_out r = Some fh"
  proof -
    have h: "handles_below (Suc n) s" using inv k by (simp add: session_inv_def)
    obtain fo where fo: "fh = fu_next_fh s" "fu_open_files t = (fu_open_files s)(fh \<mapsto> fo)"
      using served_handle [OF L assms(4) fh] by blast
    have "fu_open_files t fh = Some fo" using fo(2) by simp
    then have "of_slot_map fo \<noteq> []" using y(2) by (simp only: session_inv_def) blast
    with h fo show ?thesis by (auto simp: handles_below_def)
  qed
  with y show ?thesis by (simp add: soft_def session_inv_def)
qed

section \<open>A file that is renamed over while it is open\<close>

text \<open>A handle with changes to a file of one chunk, which lies in the cache.\<close>

definition one_chunk :: "open_file \<Rightarrow> bytes \<Rightarrow> bool" where
  "one_chunk fo data \<longleftrightarrow> of_slot_map fo = [None] \<and> of_index_chain fo = None \<and> of_dirty fo = {0} \<and> of_cache fo 0 = Some data \<and>
     length data = of_total_size fo \<and> of_total_size fo \<le> CHUNK_SIZE"

definition one_chunk_head :: "bytes \<Rightarrow> vault_node" where
  "one_chunk_head data = File \<lparr>fb_kind = KFile, fb_total_size = length data, fb_data_slots = [], fb_index_chain = None, fb_data = data\<rparr>"

lemma flush_one_chunk:
  assumes "order_ok L" "fu_open_files s fh = Some fo" "one_chunk fo data"
  shows "flush_fh L fh s = then_op (eio (update_node L (of_head_slot fo) (one_chunk_head data)))
    (\<lambda>_ s. (Ok (), upd_file fh (\<lambda>fo. fo\<lparr>of_dirty := {}, of_meta_dirty := False\<rparr>) s)) s"
proof -
  note o = assms(3) [unfolded one_chunk_def]
  have "set (hash_order L {0 :: nat}) = {0}" using assms(1) by (simp add: order_ok_def)
  then have c: "filter (\<lambda>ci. 1 \<le> ci) (hash_order L (of_dirty fo)) = []" using o by (simp add: filter_empty_conv)
  have d: "drop_excess L fh n s = s" for n using assms(2) o by (simp add: drop_excess_def)
  have h: "head_data L fo s = Ok data" using o by (simp add: head_data_def chunk_actual_size_def split: if_splits)
  have n: "continuation_slots m (of_slot_map fo) = Ok []" for m
    using o by (simp add: continuation_slots_def Let_def subrange_def List.map_filter_def)
  have same: "upd_file fh (\<lambda>fo. fo\<lparr>of_index_chain := None\<rparr>) s = s"
  proof -
    have "fo\<lparr>of_index_chain := None\<rparr> = fo" using o by simp
    then show ?thesis by (simp only: upd_put [OF assms(2)] put_file_id [OF assms(2)])
  qed
  have w: "write_head L fh m fo s = eio (update_node L (of_head_slot fo) (one_chunk_head data)) s" for m
    using o h n [of m] same by (simp add: write_head_def free_index_chain_def chain_fuel_def one_chunk_head_def)
  have "flush_fh L fh s = then_op (write_head L fh (chunk_count (of_total_size fo)) fo)
    (\<lambda>_ s. (Ok (), upd_file fh (\<lambda>fo. fo\<lparr>of_dirty := {}, of_meta_dirty := False\<rparr>) s)) s"
    using assms(2) o c d by (simp add: flush_fh_def Let_def)
  with w show ?thesis by (simp add: then_op_def)
qed

lemma freed:
  assumes "node_inv L s" "heap.frame L X s s1" "heap.live s1 = heap.live s - Y" "Y \<subseteq> heap.live s"
  shows "free_set s1 = free_set s \<union> Y"
proof -
  have av: "free_set t = pool_owned t - heap.live t" if "node_inv L t" for t :: "'a slot_store_scheme"
    using pool.avail_owned [of t] that by (auto simp: node_inv_def heap.live_def)
  have "pool_owned s1 = pool_owned s" "node_inv L s1" using assms(2) by (simp_all add: heap.frame_def)
  then have "free_set s1 = pool_owned s - (heap.live s - Y)" "free_set s = pool_owned s - heap.live s"
    using av assms(1,3) by simp_all
  moreover have "heap.live s \<subseteq> pool_owned s" by (auto simp: heap.live_def)
  ultimately show ?thesis using assms(4) by blast
qed

text \<open>C34: Renaming a node over a file that is open (two live nodes, neither of them one of the two directories) leaves its
handle open on a slot that is free again. Suppose the handle holds a
change that was not flushed, to a file of one chunk (that chunk is in the cache and dirty, there is no other chunk and no
index chain), and its slot is below all free ones. Then the next file created, in any directory and under another handle, gets that slot; its name
leads to an empty file, until the stale handle is flushed: from then on it leads, under the inode of the new file, to a
file with the content of the old one.\<close>

theorem stale_handle_overwrites:
  assumes "libs_ok L" "order_ok L" "fuse_ok L s" "dir_at L s parent p d" "find_entry name d = Some e" "de_slot e \<in> heap.live s - {p, np}"
    and "dir_at L s newparent np d2" "np = p \<Longrightarrow> d2 = d" "op_rename L parent name newparent newname s = (Ok (), s1)"
    and "find_entry newname (if np = p then cut_entry name d else d2) = Some x" "de_slot x \<in> heap.live s - {p, np, de_slot e}"
    and "fu_open_files s fh = Some fo" "of_head_slot fo = de_slot x" "one_chunk fo data"
    and "\<forall>j \<in> free_set s. de_slot x < j" "dir_at L s1 dir q dd" "op_create L dir fname s1 = (Ok (ino, fh2), s2)" "fh2 \<noteq> fh"
    and "flush_fh L fh (s2 :: venom_fuse) = (Ok (), s3)"
  shows "fu_open_files s1 fh = Some fo \<and> de_slot x \<in> free_set s1 \<and> slot_of ino (fu_inodes s2) = Some (de_slot x) \<and>
    op_lookup L dir fname s2 = (Ok (ino, empty_file), s2) \<and>
    op_lookup L dir fname s3 = (Ok (ino, one_chunk_head data), s3)"
proof -
  have "same_handles (fu_next_fh s) (fu_open_files s) s" by (simp add: same_handles_def)
  then have "same_handles (fu_next_fh s) (fu_open_files s) s1"
    using handles.rename_keeps [OF libs_okD(1) [OF assms(1)]] assms(9) by (metis yields_pair)
  then have opn: "fu_open_files s1 fh = Some fo" using assms(12) by (simp add: same_handles_def)
  have old: "de_slot y \<in> heap.live s - {p, np, de_slot e}"
    if "find_entry newname (if np = p then cut_entry name d else d2) = Some y" for y
    using that assms(10,11) by simp
  note rn = op_rename_Ok [OF assms(3-9) old]
  have inv: "node_inv L s" using assms(3) by (simp add: fuse_ok_def)
  have live1: "heap.live s1 = heap.live s - {de_slot x}" using rn(4) assms(10) by simp
  have "{de_slot x} \<subseteq> heap.live s" using assms(11) by simp
  note fr = freed [OF inv rn(3) live1 this]
  have free1: "de_slot x \<in> free_set s1" "\<forall>j \<in> free_set s1. de_slot x \<le> j"
    using fr assms(15) less_imp_le by (simp, fastforce)
  have "finite (free_set s1)" by (simp add: free_set_def)
  then have low: "Min (free_set s1) = de_slot x" using free1 by (simp add: Min_eqI)
  have ok1: "fuse_ok L s1" using rn(7) by blast
  show ?thesis
  proof (rule op_create_Ok [OF ok1 assms(16,17)], goal_cases)
    case (1 slot)
    let ?e = "\<lparr>de_name = fname, de_slot = slot, de_kind = KFile\<rparr>"
    have sx: "slot = de_slot x" using 1(2) low by simp
    have o2: "fu_open_files s2 fh = Some fo" using 1(11) opn assms(18) by simp
    obtain t where t: "update_node L slot (one_chunk_head data) s2 = (Ok (), t)"
      and s3: "s3 = upd_file fh (\<lambda>fo. fo\<lparr>of_dirty := {}, of_meta_dirty := False\<rparr>) t"
      using assms(19) by (auto simp: flush_one_chunk [OF assms(2) o2 assms(14)] assms(13) sx then_op_eq_Ok)
    have inv2: "node_inv L s2" by (rule heap.frame_inv [OF 1(5)])
    have v2: "in_volume s2 slot" by (rule heap.live_valid) (simp add: 1(4))
    have it: "fu_inodes t = fu_inodes s2" using more_fields [OF update_node_more [OF inv2 v2 t]] by simp
    have "q \<in> heap.live s1" using assms(16) by (simp add: dir_at_def)
    then have "q \<notin> {slot}" using 1(3) by auto
    from dir_at_kept [OF 1(6) heap.frame_wr(1) [OF inv2 v2 t] this it]
    have dt: "dir_at L t dir q (push_entry ?e dd)" .
    have rt: "fst (read_node L slot t) = Ok (one_chunk_head data)"
      by (rule nodes.read_same [OF inv2 v2 _ t]) (simp add: any_node_def)
    have sh: "same_heap t s3" and i3: "fu_inodes s3 = fu_inodes s2"
      by (simp_all add: s3 it) (simp add: upd_file_def it split: option.split)
    have "op_lookup L dir fname s3 = (Ok (ino, one_chunk_head data), s3)"
    proof (rule op_lookup_found)
      show "dir_at L s3 dir q (push_entry ?e dd)" using dt by (simp add: dir_at_def same_heap_heap [OF sh] i3 it)
      show "find_entry fname (push_entry ?e dd) = Some ?e"
        using 1(1) dirs.push_spec [of dd ?e fname] assms(16) by (simp add: dir_at_def)
    qed (use rt 1(8,9) in \<open>simp_all add: same_heap_heap [OF sh] i3\<close>)
    then show ?case using opn free1(1) 1(9,12) sx by simp
  qed
qed

section \<open>Instances\<close>

definition two_files :: directory_block where
  "two_files = \<lparr>db_kind = KDirectory, db_entries = [\<lparr>de_name = ''x'', de_slot = 2, de_kind = KFile\<rparr>,
     \<lparr>de_name = ''y'', de_slot = 3, de_kind = KFile\<rparr>]\<rparr>"

definition y_file :: open_file where
  "y_file = \<lparr>of_ino = 3, of_head_slot = 3, of_total_size = 2, of_index_chain = None, of_slot_map = [None],
     of_cache = [0 \<mapsto> [7, 8]], of_dirty = {0}, of_meta_dirty = True\<rparr>"

lemma two_files_facts:
  "find_entry ''x'' two_files = Some \<lparr>de_name = ''x'', de_slot = 2, de_kind = KFile\<rparr>"
  "cut_entry ''x'' two_files = \<lparr>db_kind = KDirectory, db_entries = [\<lparr>de_name = ''y'', de_slot = 3, de_kind = KFile\<rparr>]\<rparr>"
  "find_entry ''y'' (cut_entry ''x'' two_files) = Some \<lparr>de_name = ''y'', de_slot = 3, de_kind = KFile\<rparr>"
  "dir_wf two_files" "length (put_node (Directory two_files)) \<le> 1000"
  "length (put_node (Directory (cut_entry ''x'' two_files))) \<le> 1000"
  by (simp_all add: two_files_def find_entry_def cut_entry_def dir_wf_def put_list_def put_nat.simps put_bytes_def
      Demo_Libs.put_entry_def put_name_def)

lemma demo_two_files:
  obtains s :: venom_fuse where "fuse_ok demo_libs s" "dir_at demo_libs s 1 1 two_files" "heap.live s = {1, 2, 3}"
    "free_set s = {4..<20}" "fst (read_node demo_libs 2 s) = Ok empty_file" "fu_open_files s = [1 \<mapsto> y_file]" "fu_next_fh s = 2"
proof -
  obtain s0 :: venom_fuse where s0: "fuse_ok demo_libs s0" "dir_at demo_libs s0 1 1 no_entries" "heap.live s0 = {1}"
    "free_set s0 = {2..<20}" "fu_open_files s0 = Map.empty" "fu_inodes s0 = inode_map_new 1"
    by (rule demo_fuse)
  have mn: "Min {2..<20::nat} = 2" "Min {3..<20::nat} = 3" by (rule Min_eqI; auto)+
  have i0: "node_inv demo_libs s0" using s0(1) by (simp add: fuse_ok_def)
  obtain s1 where w1: "write_node demo_libs empty_file s0 = (Ok 2, s1)" using demo_new [OF i0 _ demo_sizes(2)] s0(4) mn by auto
  note o1 = write_node_Ok [OF i0 w1]
  have f1: "free_set s1 = {3..<20}" using o1 s0(4) by auto
  have ne: "free_set s1 \<noteq> {}" using f1 by simp
  have i1: "node_inv demo_libs s1" using o1 by simp
  obtain s2 where w2: "write_node demo_libs empty_file s1 = (Ok 3, s2)" using demo_new [OF i1 ne demo_sizes(2)] f1 mn by auto
  note o2 = write_node_Ok [OF i1 w2]
  have f2: "free_set s2 = {4..<20}" using o2 f1 by auto
  have i2: "node_inv demo_libs s2" using o2 by simp
  have any: "any_node empty_file" by (simp add: any_node_def)
  have l1: "heap.live s1 = {1, 2}" using heap.new_live(3) [OF i0 any w1] s0(3) by (simp add: insert_commute)
  have l2: "heap.live s2 = {1, 2, 3}" using heap.new_live(3) [OF i1 any w2] l1 by (simp add: insert_commute)
  obtain s3 where u: "update_node demo_libs 1 (Directory two_files) s2 = (Ok (), s3)"
    using demo_update [OF i2 heap.live_valid two_files_facts(5), of 1] l2 by auto
  have v: "in_volume s2 1" using heap.live_valid [of 1 s2] l2 by simp
  note fr = heap.frame_wr [OF i2 v u]
  have "any_node (Directory two_files)" by (simp add: any_node_def)
  note rd = nodes.read_same [OF i2 v this u]
  have two: "fst (read_node demo_libs 2 s3) = Ok empty_file"
  proof -
    have "fst (read_node demo_libs 2 s2) = Ok empty_file"
      using o1 heap.frame_read [OF heap.frame_new [OF i1 w2], of 2] l1 by simp
    then show ?thesis using heap.frame_read [OF fr(1), of 2] l2 by simp
  qed
  have keep: "fu_inodes s3 = inode_map_new 1" "fu_open_files s3 = Map.empty"
  proof -
    have "slot_store.more s3 = slot_store.more s0"
      using write_node_apart [OF w1] write_node_apart [OF w2] update_node_apart [OF u] by (simp add: apart_def)
    from more_fields [OF this] s0(5,6) show "fu_inodes s3 = inode_map_new 1" "fu_open_files s3 = Map.empty" by simp_all
  qed
  have w3: "free_set s3 = {4..<20}" using heap.wr_slots [OF i2 v u] f2 by simp
  let ?s = "(put_file 1 y_file s3)\<lparr>fu_next_fh := 2\<rparr>"
  have sh: "same_heap s3 ?s" by (simp add: same_heap_def slot_store.truncate_def put_file_def)
  have h: "fu_inodes ?s = inode_map_new 1" "fu_open_files ?s = [1 \<mapsto> y_file]" using keep by (simp_all add: put_file_def)
  have i3: "node_inv demo_libs s3" by (rule heap.frame_inv [OF fr(1)])
  have "fuse_ok demo_libs ?s"
    using i3 s0(1) by (simp only: fuse_ok_def h s0(6) same_heap_heap(1) [OF sh])
  moreover have "dir_at demo_libs ?s 1 1 two_files"
    using rd l2 fr(2) two_files_facts(4) s0(2)
    by (simp only: dir_at_def h same_heap_heap [OF sh] s0(6)) simp
  ultimately show thesis
    using l2 fr(2) w3 two h(2) by (intro that [of ?s]) (simp_all only: same_heap_heap [OF sh], simp)
qed

definition y_moved :: directory_block where
  "y_moved = push_entry \<lparr>de_name = ''y'', de_slot = 2, de_kind = KFile\<rparr> no_entries"

text \<open>The file \<open>x\<close> renamed over \<open>y\<close>, which is open.\<close>

lemma demo_renamed_over:
  obtains s s1 :: venom_fuse where "fuse_ok demo_libs s" "dir_at demo_libs s 1 1 two_files" "heap.live s = {1, 2, 3}"
    "free_set s = {4..<20}" "fu_open_files s = [1 \<mapsto> y_file]" "fu_next_fh s = 2"
    "op_rename demo_libs 1 ''x'' 1 ''y'' s = (Ok (), s1)" "fuse_ok demo_libs s1" "dir_at demo_libs s1 1 1 y_moved"
    "free_set s1 = insert 3 {4..<20}"
proof -
  obtain s :: venom_fuse where s: "fuse_ok demo_libs s" "dir_at demo_libs s 1 1 two_files" "heap.live s = {1, 2, 3}"
    "free_set s = {4..<20}" "fst (read_node demo_libs 2 s) = Ok empty_file" "fu_open_files s = [1 \<mapsto> y_file]" "fu_next_fh s = 2"
    by (rule demo_two_files)
  note tf = two_files_facts
  obtain s0 where rm: "dir_remove_entry demo_libs 1 ''x'' s = (Ok 2, s0)"
    by (rule demo_remove [OF s(1,2) tf(1,6)]) simp
  note rs = remove_entry_spec [OF s(1,2) rm]
  have d0: "heap.frame demo_libs {1} s s0" "dir_at demo_libs s0 1 1 (cut_entry ''x'' two_files)"
    using rs(5) [of 2] tf(1) by auto
  have i0: "node_inv demo_libs s0" and l0: "heap.live s0 = {1, 2, 3}" using heap.frame_inv [OF d0(1)] rs(3) s(3) by simp_all
  let ?u = "forget_slot 3 (free_node demo_libs 3 s0)"
  note fd = heap.frame_del [OF i0, of 3]
  have iu: "node_inv demo_libs ?u" "in_volume ?u 1"
  proof -
    have "node_inv demo_libs (free_node demo_libs 3 s0)" "1 \<in> heap.live (free_node demo_libs 3 s0)"
      using fd l0 by (auto intro: heap.frame_inv)
    then show "node_inv demo_libs ?u" "in_volume ?u 1"
      using same_heap_heap(1,2) [of "free_node demo_libs 3 s0" ?u] heap.live_valid by auto
  qed
  let ?d = "Directory (no_entries\<lparr>db_entries := [\<lparr>de_name = ''y'', de_slot = 2, de_kind = KFile\<rparr>]\<rparr>)"
  have "length (put_node ?d) \<le> 1000"
    by (simp add: put_list_def put_nat.simps put_bytes_def Demo_Libs.put_entry_def put_name_def no_entries_def)
  then obtain s1 where u: "update_node demo_libs 1 ?d ?u = (Ok (), s1)" using demo_update [OF iu] by blast
  have "fst (read_node demo_libs 2 s0) = Ok empty_file" using heap.frame_read [OF d0(1), of 2] s(3,5) by simp
  then have rd: "eio (read_node demo_libs 2) s0 = (Ok empty_file, s0)" by (simp add: eio_def)
  have sl: "slot_of_ino 1 s = (Ok 1, s)" using s(2) by (simp add: dir_at_def slot_of_ino_def)
  have rb: "read_dir_block demo_libs 1 s0 = (Ok (cut_entry ''x'' two_files), s0)" using d0(2) by (simp add: dir_at_def read_dir_Ok)
  have r: "op_rename demo_libs 1 ''x'' 1 ''y'' s = (Ok (), s1)"
    using sl rm rd rb u by (simp add: op_rename_def tf(2) entry_position_def vec_remove_def empty_file_def no_entries_def)
  let ?y = "\<lparr>de_name = ''y'', de_slot = 3, de_kind = KFile\<rparr>"
  have old: "de_slot y \<in> heap.live s - {1, 1, de_slot \<lparr>de_name = ''x'', de_slot = 2, de_kind = KFile\<rparr>}"
    if "find_entry ''y'' (if 1 = (1 :: nat) then cut_entry ''x'' two_files else two_files) = Some y" for y
    using that tf(3) s(3) by auto
  have e2: "de_slot \<lparr>de_name = ''x'', de_slot = 2, de_kind = KFile\<rparr> \<in> heap.live s - {1, 1}" by (simp add: s(3))
  note rn = op_rename_Ok [OF s(1,2) tf(1) e2 s(2) refl r old]
  have inv: "node_inv demo_libs s" using s(1) by (simp add: fuse_ok_def)
  have f1: "free_set s1 = insert 3 {4..<20}" using freed [OF inv rn(3), of "{3}"] rn(4) tf(3) s(3,4) by simp
  have cd: "cut_entry ''y'' (cut_entry ''x'' two_files) = no_entries"
    by (simp add: two_files_def cut_entry_def no_entries_def)
  have d1: "dir_at demo_libs s1 1 1 y_moved"
    using rn(1) s(5) by (auto simp: cd moved_entry_def y_moved_def empty_file_def)
  have ok1: "fuse_ok demo_libs s1" using rn(7) by blast
  show thesis by (rule that [OF s(1-4,6,7) r ok1 d1 f1])
qed

definition demo_env :: fuse_env where
  "demo_env = \<lparr>fv_libs = demo_libs, fv_ids = (0, 0), fv_full = \<lambda>_ _. False\<rparr>"

theorem session_safe_witness:
  "\<exists>c t a fh fo. serve demo_env (Create 1 (Some ''x'')) (venom_fuse_new c) = (Ok (Created a fh), t) \<and>
     fu_open_files t = [fh \<mapsto> fo] \<and> of_slot_map fo \<noteq> [] \<and> settings t = settings c"
proof -
  obtain c where s: "fuse_ok demo_libs (venom_fuse_new c)" "dir_at demo_libs (venom_fuse_new c) 1 1 no_entries"
    "free_set (venom_fuse_new c) = {2..<20}" "fu_open_files (venom_fuse_new c) = Map.empty"
    by (rule demo_mounted)
  let ?s = "venom_fuse_new c"
  have mn: "Min {2..<20::nat} = 2" by (rule Min_eqI) auto
  have e: "demo_entry KFile = \<lparr>de_name = ''x'', de_slot = Min (free_set ?s), de_kind = KFile\<rparr>" by (simp add: demo_entry_def s(3) mn)
  have ne: "free_set ?s \<noteq> {}" "find_entry ''x'' no_entries = None" by (simp_all add: s(3) find_entry_def no_entries_def)
  obtain s1 s2 where w: "write_node demo_libs empty_file ?s = (Ok (Min (free_set ?s)), s1)"
    "enter_node demo_libs 1 (demo_entry KFile) s1 = (Ok (), s2)"
    by (rule demo_enter [OF s(1,2) ne demo_sizes(2) e demo_sizes(4)])
  have "slot_of_ino 1 ?s = (Ok 1, ?s)" using s(2) by (simp add: dir_at_def slot_of_ino_def)
  then obtain ino fh t where "op_create demo_libs 1 ''x'' ?s = (Ok (ino, fh), t)"
    using w by (simp add: op_create_def empty_file_def [symmetric] demo_entry_def s(3) mn Let_def split_beta)
  then have r: "serve demo_env (Create 1 (Some ''x'')) ?s = (Ok (Created (make_file_attr (0, 0) ino 0) fh), t)"
    by (simp add: fs_create_def answering_Ok then_op_eq_Ok demo_env_def)
  have L: "libs_ok (fv_libs demo_env)" by (simp add: demo_env_def demo_libs_ok)
  have st: "reach (session_start c) (session_step demo_env) (?s, 0)" by (rule reach_start) (simp add: session_start_def)
  have wf: "well_formed (Create 1 (Some ''x''))" by simp
  have "hands_out (Ok (Created (make_file_attr (0, 0) ino 0) fh)) = Some fh" by simp
  with session_safe [OF L st wf r, of fh] s(4)
  obtain fo where "fu_open_files t = [fh \<mapsto> fo]" "of_slot_map fo \<noteq> []" "settings t = settings c" by auto
  with r show ?thesis by blast
qed

theorem stale_handle_overwrites_witness:
  "\<exists>(s :: venom_fuse) s1 ino fh s2 s3. op_rename demo_libs 1 ''x'' 1 ''y'' s = (Ok (), s1) \<and>
     op_create demo_libs 1 ''z'' s1 = (Ok (ino, fh), s2) \<and> flush_fh demo_libs 1 s2 = (Ok (), s3) \<and>
     op_lookup demo_libs 1 ''z'' s3 = (Ok (ino, one_chunk_head [7, 8]), s3)"
proof -
  obtain s s1 :: venom_fuse where s: "fuse_ok demo_libs s" "dir_at demo_libs s 1 1 two_files" "heap.live s = {1, 2, 3}"
    "free_set s = {4..<20}" "fu_open_files s = [1 \<mapsto> y_file]" "fu_next_fh s = 2"
    and q: "op_rename demo_libs 1 ''x'' 1 ''y'' s = (Ok (), s1)" "fuse_ok demo_libs s1" "dir_at demo_libs s1 1 1 y_moved"
    "free_set s1 = insert 3 {4..<20}"
    by (rule demo_renamed_over)
  note tf = two_files_facts
  have m1: "Min (free_set s1) = 3" unfolding q(4) by (rule Min_eqI) auto
  have ne1: "free_set s1 \<noteq> {}" using q(4) by simp
  let ?z = "\<lparr>de_name = ''z'', de_slot = Min (free_set s1), de_kind = KFile\<rparr>"
  have nz: "find_entry ''z'' y_moved = None" by (simp add: find_entry_def push_entry_def no_entries_def y_moved_def)
  have szz: "length (put_node (Directory (push_entry ?z y_moved))) \<le> 1000"
    by (simp add: m1 put_list_def put_nat.simps put_bytes_def Demo_Libs.put_entry_def put_name_def push_entry_def no_entries_def y_moved_def)
  obtain sa sb where en: "write_node demo_libs empty_file s1 = (Ok (Min (free_set s1)), sa)" "enter_node demo_libs 1 ?z sa = (Ok (), sb)"
    by (rule demo_enter [OF q(2,3) ne1 nz demo_sizes(2) refl szz])
  have "slot_of_ino 1 s1 = (Ok 1, s1)" using q(3) by (simp add: dir_at_def slot_of_ino_def)
  then obtain ino fh s2 where cr: "op_create demo_libs 1 ''z'' s1 = (Ok (ino, fh), s2)"
    using en by (simp add: op_create_def empty_file_def [symmetric] Let_def split_beta)
  have c: "one_chunk y_file [7, 8]" by (simp add: one_chunk_def y_file_def)
  have h: "of_head_slot y_file = 3" by (simp add: y_file_def)
  have op: "fu_open_files s 1 = Some y_file" using s(5) by simp
  have same: "same_handles (fu_next_fh s) (fu_open_files s) s" by (simp add: same_handles_def)
  then have "same_handles (fu_next_fh s) (fu_open_files s) s1"
    using handles.rename_keeps [OF libs_okD(1) [OF demo_libs_ok] same] q(1) by (metis yields_pair)
  then have h1: "fu_open_files s1 1 = Some y_file" "fu_next_fh s1 = 2" using op s(6) by (simp_all add: same_handles_def)
  have "fh \<noteq> 1 \<and> (\<exists>s3. flush_fh demo_libs 1 s2 = (Ok (), s3))"
  proof (rule op_create_Ok [OF q(2,3) cr], goal_cases)
    case (1 slot)
    have fh: "fh \<noteq> 1" and o2: "fu_open_files s2 1 = Some y_file" using 1(10,11) h1 by simp_all
    have "node_inv demo_libs s2" by (rule heap.frame_inv [OF 1(5)])
    moreover have "in_volume s2 3" by (rule heap.live_valid) (simp add: 1(4) 1(2) m1)
    moreover have "length (put_node (one_chunk_head [7, 8])) \<le> 1000"
      by (simp add: one_chunk_head_def put_list_def put_nat.simps put_option_def put_bytes_def)
    ultimately obtain t where "update_node demo_libs 3 (one_chunk_head [7, 8]) s2 = (Ok (), t)" using demo_update by blast
    then have "eio (update_node demo_libs (of_head_slot y_file) (one_chunk_head [7, 8])) s2 = (Ok (), t)" by (simp add: h)
    then show ?case
      using fh unfolding flush_one_chunk [OF demo_order_ok o2 c] by (simp add: then_op_eq_Ok)
  qed
  then obtain s3 where fh: "fh \<noteq> 1" and fl: "flush_fh demo_libs 1 s2 = (Ok (), s3)" by blast
  have low: "\<forall>j \<in> free_set s. de_slot \<lparr>de_name = ''y'', de_slot = 3, de_kind = KFile\<rparr> < j" using s(4) by auto
  have e2: "de_slot \<lparr>de_name = ''x'', de_slot = 2, de_kind = KFile\<rparr> \<in> heap.live s - {1, 1}" by (simp add: s(3))
  from stale_handle_overwrites [OF demo_libs_ok demo_order_ok s(1,2) tf(1) e2 s(2) refl q(1) _ _ op _ c low q(3) cr fh fl] tf(3) s(3) h
  have "op_lookup demo_libs 1 ''z'' s3 = (Ok (ino, one_chunk_head [7, 8]), s3)" by auto
  then show ?thesis using q(1) cr fl by blast
qed

end
