(* ===== verification/Hidden_Properties.thy ===== *)
theory Hidden_Properties
  imports Container_Create Format_Properties
begin

text \<open>
  Creating a hidden volume (fs/container.rs): its header is encrypted a second time under a key derived from the
  password, with a body of one length for all ciphers, which for the triple cipher does not fit the header.
\<close>

lemma encode_with_password_triple:
  assumes "aead_ok L" "hash_ok L" "kdf_ok L" "payload_ok payload" "length pw < 2 ^ 32" "hp_cipher payload = Triple"
  shows "\<exists>r. encode_header_with_password L payload pw hid s =
    (Panic ''range end index out of range for slice'', s\<lparr>sys_rng := r\<rparr>)"
proof -
  define salt where "salt = fst (fill_bytes L 64 s)"
  have sl: "length salt = 64" by (simp add: salt_def)
  then obtain k where k: "derive_key L pw (salted_params L (hp_kdf_profile payload) salt) = Ok k" "length k = 32"
    using derive_key_total [OF assms(3), of salt pw] assms(5) by auto
  let ?s = "snd (fill_bytes L 64 s)" and ?body = "header_body BODY_LEN 3 payload"
  have bl: "length ?body = BODY_LEN" using assms(4) by (intro length_header_body) simp_all
  have "length ?body < 2 ^ 30" unfolding bl by simp
  then obtain b where b: "encrypt_block L k Triple (header_aad hid) ?body ?s =
      (Ok b, ?s\<lparr>sys_rng := sys_rng ?s + nonce_section_len Triple\<rparr>)"
    by (rule encrypt_block_total [OF assms(1,2) k(2)])
  have "length b = 507" using encrypt_block_length [OF assms(1) b] bl by simp
  then have "copy_into BODY_OFFSET b (header_prefix salt payload) = Panic ''range end index out of range for slice''"
    using assms(4) sl by (simp add: copy_into_def)
  with k b assms(6) have "encode_header_with_password L payload pw hid s =
      (Panic ''range end index out of range for slice'', ?s\<lparr>sys_rng := sys_rng ?s + nonce_section_len Triple\<rparr>)"
    by (simp add: encode_header_with_password_def Let_def split_beta salt_def [symmetric])
  then show ?thesis by (auto simp: fill_bytes_def)
qed

lemma create_hidden_triple:
  assumes laws: "aead_ok L" "hash_ok L" "kdf_ok L"
    and sz: "length (sys_file s) = fs" "1024 \<le> fs" "fs < 2 ^ 63" "n < 2 ^ 63" "m < 2 ^ 64" "now < 2 ^ 64" "length (ho_password h) < 2 ^ 32"
  shows "\<exists>s'. create_hidden L Triple h n m fs now s = (Panic ''range end index out of range for slice'', s') \<and>
    sys_exists s' = sys_exists s \<and> length (sys_file s') = fs \<and>
    take (fs - 512) (sys_file s') = take (fs - 512) (sys_file s) \<and>
    (\<exists>k cid (sx :: sys) sy. encode_header L (hidden_payload Triple h n m now cid) k True sx = (Ok (drop (fs - 512) (sys_file s')), sy))"
proof -
  define k where "k = fst (new_k_master L s)"
  define s1 where "s1 = snd (new_k_master L s)"
  define cid where "cid = fst (fill_bytes L 16 s1)"
  define s2 where "s2 = snd (fill_bytes L 16 s1)"
  have f: "length k = 32" "length cid = 16" "sys_file s2 = sys_file s" "sys_exists s2 = sys_exists s"
    by (simp_all add: k_def cid_def s2_def s1_def new_k_master_def fill_bytes_def)
  let ?pl = "hidden_payload Triple h n m now cid"
  have pok: "payload_ok ?pl"
    using sz(4-6) f(2) by (simp add: payload_ok_def hidden_payload_def label_field_def split: option.splits)
  have c: "hp_cipher ?pl = Triple" by (simp add: hidden_payload_def)
  obtain slot s3 where pw: "encode_password_slot L k (ho_password h) (kdf_id_of (ho_kdf_profile h)) s2 = (Ok slot, s3)"
    by (rule encode_password_slot_total [OF laws f(1) sz(7)])
  obtain r where s3: "s3 = s2\<lparr>sys_rng := r\<rparr>" by (rule encode_password_slot_state [OF pw])
  obtain raw where hdr: "encode_header L ?pl k True s3 = (Ok raw, s3\<lparr>sys_rng := sys_rng s3 + 64 + nonce_section_len (hp_cipher ?pl)\<rparr>)"
    "length raw = 512"
    by (rule encode_header_total [OF laws(1,2) pok f(1)])
  let ?s4 = "s3\<lparr>sys_rng := sys_rng s3 + 64 + nonce_section_len (hp_cipher ?pl)\<rparr>"
  have len: "length (sys_file ?s4) = fs" using f(3) sz(1) by (simp add: s3)
  have w: "write_bytes_at (fs - 512) raw ?s4 = (Ok (), ?s4\<lparr>sys_file := blit (fs - 512) raw (sys_file ?s4)\<rparr>)"
    by (rule write_bytes_inside) (use len sz(2,3) hdr(2) in simp_all)
  from encode_with_password_triple [OF laws pok sz(7) c, of True "?s4\<lparr>sys_file := blit (fs - 512) raw (sys_file ?s4)\<rparr>"]
  obtain q where "encode_header_with_password L ?pl (ho_password h) True (?s4\<lparr>sys_file := blit (fs - 512) raw (sys_file ?s4)\<rparr>) =
    (Panic ''range end index out of range for slice'', ?s4\<lparr>sys_file := blit (fs - 512) raw (sys_file ?s4), sys_rng := q\<rparr>)" by blast
  then have "create_hidden L Triple h n m fs now s =
      (Panic ''range end index out of range for slice'', ?s4\<lparr>sys_file := blit (fs - 512) raw (sys_file ?s4), sys_rng := q\<rparr>)"
    using pw hdr(1) w by (simp add: create_hidden_def Let_def split_beta k_def [symmetric] s1_def [symmetric] cid_def [symmetric] s2_def [symmetric])
  moreover have "drop (fs - 512) (blit (fs - 512) raw (sys_file ?s4)) = raw" "length (blit (fs - 512) raw (sys_file ?s4)) = fs"
    using len hdr(2) sz(2) by (simp_all add: blit_def)
  moreover have "take (fs - 512) (blit (fs - 512) raw (sys_file ?s4)) = take (fs - 512) (sys_file s)"
    using len f(3) by (simp add: s3 blit_def)
  moreover have "sys_exists ?s4 = sys_exists s" using f(4) by (simp add: s3)
  ultimately show ?thesis using hdr(1)
    by (intro exI [of _ "?s4\<lparr>sys_file := blit (fs - 512) raw (sys_file ?s4), sys_rng := q\<rparr>"]) auto
qed

text \<open>C14: No container with a hidden volume can be created with the triple cipher: on a free path, for a size from
\<open>MIN_SIZE\<close> to 128 TiB with room for both volumes, \<open>create\<close> panics when it copies the second hidden header. What stays on the disk is a file of the full planned
length: random bytes, where the outer header should be and everywhere else, but for the last 512, which hold the first
encoding of the hidden header.\<close>

theorem hidden_triple_panics:
  assumes "libs_ok L" "\<not> sys_exists s" "MIN_SIZE \<le> tot" "tot < 2 ^ 47" "sys_clock s < 2 ^ 64"
    and "plan_slots tot (Some h) = Ok (n, m)" "length (ho_password h) < 2 ^ 32"
  shows "\<exists>s'. create L path pw tot Triple prof label (Some h) s = (Panic ''range end index out of range for slice'', s') \<and>
    sys_exists s' \<and> length (sys_file s') = plan_file_size n m (Some h) \<and>
    take (plan_file_size n m (Some h) - 512) (sys_file s') =
      map (rand_tape L) [sys_rng s..<sys_rng s + (plan_file_size n m (Some h) - 512)] \<and>
    (\<exists>k cid (sx :: sys) sy. encode_header L (hidden_payload Triple h n m (sys_clock s) cid) k True sx =
      (Ok (drop (plan_file_size n m (Some h) - 512) (sys_file s')), sy))"
proof -
  note laws = libs_okD(1,2,3) [OF assms(1)]
  have t64: "tot < 2 ^ 64" using assms(4) by simp
  let ?fs = "DATA_AREA_OFFSET + (n + m) * SLOT_SIZE + 1024"
  have pl: "2 \<le> n" "plan_file_size n m (Some h) = ?fs" "?fs \<le> tot"
    using plan_with_hidden [OF assms(6) t64] by auto
  have fs: "?fs < 2 ^ 63" "n < 2 ^ 63" "m < 2 ^ 64" "1024 \<le> ?fs" "1024 \<le> ?fs - 512"
    using pl assms(4) by (simp_all add: SLOT_SIZE_def DATA_AREA_OFFSET_eq)
  define s1 where "s1 = s\<lparr>sys_file := replicate ?fs 0, sys_exists := True\<rparr>"
  have cf: "create_file ?fs s = (Ok (), s1)" using fs(1) by (simp add: create_file_def s1_def)
  have "length (sys_file s1) = ?fs" by (simp add: s1_def)
  from fill_random_Ok [OF _ this fs(1), of 0 L] obtain r where
    fr: "fill_random L ?fs 0 s1 = (Ok (), s1\<lparr>sys_rng := r, sys_file := map (rand_tape L) [sys_rng s..<sys_rng s + ?fs]\<rparr>)"
    by (auto simp: s1_def)
  define s2 where "s2 = s1\<lparr>sys_rng := r, sys_file := map (rand_tape L) [sys_rng s..<sys_rng s + ?fs]\<rparr>"
  define s3 where "s3 = snd (fill_bytes L 16 (snd (new_k_master L s2)))"
  have f3: "sys_file s3 = map (rand_tape L) [sys_rng s..<sys_rng s + ?fs]" "sys_exists s3" "sys_clock s2 = sys_clock s"
    by (simp_all add: s3_def s2_def s1_def new_k_master_def fill_bytes_def)
  have "length (sys_file s3) = ?fs" by (simp only: f3(1)) simp
  from create_hidden_triple [OF laws this fs(4,1,2,3) assms(5,7)]
  obtain s' where h: "create_hidden L Triple h n m ?fs (sys_clock s) s3 = (Panic ''range end index out of range for slice'', s')"
    "sys_exists s'" "length (sys_file s') = ?fs" "take (?fs - 512) (sys_file s') = take (?fs - 512) (sys_file s3)"
    "\<exists>k cid (sx :: sys) sy. encode_header L (hidden_payload Triple h n m (sys_clock s) cid) k True sx =
      (Ok (drop (?fs - 512) (sys_file s')), sy)"
    using f3(2) by blast
  have "create L path pw tot Triple prof label (Some h) s = (Panic ''range end index out of range for slice'', s')"
    using assms(2,3,6) pl(2) cf fr [folded s2_def] h(1) f3(3)
    by (simp add: create_def Let_def split_beta s3_def)
  moreover have "take (?fs - 512) (sys_file s') = map (rand_tape L) [sys_rng s..<sys_rng s + (?fs - 512)]"
    using h(4) by (simp only: f3(1) take_map take_upt)
  ultimately show ?thesis using h(2,3,5) by (simp only: pl(2)) blast
qed

definition demo_hidden :: hidden_volume_options where
  "demo_hidden = \<lparr>ho_password = [1], ho_size_bytes = 65536, ho_label = None, ho_kdf_profile = ''interactive''\<rparr>"

lemma demo_hidden_plan: "plan_slots 2000000 (Some demo_hidden) = Ok (58, 2)"
  by (simp add: plan_slots_def demo_hidden_def tail_size_def Let_def DATA_AREA_OFFSET_eq SLOT_SIZE_def wrap64_def)

theorem hidden_triple_panics_witness:
  "\<exists>s'. create demo_libs ''c.vnm'' [112, 119] 2000000 Triple ''interactive'' None (Some demo_hidden) demo_sys =
     (Panic ''range end index out of range for slice'', s') \<and> sys_exists s'"
proof -
  have s: "\<not> sys_exists demo_sys" "sys_clock demo_sys < 2 ^ 64" by (simp_all add: demo_sys_def)
  have "MIN_SIZE \<le> 2000000" "(2000000 :: nat) < 2 ^ 47" "length (ho_password demo_hidden) < 2 ^ 32"
    by (simp_all add: MIN_SIZE_def DATA_AREA_OFFSET_eq SLOT_SIZE_def demo_hidden_def)
  from hidden_triple_panics [OF demo_libs_ok s(1) this(1,2) s(2) demo_hidden_plan this(3)]
  show ?thesis by blast
qed

end
