(* ===== verification/Progress_Properties.thy ===== *)
theory Progress_Properties
  imports Fuse_Session Fuse_Demo
begin

text \<open>
  When the operations that make a file or a directory succeed (fs/fuse.rs): exactly when the name is new, a slot is
  free, and both the new node and the directory with the new entry fit a slot.
\<close>

definition fits :: "libs \<Rightarrow> 'a slot_store_scheme \<Rightarrow> vault_node \<Rightarrow> bool" where
  "fits L s n \<longleftrightarrow> (\<exists>data. msgpack_enc L n = Some data \<and> length data + vnmb_overhead (store_cipher s) + 4 \<le> SLOT_SIZE)"

definition room_for :: "libs \<Rightarrow> 'a slot_store_scheme \<Rightarrow> directory_block \<Rightarrow> string \<Rightarrow> node_kind \<Rightarrow> vault_node \<Rightarrow> bool" where
  "room_for L s d name k n \<longleftrightarrow> find_entry name d = None \<and> free_set s \<noteq> {} \<and> fits L s n \<and>
     fits L s (Directory (push_entry \<lparr>de_name = name, de_slot = Min (free_set s), de_kind = k\<rparr> d))"

lemma store_write_fits:
  assumes "aead_ok L" "hash_ok L" "volume_ok s" "i < slot_limit s"
  shows "fst (store_write L i data s) = Ok () \<longleftrightarrow> length data + vnmb_overhead (store_cipher s) + 4 \<le> SLOT_SIZE"
proof (cases "length data < 2 ^ 30")
  case True
  from store_write_result [OF assms True] show ?thesis by simp
next
  case False
  then have "\<not> length data + vnmb_overhead (store_cipher s) + 4 \<le> SLOT_SIZE" by (simp add: SLOT_SIZE_def)
  moreover have "fst (store_write L i data s) \<noteq> Ok ()"
  proof
    assume "fst (store_write L i data s) = Ok ()"
    then obtain s' where w: "store_write L i data s = (Ok (), s')" by (metis prod.collapse)
    then obtain enc s1 where e: "encrypt_block L (derive_slot_key L i s) (store_cipher s) (to_le 8 i) data s = (Ok enc, s1)"
      "length enc + 4 \<le> SLOT_SIZE"
      by (auto simp: store_write_inside [OF assms(3,4)] then_op_eq_Ok split: if_splits)
    from encrypt_block_length [OF assms(1) e(1)] e(2) False show False by (simp add: SLOT_SIZE_def)
  qed
  ultimately show ?thesis by blast
qed

lemma update_node_fits:
  assumes "aead_ok L" "hash_ok L" "node_inv L s" "in_volume s i"
  shows "(\<exists>s'. update_node L i n s = (Ok (), s')) \<longleftrightarrow> fits L s n"
proof -
  have v: "volume_ok s" "i < slot_limit s" using assms(3,4) by (simp_all add: node_inv_def store_inv_def in_volume_def)
  have "(\<exists>s'. store_write L i data s = (Ok (), s')) \<longleftrightarrow> fst (store_write L i data s) = Ok ()" for data
    by (metis fst_conv prod.collapse)
  with store_write_fits [OF assms(1,2) v] show ?thesis
    by (cases "msgpack_enc L n") (simp_all add: update_node_def fits_def)
qed

lemma write_node_fits:
  assumes "aead_ok L" "hash_ok L" "node_inv L s"
  shows "(\<exists>i s'. write_node L n s = (Ok i, s')) \<longleftrightarrow> free_set s \<noteq> {} \<and> fits L s n"
proof (cases "free_set s = {}")
  case True
  then show ?thesis by (simp add: write_node_def alloc_def free_set_def then_op_def)
next
  case False
  have "store_inv s" using assms(3) by (simp add: node_inv_def)
  from pool.take_Ok [OF this False] obtain s1 where a: "alloc s = (Ok (Min (free_set s)), s1)" by blast
  note r = alloc_reads [OF assms(3) a]
  have v: "volume_ok s1" "Min (free_set s) < slot_limit s1"
    using r(1,6) by (simp_all add: node_inv_def store_inv_def in_volume_def)
  have c: "store_cipher s1 = store_cipher s" using a by (auto simp: alloc_def split: if_splits)
  have "(\<exists>s'. store_write L j data s1 = (Ok (), s')) \<longleftrightarrow> fst (store_write L j data s1) = Ok ()" for j data
    by (metis fst_conv prod.collapse)
  with store_write_fits [OF assms(1,2) v] a False c show ?thesis
    by (cases "msgpack_enc L n") (auto simp: write_node_def fits_def then_op_eq_Ok)
qed

lemma enter_progress:
  assumes "aead_ok L" "hash_ok L" "node_inv L s" "p \<in> heap.live s" "fst (read_node L p s) = Ok (Directory d)"
  shows "(\<exists>slot s1 s2. write_node L n s = (Ok slot, s1) \<and>
      enter_node L p \<lparr>de_name = name, de_slot = slot, de_kind = k\<rparr> s1 = (Ok (), s2)) \<longleftrightarrow> room_for L s d name k n"
proof (cases "\<exists>slot s1. write_node L n s = (Ok slot, s1)")
  case False
  with write_node_fits [OF assms(1-3), of n] show ?thesis unfolding room_for_def by blast
next
  case True
  then obtain slot s1 where w: "write_node L n s = (Ok slot, s1)" by blast
  let ?e = "\<lparr>de_name = name, de_slot = slot, de_kind = k\<rparr>"
  have slot: "slot = Min (free_set s)" and i1: "node_inv L s1" using write_node_Ok [OF assms(3) w] by simp_all
  note fr = heap.frame_new [OF assms(3) w]
  have p1: "in_volume s1 p" by (rule heap.live_valid [OF heap.frame_live [OF fr assms(4)]]) simp
  have rd: "fst (read_node L p s1) = Ok (Directory d)" using heap.frame_read [OF fr assms(4)] assms(5) by simp
  have "store_cipher s1 = store_cipher s" using write_node_apart [OF w] by (simp add: apart_def)
  then have f: "fits L s1 m = fits L s m" for m by (simp add: fits_def)
  have "(\<exists>s2. enter_node L p ?e s1 = (Ok (), s2)) \<longleftrightarrow> (\<exists>s2. dir_add_entry L p ?e s1 = (Ok (), s2))"
    by (cases "dir_add_entry L p ?e s1"; cases "fst (dir_add_entry L p ?e s1)") (simp_all add: enter_node_def)
  then have "(\<exists>s2. enter_node L p ?e s1 = (Ok (), s2)) \<longleftrightarrow> find_entry name d = None \<and> fits L s (Directory (push_entry ?e d))"
    using update_node_fits [OF assms(1,2) i1 p1] f by (simp add: dir_add_entry_eq [OF rd])
  moreover have "free_set s \<noteq> {} \<and> fits L s n" using True write_node_fits [OF assms(1-3), of n] by blast
  ultimately show ?thesis using w slot by (auto simp: room_for_def)
qed

text \<open>C25: A file is created, and a directory made, in an intact directory exactly when the name is new, a slot is free, and the
encoded new node and the encoded directory with the new entry fit a slot under the volume's cipher: nothing else
stops them.\<close>

theorem create_and_mkdir_progress:
  assumes "libs_ok L" "fuse_ok L s" "dir_at L s parent p d"
  shows "((\<exists>x s'. op_create L parent name s = (Ok x, s')) \<longleftrightarrow> room_for L s d name KFile empty_file) \<and>
    ((\<exists>x s'. op_mkdir L parent name s = (Ok x, s')) \<longleftrightarrow> room_for L s d name KDirectory empty_dir)"
proof -
  have d: "slot_of_ino parent s = (Ok p, s)" "p \<in> heap.live s" "fst (read_node L p s) = Ok (Directory d)"
    using assms(3) by (simp_all add: dir_at_def slot_of_ino_def)
  have inv: "node_inv L s" using assms(2) by (simp add: fuse_ok_def)
  note E = enter_progress [OF libs_okD(1,2) [OF assms(1)] inv d(2,3)]
  have "(\<exists>x s'. op_create L parent name s = (Ok x, s')) \<longleftrightarrow>
      (\<exists>slot s1 s2. write_node L empty_file s = (Ok slot, s1) \<and>
        enter_node L p \<lparr>de_name = name, de_slot = slot, de_kind = KFile\<rparr> s1 = (Ok (), s2))"
    using d(1) by (simp add: op_create_def empty_file_def [symmetric] then_op_eq_Ok Let_def split_beta) blast
  moreover have "(\<exists>x s'. op_mkdir L parent name s = (Ok x, s')) \<longleftrightarrow>
      (\<exists>slot s1 s2. write_node L empty_dir s = (Ok slot, s1) \<and>
        enter_node L p \<lparr>de_name = name, de_slot = slot, de_kind = KDirectory\<rparr> s1 = (Ok (), s2))"
    using d(1) by (simp add: op_mkdir_def empty_dir_def [symmetric] then_op_eq_Ok Let_def split_beta) blast
  ultimately show ?thesis using E by simp
qed

theorem create_and_mkdir_progress_witness:
  "\<exists>(s :: venom_fuse) x y s1 s2. op_create demo_libs 1 ''x'' s = (Ok x, s1) \<and> op_mkdir demo_libs 1 ''x'' s = (Ok y, s2)"
proof -
  obtain s :: venom_fuse where s: "fuse_ok demo_libs s" "dir_at demo_libs s 1 1 no_entries" "free_set s = {2..<20}"
    by (rule demo_fuse)
  have mn: "Min {2..<20::nat} = 2" by (rule Min_eqI) auto
  have small: "fits demo_libs s n" if "length (put_node n) \<le> 1000" for n
    using that vnmb_overhead_bounds(2) [of "store_cipher s"] by (simp add: fits_def SLOT_SIZE_def)
  have "room_for demo_libs s no_entries ''x'' KFile empty_file" "room_for demo_libs s no_entries ''x'' KDirectory empty_dir"
    using demo_sizes(4) [of KFile] demo_sizes(4) [of KDirectory]
    by (simp_all add: room_for_def s(3) mn small demo_sizes(1,2) demo_entry_def) (simp_all add: find_entry_def no_entries_def)
  with create_and_mkdir_progress [OF demo_libs_ok s(1,2), of "''x''"] show ?thesis by blast
qed

end
