(* ===== verification/Spec2Isabelle.thy ===== *)
theory Spec2Isabelle
  imports Container_Properties Key_Properties Fuse_Properties Ffi_Properties Winfsp_Properties
    Locked_Properties Session_Properties Hidden_Properties Progress_Properties
begin

text \<open>
  Verification of Venom, a container of encrypted files with hidden volumes, key recipients,
  adapters for FUSE and WinFsp, and a C interface (src/vnmcore/src, src/vnmcore-ffi/src).

  \<^bold>\<open>The program.\<close> A container is one file: a header, eight password and eight key recipient slots, and
  then slots of 32 KiB, each an authenticated block of its own (\<open>VNMB\<close>). Slot 0 of a volume holds the
  allocation bitmap, a generation counter and the Merkle root over the used slots; the other slots hold nodes
  (directories, file heads, file data, index blocks), serialised with MessagePack. A random master key
  encrypts header and slots, and every recipient slot holds that key for one password or one hybrid
  (X25519 and ML-KEM) key pair. A file of generations outside the container detects older copies.

  \<^bold>\<open>Theories and sources.\<close>
  \<^item> \<open>Venom_Prelude\<close>: bytes, little-endian integers, slices and copies of buffers, results with a panic
    as a value of its own, sequencing over a state. \<open>Vault_Fs\<close>: the node types (storage/vault_fs.rs).
  \<^item> \<open>Libs\<close>: errors (error.rs), the operating system as a state record, the crates as one record of
    functions with their documented laws (\<open>libs_ok\<close>); \<open>Demo_Libs\<close>: a computable instance of these laws,
    on which every witness runs.
  \<^item> \<open>Cipher\<close> (crypto/cipher.rs, container/mod.rs), \<open>Kdf_Kem\<close> (crypto/kdf.rs, keys.rs, kem.rs,
    hybrid_kem.rs), \<open>Recipient\<close> (container/recipient.rs), \<open>Header\<close> (container/header.rs), \<open>Key_File\<close>
    (crypto/key_file.rs): the formats, each with its round trip and its refusals.
  \<^item> \<open>Merkle\<close> (storage/merkle.rs), \<open>Slot_Store\<close>, \<open>Slot_Alloc\<close>, \<open>Slot_Persist\<close> (storage/slot_store.rs),
    \<open>Rollback\<close> (rollback.rs): slot I/O, the free list as a pool, its persistence with generation and root.
  \<^item> \<open>Container\<close>, \<open>Container_Nodes\<close>, \<open>Container_Create\<close>, \<open>Container_Recipients\<close> (fs/container.rs):
    creation, opening, recipients, node I/O, flush. The container record extends the slot store, which
    extends the operating system: one state, passed through every operation.
  \<^item> \<open>Fuse_Inodes\<close>, \<open>Fuse\<close>, \<open>Fuse_Handlers\<close> (fs/fuse.rs): inode numbers, the file operations over a
    cache of chunks per open file, and the request handlers; \<open>Fuse_Nodes\<close>, \<open>Fuse_Dirs\<close>, \<open>Fuse_Removal\<close>,
    \<open>Fuse_Cache\<close>, \<open>Fuse_Write\<close>, \<open>Fuse_Flush\<close>, \<open>Fuse_Files\<close>, \<open>Fuse_Sync\<close>: their lemmas, from the heap
    of nodes up to the content of a file as a function of its bytes; \<open>Fuse_Demo\<close>: a file system to run on;
    \<open>Fuse_Session\<close>: the requests of the kernel, runs of them, and what all of them keep.
  \<^item> \<open>Winfsp\<close>, \<open>Winfsp_Ops\<close> (fs/winfsp.rs): the state of the Windows adapter, which holds the content of every
    open file in memory and stores it as a chain of slots, its callbacks and its mount; \<open>Winfsp_Nodes\<close>, \<open>Winfsp_Chain\<close>,
    \<open>Winfsp_Dirs\<close>: the heap of nodes at its node type, the chains of a file, the root directory;
    \<open>Winfsp_Demo\<close>: a volume to run on.
  \<^item> \<open>Ffi\<close> (vnmcore-ffi/src/lib.rs): the C interface, with the boxes it hands out as addresses of the state;
    \<open>Ffi_Contract\<close>: sessions of a client, as a step relation, and the books of what it owns.
  \<^item> \<open>Locked_Memory\<close> (locked_memory.rs): keys in boxes on locked pages, over the heap of a process; \<open>Machine\<close>: runs
    of a step relation and the interface of their invariants.
  \<^item> \<open>Format_Properties\<close>, \<open>Store_Properties\<close>, \<open>Container_Properties\<close>, \<open>Hidden_Properties\<close>,
    \<open>Key_Properties\<close>, \<open>Ffi_Properties\<close>, \<open>Fuse_Properties\<close>, \<open>Winfsp_Properties\<close>, \<open>Progress_Properties\<close>,
    \<open>Session_Properties\<close>, \<open>Locked_Properties\<close>: the properties C1 to C40 with their witnesses.

  \<^bold>\<open>Interfaces.\<close> The locales state what one part relies on in another: sealed blocks, the
  device of slots, the pool that allocates them, the rollback baseline, the table of inodes, the heap of nodes and
  the directory as a map of names, the invariant of a machine, and, in layers, what an invariant must allow for
  the slot, entry, file and opening operations of the adapter to keep it. Each is interpreted on the definitions of
  the model that provide it.

  \<^bold>\<open>What the lemmas show.\<close> Formats: encoders and decoders are inverse, decoders of
  arbitrary bytes never panic, and what is not authenticated is said. Store: writes are read back and change
  no other slot, allocation hands out every free slot once, a saved volume reloads, a changed slot is detected
  unless BLAKE3 collides. Container: creation succeeds exactly for the sizes whose bitmap fits a slot, and the
  container opens with its password, and with an added key, as it was; a flushed volume mounts as it was, exactly
  when the cached Merkle root was fresh, which a write that fails after its allocation can undo; an older copy
  is refused; with the triple cipher no hidden volume can be created. File system: directory operations as
  lookup sees them, when a file or directory can be made, what removal frees; for files in order (\<open>file_ok\<close>: no hole
  and no short chunk, which writes beyond the end and growth by ftruncate leave) reads give the content, writes inside
  or at the end replace a segment of it, a flushed file opens with the same content; no request of a session panics, over a
  container of any content, and handles are new ones; a handle of a file that was renamed over writes into the
  slot of the file created next. Windows adapter: the same for its handles and chains; names are compared up to the case of
  ASCII letters; a rename that is refused has already removed the old name. C interface: a client that follows
  the memory contract never meets a dangling pointer and its books are the live boxes; a mount frees its handle, unless
  the mount point is null or not UTF-8, against the comment of the function. Locked memory: no byte
  of a dropped key stays in the heap, but a drop unlocks the page of a neighbour.

  \<^bold>\<open>Bounds and fuel.\<close> Integers are natural numbers with \<open>wrap64\<close> where a sum or product of the source can
  leave 64 bits (the release build wraps); bytes are 8-bit words. Loops that follow a chain of slots in the
  file have fuel, the length of the file: a chain without a cycle is shorter than the number of slots, and
  a cycle, on which the code would not return, ends as a panic of the model. All other recursions terminate by a
  measure. Subtractions and slices that can underflow or leave their range are panics.

  \<^bold>\<open>Assumptions.\<close> The laws of the crates in \<open>libs_ok\<close> and, for opening, that no cipher tried before the right one
  accepts a slot or header by chance (\<open>pw_slot_clear\<close>, \<open>key_slot_clear\<close>, \<open>header_clear\<close>): the code finds the
  cipher by trying them in turn. The serialisation of the Windows adapter decodes what it encoded and adds less than
  a thousand bytes to the data of a block (\<open>codec_ok\<close>, \<open>codec_compact\<close>). One thread at a time: mutexes and atomics are fields of the state. Writing to
  the operating system succeeds once the file is there; the files of the key store and of the C
  interface are one map from paths to contents, without permissions, and two spellings of a path are two paths.

  \<^bold>\<open>Not modelled.\<close> fs/winfsp.rs is written against node fields that vault_fs.rs no longer has (\<open>next_slot\<close>,
  \<open>FileContinuation\<close>) and does not compile with it: its node type here is the one its own struct expressions name, with
  a serialisation as parameter (\<open>win_codec\<close>), and its paths are the UTF-8 texts of the UTF-16 strings it gets.
  The copies of a key on the stack and in other buffers, and their zeroising outside of locked_memory.rs, have no
  effect on values. Memory does not run out. The mount loops of the fuser and winfsp
  crates are parameters. The module files only re-export; the Qt interface is C++.
\<close>

end
